(* ===== verification/Prelude.thy ===== *)
theory Prelude
  imports "HOL-Library.Word"
begin

unbundle bit_operations_syntax

text \<open>
  Shared vocabulary of the development.

  \<^item> The widths of the C++ integer types the sources use, as words.
  \<^item> The outcome type: a C++ function whose execution may be undefined (an access outside an
    array, a float-to-integer conversion out of range, an assignment to a joinable
    \<open>std::thread\<close>) returns \<open>Inl fault\<close> there and \<open>Inr\<close> of its result otherwise, so
    that memory safety of a function is the theorem that it never yields \<open>Inl\<close>.
  \<^item> Array element access, \<open>std::vector::resize\<close> and writes through a pointer into a vector.
  \<^item> The collections \<open>outcome_simps\<close>, \<open>wire_simps\<close> and \<open>mask_simps\<close> that the component
    proofs pass to the simplifier.
\<close>

named_theorems outcome_simps \<open>computation rules of the outcome monad\<close>
named_theorems wire_simps \<open>computation rules for reading and writing wire words\<close>
named_theorems mask_simps \<open>numeric bit masks as \<open>mask n\<close>\<close>

type_synonym u8 = "8 word"
type_synonym u16 = "16 word"
type_synonym u32 = "32 word"
type_synonym u64 = "64 word"
type_synonym i16 = "16 word"
type_synonym i64 = "64 word"
type_synonym bytes = "u8 list"

section \<open>Faults and outcomes\<close>

datatype fault =
    OutOfBounds            \<comment> \<open>element access outside an array or a buffer\<close>
  | BadConversion          \<comment> \<open>floating-point value not representable in the integer target\<close>
  | ThreadTerminate        \<comment> \<open>assignment to a joinable \<open>std::thread\<close> calls \<open>std::terminate\<close>\<close>
  | DivisionByZero         \<comment> \<open>integer division by zero\<close>
  | SignedOverflow         \<comment> \<open>arithmetic on a signed integer outside its range\<close>
  | OutOfRangeException    \<comment> \<open>an uncaught \<open>std::out_of_range\<close>\<close>
  | BadJson                \<comment> \<open>an uncaught exception of the JSON reader\<close>
  | BadNumber              \<comment> \<open>an uncaught exception of \<open>std::stof\<close>\<close>
  | EmptyOptional          \<comment> \<open>access to the value of an empty \<open>std::optional\<close>\<close>
  | BadAlloc               \<comment> \<open>an uncaught exception of an allocation\<close>
  | Uninitialised          \<comment> \<open>use of a value that no statement has written\<close>
  | NullPointer            \<comment> \<open>a member call through an empty pointer\<close>
  | BadLogger              \<comment> \<open>an uncaught exception of the log library\<close>
  | DeadObject             \<comment> \<open>use of an object after its destruction\<close>

type_synonym 'a outcome = "fault + 'a"

definition obind :: "'a outcome \<Rightarrow> ('a \<Rightarrow> 'b outcome) \<Rightarrow> 'b outcome" where
  "obind m f = (case m of Inl e \<Rightarrow> Inl e | Inr x \<Rightarrow> f x)"

lemma obind_Inl [simp, outcome_simps]: "obind (Inl e) f = Inl e"
  by (simp add: obind_def)

lemma obind_Inr [simp, outcome_simps]: "obind (Inr x) f = f x"
  by (simp add: obind_def)

lemma obind_eq_Inr_iff: "obind m f = Inr y \<longleftrightarrow> (\<exists>x. m = Inr x \<and> f x = Inr y)"
  by (cases m) auto

lemma obind_eq_Inl_iff: "obind m f = Inl e \<longleftrightarrow> m = Inl e \<or> (\<exists>x. m = Inr x \<and> f x = Inl e)"
  by (cases m) auto

lemma Inr_eq_obind_iff: "Inr y = obind m f \<longleftrightarrow> (\<exists>x. m = Inr x \<and> Inr y = f x)"
  by (cases m) auto

lemma obind_assoc: "obind (obind m f) g = obind m (\<lambda>x. obind (f x) g)"
  by (cases m) auto

lemma obind_cong [fundef_cong]:
  "m = m' \<Longrightarrow> (\<And>x. m' = Inr x \<Longrightarrow> f x = f' x) \<Longrightarrow> obind m f = obind m' f'"
  by (cases m') auto

text \<open>An outcome that is no fault.\<close>

definition safe :: "'a outcome \<Rightarrow> bool" where
  "safe m \<longleftrightarrow> (case m of Inl _ \<Rightarrow> False | Inr _ \<Rightarrow> True)"

lemma safe_Inl [simp]: "\<not> safe (Inl e)"
  by (simp add: safe_def)

lemma safe_Inr [simp]: "safe (Inr x)"
  by (simp add: safe_def)

lemma safe_iff_ex: "safe m \<longleftrightarrow> (\<exists>x. m = Inr x)"
  by (cases m) auto

lemma safe_not_Inl: "safe m \<longleftrightarrow> (\<forall>e. m \<noteq> Inl e)"
  by (cases m) auto

lemma safe_obind: "safe m \<Longrightarrow> (\<And>x. m = Inr x \<Longrightarrow> safe (f x)) \<Longrightarrow> safe (obind m f)"
  by (cases m) auto

text \<open>A loop that appends one result per element, and stops at the first fault.\<close>

fun omap :: "('a \<Rightarrow> 'b outcome) \<Rightarrow> 'a list \<Rightarrow> 'b list outcome" where
  "omap f [] = Inr []"
| "omap f (x # xs) = obind (f x) (\<lambda>y. obind (omap f xs) (\<lambda>ys. Inr (y # ys)))"

lemma omap_total: "(\<And>x. x \<in> set xs \<Longrightarrow> f x = Inr (g x)) \<Longrightarrow> omap f xs = Inr (map g xs)"
  by (induction xs) auto

lemma omap_safe: "(\<And>x. x \<in> set xs \<Longrightarrow> safe (f x)) \<Longrightarrow> safe (omap f xs)"
  by (induction xs) (auto intro!: safe_obind)

lemma omap_length: "omap f xs = Inr ys \<Longrightarrow> length ys = length xs"
  by (induction xs arbitrary: ys) (auto simp: obind_eq_Inr_iff)

lemma omap_nth: "omap f xs = Inr ys \<Longrightarrow> i < length xs \<Longrightarrow> f (xs ! i) = Inr (ys ! i)"
proof (induction xs arbitrary: ys i)
  case (Cons x xs)
  then show ?case by (cases i) (auto simp: obind_eq_Inr_iff)
qed simp

lemma omap_append:
  "omap f (xs @ ys) = obind (omap f xs) (\<lambda>us. obind (omap f ys) (\<lambda>vs. Inr (us @ vs)))"
proof (induction xs)
  case Nil
  then show ?case by (cases "omap f ys") auto
next
  case (Cons x xs)
  then show ?case by (cases "f x"; cases "omap f xs"; cases "omap f ys") auto
qed

section \<open>Arrays and vectors\<close>

definition load :: "'a list \<Rightarrow> nat \<Rightarrow> 'a outcome" where
  "load p i = (if i < length p then Inr (p ! i) else Inl OutOfBounds)"

definition store :: "'a list \<Rightarrow> nat \<Rightarrow> 'a \<Rightarrow> 'a list outcome" where
  "store p i x = (if i < length p then Inr (p[i := x]) else Inl OutOfBounds)"

text \<open>\<open>std::vector::resize\<close> with value-initialised (here: \<open>z\<close>) new elements.\<close>

definition resize :: "'a \<Rightarrow> 'a list \<Rightarrow> nat \<Rightarrow> 'a list" where
  "resize z xs n = (if n \<le> length xs then take n xs else xs @ replicate (n - length xs) z)"

text \<open>A writer applied at \<open>xs.data() + pos\<close>.\<close>

definition write_at :: "'a list \<Rightarrow> nat \<Rightarrow> ('a list \<Rightarrow> 'a list outcome) \<Rightarrow> 'a list outcome" where
  "write_at xs pos w = obind (w (drop pos xs)) (\<lambda>q. Inr (take pos xs @ q))"

lemma resize_grow [simp]: "resize z xs (length xs + n) = xs @ replicate n z"
  by (simp add: resize_def)

lemma write_at_end:
  "write_at (xs @ ys) (length xs) w = obind (w ys) (\<lambda>q. Inr (xs @ q))"
  by (simp add: write_at_def)

section \<open>Words\<close>

declare of_int_sint [simp del]

lemma u8_bound: "unat (b :: u8) < 256"
  using unsigned_less [of b] by simp

lemma u16_bound: "unat (b :: u16) < 65536"
  using unsigned_less [of b] by simp

lemma u32_bound: "unat (b :: u32) < 4294967296"
  using unsigned_less [of b] by simp

lemma u64_bound: "unat (b :: u64) < 18446744073709551616"
  using unsigned_less [of b] by simp

lemma mask_literals [mask_simps]:
  "(1 :: 'a::len word) = mask 1"
  "(3 :: 'a::len word) = mask 2"
  "(15 :: 'a::len word) = mask 4"
  "(255 :: 'a::len word) = mask 8"
  "(65535 :: 'a::len word) = mask 16"
  "(16777215 :: 'a::len word) = mask 24"
  "(4294967295 :: 'a::len word) = mask 32"
  by (simp_all add: mask_eq_exp_minus_1)

lemma and_one_neq_zero_iff_bit: "(drop_bit n w AND 1 \<noteq> 0) \<longleftrightarrow> bit (w :: 'a::len word) n"
  by (simp add: and_one_eq bit_iff_odd_drop_bit mod_2_eq_odd)

end
