(* ===== verification/ByteSwap.thy ===== *)
theory ByteSwap
  imports Prelude
begin

text \<open>
  \<open>src/libs/Vita49_2/ByteSwap.h\<close>: reading and writing 16-, 32- and 64-bit integers at a byte
  pointer, in big-endian and little-endian order.  A pointer is the list of the bytes that
  are addressable from it on; each array access of the source is a \<open>load\<close> or a \<open>store\<close>,
  which faults outside that list.

  The locale \<open>wire_word\<close> is the contract of one such pair of functions (fixed width, the
  write lays down an encoding that the read inverts, no access beyond the width).  It is
  interpreted for every pair of the header; the packet codecs use only its facts.
\<close>

section \<open>Big-endian\<close>

definition readU16BE :: "bytes \<Rightarrow> u16 outcome" where
  "readU16BE p =
     obind (load p 0) (\<lambda>b0. obind (load p 1) (\<lambda>b1.
       Inr (push_bit 8 (ucast b0) OR ucast b1)))"

definition readU32BE :: "bytes \<Rightarrow> u32 outcome" where
  "readU32BE p =
     obind (load p 0) (\<lambda>b0. obind (load p 1) (\<lambda>b1.
     obind (load p 2) (\<lambda>b2. obind (load p 3) (\<lambda>b3.
       Inr (push_bit 24 (ucast b0) OR push_bit 16 (ucast b1) OR
            push_bit 8 (ucast b2) OR ucast b3)))))"

definition readU64BE :: "bytes \<Rightarrow> u64 outcome" where
  "readU64BE p =
     obind (readU32BE p) (\<lambda>hi. obind (readU32BE (drop 4 p)) (\<lambda>lo.
       Inr (push_bit 32 (ucast hi) OR ucast lo)))"

definition readI16BE :: "bytes \<Rightarrow> i16 outcome" where
  "readI16BE p = readU16BE p"

definition writeU16BE :: "bytes \<Rightarrow> u16 \<Rightarrow> bytes outcome" where
  "writeU16BE p val =
     obind (store p 0 (ucast (drop_bit 8 val AND 0xFF))) (\<lambda>p.
     store p 1 (ucast (val AND 0xFF)))"

definition writeU32BE :: "bytes \<Rightarrow> u32 \<Rightarrow> bytes outcome" where
  "writeU32BE p val =
     obind (store p 0 (ucast (drop_bit 24 val AND 0xFF))) (\<lambda>p.
     obind (store p 1 (ucast (drop_bit 16 val AND 0xFF))) (\<lambda>p.
     obind (store p 2 (ucast (drop_bit 8 val AND 0xFF))) (\<lambda>p.
     store p 3 (ucast (val AND 0xFF)))))"

definition writeU64BE :: "bytes \<Rightarrow> u64 \<Rightarrow> bytes outcome" where
  "writeU64BE p val =
     obind (writeU32BE p (ucast (drop_bit 32 val AND 0xFFFFFFFF))) (\<lambda>p.
     write_at p 4 (\<lambda>q. writeU32BE q (ucast (val AND 0xFFFFFFFF))))"

definition writeI16BE :: "bytes \<Rightarrow> i16 \<Rightarrow> bytes outcome" where
  "writeI16BE p val = writeU16BE p val"

section \<open>Little-endian\<close>

definition readU16LE :: "bytes \<Rightarrow> u16 outcome" where
  "readU16LE p =
     obind (load p 0) (\<lambda>b0. obind (load p 1) (\<lambda>b1.
       Inr (ucast b0 OR push_bit 8 (ucast b1))))"

definition readU32LE :: "bytes \<Rightarrow> u32 outcome" where
  "readU32LE p =
     obind (load p 0) (\<lambda>b0. obind (load p 1) (\<lambda>b1.
     obind (load p 2) (\<lambda>b2. obind (load p 3) (\<lambda>b3.
       Inr (ucast b0 OR push_bit 8 (ucast b1) OR
            push_bit 16 (ucast b2) OR push_bit 24 (ucast b3))))))"

definition readU64LE :: "bytes \<Rightarrow> u64 outcome" where
  "readU64LE p =
     obind (readU32LE p) (\<lambda>lo. obind (readU32LE (drop 4 p)) (\<lambda>hi.
       Inr (ucast lo OR push_bit 32 (ucast hi))))"

definition readI16LE :: "bytes \<Rightarrow> i16 outcome" where
  "readI16LE p = readU16LE p"

definition writeU16LE :: "bytes \<Rightarrow> u16 \<Rightarrow> bytes outcome" where
  "writeU16LE p val =
     obind (store p 0 (ucast (val AND 0xFF))) (\<lambda>p.
     store p 1 (ucast (drop_bit 8 val AND 0xFF)))"

definition writeU32LE :: "bytes \<Rightarrow> u32 \<Rightarrow> bytes outcome" where
  "writeU32LE p val =
     obind (store p 0 (ucast (val AND 0xFF))) (\<lambda>p.
     obind (store p 1 (ucast (drop_bit 8 val AND 0xFF))) (\<lambda>p.
     obind (store p 2 (ucast (drop_bit 16 val AND 0xFF))) (\<lambda>p.
     store p 3 (ucast (drop_bit 24 val AND 0xFF)))))"

definition writeU64LE :: "bytes \<Rightarrow> u64 \<Rightarrow> bytes outcome" where
  "writeU64LE p val =
     obind (writeU32LE p (ucast (val AND 0xFFFFFFFF))) (\<lambda>p.
     write_at p 4 (\<lambda>q. writeU32LE q (ucast (drop_bit 32 val AND 0xFFFFFFFF))))"

definition writeI16LE :: "bytes \<Rightarrow> i16 \<Rightarrow> bytes outcome" where
  "writeI16LE p val = writeU16LE p val"

section \<open>The wire encoding, as lists of bytes\<close>

text \<open>
  The reference encoding, independent of the code's shifts and masks: the base-256 digits of
  the value, least significant first (\<open>le_digits\<close>); big-endian is the reverse.
\<close>

fun le_digits :: "nat \<Rightarrow> nat \<Rightarrow> bytes" where
  "le_digits 0 v = []"
| "le_digits (Suc n) v = of_nat (v mod 256) # le_digits n (v div 256)"

fun le_value :: "bytes \<Rightarrow> nat" where
  "le_value [] = 0"
| "le_value (b # bs) = unat b + 256 * le_value bs"

lemma length_le_digits [simp]: "length (le_digits n v) = n"
  by (induction n arbitrary: v) auto

lemma le_value_bound: "le_value bs < 256 ^ length bs"
proof (induction bs)
  case (Cons b bs)
  with u8_bound [of b] show ?case by simp
qed simp

lemma le_digits_value: "le_digits (length bs) (le_value bs) = bs"
proof (induction bs)
  case (Cons b bs)
  with u8_bound [of b] show ?case by simp
qed simp

lemma le_value_digits: "v < 256 ^ n \<Longrightarrow> le_value (le_digits n v) = v"
proof (induction n arbitrary: v)
  case (Suc n)
  then have "v div 256 < 256 ^ n" by (simp add: less_mult_imp_div_less mult.commute)
  with Suc.IH have "le_value (le_digits n (v div 256)) = v div 256" by simp
  then show ?case by (simp add: unat_of_nat)
qed simp

lemma le_digits_word:
  "le_digits n (unat (v :: 'a::len word)) = map (\<lambda>i. ucast (drop_bit (8 * i) v)) [0..<n]"
proof (induction n arbitrary: v)
  case (Suc n)
  have d: "unat v div 256 = unat (drop_bit 8 v)"
    unfolding unat_drop_bit_eq by (simp add: drop_bit_eq_div)
  have m: "(of_nat (unat v mod 256) :: u8) = ucast v"
    by (rule word_unat_eq_iff [THEN iffD2]) (simp add: unat_of_nat unsigned_ucast_eq take_bit_eq_mod)
  show ?case
    unfolding upt_conv_Cons [OF zero_less_Suc]
    by (simp add: d m Suc.IH map_Suc_upt [symmetric] add.commute del: upt_Suc)
qed simp

section \<open>The contract of a wire word\<close>

locale wire_word =
  fixes width :: nat
    and rd :: "bytes \<Rightarrow> 'w outcome"
    and wr :: "bytes \<Rightarrow> 'w \<Rightarrow> bytes outcome"
    and enc :: "'w \<Rightarrow> bytes"
  assumes length_enc: "length (enc v) = width"
    and rd_short: "length p < width \<Longrightarrow> rd p = Inl OutOfBounds"
    and rd_enc: "rd (enc v @ r) = Inr v"
    and enc_rd: "length p = width \<Longrightarrow> rd (p @ r) = Inr v \<Longrightarrow> enc v = p"
    and rd_long: "width \<le> length p \<Longrightarrow> safe (rd p)"
    and wr_short: "length p < width \<Longrightarrow> wr p v = Inl OutOfBounds"
    and wr_long: "width \<le> length p \<Longrightarrow> wr p v = Inr (enc v @ drop width p)"
begin

text \<open>Reading needs the width and nothing more.\<close>

lemma safe_rd_iff: "safe (rd p) \<longleftrightarrow> width \<le> length p"
  using rd_short [of p] rd_long [of p] by (cases "length p < width") auto

lemma rd_prefix:
  assumes "width \<le> length p"
  shows "\<exists>v. rd p = Inr v \<and> take width p = enc v"
proof -
  from assms obtain v where v: "rd p = Inr v"
    using rd_long [OF assms] by (auto simp: safe_iff_ex)
  then have "rd (take width p @ drop width p) = Inr v" by simp
  then have "enc v = take width p" by (rule enc_rd [rotated]) (use assms in simp)
  with v show ?thesis by auto
qed

text \<open>\<open>resize\<close> by the width, then write at the old end: the encoding is appended.\<close>

lemma append_word:
  "write_at (resize z out (length out + width)) (length out) (\<lambda>q. wr q v) = Inr (out @ enc v)"
  by (simp add: write_at_end wr_long length_enc)

lemma rd_at: "rd (drop (length xs) (xs @ enc v @ r)) = Inr v"
  by (simp add: rd_enc)

lemma enc_inject: "enc v = enc w \<longleftrightarrow> v = w"
proof
  assume "enc v = enc w"
  then have "rd (enc w @ []) = Inr v" using rd_enc [of v "[]"] by metis
  then show "v = w" by (simp only: rd_enc sum.inject)
qed simp

end

section \<open>The encodings the code reads and writes\<close>

definition bytesU16LE :: "u16 \<Rightarrow> bytes" where "bytesU16LE v = le_digits 2 (unat v)"
definition bytesU32LE :: "u32 \<Rightarrow> bytes" where "bytesU32LE v = le_digits 4 (unat v)"
definition bytesU64LE :: "u64 \<Rightarrow> bytes" where "bytesU64LE v = le_digits 8 (unat v)"
definition bytesU16BE :: "u16 \<Rightarrow> bytes" where "bytesU16BE v = rev (le_digits 2 (unat v))"
definition bytesU32BE :: "u32 \<Rightarrow> bytes" where "bytesU32BE v = rev (le_digits 4 (unat v))"
definition bytesU64BE :: "u64 \<Rightarrow> bytes" where "bytesU64BE v = rev (le_digits 8 (unat v))"

lemmas bytes_defs =
  bytesU16LE_def bytesU32LE_def bytesU64LE_def bytesU16BE_def bytesU32BE_def bytesU64BE_def

lemma length_bytes [simp]:
  "length (bytesU16LE v) = 2" "length (bytesU16BE v) = 2"
  "length (bytesU32LE w) = 4" "length (bytesU32BE w) = 4"
  "length (bytesU64LE x) = 8" "length (bytesU64BE x) = 8"
  by (simp_all add: bytes_defs)

lemma upt_literals: "[0..<2] = [0, 1]" "[0..<4] = [0, 1, 2, 3]" "[0..<8] = [0, 1, 2, 3, 4, 5, 6, 7]"
  by (simp_all add: upt_rec)

lemma bytes_explicit:
  "bytesU16LE v = [ucast v, ucast (drop_bit 8 v)]"
  "bytesU16BE v = [ucast (drop_bit 8 v), ucast v]"
  "bytesU32LE w = [ucast w, ucast (drop_bit 8 w), ucast (drop_bit 16 w), ucast (drop_bit 24 w)]"
  "bytesU32BE w = [ucast (drop_bit 24 w), ucast (drop_bit 16 w), ucast (drop_bit 8 w), ucast w]"
  by (simp_all add: bytes_defs le_digits_word upt_literals)

lemma bytes64_halves:
  "bytesU64LE x = bytesU32LE (ucast x) @ bytesU32LE (ucast (drop_bit 32 x))"
  "bytesU64BE x = bytesU32BE (ucast (drop_bit 32 x)) @ bytesU32BE (ucast x)"
proof -
  have *: "ucast (drop_bit k (ucast y :: u32)) = (ucast (drop_bit k y) :: u8)" if "k \<le> 24" for y :: u64 and k
    using that by (intro bit_word_eqI) (auto simp: bit_simps dest: bit_imp_le_length)
  have **: "ucast (ucast y :: u32) = (ucast y :: u8)" for y :: u64
    using * [of 0 y] by simp
  show "bytesU64LE x = bytesU32LE (ucast x) @ bytesU32LE (ucast (drop_bit 32 x))"
    "bytesU64BE x = bytesU32BE (ucast (drop_bit 32 x)) @ bytesU32BE (ucast x)"
    by (simp_all add: bytes_defs le_digits_word upt_literals * ** drop_bit_drop_bit)
qed

lemma ucast_mask_byte: "(ucast (v AND 0xFF) :: u8) = ucast (v :: 'a::len word)"
  by (rule bit_word_eqI) (auto simp: mask_simps bit_simps dest: bit_imp_le_length)

lemma ucast_mask_half: "(ucast (v AND 0xFFFFFFFF) :: u32) = ucast (v :: u64)"
  by (rule bit_word_eqI) (auto simp: mask_simps bit_simps dest: bit_imp_le_length)

text \<open>Joining bytes (or 32-bit halves) and taking them apart again are inverse.\<close>

definition join16 :: "u8 \<Rightarrow> u8 \<Rightarrow> u16" where
  "join16 a b = push_bit 8 (ucast a) OR ucast b"

definition join32 :: "u8 \<Rightarrow> u8 \<Rightarrow> u8 \<Rightarrow> u8 \<Rightarrow> u32" where
  "join32 a b c d = push_bit 24 (ucast a) OR push_bit 16 (ucast b) OR push_bit 8 (ucast c) OR ucast d"

definition join64 :: "u32 \<Rightarrow> u32 \<Rightarrow> u64" where
  "join64 a b = push_bit 32 (ucast a) OR ucast b"

lemma join16_bytes: "join16 (ucast (drop_bit 8 v)) (ucast v) = v"
proof (rule bit_word_eqI)
  show "bit (join16 (ucast (drop_bit 8 v)) (ucast v)) n = bit v n" for n
    by (cases "n < 8") (auto simp: join16_def bit_simps dest: bit_imp_le_length)
qed

lemma join32_bytes:
  "join32 (ucast (drop_bit 24 v)) (ucast (drop_bit 16 v)) (ucast (drop_bit 8 v)) (ucast v) = v"
  (is "?j = v")
proof (rule bit_word_eqI)
  show "bit ?j n = bit v n" for n
    by (cases "n < 8"; cases "n < 16"; cases "n < 24")
      (auto simp: join32_def bit_simps dest: bit_imp_le_length)
qed

lemma join64_halves: "join64 (ucast (drop_bit 32 v)) (ucast v) = v"
proof (rule bit_word_eqI)
  show "bit (join64 (ucast (drop_bit 32 v)) (ucast v)) n = bit v n" for n
    by (cases "n < 32") (auto simp: join64_def bit_simps dest: bit_imp_le_length)
qed

lemma bytes_join16:
  "ucast (drop_bit 8 (join16 a b)) = a" "ucast (join16 a b) = b"
  by (rule bit_word_eqI, auto simp: join16_def bit_simps simp del: drop_bit_or dest: bit_imp_le_length)+

lemma bytes_join32:
  "ucast (drop_bit 24 (join32 a b c d)) = a" "ucast (drop_bit 16 (join32 a b c d)) = b"
  "ucast (drop_bit 8 (join32 a b c d)) = c" "ucast (join32 a b c d) = d"
  by (rule bit_word_eqI, auto simp: join32_def bit_simps simp del: drop_bit_or dest: bit_imp_le_length)+

lemma halves_join64:
  "ucast (drop_bit 32 (join64 a b)) = a" "ucast (join64 a b) = b"
  by (rule bit_word_eqI, auto simp: join64_def bit_simps simp del: drop_bit_or dest: bit_imp_le_length)+

lemmas join_inverses = join16_bytes join32_bytes join64_halves bytes_join16 bytes_join32 halves_join64

text \<open>What the readers and writers compute once the buffer is long enough.\<close>

lemma read16_Cons:
  "readU16BE (a # b # r) = Inr (join16 a b)"
  "readU16LE (a # b # r) = Inr (join16 b a)"
  by (simp_all add: readU16BE_def readU16LE_def load_def join16_def ac_simps)

lemma read32_Cons:
  "readU32BE (a # b # c # d # r) = Inr (join32 a b c d)"
  "readU32LE (a # b # c # d # r) = Inr (join32 d c b a)"
  by (simp_all add: readU32BE_def readU32LE_def load_def join32_def numeral_3_eq_3 ac_simps)

lemma write16_Cons:
  "writeU16BE (a # b # r) v = Inr (bytesU16BE v @ r)"
  "writeU16LE (a # b # r) v = Inr (bytesU16LE v @ r)"
  by (simp_all add: writeU16BE_def writeU16LE_def store_def bytes_explicit ucast_mask_byte)

lemma write32_Cons:
  "writeU32BE (a # b # c # d # r) v = Inr (bytesU32BE v @ r)"
  "writeU32LE (a # b # c # d # r) v = Inr (bytesU32LE v @ r)"
  by (simp_all add: writeU32BE_def writeU32LE_def store_def bytes_explicit ucast_mask_byte numeral_3_eq_3)

lemma list2_ex: "2 \<le> length p \<Longrightarrow> \<exists>a b r. p = a # b # r"
  by (cases p; cases "tl p") auto

lemma list4_ex: "4 \<le> length p \<Longrightarrow> \<exists>a b c d r. p = a # b # c # d # r"
  by (cases p; cases "tl p"; cases "tl (tl p)"; cases "tl (tl (tl p))") auto

lemma list8_ex: "8 \<le> length p \<Longrightarrow> \<exists>a b c d e f g h r. p = a # b # c # d # e # f # g # h # r"
  using list4_ex [of p] list4_ex [of "drop 4 p"] by auto

lemma list_exact:
  "length p = 2 \<Longrightarrow> \<exists>a b. p = [a, b]"
  "length p = 4 \<Longrightarrow> \<exists>a b c d. p = [a, b, c, d]"
  "length p = 8 \<Longrightarrow> \<exists>a b c d e f g h. p = [a, b, c, d, e, f, g, h]"
  using list2_ex [of p] list4_ex [of p] list8_ex [of p] by auto

lemma read64_Cons:
  "readU64BE (a # b # c # d # e # f # g # h # r) = Inr (join64 (join32 a b c d) (join32 e f g h))"
  "readU64LE (a # b # c # d # e # f # g # h # r) = Inr (join64 (join32 h g f e) (join32 d c b a))"
  by (simp_all add: readU64BE_def readU64LE_def read32_Cons join64_def or.commute)

lemma write64_Cons:
  "writeU64BE (a # b # c # d # e # f # g # h # r) v = Inr (bytesU64BE v @ r)"
  "writeU64LE (a # b # c # d # e # f # g # h # r) v = Inr (bytesU64LE v @ r)"
  by (simp_all add: writeU64BE_def writeU64LE_def write32_Cons write_at_def bytes64_halves
      ucast_mask_half)

lemma read_short:
  "length p < 2 \<Longrightarrow> readU16BE p = Inl OutOfBounds" "length p < 2 \<Longrightarrow> readU16LE p = Inl OutOfBounds"
  "length p < 4 \<Longrightarrow> readU32BE p = Inl OutOfBounds" "length p < 4 \<Longrightarrow> readU32LE p = Inl OutOfBounds"
  "length p < 8 \<Longrightarrow> readU64BE p = Inl OutOfBounds" "length p < 8 \<Longrightarrow> readU64LE p = Inl OutOfBounds"
  by (auto simp: readU16BE_def readU16LE_def readU32BE_def readU32LE_def readU64BE_def readU64LE_def
      load_def)

lemma write_short:
  "length p < 2 \<Longrightarrow> writeU16BE p v = Inl OutOfBounds" "length p < 2 \<Longrightarrow> writeU16LE p v = Inl OutOfBounds"
  "length p < 4 \<Longrightarrow> writeU32BE p w = Inl OutOfBounds" "length p < 4 \<Longrightarrow> writeU32LE p w = Inl OutOfBounds"
  by (auto simp: writeU16BE_def writeU16LE_def writeU32BE_def writeU32LE_def store_def)

lemma write64_short:
  assumes "length p < 8"
  shows "writeU64BE p v = Inl OutOfBounds" "writeU64LE p v = Inl OutOfBounds"
proof -
  have "length p < 4 \<or> 4 \<le> length p" by arith
  then show "writeU64BE p v = Inl OutOfBounds" "writeU64LE p v = Inl OutOfBounds"
    using assms by (auto dest!: list4_ex
        simp: writeU64BE_def writeU64LE_def write_short write32_Cons write_at_def)
qed

section \<open>Every reader and writer meets the contract\<close>

lemmas wire_word_facts =
  read_short write_short write64_short read16_Cons read32_Cons read64_Cons
  write16_Cons write32_Cons write64_Cons bytes_explicit bytes64_halves join_inverses

interpretation u16be: wire_word 2 readU16BE writeU16BE bytesU16BE
  by unfold_locales (auto simp: wire_word_facts dest!: list2_ex list_exact)

interpretation u16le: wire_word 2 readU16LE writeU16LE bytesU16LE
  by unfold_locales (auto simp: wire_word_facts dest!: list2_ex list_exact)

interpretation u32be: wire_word 4 readU32BE writeU32BE bytesU32BE
  by unfold_locales (auto simp: wire_word_facts dest!: list4_ex list_exact)

interpretation u32le: wire_word 4 readU32LE writeU32LE bytesU32LE
  by unfold_locales (auto simp: wire_word_facts dest!: list4_ex list_exact)

interpretation u64be: wire_word 8 readU64BE writeU64BE bytesU64BE
  by unfold_locales (auto simp: wire_word_facts dest!: list8_ex list_exact)

interpretation u64le: wire_word 8 readU64LE writeU64LE bytesU64LE
  by unfold_locales (auto simp: wire_word_facts dest!: list8_ex list_exact)

section \<open>What the functions of the header compute\<close>

definition be_value :: "bytes \<Rightarrow> nat" where
  "be_value bs = le_value (rev bs)"

lemma le_value_bytes:
  "le_value (bytesU16LE v) = unat v" "be_value (bytesU16BE v) = unat v"
  "le_value (bytesU32LE w) = unat w" "be_value (bytesU32BE w) = unat w"
  "le_value (bytesU64LE x) = unat x" "be_value (bytesU64BE x) = unat x"
  using u16_bound [of v] u32_bound [of w] u64_bound [of x]
  by (simp_all add: bytes_defs be_value_def le_value_digits)

lemma read_eqI:
  assumes "\<exists>v. r = Inr v \<and> bs = enc v" and "\<And>v. value_of (enc v) = unat v"
  shows "r = Inr (of_nat (value_of bs) :: 'a::len word)"
  using assms by auto

text \<open>
  Every reader returns the positional value of the bytes at the pointer, most significant
  byte first for the BE functions and least significant first for the LE ones, and touches no
  byte beyond the width of the integer it reads.
\<close>

theorem readers_positional:
  "readU16BE p = (if 2 \<le> length p then Inr (of_nat (be_value (take 2 p))) else Inl OutOfBounds) \<and>
   readU32BE p = (if 4 \<le> length p then Inr (of_nat (be_value (take 4 p))) else Inl OutOfBounds) \<and>
   readU64BE p = (if 8 \<le> length p then Inr (of_nat (be_value (take 8 p))) else Inl OutOfBounds) \<and>
   readU16LE p = (if 2 \<le> length p then Inr (of_nat (le_value (take 2 p))) else Inl OutOfBounds) \<and>
   readU32LE p = (if 4 \<le> length p then Inr (of_nat (le_value (take 4 p))) else Inl OutOfBounds) \<and>
   readU64LE p = (if 8 \<le> length p then Inr (of_nat (le_value (take 8 p))) else Inl OutOfBounds)"
  using read_eqI [OF u16be.rd_prefix le_value_bytes(2)] read_eqI [OF u32be.rd_prefix le_value_bytes(4)]
    read_eqI [OF u64be.rd_prefix le_value_bytes(6)] read_eqI [OF u16le.rd_prefix le_value_bytes(1)]
    read_eqI [OF u32le.rd_prefix le_value_bytes(3)] read_eqI [OF u64le.rd_prefix le_value_bytes(5)]
  by (simp add: read_short)

text \<open>
  Every writer replaces exactly the first 2, 4 or 8 bytes at the pointer by the base-256
  digits of the value in the stated order, leaves the bytes after them alone, and is undefined
  (a store outside the buffer) on a shorter buffer.
\<close>

theorem writers_positional:
  "writeU16BE p v = (if 2 \<le> length p then Inr (rev (le_digits 2 (unat v)) @ drop 2 p) else Inl OutOfBounds) \<and>
   writeU32BE p w = (if 4 \<le> length p then Inr (rev (le_digits 4 (unat w)) @ drop 4 p) else Inl OutOfBounds) \<and>
   writeU64BE p x = (if 8 \<le> length p then Inr (rev (le_digits 8 (unat x)) @ drop 8 p) else Inl OutOfBounds) \<and>
   writeU16LE p v = (if 2 \<le> length p then Inr (le_digits 2 (unat v) @ drop 2 p) else Inl OutOfBounds) \<and>
   writeU32LE p w = (if 4 \<le> length p then Inr (le_digits 4 (unat w) @ drop 4 p) else Inl OutOfBounds) \<and>
   writeU64LE p x = (if 8 \<le> length p then Inr (le_digits 8 (unat x) @ drop 8 p) else Inl OutOfBounds)"
  using u16be.wr_long [of p v] u32be.wr_long [of p w] u64be.wr_long [of p x]
    u16le.wr_long [of p v] u32le.wr_long [of p w] u64le.wr_long [of p x]
  by (simp add: write_short write64_short bytes_defs)

end
