(* ===== verification/Vita49Types.thy ===== *)
theory Vita49Types
  imports ByteSwap
begin

text \<open>
  \<open>src/libs/Vita49_2/Vita49Types.h\<close>: the enumerations, the parsed packet header and the
  classification helpers.  The header's optionals are HOL options, its integers words of the
  declared width.

  The enumerations have a fixed underlying type, and the parser casts a 4-bit field to
  \<open>PacketType\<close>, so a value without an enumerator can occur: \<open>UnnamedPacketType v\<close>.  The two
  timestamp fields have two bits and four enumerators each, so every value is named.
\<close>

section \<open>Enumerations\<close>

datatype PacketType =
    IFDataWithoutStreamId
  | IFDataWithStreamId
  | ExtDataWithoutStreamId
  | ExtDataWithStreamId
  | IFContext
  | ExtContext
  | UnnamedPacketType u8

datatype TSI = TSI_None | TSI_UTC | TSI_GPS | TSI_Other

datatype TSF = TSF_None | TSF_SampleCount | TSF_RealTime | TSF_FreeRunning

datatype ByteOrder = BigEndian | LittleEndian

fun u8_of_PacketType :: "PacketType \<Rightarrow> u8" where
  "u8_of_PacketType IFDataWithoutStreamId = 0"
| "u8_of_PacketType IFDataWithStreamId = 1"
| "u8_of_PacketType ExtDataWithoutStreamId = 2"
| "u8_of_PacketType ExtDataWithStreamId = 3"
| "u8_of_PacketType IFContext = 4"
| "u8_of_PacketType ExtContext = 5"
| "u8_of_PacketType (UnnamedPacketType v) = v"

definition PacketType_of_u8 :: "u8 \<Rightarrow> PacketType" where
  "PacketType_of_u8 v =
     (if v = 0 then IFDataWithoutStreamId else if v = 1 then IFDataWithStreamId
      else if v = 2 then ExtDataWithoutStreamId else if v = 3 then ExtDataWithStreamId
      else if v = 4 then IFContext else if v = 5 then ExtContext
      else UnnamedPacketType v)"

fun u8_of_TSI :: "TSI \<Rightarrow> u8" where
  "u8_of_TSI TSI_None = 0"
| "u8_of_TSI TSI_UTC = 1"
| "u8_of_TSI TSI_GPS = 2"
| "u8_of_TSI TSI_Other = 3"

definition TSI_of_u8 :: "u8 \<Rightarrow> TSI" where
  \<comment> \<open>the code casts 2-bit values only\<close>
  "TSI_of_u8 v = (if v = 0 then TSI_None else if v = 1 then TSI_UTC
                  else if v = 2 then TSI_GPS else TSI_Other)"

fun u8_of_TSF :: "TSF \<Rightarrow> u8" where
  "u8_of_TSF TSF_None = 0"
| "u8_of_TSF TSF_SampleCount = 1"
| "u8_of_TSF TSF_RealTime = 2"
| "u8_of_TSF TSF_FreeRunning = 3"

definition TSF_of_u8 :: "u8 \<Rightarrow> TSF" where
  \<comment> \<open>the code casts 2-bit values only\<close>
  "TSF_of_u8 v = (if v = 0 then TSF_None else if v = 1 then TSF_SampleCount
                  else if v = 2 then TSF_RealTime else TSF_FreeRunning)"

section \<open>The packet header\<close>

record PacketHeader =
  packetType :: PacketType
  classIdPresent :: bool
  trailerPresent :: bool
  tsiType :: TSI
  tsfType :: TSF
  packetCount :: u8
  packetSize :: u16
  streamId :: "u32 option"
  classIdOUI :: "u32 option"
  informationClassCode :: "u16 option"
  packetClassCode :: "u16 option"
  integerTimestamp :: "u32 option"
  fractionalTimestamp :: "u64 option"

text \<open>The default member initialisers: what \<open>PacketHeader header;\<close> declares.\<close>

definition default_PacketHeader :: PacketHeader where
  "default_PacketHeader =
     \<lparr>packetType = IFDataWithStreamId, classIdPresent = False, trailerPresent = False,
      tsiType = TSI_None, tsfType = TSF_None, packetCount = 0, packetSize = 0,
      streamId = None, classIdOUI = None, informationClassCode = None, packetClassCode = None,
      integerTimestamp = None, fractionalTimestamp = None\<rparr>"

section \<open>Constants and helpers\<close>

definition MAX_PACKET_SIZE_WORDS :: u16 where
  "MAX_PACKET_SIZE_WORDS = 65535"

definition hasStreamId :: "PacketType \<Rightarrow> bool" where
  "hasStreamId t = (case t of IFDataWithStreamId \<Rightarrow> True | ExtDataWithStreamId \<Rightarrow> True
                     | IFContext \<Rightarrow> True | ExtContext \<Rightarrow> True | _ \<Rightarrow> False)"

definition isDataPacket :: "PacketType \<Rightarrow> bool" where
  "isDataPacket t = (t = IFDataWithoutStreamId \<or> t = IFDataWithStreamId \<or>
                     t = ExtDataWithoutStreamId \<or> t = ExtDataWithStreamId)"

definition isContextPacket :: "PacketType \<Rightarrow> bool" where
  "isContextPacket t = (t = IFContext \<or> t = ExtContext)"

section \<open>Facts about the enumerations\<close>

text \<open>The values a 4-bit field can hold.\<close>

definition named_or_4bit :: "PacketType \<Rightarrow> bool" where
  "named_or_4bit t = (case t of UnnamedPacketType v \<Rightarrow> 5 < v \<and> v < 16 | _ \<Rightarrow> True)"

lemma u8_below_6: "v \<le> (5 :: u8) \<Longrightarrow> v = 0 \<or> v = 1 \<or> v = 2 \<or> v = 3 \<or> v = 4 \<or> v = 5"
  by (simp add: word_le_nat_alt word_unat_eq_iff) arith

lemma PacketType_of_u8_inverse: "named_or_4bit t \<Longrightarrow> PacketType_of_u8 (u8_of_PacketType t) = t"
  by (cases t) (auto simp: PacketType_of_u8_def named_or_4bit_def)

lemma u8_of_PacketType_inverse [simp]: "u8_of_PacketType (PacketType_of_u8 v) = v"
  by (auto simp: PacketType_of_u8_def)

lemma PacketType_of_u8_4bit: "v < 16 \<Longrightarrow> named_or_4bit (PacketType_of_u8 v)"
  by (cases "v \<le> 5") (auto simp: PacketType_of_u8_def named_or_4bit_def not_le dest: u8_below_6)

lemma u8_of_PacketType_less: "named_or_4bit t \<Longrightarrow> u8_of_PacketType t < 16"
  by (cases t) (auto simp: named_or_4bit_def)

lemma TSI_of_u8_inverse [simp]: "TSI_of_u8 (u8_of_TSI t) = t"
  by (cases t) (auto simp: TSI_of_u8_def)

lemma TSF_of_u8_inverse [simp]: "TSF_of_u8 (u8_of_TSF t) = t"
  by (cases t) (auto simp: TSF_of_u8_def)

lemma u8_below_4: "v < (4 :: u8) \<Longrightarrow> v = 0 \<or> v = 1 \<or> v = 2 \<or> v = 3"
  by (simp add: word_less_nat_alt word_unat_eq_iff) arith

lemma u8_of_TSI_inverse: "v < 4 \<Longrightarrow> u8_of_TSI (TSI_of_u8 v) = v"
  using u8_below_4 [of v] by (auto simp: TSI_of_u8_def)

lemma u8_of_TSF_inverse: "v < 4 \<Longrightarrow> u8_of_TSF (TSF_of_u8 v) = v"
  using u8_below_4 [of v] by (auto simp: TSF_of_u8_def)

lemma u8_of_TSI_less: "u8_of_TSI t < 4"
  by (cases t) auto

lemma u8_of_TSF_less: "u8_of_TSF t < 4"
  by (cases t) auto

lemma data_not_context: "isDataPacket t \<Longrightarrow> \<not> isContextPacket t"
  by (auto simp: isDataPacket_def isContextPacket_def)

lemma context_hasStreamId: "isContextPacket t \<Longrightarrow> hasStreamId t"
  by (auto simp: isContextPacket_def hasStreamId_def)

end
