(* ===== verification/PacketHeader.thy ===== *)
theory PacketHeader
  imports Vita49Types
begin

text \<open>
  \<open>src/libs/Vita49_2/PacketHeader.cpp\<close>: parsing, serialising and measuring the packet header.

  \<^item> A buffer argument \<open>const uint8_t* data\<close> is \<open>bytes option\<close>: \<open>None\<close> is the null pointer,
    \<open>Some buf\<close> a pointer to \<open>buf\<close>, of which every byte is readable; the \<open>length\<close> argument is
    passed separately, as in the code.
  \<^item> \<open>parse\<close> takes the out-parameters \<open>header\<close> and \<open>headerBytes\<close> as they are on entry and
    returns them as they are on exit, on the failing paths too.
  \<^item> \<open>serialize\<close> grows the output vector with \<open>resize\<close> and writes through a pointer into it.

  The lemmas show what the header looks like on the wire (\<open>header_wire\<close>), that serialising
  never writes out of bounds, that parsing never reads out of bounds, exactly which buffers
  parse, and that the two are inverse in both directions.
\<close>

section \<open>Byte-order-aware words\<close>

definition readWord :: "ByteOrder \<Rightarrow> bytes \<Rightarrow> u32 outcome" where
  "readWord order p = (if order = BigEndian then readU32BE p else readU32LE p)"

definition readDWord :: "ByteOrder \<Rightarrow> bytes \<Rightarrow> u64 outcome" where
  "readDWord order p = (if order = BigEndian then readU64BE p else readU64LE p)"

definition writeWord :: "ByteOrder \<Rightarrow> bytes \<Rightarrow> u32 \<Rightarrow> bytes outcome" where
  "writeWord order p val = (if order = BigEndian then writeU32BE p val else writeU32LE p val)"

definition writeDWord :: "ByteOrder \<Rightarrow> bytes \<Rightarrow> u64 \<Rightarrow> bytes outcome" where
  "writeDWord order p val = (if order = BigEndian then writeU64BE p val else writeU64LE p val)"

definition wordBytes :: "ByteOrder \<Rightarrow> u32 \<Rightarrow> bytes" where
  "wordBytes order v = (if order = BigEndian then bytesU32BE v else bytesU32LE v)"

definition dwordBytes :: "ByteOrder \<Rightarrow> u64 \<Rightarrow> bytes" where
  "dwordBytes order v = (if order = BigEndian then bytesU64BE v else bytesU64LE v)"

lemma wire_word_if:
  assumes "wire_word n rd wr enc" and "wire_word n rd' wr' enc'"
  shows "wire_word n (\<lambda>p. if b then rd p else rd' p) (\<lambda>p v. if b then wr p v else wr' p v)
           (\<lambda>v. if b then enc v else enc' v)"
  using assms by (cases b) simp_all

interpretation word32: wire_word 4 "readWord order" "writeWord order" "wordBytes order"
  for order
  unfolding readWord_def [abs_def] writeWord_def [abs_def] wordBytes_def [abs_def]
  by (rule wire_word_if) unfold_locales

interpretation word64: wire_word 8 "readDWord order" "writeDWord order" "dwordBytes order"
  for order
  unfolding readDWord_def [abs_def] writeDWord_def [abs_def] dwordBytes_def [abs_def]
  by (rule wire_word_if) unfold_locales

lemmas [simp, wire_simps] = word32.length_enc word64.length_enc

lemmas [wire_simps] =
  word32.rd_enc word64.rd_enc word32.append_word word64.append_word

section \<open>parse\<close>

text \<open>Word 0 into the fixed fields.\<close>

definition parse_word0 :: "u32 \<Rightarrow> PacketHeader \<Rightarrow> PacketHeader" where
  "parse_word0 word0 header =
    (let header = header\<lparr>packetType := PacketType_of_u8 (ucast (drop_bit 28 word0 AND 0xF))\<rparr>;
         header = header\<lparr>classIdPresent := (drop_bit 27 word0 AND 1 \<noteq> 0)\<rparr>;
         header = header\<lparr>trailerPresent :=
                    isDataPacket (packetType header) \<and> (drop_bit 26 word0 AND 1 \<noteq> 0)\<rparr>;
         header = header\<lparr>tsiType := TSI_of_u8 (ucast (drop_bit 22 word0 AND 3))\<rparr>;
         header = header\<lparr>tsfType := TSF_of_u8 (ucast (drop_bit 20 word0 AND 3))\<rparr>;
         header = header\<lparr>packetCount := ucast (drop_bit 16 word0 AND 0xF)\<rparr>
     in header\<lparr>packetSize := ucast (word0 AND 0xFFFF)\<rparr>)"

text \<open>
  The optional fields, one stage each: a stage gets the header and the offset reached so far
  and either returns \<open>false\<close> (the \<open>return false\<close> of the source) or goes on.
\<close>

type_synonym stage = "PacketHeader \<times> nat \<Rightarrow> (bool \<times> PacketHeader \<times> nat) outcome"

definition parse_streamId :: "bytes \<Rightarrow> nat \<Rightarrow> ByteOrder \<Rightarrow> stage" where
  "parse_streamId data packetBytes order = (\<lambda>(header, offset).
     if hasStreamId (packetType header) then
       if offset + 4 > packetBytes then Inr (False, header, offset)
       else obind (readWord order (drop offset data)) (\<lambda>w.
         Inr (True, header\<lparr>streamId := Some w\<rparr>, offset + 4))
     else Inr (True, header, offset))"

definition parse_classId :: "bytes \<Rightarrow> nat \<Rightarrow> ByteOrder \<Rightarrow> stage" where
  "parse_classId data packetBytes order = (\<lambda>(header, offset).
     if classIdPresent header then
       if offset + 8 > packetBytes then Inr (False, header, offset)
       else obind (readWord order (drop offset data)) (\<lambda>classWord1.
         obind (readWord order (drop (offset + 4) data)) (\<lambda>classWord2.
           Inr (True, header\<lparr>classIdOUI := Some (classWord1 AND 0x00FFFFFF),
                             informationClassCode := Some (ucast (drop_bit 16 classWord2 AND 0xFFFF)),
                             packetClassCode := Some (ucast (classWord2 AND 0xFFFF))\<rparr>,
                offset + 8)))
     else Inr (True, header, offset))"

definition parse_integerTimestamp :: "bytes \<Rightarrow> nat \<Rightarrow> ByteOrder \<Rightarrow> stage" where
  "parse_integerTimestamp data packetBytes order = (\<lambda>(header, offset).
     if tsiType header \<noteq> TSI_None then
       if offset + 4 > packetBytes then Inr (False, header, offset)
       else obind (readWord order (drop offset data)) (\<lambda>w.
         Inr (True, header\<lparr>integerTimestamp := Some w\<rparr>, offset + 4))
     else Inr (True, header, offset))"

definition parse_fractionalTimestamp :: "bytes \<Rightarrow> nat \<Rightarrow> ByteOrder \<Rightarrow> stage" where
  "parse_fractionalTimestamp data packetBytes order = (\<lambda>(header, offset).
     if tsfType header \<noteq> TSF_None then
       if offset + 8 > packetBytes then Inr (False, header, offset)
       else obind (readDWord order (drop offset data)) (\<lambda>w.
         Inr (True, header\<lparr>fractionalTimestamp := Some w\<rparr>, offset + 8))
     else Inr (True, header, offset))"

definition next_stage ::
  "(bool \<times> PacketHeader \<times> nat) outcome \<Rightarrow> stage \<Rightarrow> (bool \<times> PacketHeader \<times> nat) outcome" where
  "next_stage m f = obind m (\<lambda>(ok, header, offset).
     if ok then f (header, offset) else Inr (False, header, offset))"

definition parse_optional :: "bytes \<Rightarrow> nat \<Rightarrow> ByteOrder \<Rightarrow> stage" where
  "parse_optional data packetBytes order s =
     next_stage (next_stage (next_stage
       (parse_streamId data packetBytes order s)
       (parse_classId data packetBytes order))
       (parse_integerTimestamp data packetBytes order))
       (parse_fractionalTimestamp data packetBytes order)"

definition parse ::
  "bytes option \<Rightarrow> nat \<Rightarrow> ByteOrder \<Rightarrow> PacketHeader \<Rightarrow> nat \<Rightarrow> (bool \<times> PacketHeader \<times> nat) outcome"
where
  "parse data len order header headerBytes =
    (case data of
       None \<Rightarrow> Inr (False, header, headerBytes)
     | Some buf \<Rightarrow>
         if len < 4 then Inr (False, header, headerBytes)
         else obind (readWord order buf) (\<lambda>word0.
           let header = parse_word0 word0 header in
           if packetSize header = 0 \<or> packetSize header > MAX_PACKET_SIZE_WORDS
           then Inr (False, header, headerBytes)
           else
             let packetBytes = unat (packetSize header) * 4 in
             if len < packetBytes then Inr (False, header, headerBytes)
             else obind (parse_optional buf packetBytes order (header, 4))
               (\<lambda>(ok, header, offset).
                  Inr (ok, header, if ok then offset else headerBytes))))"

section \<open>serialize\<close>

definition serialize_word0 :: "PacketHeader \<Rightarrow> u32" where
  "serialize_word0 header =
    (let word0 = 0;
         word0 = word0 OR push_bit 28 (ucast (u8_of_PacketType (packetType header)) AND 0xF);
         word0 = word0 OR push_bit 27 (if classIdPresent header then 1 else 0);
         word0 = (if isDataPacket (packetType header)
                  then word0 OR push_bit 26 (if trailerPresent header then 1 else 0) else word0);
         word0 = word0 OR push_bit 22 (ucast (u8_of_TSI (tsiType header)) AND 3);
         word0 = word0 OR push_bit 20 (ucast (u8_of_TSF (tsfType header)) AND 3);
         word0 = word0 OR push_bit 16 (ucast (packetCount header) AND 0xF)
     in word0 OR (ucast (packetSize header) AND 0xFFFF))"

text \<open>\<open>pos = out.size(); out.resize(pos + 4); writeWord(out.data() + pos, v, order)\<close>.\<close>

definition push_word :: "ByteOrder \<Rightarrow> u32 \<Rightarrow> bytes \<Rightarrow> bytes outcome" where
  "push_word order v out =
     (let pos = length out; out = resize 0 out (pos + 4)
      in write_at out pos (\<lambda>q. writeWord order q v))"

definition push_dword :: "ByteOrder \<Rightarrow> u64 \<Rightarrow> bytes \<Rightarrow> bytes outcome" where
  "push_dword order v out =
     (let pos = length out; out = resize 0 out (pos + 8)
      in write_at out pos (\<lambda>q. writeDWord order q v))"

definition serialize_classId :: "PacketHeader \<Rightarrow> ByteOrder \<Rightarrow> bytes \<Rightarrow> bytes outcome" where
  "serialize_classId header order out =
    (case classIdOUI header of
       Some oui \<Rightarrow>
         if classIdPresent header then
           let pos = length out; out = resize 0 out (pos + 8);
               classWord1 = oui AND 0x00FFFFFF;
               classWord2 = 0;
               classWord2 = (case informationClassCode header of
                               Some c \<Rightarrow> classWord2 OR push_bit 16 (ucast c) | None \<Rightarrow> classWord2);
               classWord2 = (case packetClassCode header of
                               Some c \<Rightarrow> classWord2 OR ucast c | None \<Rightarrow> classWord2)
           in obind (write_at out pos (\<lambda>q. writeWord order q classWord1)) (\<lambda>out.
              write_at out (pos + 4) (\<lambda>q. writeWord order q classWord2))
         else Inr out
     | None \<Rightarrow> Inr out)"

definition serialize :: "PacketHeader \<Rightarrow> ByteOrder \<Rightarrow> bytes \<Rightarrow> bytes outcome" where
  "serialize header order out =
     obind (push_word order (serialize_word0 header) out) (\<lambda>out.
     obind (case streamId header of
              Some v \<Rightarrow> if hasStreamId (packetType header) then push_word order v out else Inr out
            | None \<Rightarrow> Inr out) (\<lambda>out.
     obind (serialize_classId header order out) (\<lambda>out.
     obind (case integerTimestamp header of
              Some v \<Rightarrow> if tsiType header \<noteq> TSI_None then push_word order v out else Inr out
            | None \<Rightarrow> Inr out) (\<lambda>out.
     (case fractionalTimestamp header of
              Some v \<Rightarrow> if tsfType header \<noteq> TSF_None then push_dword order v out else Inr out
            | None \<Rightarrow> Inr out)))))"

section \<open>sizeInWords, sizeInBytes\<close>

definition sizeInWords :: "PacketHeader \<Rightarrow> nat" where
  "sizeInWords header =
    (let words = 1;
         words = (if hasStreamId (packetType header) then words + 1 else words);
         words = (if classIdPresent header then words + 2 else words);
         words = (if tsiType header \<noteq> TSI_None then words + 1 else words)
     in (if tsfType header \<noteq> TSF_None then words + 2 else words))"

definition sizeInBytes :: "PacketHeader \<Rightarrow> nat" where
  "sizeInBytes header = sizeInWords header * 4"

section \<open>The header on the wire\<close>

text \<open>The reference layout: word 0, then each optional field that the header carries.\<close>

definition classWord2_of :: "PacketHeader \<Rightarrow> u32" where
  "classWord2_of h =
     push_bit 16 (case informationClassCode h of Some c \<Rightarrow> ucast c | None \<Rightarrow> 0) OR
     (case packetClassCode h of Some c \<Rightarrow> ucast c | None \<Rightarrow> 0)"

definition streamId_wire :: "ByteOrder \<Rightarrow> PacketHeader \<Rightarrow> bytes" where
  "streamId_wire order h =
     (case streamId h of Some v \<Rightarrow> if hasStreamId (packetType h) then wordBytes order v else []
      | None \<Rightarrow> [])"

definition classId_wire :: "ByteOrder \<Rightarrow> PacketHeader \<Rightarrow> bytes" where
  "classId_wire order h =
     (case classIdOUI h of
        Some oui \<Rightarrow> if classIdPresent h
                    then wordBytes order (oui AND 0x00FFFFFF) @ wordBytes order (classWord2_of h) else []
      | None \<Rightarrow> [])"

definition integerTimestamp_wire :: "ByteOrder \<Rightarrow> PacketHeader \<Rightarrow> bytes" where
  "integerTimestamp_wire order h =
     (case integerTimestamp h of Some v \<Rightarrow> if tsiType h \<noteq> TSI_None then wordBytes order v else []
      | None \<Rightarrow> [])"

definition fractionalTimestamp_wire :: "ByteOrder \<Rightarrow> PacketHeader \<Rightarrow> bytes" where
  "fractionalTimestamp_wire order h =
     (case fractionalTimestamp h of Some v \<Rightarrow> if tsfType h \<noteq> TSF_None then dwordBytes order v else []
      | None \<Rightarrow> [])"

definition header_wire :: "ByteOrder \<Rightarrow> PacketHeader \<Rightarrow> bytes" where
  "header_wire order h =
     wordBytes order (serialize_word0 h) @ streamId_wire order h @ classId_wire order h @
     integerTimestamp_wire order h @ fractionalTimestamp_wire order h"

lemma push_word_eq [wire_simps]: "push_word order v out = Inr (out @ wordBytes order v)"
  unfolding push_word_def Let_def by (rule word32.append_word)

lemma push_dword_eq [wire_simps]: "push_dword order v out = Inr (out @ dwordBytes order v)"
  unfolding push_dword_def Let_def by (rule word64.append_word)

lemma serialize_classId_eq:
  "serialize_classId h order out = Inr (out @ classId_wire order h)"
proof -
  have *: "obind (write_at (out @ replicate 8 0) (length out) (\<lambda>q. writeWord order q v))
             (\<lambda>out'. write_at out' (length out + 4) (\<lambda>q. writeWord order q w)) =
           Inr (out @ wordBytes order v @ wordBytes order w)" for v w
    by (simp add: write_at_def word32.wr_long)
  show ?thesis
    by (auto simp: serialize_classId_def classId_wire_def classWord2_of_def Let_def *
        split: option.splits)
qed

lemma serialize_eq: "serialize header order out = Inr (out @ header_wire order header)"
  by (auto simp: serialize_def header_wire_def streamId_wire_def integerTimestamp_wire_def
      fractionalTimestamp_wire_def wire_simps serialize_classId_eq split: option.splits)

section \<open>Word 0\<close>

lemma word0_bit_cases:
  assumes "n < (32 :: nat)"
  obtains m where "n = 28 + m" "m < 4" | "n = 27" | "n = 26" | "n = 25" | "n = 24"
    | m where "n = 22 + m" "m < 2" | m where "n = 20 + m" "m < 2"
    | m where "n = 16 + m" "m < 4" | "n < 16"
proof -
  have "n = 28 + (n - 28) \<and> n - 28 < 4 \<or> n = 27 \<or> n = 26 \<or> n = 25 \<or> n = 24 \<or>
    n = 22 + (n - 22) \<and> n - 22 < 2 \<or> n = 20 + (n - 20) \<and> n - 20 < 2 \<or>
    n = 16 + (n - 16) \<and> n - 16 < 4 \<or> n < 16"
    using assms by linarith
  then show thesis using that by metis
qed

lemma bit_word0:
  assumes "isDataPacket (packetType h) \<or> \<not> trailerPresent h" and "n < 32"
  shows "bit (serialize_word0 h) n \<longleftrightarrow>
     28 \<le> n \<and> bit (u8_of_PacketType (packetType h)) (n - 28) \<or>
     n = 27 \<and> classIdPresent h \<or> n = 26 \<and> trailerPresent h \<or>
     22 \<le> n \<and> n < 24 \<and> bit (u8_of_TSI (tsiType h)) (n - 22) \<or>
     20 \<le> n \<and> n < 22 \<and> bit (u8_of_TSF (tsfType h)) (n - 20) \<or>
     16 \<le> n \<and> n < 20 \<and> bit (packetCount h) (n - 16) \<or> n < 16 \<and> bit (packetSize h) n"
proof -
  have b: "(if c then 1 else 0) = (of_bool c :: u32)" for c by simp
  have t: "(if isDataPacket (packetType h) then w OR push_bit 26 (of_bool (trailerPresent h)) else w)
     = w OR push_bit 26 (of_bool (trailerPresent h))" for w :: u32
    using assms(1) by auto
  show ?thesis
    using assms(2)
    by (cases rule: word0_bit_cases)
      (use assms(1) in \<open>auto simp: serialize_word0_def Let_def b t mask_simps bit_simps\<close>)
qed

lemma word0_fields:
  assumes "isDataPacket (packetType h) \<or> \<not> trailerPresent h"
  shows
  "ucast (drop_bit 28 (serialize_word0 h) AND 0xF) = u8_of_PacketType (packetType h) AND 0xF"
  "(drop_bit 27 (serialize_word0 h) AND 1 \<noteq> 0) = classIdPresent h"
  "(drop_bit 26 (serialize_word0 h) AND 1 \<noteq> 0) = trailerPresent h"
  "ucast (drop_bit 22 (serialize_word0 h) AND 3) = u8_of_TSI (tsiType h) AND 3"
  "ucast (drop_bit 20 (serialize_word0 h) AND 3) = u8_of_TSF (tsfType h) AND 3"
  "ucast (drop_bit 16 (serialize_word0 h) AND 0xF) = packetCount h AND 0xF"
  "ucast (serialize_word0 h AND 0xFFFF) = packetSize h"
proof -
  note b = bit_word0 [OF assms]
  show
    "ucast (drop_bit 28 (serialize_word0 h) AND 0xF) = u8_of_PacketType (packetType h) AND 0xF"
    "ucast (drop_bit 22 (serialize_word0 h) AND 3) = u8_of_TSI (tsiType h) AND 3"
    "ucast (drop_bit 20 (serialize_word0 h) AND 3) = u8_of_TSF (tsfType h) AND 3"
    "ucast (drop_bit 16 (serialize_word0 h) AND 0xF) = packetCount h AND 0xF"
    "ucast (serialize_word0 h AND 0xFFFF) = packetSize h"
    by (rule bit_word_eqI, auto simp: mask_simps bit_simps b)+
  show "(drop_bit 27 (serialize_word0 h) AND 1 \<noteq> 0) = classIdPresent h"
    "(drop_bit 26 (serialize_word0 h) AND 1 \<noteq> 0) = trailerPresent h"
    by (simp_all only: and_one_neq_zero_iff_bit) (simp_all add: b)
qed
section \<open>What parse computes\<close>

text \<open>The word at an offset of a buffer that holds it.\<close>

definition word_at :: "ByteOrder \<Rightarrow> nat \<Rightarrow> bytes \<Rightarrow> u32" where
  "word_at order off buf = projr (readWord order (drop off buf))"

definition dword_at :: "ByteOrder \<Rightarrow> nat \<Rightarrow> bytes \<Rightarrow> u64" where
  "dword_at order off buf = projr (readDWord order (drop off buf))"

lemma readWord_at:
  "off + 4 \<le> length buf \<Longrightarrow> readWord order (drop off buf) = Inr (word_at order off buf)"
  using word32.rd_long [of "drop off buf" order] by (auto simp: le_diff_conv2 word_at_def safe_iff_ex)

lemma readDWord_at:
  "off + 8 \<le> length buf \<Longrightarrow> readDWord order (drop off buf) = Inr (dword_at order off buf)"
  using word64.rd_long [of "drop off buf" order] by (auto simp: le_diff_conv2 dword_at_def safe_iff_ex)

lemma word_at_wire:
  "drop off buf = wordBytes order v @ r \<Longrightarrow> word_at order off buf = v"
  by (simp add: word_at_def word32.rd_enc)

lemma dword_at_wire:
  "drop off buf = dwordBytes order v @ r \<Longrightarrow> dword_at order off buf = v"
  by (simp add: dword_at_def word64.rd_enc)

lemma wire_of_word_at:
  "off + 4 \<le> length buf \<Longrightarrow> wordBytes order (word_at order off buf) = take 4 (drop off buf)"
  using word32.rd_prefix [of "drop off buf" order] by (auto simp: le_diff_conv2 word_at_def)

lemma wire_of_dword_at:
  "off + 8 \<le> length buf \<Longrightarrow> dwordBytes order (dword_at order off buf) = take 8 (drop off buf)"
  using word64.rd_prefix [of "drop off buf" order] by (auto simp: le_diff_conv2 dword_at_def)

definition classId_offset :: "PacketHeader \<Rightarrow> nat" where
  "classId_offset h = (if hasStreamId (packetType h) then 8 else 4)"

definition integerTimestamp_offset :: "PacketHeader \<Rightarrow> nat" where
  "integerTimestamp_offset h = classId_offset h + (if classIdPresent h then 8 else 0)"

definition fractionalTimestamp_offset :: "PacketHeader \<Rightarrow> nat" where
  "fractionalTimestamp_offset h = integerTimestamp_offset h + (if tsiType h \<noteq> TSI_None then 4 else 0)"

lemmas offset_defs =
  classId_offset_def integerTimestamp_offset_def fractionalTimestamp_offset_def

text \<open>The optional fields the header of word 0 announces, filled in from the buffer.\<close>

definition fill_optional :: "ByteOrder \<Rightarrow> bytes \<Rightarrow> PacketHeader \<Rightarrow> PacketHeader" where
  "fill_optional order buf h =
     h\<lparr>streamId := (if hasStreamId (packetType h) then Some (word_at order 4 buf) else streamId h),
       classIdOUI := (if classIdPresent h
                      then Some (word_at order (classId_offset h) buf AND 0x00FFFFFF) else classIdOUI h),
       informationClassCode :=
         (if classIdPresent h
          then Some (ucast (drop_bit 16 (word_at order (classId_offset h + 4) buf) AND 0xFFFF))
          else informationClassCode h),
       packetClassCode :=
         (if classIdPresent h
          then Some (ucast (word_at order (classId_offset h + 4) buf AND 0xFFFF))
          else packetClassCode h),
       integerTimestamp := (if tsiType h \<noteq> TSI_None
                            then Some (word_at order (integerTimestamp_offset h) buf)
                            else integerTimestamp h),
       fractionalTimestamp := (if tsfType h \<noteq> TSF_None
                               then Some (dword_at order (fractionalTimestamp_offset h) buf)
                               else fractionalTimestamp h)\<rparr>"

lemma sizeInBytes_eq:
  "sizeInBytes h = fractionalTimestamp_offset h + (if tsfType h \<noteq> TSF_None then 8 else 0)"
  by (simp add: sizeInBytes_def sizeInWords_def offset_defs Let_def)

lemmas stage_defs =
  next_stage_def parse_streamId_def parse_classId_def parse_integerTimestamp_def
  parse_fractionalTimestamp_def

lemma parse_optional_fits:
  assumes "pb \<le> length buf" and "sizeInBytes h \<le> pb"
  shows "parse_optional buf pb order (h, 4) = Inr (True, fill_optional order buf h, sizeInBytes h)"
  using assms
  by (cases "hasStreamId (packetType h)"; cases "classIdPresent h"; cases "tsiType h = TSI_None";
      cases "tsfType h = TSF_None")
    (simp_all add: parse_optional_def stage_defs readWord_at readDWord_at
      fill_optional_def sizeInBytes_eq offset_defs)

lemma parse_optional_truncated:
  assumes "pb \<le> length buf" and "pb < sizeInBytes h" and "4 \<le> pb"
  shows "\<exists>h' off. parse_optional buf pb order (h, 4) = Inr (False, h', off)"
  using assms
  by (cases "hasStreamId (packetType h)"; cases "classIdPresent h"; cases "tsiType h = TSI_None";
      cases "tsfType h = TSF_None")
    (auto simp: parse_optional_def stage_defs readWord_at readDWord_at sizeInBytes_eq offset_defs)

section \<open>Which buffers parse\<close>

lemma default_PacketHeader_optional [simp]:
  "streamId default_PacketHeader = None" "classIdOUI default_PacketHeader = None"
  "informationClassCode default_PacketHeader = None" "packetClassCode default_PacketHeader = None"
  "integerTimestamp default_PacketHeader = None" "fractionalTimestamp default_PacketHeader = None"
  by (simp_all add: default_PacketHeader_def)

definition word0_header :: "ByteOrder \<Rightarrow> bytes \<Rightarrow> PacketHeader \<Rightarrow> PacketHeader" where
  "word0_header order buf h = parse_word0 (word_at order 0 buf) h"

definition parse_accepts :: "nat \<Rightarrow> ByteOrder \<Rightarrow> bytes \<Rightarrow> bool" where
  "parse_accepts len order buf =
    (let h = word0_header order buf default_PacketHeader
     in 4 \<le> len \<and> packetSize h \<noteq> 0 \<and> unat (packetSize h) * 4 \<le> len \<and>
        sizeInWords h \<le> unat (packetSize h))"

lemma parse_word0_fields [simp]:
  "packetType (parse_word0 w h) = PacketType_of_u8 (ucast (drop_bit 28 w AND 0xF))"
  "classIdPresent (parse_word0 w h) = (drop_bit 27 w AND 1 \<noteq> 0)"
  "trailerPresent (parse_word0 w h) =
     (isDataPacket (packetType (parse_word0 w h)) \<and> (drop_bit 26 w AND 1 \<noteq> 0))"
  "tsiType (parse_word0 w h) = TSI_of_u8 (ucast (drop_bit 22 w AND 3))"
  "tsfType (parse_word0 w h) = TSF_of_u8 (ucast (drop_bit 20 w AND 3))"
  "packetCount (parse_word0 w h) = ucast (drop_bit 16 w AND 0xF)"
  "packetSize (parse_word0 w h) = ucast (w AND 0xFFFF)"
  "streamId (parse_word0 w h) = streamId h" "classIdOUI (parse_word0 w h) = classIdOUI h"
  "informationClassCode (parse_word0 w h) = informationClassCode h"
  "packetClassCode (parse_word0 w h) = packetClassCode h"
  "integerTimestamp (parse_word0 w h) = integerTimestamp h"
  "fractionalTimestamp (parse_word0 w h) = fractionalTimestamp h"
  by (simp_all add: parse_word0_def Let_def)

lemma fill_optional_fixed [simp]:
  "packetType (fill_optional order buf h) = packetType h"
  "classIdPresent (fill_optional order buf h) = classIdPresent h"
  "trailerPresent (fill_optional order buf h) = trailerPresent h"
  "tsiType (fill_optional order buf h) = tsiType h"
  "tsfType (fill_optional order buf h) = tsfType h"
  "packetCount (fill_optional order buf h) = packetCount h"
  "packetSize (fill_optional order buf h) = packetSize h"
  by (simp_all add: fill_optional_def)

lemma sizeInWords_cong:
  "packetType h = packetType g \<Longrightarrow> classIdPresent h = classIdPresent g \<Longrightarrow>
   tsiType h = tsiType g \<Longrightarrow> tsfType h = tsfType g \<Longrightarrow> sizeInWords h = sizeInWords g"
  by (simp add: sizeInWords_def)

lemma sizeInWords_word0: "sizeInWords (parse_word0 w h) = sizeInWords (parse_word0 w g)"
  by (rule sizeInWords_cong) simp_all

lemma sizeInBytes_fill [simp]: "sizeInBytes (fill_optional order buf h) = sizeInBytes h"
  unfolding sizeInBytes_def by (simp cong: sizeInWords_cong add: sizeInWords_def)

lemma not_above_max: "\<not> MAX_PACKET_SIZE_WORDS < v"
  using u16_bound [of v] by (simp add: MAX_PACKET_SIZE_WORDS_def word_less_nat_alt)

lemma parse_accepted:
  assumes "len \<le> length buf" and "parse_accepts len order buf"
  shows "parse (Some buf) len order h hb =
    Inr (True, fill_optional order buf (word0_header order buf h), sizeInBytes (word0_header order buf h))"
proof -
  let ?h = "parse_word0 (word_at order 0 buf) h"
  have acc: "4 \<le> len" "packetSize ?h \<noteq> 0" "unat (packetSize ?h) * 4 \<le> len"
    "sizeInWords ?h \<le> unat (packetSize ?h)"
    using assms(2) sizeInWords_word0 [of "word_at order 0 buf" h default_PacketHeader]
    by (simp_all add: parse_accepts_def word0_header_def)
  have "parse_optional buf (unat (packetSize ?h) * 4) order (?h, 4) =
      Inr (True, fill_optional order buf ?h, sizeInBytes ?h)"
    by (rule parse_optional_fits) (use acc assms(1) in \<open>simp_all add: sizeInBytes_def\<close>)
  with acc assms(1) readWord_at [of 0 buf order] show ?thesis
    by (simp add: parse_def Let_def not_above_max word0_header_def)
qed

lemma parse_rejected:
  assumes "len \<le> length buf" and "\<not> parse_accepts len order buf"
  shows "\<exists>h'. parse (Some buf) len order h hb = Inr (False, h', hb)"
proof (cases "4 \<le> len")
  case True
  let ?h = "parse_word0 (word_at order 0 buf) h"
  have rej: "packetSize ?h = 0 \<or> len < unat (packetSize ?h) * 4 \<or>
    unat (packetSize ?h) < sizeInWords ?h"
    using assms(2) True sizeInWords_word0 [of "word_at order 0 buf" h default_PacketHeader]
    by (auto simp: parse_accepts_def word0_header_def)
  have "\<exists>h' off. parse_optional buf (unat (packetSize ?h) * 4) order (?h, 4) = Inr (False, h', off)"
    if "packetSize ?h \<noteq> 0" "unat (packetSize ?h) * 4 \<le> len"
  proof (rule parse_optional_truncated)
    have "0 < unat (packetSize ?h)" using that(1) by (simp add: unat_gt_0)
    then show "4 \<le> unat (packetSize ?h) * 4" by arith
  qed (use that assms(1) rej in \<open>auto simp: sizeInBytes_def\<close>)
  with True assms(1) readWord_at [of 0 buf order] show ?thesis
    by (cases "packetSize ?h = 0"; cases "len < unat (packetSize ?h) * 4")
      (auto simp: parse_def Let_def not_above_max)
qed (simp add: parse_def)

lemma parse_null: "parse None len order h hb = Inr (False, h, hb)"
  by (simp add: parse_def)

section \<open>Well-formed headers\<close>

definition wf_header :: "PacketHeader \<Rightarrow> bool" where
  "wf_header h \<longleftrightarrow>
     named_or_4bit (packetType h) \<and>
     (trailerPresent h \<longrightarrow> isDataPacket (packetType h)) \<and> packetCount h < 16 \<and>
     (streamId h \<noteq> None \<longleftrightarrow> hasStreamId (packetType h)) \<and>
     (classIdOUI h \<noteq> None \<longleftrightarrow> classIdPresent h) \<and>
     (case classIdOUI h of Some oui \<Rightarrow> oui AND 0x00FFFFFF = oui | None \<Rightarrow> True) \<and>
     (informationClassCode h \<noteq> None \<longleftrightarrow> classIdPresent h) \<and>
     (packetClassCode h \<noteq> None \<longleftrightarrow> classIdPresent h) \<and>
     (integerTimestamp h \<noteq> None \<longleftrightarrow> tsiType h \<noteq> TSI_None) \<and>
     (fractionalTimestamp h \<noteq> None \<longleftrightarrow> tsfType h \<noteq> TSF_None)"

lemma and_mask_below:
  "v < 16 \<Longrightarrow> v AND 15 = (v :: u8)" "w < 4 \<Longrightarrow> w AND 3 = (w :: u8)"
  by (simp_all add: mask_simps less_mask_eq)

lemma length_header_wire:
  "wf_header h \<Longrightarrow> length (header_wire order h) = sizeInBytes h"
  by (cases "hasStreamId (packetType h)"; cases "classIdPresent h"; cases "tsiType h = TSI_None";
      cases "tsfType h = TSF_None")
    (auto simp: wf_header_def header_wire_def streamId_wire_def classId_wire_def
       integerTimestamp_wire_def fractionalTimestamp_wire_def sizeInBytes_eq offset_defs)

lemma parse_word0_serialize:
  assumes "wf_header h"
  shows "parse_word0 (serialize_word0 h) g =
    g\<lparr>packetType := packetType h, classIdPresent := classIdPresent h,
      trailerPresent := trailerPresent h, tsiType := tsiType h, tsfType := tsfType h,
      packetCount := packetCount h, packetSize := packetSize h\<rparr>"
proof -
  have d: "isDataPacket (packetType h) \<or> \<not> trailerPresent h"
    using assms by (auto simp: wf_header_def)
  have t: "named_or_4bit (packetType h)" "packetCount h < 16" using assms by (auto simp: wf_header_def)
  then have "u8_of_PacketType (packetType h) AND 15 = u8_of_PacketType (packetType h)"
    by (intro and_mask_below u8_of_PacketType_less)
  with t d show ?thesis
    by (auto simp: parse_word0_def Let_def word0_fields [OF d] PacketType_of_u8_inverse
        and_mask_below u8_of_TSI_less u8_of_TSF_less)
qed

lemma class_codes:
  "ucast (drop_bit 16 (push_bit 16 (ucast (a :: u16)) OR ucast (b :: u16) :: u32) AND 0xFFFF) = a"
  "ucast ((push_bit 16 (ucast (a :: u16)) OR ucast (b :: u16) :: u32) AND 0xFFFF) = b"
  by (rule bit_word_eqI, auto simp: mask_simps bit_simps simp del: drop_bit_or dest: bit_imp_le_length)+

lemma classWord2_codes:
  assumes "wf_header h" and "classIdPresent h"
  shows "Some (ucast (drop_bit 16 (classWord2_of h) AND 0xFFFF)) = informationClassCode h"
    and "Some (ucast (classWord2_of h AND 0xFFFF)) = packetClassCode h"
proof -
  from assms obtain a b where "informationClassCode h = Some a" "packetClassCode h = Some b"
    by (auto simp: wf_header_def)
  then show "Some (ucast (drop_bit 16 (classWord2_of h) AND 0xFFFF)) = informationClassCode h"
    "Some (ucast (classWord2_of h AND 0xFFFF)) = packetClassCode h"
    unfolding classWord2_of_def by (simp_all only: option.case class_codes)
qed

text \<open>The words of a serialised header, at the offsets the parser computes.\<close>

lemma wire_words:
  assumes "wf_header h" and "buf = header_wire order h @ rest"
  shows
    "word_at order 0 buf = serialize_word0 h"
    "streamId h = Some v \<Longrightarrow> word_at order 4 buf = v"
    "classIdOUI h = Some v \<Longrightarrow> word_at order (classId_offset h) buf = v"
    "classIdPresent h \<Longrightarrow> word_at order (classId_offset h + 4) buf = classWord2_of h"
    "integerTimestamp h = Some v \<Longrightarrow> word_at order (integerTimestamp_offset h) buf = v"
    "fractionalTimestamp h = Some x \<Longrightarrow> dword_at order (fractionalTimestamp_offset h) buf = x"
proof -
  have sid: "length (streamId_wire order h) = (if hasStreamId (packetType h) then 4 else 0)"
    using assms(1) by (auto simp: wf_header_def streamId_wire_def)
  have cid: "length (classId_wire order h) = (if classIdPresent h then 8 else 0)"
    using assms(1) by (auto simp: wf_header_def classId_wire_def)
  have its: "length (integerTimestamp_wire order h) = (if tsiType h \<noteq> TSI_None then 4 else 0)"
    using assms(1) by (auto simp: wf_header_def integerTimestamp_wire_def)
  show "word_at order 0 buf = serialize_word0 h"
    by (rule word_at_wire) (simp add: assms(2) header_wire_def)
  show "word_at order 4 buf = v" if "streamId h = Some v"
    using assms(1) that by (auto simp: assms(2) header_wire_def streamId_wire_def wf_header_def intro!: word_at_wire)
  show "word_at order (classId_offset h) buf = v" if "classIdOUI h = Some v"
    using assms(1) that sid
    by (auto simp: assms(2) header_wire_def classId_wire_def wf_header_def offset_defs intro!: word_at_wire)
  show "word_at order (classId_offset h + 4) buf = classWord2_of h" if "classIdPresent h"
    using assms(1) that sid
    by (auto simp: assms(2) header_wire_def classId_wire_def wf_header_def offset_defs intro!: word_at_wire)
  show "word_at order (integerTimestamp_offset h) buf = v" if "integerTimestamp h = Some v"
    using assms(1) that sid cid
    by (auto simp: assms(2) header_wire_def integerTimestamp_wire_def wf_header_def offset_defs intro!: word_at_wire)
  show "dword_at order (fractionalTimestamp_offset h) buf = x" if "fractionalTimestamp h = Some x"
    using assms(1) that sid cid its
    by (auto simp: assms(2) header_wire_def fractionalTimestamp_wire_def wf_header_def offset_defs intro!: dword_at_wire)
qed


section \<open>Round trips\<close>

lemma ucast_nibble: "ucast (w AND 0xF :: u32) < (16 :: u8)"
proof -
  have "(ucast (w AND 0xF) :: u8) = ucast w AND 0xF"
    by (rule bit_word_eqI) (auto simp: mask_simps bit_simps dest: bit_imp_le_length)
  moreover have "ucast w AND 0xF < (16 :: u8)"
    using and_mask_less' [of 4 "ucast w :: u8"] by (simp add: mask_simps)
  ultimately show ?thesis by simp
qed

lemma wf_header_parsed:
  "wf_header (fill_optional order buf (parse_word0 w default_PacketHeader))"
  by (auto simp: wf_header_def fill_optional_def default_PacketHeader_def PacketType_of_u8_4bit
      and.assoc ucast_nibble)

lemma parse_of_serialize:
  assumes "wf_header h" and "serialize h order [] = Inr wire"
    and "packetSize h \<noteq> 0" and "sizeInWords h \<le> unat (packetSize h)"
    and "unat (packetSize h) * 4 \<le> len" and "len \<le> length (wire @ rest)"
  shows "parse (Some (wire @ rest)) len order default_PacketHeader hb = Inr (True, h, sizeInBytes h)"
proof -
  have wire: "wire = header_wire order h" using assms(2) by (simp add: serialize_eq)
  then have buf: "wire @ rest = header_wire order h @ rest" by simp
  note ws = wire_words [OF assms(1) buf]
  let ?g = "word0_header order (wire @ rest) default_PacketHeader"
  have g: "?g = default_PacketHeader\<lparr>packetType := packetType h, classIdPresent := classIdPresent h,
      trailerPresent := trailerPresent h, tsiType := tsiType h, tsfType := tsfType h,
      packetCount := packetCount h, packetSize := packetSize h\<rparr>"
    by (simp add: word0_header_def ws(1) parse_word0_serialize [OF assms(1)])
  have size: "sizeInWords ?g = sizeInWords h" by (simp add: g sizeInWords_def)
  have offs: "classId_offset ?g = classId_offset h"
    "integerTimestamp_offset ?g = integerTimestamp_offset h"
    "fractionalTimestamp_offset ?g = fractionalTimestamp_offset h"
    by (simp_all add: g offset_defs)
  let ?f = "fill_optional order (wire @ rest) ?g"
  note wf = assms(1) [unfolded wf_header_def]
  have sel: "packetType ?g = packetType h" "classIdPresent ?g = classIdPresent h"
    "tsiType ?g = tsiType h" "tsfType ?g = tsfType h" "streamId ?g = None" "classIdOUI ?g = None"
    "informationClassCode ?g = None" "packetClassCode ?g = None" "integerTimestamp ?g = None"
    "fractionalTimestamp ?g = None"
    by (simp_all add: g)
  note fill = fill_optional_def offs sel
  have "streamId ?f = streamId h"
    by (cases "streamId h") (use wf in \<open>auto simp: fill ws(2)\<close>)
  moreover have "integerTimestamp ?f = integerTimestamp h"
    by (cases "integerTimestamp h") (use wf in \<open>auto simp: fill ws(5)\<close>)
  moreover have "fractionalTimestamp ?f = fractionalTimestamp h"
    by (cases "fractionalTimestamp h") (use wf in \<open>auto simp: fill ws(6)\<close>)
  moreover have "classIdOUI ?f = classIdOUI h"
    by (cases "classIdOUI h") (use wf in \<open>auto simp: fill ws(3)\<close>)
  moreover have "informationClassCode ?f = informationClassCode h" "packetClassCode ?f = packetClassCode h"
    using wf ws(4) classWord2_codes [OF assms(1)] by (cases "classIdPresent h"; simp add: fill)+
  ultimately have "?f = h"
    by (intro PacketHeader.equality) (simp_all add: g)
  moreover have "parse_accepts len order (wire @ rest)"
    using assms(3-5) size unat_gt_0 [of "packetSize h"] by (simp add: parse_accepts_def g)
  ultimately show ?thesis
    using parse_accepted [OF assms(6), of order default_PacketHeader hb] size by (simp add: sizeInBytes_def)
qed
text \<open>
  Bits 25 and 24 of word 0 (and bit 26 outside data packets) and the top byte of the first
  class-id word are not kept by the parser.
\<close>

definition reserved_bits_clear :: "ByteOrder \<Rightarrow> bytes \<Rightarrow> PacketHeader \<Rightarrow> bool" where
  "reserved_bits_clear order buf h \<longleftrightarrow>
     \<not> bit (word_at order 0 buf) 24 \<and> \<not> bit (word_at order 0 buf) 25 \<and>
     (bit (word_at order 0 buf) 26 \<longrightarrow> isDataPacket (packetType h)) \<and>
     (classIdPresent h \<longrightarrow>
        word_at order (classId_offset h) buf AND 0x00FFFFFF = word_at order (classId_offset h) buf)"

lemma ucast_two_bits: "ucast (w AND 3 :: u32) < (4 :: u8)"
proof -
  have "(ucast (w AND 3) :: u8) = ucast w AND 3"
    by (rule bit_word_eqI) (auto simp: mask_simps bit_simps dest: bit_imp_le_length)
  moreover have "ucast w AND 3 < (4 :: u8)"
    using and_mask_less' [of 2 "ucast w :: u8"] by (simp add: mask_simps)
  ultimately show ?thesis by simp
qed

lemma serialize_word0_cong:
  "packetType h = packetType g \<Longrightarrow> classIdPresent h = classIdPresent g \<Longrightarrow>
   trailerPresent h = trailerPresent g \<Longrightarrow> tsiType h = tsiType g \<Longrightarrow> tsfType h = tsfType g \<Longrightarrow>
   packetCount h = packetCount g \<Longrightarrow> packetSize h = packetSize g \<Longrightarrow>
   serialize_word0 h = serialize_word0 g"
  by (simp add: serialize_word0_def)

lemma serialize_word0_parse:
  assumes "\<not> bit w 24" and "\<not> bit w 25"
    and "bit w 26 \<longrightarrow> isDataPacket (packetType (parse_word0 w g))"
  shows "serialize_word0 (parse_word0 w g) = w"
proof (rule bit_word_eqI)
  let ?h = "parse_word0 w g"
  have d: "isDataPacket (packetType ?h) \<or> \<not> trailerPresent ?h" by simp
  fix n assume "n < LENGTH(32)"
  then have n: "n < 32" by simp
  have tr: "trailerPresent ?h = bit w 26"
    using assms(3) and_one_neq_zero_iff_bit [of 26 w] by auto
  have cl: "classIdPresent ?h = bit w 27"
    using and_one_neq_zero_iff_bit [of 27 w] by simp
  have ts: "u8_of_TSI (tsiType ?h) = ucast (drop_bit 22 w AND 3)"
    "u8_of_TSF (tsfType ?h) = ucast (drop_bit 20 w AND 3)"
    by (simp_all add: u8_of_TSI_inverse u8_of_TSF_inverse ucast_two_bits)
  show "bit (serialize_word0 ?h) n = bit w n"
    unfolding bit_word0 [OF d n] tr cl ts using n
    by (cases rule: word0_bit_cases) (use assms(1,2) in \<open>auto simp: mask_simps bit_simps\<close>)
qed

lemma join_class_codes:
  "push_bit 16 (ucast (ucast (drop_bit 16 w AND 0xFFFF) :: u16)) OR ucast (ucast (w AND 0xFFFF) :: u16) = (w :: u32)"
  (is "?j = w")
proof (rule bit_word_eqI)
  show "bit ?j n = bit w n" for n
    by (cases "n < 16") (auto simp: mask_simps bit_simps not_less dest: bit_imp_le_length)
qed

lemma take_word_append:
  "off + 4 \<le> length buf \<Longrightarrow> take off buf @ wordBytes order (word_at order off buf) = take (off + 4) buf"
  by (simp add: wire_of_word_at take_add)

lemma take_dword_append:
  "off + 8 \<le> length buf \<Longrightarrow> take off buf @ dwordBytes order (dword_at order off buf) = take (off + 8) buf"
  by (simp add: wire_of_dword_at take_add)

lemma fill_optional_self:
  assumes "h = fill_optional order buf g"
  shows
    "streamId h = (if hasStreamId (packetType h) then Some (word_at order 4 buf) else streamId g)"
    "classIdOUI h = (if classIdPresent h
       then Some (word_at order (classId_offset h) buf AND 0x00FFFFFF) else classIdOUI g)"
    "classIdPresent h \<Longrightarrow> classWord2_of h = word_at order (classId_offset h + 4) buf"
    "integerTimestamp h = (if tsiType h \<noteq> TSI_None
       then Some (word_at order (integerTimestamp_offset h) buf) else integerTimestamp g)"
    "fractionalTimestamp h = (if tsfType h \<noteq> TSF_None
       then Some (dword_at order (fractionalTimestamp_offset h) buf) else fractionalTimestamp g)"
  using assms
  by (simp_all add: fill_optional_def offset_defs classWord2_of_def join_class_codes)

lemma header_wire_parsed:
  assumes n: "sizeInBytes h \<le> length buf" and "reserved_bits_clear order buf h"
    and "h = fill_optional order buf (parse_word0 (word_at order 0 buf) default_PacketHeader)"
  shows "header_wire order h = take (sizeInBytes h) buf"
proof -
  let ?g = "parse_word0 (word_at order 0 buf) default_PacketHeader"
  have w0: "serialize_word0 h = word_at order 0 buf"
  proof -
    have "serialize_word0 h = serialize_word0 ?g"
      by (rule serialize_word0_cong) (simp_all add: assms(3))
    also have "\<dots> = word_at order 0 buf"
      using assms(2) by (intro serialize_word0_parse) (simp_all add: reserved_bits_clear_def assms(3))
    finally show ?thesis .
  qed
  note f = fill_optional_self [OF assms(3)]
  have o: "4 \<le> length buf" "classId_offset h \<le> length buf" "integerTimestamp_offset h \<le> length buf"
    "fractionalTimestamp_offset h \<le> length buf"
    using n by (simp_all add: sizeInBytes_eq offset_defs split: if_splits)
  have 1: "wordBytes order (serialize_word0 h) = take 4 buf"
    using wire_of_word_at [of 0 buf order] o w0 by simp
  have 2: "take 4 buf @ streamId_wire order h = take (classId_offset h) buf"
    using take_word_append [of 4 buf order] o(2)
    by (cases "hasStreamId (packetType h)")
      (simp_all add: streamId_wire_def f(1) offset_defs)
  have 3: "take (classId_offset h) buf @ classId_wire order h = take (integerTimestamp_offset h) buf"
  proof (cases "classIdPresent h")
    case True
    then have c: "classIdOUI h = Some (word_at order (classId_offset h) buf)"
      using assms(2) by (simp add: reserved_bits_clear_def f(2))
    with True o(3) take_word_append [of "classId_offset h" buf order]
      take_word_append [of "classId_offset h + 4" buf order] assms(2)
    show ?thesis
      by (simp add: classId_wire_def f(3) reserved_bits_clear_def integerTimestamp_offset_def
          add.commute flip: append_assoc)
  qed (simp add: classId_wire_def f(2) integerTimestamp_offset_def)
  have 4: "take (integerTimestamp_offset h) buf @ integerTimestamp_wire order h =
      take (fractionalTimestamp_offset h) buf"
    using take_word_append [of "integerTimestamp_offset h" buf order] o(4)
    by (cases "tsiType h = TSI_None")
      (simp_all add: integerTimestamp_wire_def fractionalTimestamp_offset_def f(4))
  have 5: "take (fractionalTimestamp_offset h) buf @ fractionalTimestamp_wire order h =
      take (sizeInBytes h) buf"
    using take_dword_append [of "fractionalTimestamp_offset h" buf order] n
    by (cases "tsfType h = TSF_None")
      (simp_all add: fractionalTimestamp_wire_def sizeInBytes_eq f(5) add.commute)
  show ?thesis
    unfolding header_wire_def 1 using 2 3 4 5 by (metis append_assoc)
qed

text \<open>What is known of the header after a successful parse into a fresh one.\<close>

lemma parsed_header:
  assumes "parse (Some buf) len order default_PacketHeader hb = Inr (True, h, n)"
    and "len \<le> length buf"
  shows "n = sizeInBytes h" and "sizeInWords h \<le> unat (packetSize h)"
    and "unat (packetSize h) * 4 \<le> len" and "packetSize h \<noteq> 0" and "wf_header h"
proof -
  have acc: "parse_accepts len order buf"
    using assms(1) parse_rejected [OF assms(2), of order default_PacketHeader hb] by fastforce
  let ?g = "word0_header order buf default_PacketHeader"
  have h: "h = fill_optional order buf ?g" and n: "n = sizeInBytes ?g"
    using parse_accepted [OF assms(2) acc, of default_PacketHeader hb] assms(1) by auto
  have s: "sizeInBytes h = sizeInBytes ?g" "packetSize h = packetSize ?g" by (simp_all add: h)
  then show "n = sizeInBytes h" by (simp add: n)
  show "sizeInWords h \<le> unat (packetSize h)" "unat (packetSize h) * 4 \<le> len" "packetSize h \<noteq> 0"
    using acc s by (auto simp: parse_accepts_def sizeInBytes_def Let_def)
  show "wf_header h" unfolding h word0_header_def by (rule wf_header_parsed)
qed

text \<open>
  C15. Whatever the parser accepts into a fresh header is a well-formed header that ends within
  the available bytes, and serialising it again gives back exactly the bytes it was read from,
  provided the bits the parser drops (reserved indicator bits, the top byte of the OUI word)
  were zero.
\<close>

theorem serialize_parse:
  assumes "parse (Some buf) len order default_PacketHeader hb = Inr (True, h, n)"
    and "len \<le> length buf" and "reserved_bits_clear order buf h"
  shows "wf_header h \<and> n = sizeInBytes h \<and> n \<le> len \<and> serialize h order [] = Inr (take n buf)"
proof -
  have acc: "parse_accepts len order buf"
    using assms(1) parse_rejected [OF assms(2), of order default_PacketHeader hb] by fastforce
  let ?g = "parse_word0 (word_at order 0 buf) default_PacketHeader"
  have h: "h = fill_optional order buf ?g" and n: "n = sizeInBytes h"
    using parse_accepted [OF assms(2) acc, of default_PacketHeader hb] assms(1)
    by (auto simp: word0_header_def)
  have "sizeInBytes h = sizeInBytes ?g" by (simp add: h)
  then have "sizeInBytes h \<le> unat (packetSize ?g) * 4" "unat (packetSize ?g) * 4 \<le> len"
    using acc by (simp_all add: parse_accepts_def word0_header_def sizeInBytes_def Let_def
        del: parse_word0_fields)
  then have "n \<le> len" using n by simp
  moreover have "wf_header h" unfolding h by (rule wf_header_parsed)
  moreover have "header_wire order h = take (sizeInBytes h) buf"
    by (rule header_wire_parsed) (use h n \<open>n \<le> len\<close> assms(2,3) in auto)
  ultimately show ?thesis by (simp add: serialize_eq n)
qed

section \<open>Properties of the header codec\<close>

text \<open>
  C16. The parser never reads outside the buffer when \<open>length\<close> bytes are available, whatever
  they hold.  It succeeds exactly when there are four bytes, the size field is not zero, the
  announced packet fits in \<open>length\<close> and the header fits in the announced packet; then
  \<open>headerBytes\<close> is the size of the header, and otherwise \<open>headerBytes\<close> is left alone.
\<close>

theorem parse_safe_exact:
  assumes "len \<le> length buf"
  shows "\<exists>ok h' hb'. parse (Some buf) len order h hb = Inr (ok, h', hb') \<and>
     ok = parse_accepts len order buf \<and> hb' = (if ok then sizeInBytes h' else hb)"
proof (cases "parse_accepts len order buf")
  case True
  with parse_accepted [OF assms True, of h hb] show ?thesis
    by (auto intro!: exI [of _ True])
next
  case False
  then show ?thesis using parse_rejected [OF assms, of order h hb] by auto
qed

theorem parse_safe_exact_witness:
  "\<exists>ok h' hb'. parse (Some [0x18, 0, 0, 3, 0, 0, 0, 7]) 8 BigEndian default_PacketHeader 0 = Inr (ok, h', hb') \<and>
     ok = parse_accepts 8 BigEndian [0x18, 0, 0, 3, 0, 0, 0, 7] \<and> hb' = (if ok then sizeInBytes h' else 0)"
  by (rule parse_safe_exact) simp

text \<open>
  Serialising a well-formed header appends exactly \<open>sizeInBytes\<close> bytes to the output, keeps
  what the output held, and never writes outside it.
\<close>

theorem serialize_size:
  assumes "wf_header h"
  shows "serialize h order out = Inr (out @ header_wire order h) \<and>
    length (header_wire order h) = sizeInBytes h"
  using assms by (auto simp: serialize_eq length_header_wire)

text \<open>
  The parser does not reset the optional fields it does not find: after a successful parse
  into a header that was used before, an absent stream id, class id or timestamp still shows
  the value of the earlier packet.
\<close>

theorem parse_keeps_stale_fields:
  assumes "len \<le> length buf" and "parse (Some buf) len order h hb = Inr (True, h', n)"
  shows "(\<not> hasStreamId (packetType h') \<longrightarrow> streamId h' = streamId h) \<and>
    (\<not> classIdPresent h' \<longrightarrow> classIdOUI h' = classIdOUI h) \<and>
    (tsiType h' = TSI_None \<longrightarrow> integerTimestamp h' = integerTimestamp h) \<and>
    (tsfType h' = TSF_None \<longrightarrow> fractionalTimestamp h' = fractionalTimestamp h)"
proof -
  have "parse_accepts len order buf"
    using assms(2) parse_rejected [OF assms(1), of order h hb] by fastforce
  then have "h' = fill_optional order buf (word0_header order buf h)"
    using parse_accepted [OF assms(1), of order h hb] assms(2) by simp
  then show ?thesis by (simp add: fill_optional_def word0_header_def)
qed

definition example_header :: PacketHeader where
  "example_header = default_PacketHeader\<lparr>classIdPresent := True, trailerPresent := True,
     tsiType := TSI_UTC, tsfType := TSF_RealTime, packetCount := 9, packetSize := 8,
     streamId := Some 0x1234, classIdOUI := Some 0xABCDEF, informationClassCode := Some 0x11,
     packetClassCode := Some 0x22, integerTimestamp := Some 1738886400,
     fractionalTimestamp := Some 0x123456789A\<rparr>"

definition example_wire :: bytes where
  "example_wire =
     [0x1C, 0x69, 0, 8, 0, 0, 0x12, 0x34, 0, 0xAB, 0xCD, 0xEF, 0, 0x11, 0, 0x22,
      0x67, 0xA5, 0x4D, 0, 0, 0, 0, 0x12, 0x34, 0x56, 0x78, 0x9A]"

lemma example_header_wf: "wf_header example_header"
  by (simp add: example_header_def wf_header_def default_PacketHeader_def named_or_4bit_def
      isDataPacket_def hasStreamId_def)

lemma example_header_wire: "serialize example_header BigEndian [] = Inr example_wire"
  by (simp add: serialize_eq header_wire_def example_header_def default_PacketHeader_def
      streamId_wire_def classId_wire_def classWord2_of_def integerTimestamp_wire_def
      fractionalTimestamp_wire_def hasStreamId_def isDataPacket_def serialize_word0_def Let_def
      wordBytes_def dwordBytes_def bytes64_halves bytes_explicit example_wire_def)

theorem serialize_size_witness:
  "serialize example_header BigEndian [1, 2] = Inr ([1, 2] @ header_wire BigEndian example_header) \<and>
     length (header_wire BigEndian example_header) = sizeInBytes example_header"
  by (rule serialize_size [OF example_header_wf])

text \<open>
  C14. A header that is well-formed and no longer than the packet it announces, serialised in
  either byte order and followed by anything, parses back to itself, and the parser reports
  exactly the header's own size as consumed.
\<close>

theorem parse_serialize:
  assumes "wf_header h" and "serialize h order [] = Inr wire"
    and "packetSize h \<noteq> 0" and "sizeInWords h \<le> unat (packetSize h)"
    and "unat (packetSize h) * 4 \<le> len" and "len \<le> length (wire @ rest)"
  shows "parse (Some (wire @ rest)) len order default_PacketHeader hb = Inr (True, h, sizeInBytes h)"
  using assms by (rule parse_of_serialize)

theorem parse_serialize_witness:
  "parse (Some (example_wire @ [1, 2, 3, 4, 5, 6, 7])) 35 BigEndian default_PacketHeader 0
     = Inr (True, example_header, sizeInBytes example_header)"
  by (rule parse_serialize [OF example_header_wf example_header_wire])
    (simp_all add: example_header_def default_PacketHeader_def sizeInWords_def hasStreamId_def
       example_wire_def)

lemmas eval_words =
  word_at_def dword_at_def readWord_def readDWord_def read32_Cons read64_Cons join32_def join64_def

theorem serialize_parse_witness:
  "wf_header example_header \<and> 28 = sizeInBytes example_header \<and> (28::nat) \<le> 35 \<and>
   serialize example_header BigEndian [] = Inr (take 28 (example_wire @ [1, 2, 3, 4, 5, 6, 7]))"
proof (rule serialize_parse)
  show "parse (Some (example_wire @ [1, 2, 3, 4, 5, 6, 7])) 35 BigEndian default_PacketHeader 0
     = Inr (True, example_header, 28)"
    using parse_of_serialize [OF example_header_wf example_header_wire, of 35 "[1, 2, 3, 4, 5, 6, 7]" 0]
    by (simp add: example_header_def default_PacketHeader_def sizeInWords_def sizeInBytes_def
        hasStreamId_def example_wire_def)
  show "reserved_bits_clear BigEndian (example_wire @ [1, 2, 3, 4, 5, 6, 7]) example_header"
    by (simp add: reserved_bits_clear_def example_header_def default_PacketHeader_def
        isDataPacket_def hasStreamId_def classId_offset_def example_wire_def eval_words)
qed (simp add: example_wire_def)

text \<open>A data packet without stream id, parsed into the header of an earlier packet.\<close>

theorem parse_keeps_stale_fields_witness:
  "streamId (example_header\<lparr>packetType := IFDataWithoutStreamId\<rparr>) = Some 0x1234 \<and>
   (\<exists>h' n. parse (Some [0, 0, 0, 1]) 4 BigEndian example_header 0 = Inr (True, h', n) \<and>
      \<not> hasStreamId (packetType h') \<and> streamId h' = Some 0x1234)"
proof -
  have acc: "parse_accepts 4 BigEndian [0, 0, 0, 1]"
    by (simp add: parse_accepts_def word0_header_def eval_words Let_def PacketType_of_u8_def
        TSI_of_u8_def TSF_of_u8_def sizeInWords_def hasStreamId_def)
  obtain h' n where p: "parse (Some [0, 0, 0, 1]) 4 BigEndian example_header 0 = Inr (True, h', n)"
    using parse_accepted [OF _ acc] by auto
  then have "h' = fill_optional BigEndian [0, 0, 0, 1] (word0_header BigEndian [0, 0, 0, 1] example_header)"
    using parse_accepted [OF _ acc, of example_header 0] by simp
  then have "\<not> hasStreamId (packetType h')"
    by (simp add: word0_header_def eval_words PacketType_of_u8_def hasStreamId_def)
  then show ?thesis
    using p parse_keeps_stale_fields [OF _ p] by (auto simp: example_header_def)
qed

end
