(* ===== verification/FloatModel.thy ===== *)
theory FloatModel
  imports Complex_Main Prelude
begin

text \<open>
  The IEEE-754 arithmetic that the C++ types \<open>float\<close> and \<open>double\<close> denote on the platforms the
  project builds for (binary32 and binary64, round to nearest even, no excess precision, \<open>long\<close>
  of 64 bits).

  A value is a rational, an infinity or a NaN; the two zeros are one value, because no code of
  the repository observes the sign of a zero (the only divisor that is not a constant is tested
  against zero first).  An operation computes the exact rational and rounds it
  (\<open>fp_round\<close>: precision, least exponent and overflow bound of the format).  Conversions to an
  integer type are undefined when the value does not fit, hence the outcome type.

  The locale \<open>rounding\<close> states what numeric code relies on (a relative error bound in the normal
  range); its lemmas bound chains of roundings, and it is interpreted for both formats.
\<close>

section \<open>Rounding of rationals\<close>

definition round_half_even :: "rat \<Rightarrow> int" where
  "round_half_even x =
     (let f = \<lfloor>x\<rfloor>; d = x - of_int f
      in if d < 1 / 2 then f else if d > 1 / 2 then f + 1 else if even f then f else f + 1)"

text \<open>\<open>std::round\<close>, \<open>std::lroundf\<close>: halves away from zero.\<close>

definition round_half_away :: "rat \<Rightarrow> int" where
  "round_half_away x = (if 0 \<le> x then \<lfloor>x + 1 / 2\<rfloor> else - \<lfloor>- x + 1 / 2\<rfloor>)"

fun nat_log2 :: "nat \<Rightarrow> nat" where
  "nat_log2 n = (if n < 2 then 0 else Suc (nat_log2 (n div 2)))"

declare nat_log2.simps [simp del]

text \<open>The binary exponent: \<open>2 ^ e \<le> |x| < 2 ^ (e + 1)\<close>.\<close>

definition rat_log2 :: "rat \<Rightarrow> int" where
  "rat_log2 x =
     (let (a, b) = quotient_of \<bar>x\<bar>; k = int (nat_log2 (nat a)) - int (nat_log2 (nat b))
      in if \<bar>x\<bar> < 2 powi k then k - 1 else k)"

definition ulp_exponent :: "nat \<Rightarrow> int \<Rightarrow> rat \<Rightarrow> int" where
  "ulp_exponent p qmin x = max (rat_log2 x - (int p - 1)) qmin"

definition round_to :: "nat \<Rightarrow> int \<Rightarrow> rat \<Rightarrow> rat" where
  "round_to p qmin x =
     (if x = 0 then 0
      else let q = ulp_exponent p qmin x
           in of_int (round_half_even (x / 2 powi q)) * 2 powi q)"

section \<open>Floating-point values\<close>

datatype fp = Finite rat | PlusInf | MinusInf | NotANumber

definition fp_inf :: "rat \<Rightarrow> fp" where
  "fp_inf x = (if 0 < x then PlusInf else MinusInf)"

definition fp_round :: "nat \<Rightarrow> int \<Rightarrow> int \<Rightarrow> rat \<Rightarrow> fp" where
  "fp_round p qmin emax x =
     (let r = round_to p qmin x in if \<bar>r\<bar> < 2 powi emax then Finite r else fp_inf r)"

definition round32 :: "rat \<Rightarrow> fp" where
  "round32 = fp_round 24 (-149) 128"

definition round64 :: "rat \<Rightarrow> fp" where
  "round64 = fp_round 53 (-1074) 1024"

text \<open>Multiplication and division, for a rounding \<open>rnd\<close> of exact results.\<close>

fun fp_sign :: "fp \<Rightarrow> rat" where
  "fp_sign (Finite x) = sgn x"
| "fp_sign PlusInf = 1"
| "fp_sign MinusInf = -1"
| "fp_sign NotANumber = 0"

fun fp_mul :: "(rat \<Rightarrow> fp) \<Rightarrow> fp \<Rightarrow> fp \<Rightarrow> fp" where
  "fp_mul rnd (Finite x) (Finite y) = rnd (x * y)"
| "fp_mul rnd a b =
     (if a = NotANumber \<or> b = NotANumber \<or> fp_sign a * fp_sign b = 0 then NotANumber
      else fp_inf (fp_sign a * fp_sign b))"

text \<open>
  The code divides by constants, by a tested factor, and by counts and durations; a zero divisor is the
  zero of such a count or duration, which is positive.
\<close>

fun fp_div :: "(rat \<Rightarrow> fp) \<Rightarrow> fp \<Rightarrow> fp \<Rightarrow> fp" where
  "fp_div rnd (Finite x) (Finite y) =
     (if y \<noteq> 0 then rnd (x / y) else if x = 0 then NotANumber else fp_inf x)"
| "fp_div rnd (Finite x) PlusInf = Finite 0"
| "fp_div rnd (Finite x) MinusInf = Finite 0"
| "fp_div rnd a (Finite y) =
     (if a = NotANumber then NotANumber else fp_inf (if y < 0 then - fp_sign a else fp_sign a))"
| "fp_div rnd a b = NotANumber"

definition float_mul :: "fp \<Rightarrow> fp \<Rightarrow> fp" where
  "float_mul = fp_mul round32"

definition float_div :: "fp \<Rightarrow> fp \<Rightarrow> fp" where
  "float_div = fp_div round32"

definition double_mul :: "fp \<Rightarrow> fp \<Rightarrow> fp" where
  "double_mul = fp_mul round64"

definition double_div :: "fp \<Rightarrow> fp \<Rightarrow> fp" where
  "double_div = fp_div round64"

definition float_of_int :: "int \<Rightarrow> fp" where
  "float_of_int i = round32 (of_int i)"

definition double_of_int :: "int \<Rightarrow> fp" where
  "double_of_int i = round64 (of_int i)"

text \<open>A \<open>double\<close> narrowed to \<open>float\<close>; the widening is exact.\<close>

fun float_of_double :: "fp \<Rightarrow> fp" where
  "float_of_double (Finite x) = round32 x"
| "float_of_double v = v"

fun fp_neg :: "fp \<Rightarrow> fp" where
  "fp_neg (Finite x) = Finite (- x)"
| "fp_neg PlusInf = MinusInf"
| "fp_neg MinusInf = PlusInf"
| "fp_neg NotANumber = NotANumber"

fun fp_add :: "(rat \<Rightarrow> fp) \<Rightarrow> fp \<Rightarrow> fp \<Rightarrow> fp" where
  "fp_add rnd (Finite x) (Finite y) = rnd (x + y)"
| "fp_add rnd (Finite x) b = b"
| "fp_add rnd a (Finite y) = a"
| "fp_add rnd a b = (if a = b then a else NotANumber)"

definition float_add :: "fp \<Rightarrow> fp \<Rightarrow> fp" where
  "float_add = fp_add round32"

definition float_sub :: "fp \<Rightarrow> fp \<Rightarrow> fp" where
  "float_sub a b = float_add a (fp_neg b)"

definition double_add :: "fp \<Rightarrow> fp \<Rightarrow> fp" where
  "double_add = fp_add round64"

text \<open>\<open>std::fabs\<close>, the operator \<open><\<close>, \<open>std::min\<close> and \<open>std::max\<close>; a comparison with a NaN is false.\<close>

fun fp_abs :: "fp \<Rightarrow> fp" where
  "fp_abs (Finite x) = Finite \<bar>x\<bar>"
| "fp_abs NotANumber = NotANumber"
| "fp_abs v = PlusInf"

fun fp_less :: "fp \<Rightarrow> fp \<Rightarrow> bool" where
  "fp_less (Finite x) (Finite y) \<longleftrightarrow> x < y"
| "fp_less (Finite x) PlusInf \<longleftrightarrow> True"
| "fp_less MinusInf (Finite y) \<longleftrightarrow> True"
| "fp_less MinusInf PlusInf \<longleftrightarrow> True"
| "fp_less a b \<longleftrightarrow> False"

definition fp_min :: "fp \<Rightarrow> fp \<Rightarrow> fp" where
  "fp_min a b = (if fp_less b a then b else a)"

definition fp_max :: "fp \<Rightarrow> fp \<Rightarrow> fp" where
  "fp_max a b = (if fp_less a b then b else a)"

text \<open>
  \<open>std::round\<close> on \<open>double\<close> is exact.  A conversion of a floating value to an integer type of
  \<open>n\<close> bits (and \<open>lroundf\<close>, whose result is a 64-bit \<open>long\<close>) needs the value to be in range.
\<close>

fun fp_round_away :: "fp \<Rightarrow> fp" where
  "fp_round_away (Finite x) = Finite (of_int (round_half_away x))"
| "fp_round_away v = v"

definition in_signed_range :: "nat \<Rightarrow> int \<Rightarrow> bool" where
  "in_signed_range n i \<longleftrightarrow> - (2 ^ (n - 1)) \<le> i \<and> i < 2 ^ (n - 1)"

definition truncate_rat :: "rat \<Rightarrow> int" where
  "truncate_rat x = (if 0 \<le> x then \<lfloor>x\<rfloor> else \<lceil>x\<rceil>)"

fun fp_to_signed :: "nat \<Rightarrow> fp \<Rightarrow> int outcome" where
  "fp_to_signed n (Finite x) =
     (if in_signed_range n (truncate_rat x) then Inr (truncate_rat x) else Inl BadConversion)"
| "fp_to_signed n _ = Inl BadConversion"

definition lroundf :: "fp \<Rightarrow> int outcome" where
  "lroundf v = fp_to_signed 64 (fp_round_away v)"

section \<open>Facts about rounding\<close>

lemma round_half_even_error: "\<bar>of_int (round_half_even x) - x\<bar> \<le> 1 / 2"
  unfolding round_half_even_def Let_def by (auto simp: abs_if) linarith+

lemma round_half_even_int: "round_half_even (of_int i) = i"
  by (simp add: round_half_even_def)

lemma round_half_away_int [simp]: "round_half_away (of_int i) = i"
proof -
  have "\<lfloor>of_int i + 1 / 2 :: rat\<rfloor> = i" "\<lfloor>- of_int i + 1 / 2 :: rat\<rfloor> = - i"
    by linarith+
  then show ?thesis by (simp add: round_half_away_def)
qed

lemma round_half_away_unique: "\<bar>x - of_int i\<bar> < 1 / 2 \<Longrightarrow> round_half_away x = i"
  unfolding round_half_away_def by (auto simp: abs_if split: if_splits) linarith+

lemma round_half_away_error: "\<bar>of_int (round_half_away x) - x\<bar> \<le> 1 / 2"
  unfolding round_half_away_def by (auto simp: abs_if) linarith+

lemma truncate_of_int [simp]: "truncate_rat (of_int i) = i"
  by (simp add: truncate_rat_def)

lemma nat_log2_bounds: "0 < n \<Longrightarrow> 2 ^ nat_log2 n \<le> n \<and> n < 2 ^ Suc (nat_log2 n)"
proof (induction n rule: nat_log2.induct)
  case (1 n)
  show ?case
  proof (cases "n < 2")
    case True
    with "1.prems" show ?thesis by (simp add: nat_log2.simps [of n])
  next
    case False
    with 1 have "2 ^ nat_log2 (n div 2) \<le> n div 2 \<and> n div 2 < 2 ^ Suc (nat_log2 (n div 2))"
      by simp
    with False show ?thesis by (simp add: nat_log2.simps [of n]) linarith
  qed
qed

lemma powi_diff: "(2 :: rat) powi (int a - int b) = 2 ^ a / 2 ^ b"
  by (simp add: power_int_diff)

lemma powi_add_nat: "(2 :: rat) powi (i + int n) = 2 powi i * 2 ^ n"
  by (simp add: power_int_add)

lemma rat_log2_bounds:
  assumes "x \<noteq> 0"
  shows "2 powi (rat_log2 x) \<le> \<bar>x\<bar>" and "\<bar>x\<bar> < 2 powi (rat_log2 x + 1)"
proof -
  obtain a b where ab: "quotient_of \<bar>x\<bar> = (a, b)" by fastforce
  then have b: "0 < b" by (rule quotient_of_denom_pos)
  have x: "\<bar>x\<bar> = of_int a / of_int b" using ab by (rule quotient_of_div)
  with assms b have a: "0 < a" by (simp add: zero_less_divide_iff flip: zero_less_abs_iff)
  define la lb where "la = nat_log2 (nat a)" and "lb = nat_log2 (nat b)"
  define A B :: rat where "A = of_int a" and "B = of_int b"
  have nats: "2 ^ la \<le> nat a" "nat a < 2 ^ Suc la" "2 ^ lb \<le> nat b" "nat b < 2 ^ Suc lb"
    using a b nat_log2_bounds [of "nat a"] nat_log2_bounds [of "nat b"] by (auto simp: la_def lb_def)
  then have ints: "2 ^ la \<le> a" "a < 2 ^ Suc la" "2 ^ lb \<le> b" "b < 2 ^ Suc lb"
    using a b by (simp_all add: le_nat_iff nat_less_iff)
  have cast: "(of_int (2 ^ n) :: rat) = 2 ^ n" for n by simp
  have rats: "2 ^ la \<le> A" "A < 2 ^ Suc la" "2 ^ lb \<le> B" "B < 2 ^ Suc lb"
    using ints unfolding A_def B_def cast [symmetric] by (simp_all only: of_int_le_iff of_int_less_iff)
  have pos: "0 < A" "0 < B" using a b by (simp_all add: A_def B_def)
  let ?k = "int la - int lb"
  have up: "A / B < 2 powi (?k + 1)"
  proof -
    have "A / B < 2 ^ Suc la / 2 ^ lb" using rats pos by (intro frac_less) auto
    also have "\<dots> = 2 powi (?k + 1)" using powi_diff [of "Suc la" lb] by (simp add: algebra_simps)
    finally show ?thesis .
  qed
  have lo: "2 powi (?k - 1) < A / B"
  proof -
    have "2 powi (?k - 1) = (2 ^ la / 2 ^ Suc lb :: rat)"
      using powi_diff [of la "Suc lb"] by (simp add: algebra_simps)
    also have "\<dots> < A / B" using rats pos by (intro frac_less2) auto
    finally show ?thesis .
  qed
  have e: "rat_log2 x = (if \<bar>x\<bar> < 2 powi ?k then ?k - 1 else ?k)"
    by (simp add: rat_log2_def ab la_def lb_def)
  show "2 powi (rat_log2 x) \<le> \<bar>x\<bar>" "\<bar>x\<bar> < 2 powi (rat_log2 x + 1)"
    using up lo by (auto simp: e x A_def B_def)
qed

lemma powi_mono: "i \<le> j \<Longrightarrow> (2 :: rat) powi i \<le> 2 powi j"
  by (rule power_int_increasing) auto

lemma powi_less_cancel: "(2 :: rat) powi i < 2 powi j \<Longrightarrow> i < j"
  using powi_mono [of j i] by linarith

lemma rat_log2_unique:
  assumes "2 powi e \<le> \<bar>x\<bar>" and "\<bar>x\<bar> < 2 powi (e + 1)"
  shows "rat_log2 x = e"
proof -
  have "(0 :: rat) < 2 powi e" by simp
  with assms(1) have x: "x \<noteq> 0" by (metis abs_zero not_le)
  have "2 powi (rat_log2 x) < (2 :: rat) powi (e + 1)" "2 powi e < (2 :: rat) powi (rat_log2 x + 1)"
    using rat_log2_bounds [OF x] assms by linarith+
  then have "rat_log2 x < e + 1" "e < rat_log2 x + 1" by (auto dest: powi_less_cancel)
  then show ?thesis by simp
qed

lemma round_to_error:
  "\<bar>round_to p qmin x - x\<bar> \<le> 2 powi (ulp_exponent p qmin x) / 2"
proof (cases "x = 0")
  case False
  let ?q = "2 powi (ulp_exponent p qmin x) :: rat"
  have q: "0 < ?q" by simp
  have "\<bar>of_int (round_half_even (x / ?q)) - x / ?q\<bar> * ?q \<le> 1 / 2 * ?q"
    using q by (intro mult_right_mono round_half_even_error) auto
  moreover have "\<bar>of_int (round_half_even (x / ?q)) - x / ?q\<bar> * ?q = \<bar>of_int (round_half_even (x / ?q)) * ?q - x\<bar>"
    using q by (simp add: abs_mult_pos' flip: abs_mult_pos)  (simp add: field_simps)
  ultimately show ?thesis using False by (simp add: round_to_def Let_def)
qed (simp add: round_to_def)

lemma round_to_magnitude:
  assumes "\<bar>x\<bar> \<le> b" "1 \<le> b" "1 \<le> p" "qmin \<le> 0"
  shows "\<bar>round_to p qmin x\<bar> \<le> 2 * b"
proof (cases "x = 0")
  case False
  have "2 powi (ulp_exponent p qmin x) \<le> b"
  proof (cases "rat_log2 x - (int p - 1) \<le> qmin")
    case True
    then have "2 powi (ulp_exponent p qmin x) \<le> (2 powi 0 :: rat)"
      using assms(4) by (intro powi_mono) (simp add: ulp_exponent_def)
    then show ?thesis using assms(2) by simp
  next
    case less: False
    then have "2 powi (ulp_exponent p qmin x) \<le> (2 powi (rat_log2 x) :: rat)"
      using assms(3) by (intro powi_mono) (simp add: ulp_exponent_def)
    then show ?thesis using rat_log2_bounds(1) [OF False] assms(1) by linarith
  qed
  then show ?thesis using round_to_error [of p qmin x] assms(1) unfolding abs_le_iff by linarith
qed (use assms in \<open>simp add: round_to_def\<close>)

lemma round_to_relative:
  assumes "2 powi (qmin + (int p - 1)) \<le> \<bar>x\<bar>"
  shows "\<bar>round_to p qmin x - x\<bar> \<le> 2 powi (- int p) * \<bar>x\<bar>"
proof -
  have "(0 :: rat) < 2 powi (qmin + (int p - 1))" by simp
  with assms have x: "x \<noteq> 0" by (metis abs_zero not_le)
  have "2 powi (qmin + (int p - 1)) < (2 :: rat) powi (rat_log2 x + 1)"
    using assms rat_log2_bounds(2) [OF x] by linarith
  then have "qmin + (int p - 1) < rat_log2 x + 1" by (rule powi_less_cancel)
  then have q: "ulp_exponent p qmin x = rat_log2 x - (int p - 1)"
    by (simp add: ulp_exponent_def)
  have "2 powi (rat_log2 x - (int p - 1)) / 2 = 2 powi (- int p) * (2 :: rat) powi (rat_log2 x)"
    by (simp add: power_int_diff power_int_minus field_simps power_int_add)
  also have "\<dots> \<le> 2 powi (- int p) * \<bar>x\<bar>"
    by (intro mult_left_mono rat_log2_bounds(1) x) auto
  finally show ?thesis using round_to_error [of p qmin x] q by simp
qed

text \<open>A value with at most \<open>p\<close> significant bits and a representable last bit is kept.\<close>

lemma round_to_exact:
  assumes "\<bar>m\<bar> < 2 ^ p" and "qmin \<le> q"
  shows "round_to p qmin (of_int m * 2 powi q) = of_int m * 2 powi q"
proof (cases "m = 0")
  case False
  let ?x = "of_int m * 2 powi q :: rat"
  have x: "?x \<noteq> 0" using False by simp
  have "of_int \<bar>m\<bar> < (2 :: rat) ^ p"
    using assms(1) by (metis of_int_less_iff of_int_numeral of_int_power)
  then have "\<bar>?x\<bar> < 2 ^ p * 2 powi q" by (simp add: abs_mult)
  also have "2 ^ p * 2 powi q = (2 :: rat) powi (int p + q)" by (simp add: power_int_add)
  finally have "rat_log2 ?x < int p + q"
    using rat_log2_bounds(1) [OF x] powi_less_cancel by (meson le_less_trans)
  then have u: "ulp_exponent p qmin ?x \<le> q" using assms(2) by (simp add: ulp_exponent_def)
  define d where "d = nat (q - ulp_exponent p qmin ?x)"
  let ?u = "2 powi (ulp_exponent p qmin ?x) :: rat"
  have "q = ulp_exponent p qmin ?x + int d" using u by (simp add: d_def)
  then have q: "2 powi q = ?u * 2 ^ d" by (metis powi_add_nat)
  have "?x / ?u = of_int (m * 2 ^ d)" by (subst (1) q) simp
  then have "round_to p qmin ?x = of_int (m * 2 ^ d) * ?u"
    using x by (simp only: round_to_def Let_def round_half_even_int if_False)
  also have "\<dots> = ?x" by (subst (2) q) simp
  finally show ?thesis .
qed (simp add: round_to_def)

section \<open>Signed values of words\<close>

lemma sint_i16_of_int: "-32768 \<le> i \<Longrightarrow> i \<le> 32767 \<Longrightarrow> sint (word_of_int i :: i16) = i"
  by (simp add: sint_sbintrunc' signed_take_bit_int_eq_self)

lemma sint_i32_of_int: "- 2147483648 \<le> i \<Longrightarrow> i < 2147483648 \<Longrightarrow> sint (word_of_int i :: 32 word) = i"
  by (simp add: sint_sbintrunc' signed_take_bit_int_eq_self)

lemma sint_i16_bounds: "-32768 \<le> sint (v :: i16)" "sint v \<le> 32767"
  using sint_range_size [of v] by (simp_all add: word_size)

lemma sint_i64_of_int: "- (2 ^ 63) \<le> i \<Longrightarrow> i < 2 ^ 63 \<Longrightarrow> sint (word_of_int i :: i64) = i"
  by (simp add: sint_sbintrunc' signed_take_bit_int_eq_self)

lemma word_of_int_sint: "word_of_int (sint v) = (v :: 'a::len word)"
  by (simp add: of_int_sint)

section \<open>Representable values\<close>

text \<open>Representable values are the multiples \<open>m * 2 powi q\<close> with a short \<open>m\<close>.\<close>

lemma round_to_fixed_form:
  assumes "round_to p qmin x = x"
  obtains m q where "x = of_int m * 2 powi q" and "\<bar>m\<bar> < 2 ^ p" and "qmin \<le> q"
proof (cases "x = 0")
  case False
  show thesis
  proof
    let ?q = "ulp_exponent p qmin x"
    let ?m = "round_half_even (x / 2 powi ?q)"
    show x: "x = of_int ?m * 2 powi ?q" using False assms by (simp add: round_to_def Let_def)
    show "qmin \<le> ?q" by (simp add: ulp_exponent_def)
    have "\<bar>x\<bar> < 2 powi (rat_log2 x + 1)" using False by (rule rat_log2_bounds)
    also have "\<dots> \<le> 2 powi (?q + int p)" by (rule powi_mono) (simp add: ulp_exponent_def)
    also have "\<dots> = 2 ^ p * 2 powi ?q" by (simp only: powi_add_nat mult.commute)
    finally have "\<bar>of_int ?m\<bar> * 2 powi ?q < (2 :: rat) ^ p * 2 powi ?q"
      by (subst (asm) x) (simp add: abs_mult)
    then have "\<bar>of_int ?m\<bar> < (2 :: rat) ^ p" by (rule mult_right_less_imp_less) simp
    then have "of_int \<bar>?m\<bar> < (of_int (2 ^ p) :: rat)" by simp
    then show "\<bar>?m\<bar> < 2 ^ p" by (simp only: of_int_less_iff)
  qed
qed (use that [of 0 qmin] in simp)

lemma round_to_scale_up:
  assumes "round_to p qmin x = x"
  shows "round_to p qmin (x * 2 ^ n) = x * 2 ^ n"
proof -
  obtain m q where x: "x = of_int m * 2 powi q" and m: "\<bar>m\<bar> < 2 ^ p" and q: "qmin \<le> q"
    using assms by (rule round_to_fixed_form)
  have e: "x * 2 ^ n = of_int m * 2 powi (q + int n)" by (simp add: x powi_add_nat)
  show ?thesis unfolding e using m q by (intro round_to_exact) auto
qed

lemma abs_of_int_le: "\<bar>m\<bar> \<le> k \<Longrightarrow> \<bar>of_int m\<bar> \<le> (of_int k :: rat)"
  by (simp only: of_int_le_iff flip: of_int_abs)

lemma abs_of_int_less: "\<bar>m\<bar> < k \<Longrightarrow> \<bar>of_int m\<bar> < (of_int k :: rat)"
  by (simp only: of_int_less_iff flip: of_int_abs)

section \<open>What numeric code relies on\<close>

locale rounding =
  fixes rnd :: "rat \<Rightarrow> rat" and u lo :: rat
  assumes u_bounds: "0 \<le> u" "u \<le> 1 / 2"
    and lo_bounds: "0 < lo" "lo \<le> 1 / 4"
    and relative: "lo \<le> \<bar>x\<bar> \<Longrightarrow> \<bar>rnd x - x\<bar> \<le> u * \<bar>x\<bar>"
    and rnd_zero: "rnd 0 = 0"
begin

lemma factor:
  assumes "lo \<le> \<bar>x\<bar>"
  obtains d where "\<bar>d\<bar> \<le> u" and "rnd x = x * (1 + d)"
proof
  have x: "x \<noteq> 0" using assms lo_bounds by auto
  show "rnd x = x * (1 + (rnd x - x) / x)" using x by (simp add: field_simps)
  show "\<bar>(rnd x - x) / x\<bar> \<le> u" using relative [OF assms] x by (simp add: field_simps)
qed

lemma factor_pos: "\<bar>d\<bar> \<le> u \<Longrightarrow> 1 / 2 \<le> \<bar>1 + d\<bar>"
  using u_bounds by (auto simp: abs_if split: if_splits)

lemma factor_prod:
  assumes "\<bar>a\<bar> \<le> u" "\<bar>b\<bar> \<le> u" "\<bar>c\<bar> \<le> u"
  shows "\<bar>(1 + a) * (1 + b) * (1 + c) - 1\<bar> \<le> 4 * u + 3 * u\<^sup>2"
proof -
  have ab: "\<bar>a * b\<bar> \<le> u * u" "\<bar>a * c\<bar> \<le> u * u" "\<bar>b * c\<bar> \<le> u * u"
    unfolding abs_mult by (intro mult_mono assms u_bounds abs_ge_zero)+
  have abc: "\<bar>a * b * c\<bar> \<le> u * u * u"
    using ab(1) assms(3) unfolding abs_mult [of "a * b"] by (intro mult_mono) (use u_bounds in auto)
  have "u * u * u \<le> u" 
  proof -
    have "u * u \<le> 1 * 1" using u_bounds by (intro mult_mono) auto
    then have "u * u * u \<le> 1 * u" using u_bounds by (intro mult_right_mono) auto
    then show ?thesis by simp
  qed
  moreover have "(1 + a) * (1 + b) * (1 + c) - 1 = a + b + c + a * b + a * c + b * c + a * b * c"
    by (simp add: algebra_simps)
  moreover note bounds = assms ab abc
  note bounds [THEN abs_le_D1] bounds [THEN abs_le_D2]
  ultimately show ?thesis unfolding power2_eq_square abs_le_iff by linarith
qed

text \<open>
  Dividing 1 by a scale, multiplying an integer by the quotient, and multiplying the result
  by the scale again: the three roundings lose less than \<open>4 u + 3 u\<^sup>2\<close> of the integer.
\<close>

lemma rescale_error:
  fixes i :: int
  assumes s: "s \<noteq> 0" "2 * lo \<le> \<bar>1 / s\<bar>"
  shows "\<bar>rnd (rnd (of_int i * rnd (1 / s)) * s) - of_int i\<bar> \<le> (4 * u + 3 * u\<^sup>2) * of_int \<bar>i\<bar>"
proof (cases "i = 0")
  case False
  then have i: "1 \<le> \<bar>of_int i :: rat\<bar>" by (simp flip: of_int_abs)
  from s(2) lo_bounds have "lo \<le> \<bar>1 / s\<bar>" by linarith
  then obtain a where a: "\<bar>a\<bar> \<le> u" "rnd (1 / s) = 1 / s * (1 + a)" by (rule factor)
  have "1 * (2 * lo * (1 / 2)) \<le> \<bar>of_int i\<bar> * (\<bar>1 / s\<bar> * \<bar>1 + a\<bar>)"
    using i s lo_bounds factor_pos [OF a(1)] by (intro mult_mono) auto
  then have "lo \<le> \<bar>of_int i * rnd (1 / s)\<bar>" by (simp add: a(2) abs_mult)
  then obtain b where b: "\<bar>b\<bar> \<le> u" "rnd (of_int i * rnd (1 / s)) = of_int i * rnd (1 / s) * (1 + b)"
    by (rule factor)
  have e: "rnd (of_int i * rnd (1 / s)) * s = of_int i * ((1 + a) * (1 + b))"
    by (subst b(2)) (use s in \<open>simp add: a(2)\<close>)
  have "1 * (1 / 2 * (1 / 2)) \<le> \<bar>of_int i\<bar> * (\<bar>1 + a\<bar> * \<bar>1 + b\<bar>)"
    using i factor_pos [OF a(1)] factor_pos [OF b(1)] by (intro mult_mono) auto
  then have "lo \<le> \<bar>rnd (of_int i * rnd (1 / s)) * s\<bar>"
    using lo_bounds unfolding e by (simp add: abs_mult)
  then obtain c where c: "\<bar>c\<bar> \<le> u"
    "rnd (rnd (of_int i * rnd (1 / s)) * s) = rnd (of_int i * rnd (1 / s)) * s * (1 + c)"
    by (rule factor)
  have "rnd (rnd (of_int i * rnd (1 / s)) * s) - of_int i =
      ((1 + a) * (1 + b) * (1 + c) - 1) * of_int i"
    by (subst c(2), subst e) (simp add: algebra_simps)
  then show ?thesis
    using factor_prod [OF a(1) b(1) c(1)] by (simp add: abs_mult mult_right_mono)
qed (simp add: rnd_zero)

lemma magnitude: "lo \<le> \<bar>x\<bar> \<Longrightarrow> \<bar>rnd x\<bar> \<le> 2 * \<bar>x\<bar>"
  using relative [of x] u_bounds mult_right_mono [of u "1 / 2" "\<bar>x\<bar>"] by simp

end

interpretation binary32: rounding "round_to 24 (-149)" "2 powi (-24)" "2 powi (-126)"
proof
  show "\<bar>round_to 24 (-149) x - x\<bar> \<le> 2 powi (-24) * \<bar>x\<bar>" if "2 powi (-126) \<le> \<bar>x\<bar>" for x
    using round_to_relative [of "-149" 24 x] that by simp
qed (simp_all add: round_to_def power_int_minus)

interpretation binary64: rounding "round_to 53 (-1074)" "2 powi (-53)" "2 powi (-1022)"
proof
  show "\<bar>round_to 53 (-1074) x - x\<bar> \<le> 2 powi (-53) * \<bar>x\<bar>" if "2 powi (-1022) \<le> \<bar>x\<bar>" for x
    using round_to_relative [of "-1074" 53 x] that by simp
qed (simp_all add: round_to_def power_int_minus)

end
