(* ===== verification/SignalDataPacket.thy ===== *)
theory SignalDataPacket
  imports PacketHeader FloatModel
begin

text \<open>
  \<open>src/libs/Vita49_2/SignalDataPacket.cpp\<close>: decoding and encoding a packet of 16-bit I/Q pairs.
  A sample is a pair of \<open>float\<close> values; \<open>quantise\<close> is the conversion to \<open>int16_t\<close> inside the
  encoder (multiply, \<open>lroundf\<close>, cast to \<open>int\<close>, \<open>clamp\<close>, cast to \<open>int16_t\<close>) and \<open>dequantise\<close>
  the one inside the decoder.

  The lemmas show that decoding never leaves the buffer, the exact size and capacity of an
  encoded packet, that decoding inverts encoding up to quantisation, that re-encoding decoded
  samples is bit-exact for every scale factor in a wide range, the accuracy at the default
  scale, and where the saturation of the encoder holds and fails.
\<close>

type_synonym IQSample = "fp \<times> fp"

definition DEFAULT_SCALE_FACTOR :: fp where
  "DEFAULT_SCALE_FACTOR = Finite 32768"

record SignalDecodeResult =
  sd_header :: PacketHeader
  sd_samples :: "IQSample list"

definition readI16 :: "ByteOrder \<Rightarrow> bytes \<Rightarrow> i16 outcome" where
  "readI16 order p = (if order = BigEndian then readI16BE p else readI16LE p)"

definition writeI16 :: "ByteOrder \<Rightarrow> bytes \<Rightarrow> i16 \<Rightarrow> bytes outcome" where
  "writeI16 order p v = (if order = BigEndian then writeI16BE p v else writeI16LE p v)"

definition i16Bytes :: "ByteOrder \<Rightarrow> i16 \<Rightarrow> bytes" where
  "i16Bytes order v = (if order = BigEndian then bytesU16BE v else bytesU16LE v)"

interpretation word16: wire_word 2 "readI16 order" "writeI16 order" "i16Bytes order"
  for order
  unfolding readI16_def [abs_def] writeI16_def [abs_def] i16Bytes_def [abs_def]
    readI16BE_def readI16LE_def writeI16BE_def writeI16LE_def
  by (rule wire_word_if) unfold_locales

lemmas [simp, wire_simps] = word16.length_enc

section \<open>decode\<close>

definition dequantise :: "fp \<Rightarrow> i16 \<Rightarrow> fp" where
  "dequantise invScale v = float_mul (float_of_int (sint v)) invScale"

definition decode_sample :: "ByteOrder \<Rightarrow> fp \<Rightarrow> bytes \<Rightarrow> IQSample outcome" where
  "decode_sample order invScale word =
     obind (readI16 order word) (\<lambda>iVal. obind (readI16 order (drop 2 word)) (\<lambda>qVal.
       Inr (dequantise invScale iVal, dequantise invScale qVal)))"

definition decode_samples :: "ByteOrder \<Rightarrow> fp \<Rightarrow> bytes \<Rightarrow> nat \<Rightarrow> IQSample list outcome" where
  "decode_samples order invScale payload numSamples =
     omap (\<lambda>i. decode_sample order invScale (drop (i * 4) payload)) [0..<numSamples]"

definition signal_decode ::
  "bytes option \<Rightarrow> nat \<Rightarrow> ByteOrder \<Rightarrow> fp \<Rightarrow> nat \<Rightarrow> (SignalDecodeResult option \<times> nat) outcome"
where
  "signal_decode data len order scaleFactor bytesConsumed =
    (case data of
       None \<Rightarrow> Inr (None, bytesConsumed)
     | Some buf \<Rightarrow>
         if len < 4 \<or> scaleFactor = Finite 0 then Inr (None, bytesConsumed)
         else obind (parse data len order default_PacketHeader 0) (\<lambda>(ok, header, headerBytes).
           if \<not> ok then Inr (None, bytesConsumed)
           else if \<not> isDataPacket (packetType header) then Inr (None, bytesConsumed)
           else
             let packetBytes = unat (packetSize header) * 4;
                 trailerBytes = (if trailerPresent header then 4 else 0)
             in if headerBytes + trailerBytes > packetBytes then Inr (None, bytesConsumed)
                else
                  let payloadBytes = packetBytes - headerBytes - trailerBytes;
                      numSamples = payloadBytes div 4;
                      payload = drop headerBytes buf;
                      invScale = float_div (Finite 1) scaleFactor
                  in obind (decode_samples order invScale payload numSamples) (\<lambda>samples.
                       Inr (Some \<lparr>sd_header = header, sd_samples = samples\<rparr>, packetBytes))))"

section \<open>encode\<close>

definition clamp :: "int \<Rightarrow> int \<Rightarrow> int \<Rightarrow> int" where
  "clamp v lo hi = (if v < lo then lo else if hi < v then hi else v)"

definition quantise :: "fp \<Rightarrow> fp \<Rightarrow> i16 outcome" where
  "quantise scaleFactor x =
     obind (lroundf (float_mul x scaleFactor)) (\<lambda>l.
       let raw = sint (word_of_int l :: 32 word)
       in Inr (word_of_int (clamp raw (-32768) 32767)))"

definition encode_sample :: "ByteOrder \<Rightarrow> fp \<Rightarrow> IQSample \<Rightarrow> bytes outcome" where
  "encode_sample order scaleFactor sample =
     obind (quantise scaleFactor (fst sample)) (\<lambda>i16.
     obind (quantise scaleFactor (snd sample)) (\<lambda>q16.
     obind (writeI16 order (replicate 4 0) i16) (\<lambda>word.
     write_at word 2 (\<lambda>p. writeI16 order p q16))))"

fun encode_samples :: "ByteOrder \<Rightarrow> fp \<Rightarrow> IQSample list \<Rightarrow> bytes \<Rightarrow> bytes outcome" where
  "encode_samples order scaleFactor [] out = Inr out"
| "encode_samples order scaleFactor (sample # samples) out =
     obind (encode_sample order scaleFactor sample) (\<lambda>word.
       encode_samples order scaleFactor samples (out @ word))"

definition signal_header ::
  "u32 \<Rightarrow> u8 \<Rightarrow> TSI \<Rightarrow> TSF \<Rightarrow> u32 \<Rightarrow> u64 \<Rightarrow> bool \<Rightarrow> PacketHeader" where
  "signal_header sid count tsi tsf intTimestamp fracTimestamp includeTrailer =
     default_PacketHeader\<lparr>
       packetType := IFDataWithStreamId, classIdPresent := False,
       trailerPresent := includeTrailer, tsiType := tsi, tsfType := tsf,
       packetCount := count AND 0xF, streamId := Some sid,
       integerTimestamp := (if tsi \<noteq> TSI_None then Some intTimestamp else None),
       fractionalTimestamp := (if tsf \<noteq> TSF_None then Some fracTimestamp else None)\<rparr>"

definition signal_encode ::
  "u32 \<Rightarrow> IQSample list \<Rightarrow> u8 \<Rightarrow> ByteOrder \<Rightarrow> fp \<Rightarrow> TSI \<Rightarrow> TSF \<Rightarrow> u32 \<Rightarrow> u64 \<Rightarrow> bool \<Rightarrow> bytes outcome"
where
  "signal_encode sid samples count order scaleFactor tsi tsf intTimestamp fracTimestamp includeTrailer =
    (let header = signal_header sid count tsi tsf intTimestamp fracTimestamp includeTrailer;
         headerWords = sizeInWords header;
         trailerWords = (if includeTrailer then 1 else 0);
         payloadWords = length samples;
         totalWords = headerWords + payloadWords + trailerWords
     in if totalWords > unat MAX_PACKET_SIZE_WORDS then Inr []
        else
          let header = header\<lparr>packetSize := of_nat totalWords\<rparr>
          in obind (serialize header order []) (\<lambda>out.
             obind (encode_samples order scaleFactor samples out) (\<lambda>out.
               Inr (if includeTrailer then out @ [0] @ [0] @ [0] @ [0] else out))))"

section \<open>maxSamplesPerPacket\<close>

definition maxSamplesPerPacket :: "TSI \<Rightarrow> TSF \<Rightarrow> bool \<Rightarrow> bool \<Rightarrow> nat" where
  "maxSamplesPerPacket tsi tsf classId includeTrailer =
    (let headerWords = 2;
         headerWords = (if classId then headerWords + 2 else headerWords);
         headerWords = (if tsi \<noteq> TSI_None then headerWords + 1 else headerWords);
         headerWords = (if tsf \<noteq> TSF_None then headerWords + 2 else headerWords);
         trailerWords = (if includeTrailer then 1 else 0);
         overhead = headerWords + trailerWords
     in if overhead \<ge> unat MAX_PACKET_SIZE_WORDS then 0
        else unat MAX_PACKET_SIZE_WORDS - overhead)"

section \<open>Decoding\<close>

definition pairBytes :: "ByteOrder \<Rightarrow> i16 \<times> i16 \<Rightarrow> bytes" where
  "pairBytes order p = i16Bytes order (fst p) @ i16Bytes order (snd p)"

definition dequantise_pair :: "fp \<Rightarrow> i16 \<times> i16 \<Rightarrow> IQSample" where
  "dequantise_pair invScale p = (dequantise invScale (fst p), dequantise invScale (snd p))"

lemma length_pairBytes [simp]: "length (pairBytes order p) = 4"
  by (simp add: pairBytes_def)

lemma length_concat_pairs [simp]: "length (concat (map (pairBytes order) ps)) = 4 * length ps"
  by (induction ps) auto

lemma decode_sample_wire:
  "decode_sample order invS (pairBytes order p @ rest) = Inr (dequantise_pair invS p)"
  by (simp add: decode_sample_def pairBytes_def dequantise_pair_def word16.rd_enc)

lemma decode_sample_safe: "4 \<le> length w \<Longrightarrow> safe (decode_sample order invS w)"
  by (auto simp: decode_sample_def intro!: safe_obind word16.rd_long)

lemma decode_samples_safe:
  "4 * n \<le> length payload \<Longrightarrow> safe (decode_samples order invS payload n)"
  unfolding decode_samples_def
  by (intro omap_safe decode_sample_safe) auto

lemma drop_pairBytes: "drop (4 + n) (pairBytes order p @ xs) = drop n xs"
  by simp

lemma drop_concat_pairs:
  "i < length ps \<Longrightarrow> drop (i * 4) (concat (map (pairBytes order) ps) @ rest) =
     pairBytes order (ps ! i) @ drop (Suc i * 4) (concat (map (pairBytes order) ps) @ rest)"
proof (induction ps arbitrary: i)
  case (Cons p ps)
  show ?case
  proof (cases i)
    case 0
    then show ?thesis using drop_pairBytes [of 0 order p] by (simp del: drop_append)
  next
    case (Suc j)
    then have "j < length ps" using Cons.prems by simp
    from Cons.IH [OF this] Suc show ?thesis
      using drop_pairBytes [of "j * 4" order p] drop_pairBytes [of "Suc j * 4" order p]
      by (simp del: drop_append)
  qed
qed simp

lemma decode_samples_wire:
  "decode_samples order invS (concat (map (pairBytes order) ps) @ rest) (length ps) =
     Inr (map (dequantise_pair invS) ps)"
proof -
  have "omap (\<lambda>i. decode_sample order invS (drop (i * 4) (concat (map (pairBytes order) ps) @ rest)))
      [0..<length ps] = Inr (map (\<lambda>i. dequantise_pair invS (ps ! i)) [0..<length ps])"
    by (rule omap_total) (simp add: drop_concat_pairs decode_sample_wire del: drop_append)
  then show ?thesis
    using map_nth [of ps] by (simp add: decode_samples_def flip: map_map [unfolded comp_def])
qed

lemma signal_decode_total:
  assumes "len \<le> length buf"
  shows "\<exists>r n. signal_decode (Some buf) len order sf bc = Inr (r, n) \<and>
    (case r of None \<Rightarrow> n = bc
     | Some d \<Rightarrow> let h = sd_header d in
         parse (Some buf) len order default_PacketHeader 0 = Inr (True, h, sizeInBytes h) \<and>
         isDataPacket (packetType h) \<and> n = 4 * unat (packetSize h) \<and> n \<le> len \<and> 0 < n \<and>
         4 * length (sd_samples d) + sizeInBytes h + (if trailerPresent h then 4 else 0) = n)"
proof -
  obtain ok h hb where p: "parse (Some buf) len order default_PacketHeader 0 = Inr (ok, h, hb)"
    using parse_accepted [OF assms, of order default_PacketHeader 0]
      parse_rejected [OF assms, of order default_PacketHeader 0] by blast
  let ?tr = "if trailerPresent h then 4 else 0 :: nat"
  show ?thesis
  proof (cases "4 \<le> len \<and> sf \<noteq> Finite 0 \<and> ok \<and> isDataPacket (packetType h) \<and>
      hb + ?tr \<le> unat (packetSize h) * 4")
    case True
    then have ok: ok by blast
    note ph = parsed_header [OF p [simplified ok] assms]
    let ?n = "(unat (packetSize h) * 4 - hb - ?tr) div 4"
    have n: "4 * ?n + hb + ?tr = unat (packetSize h) * 4"
    proof -
      have "?tr = 4 * (?tr div 4)" by simp
      then show ?thesis using True ph(1,2) unfolding sizeInBytes_def by (auto split: if_splits)
    qed
    have "safe (decode_samples order (float_div (Finite 1) sf) (drop hb buf) ?n)"
      by (rule decode_samples_safe) (use n ph(3) assms in simp)
    then obtain xs where xs: "decode_samples order (float_div (Finite 1) sf) (drop hb buf) ?n = Inr xs"
      by (auto simp: safe_iff_ex)
    then have "length xs = ?n" by (auto simp: decode_samples_def dest: omap_length)
    moreover have "0 < unat (packetSize h)" using ph(4) by (simp add: unat_gt_0)
    ultimately show ?thesis
      using True p n xs ph ok by (auto simp: signal_decode_def Let_def mult.commute)
  next
    case False
    then show ?thesis using p by (auto simp: signal_decode_def Let_def)
  qed
qed

section \<open>Encoding\<close>

definition quantise_pair :: "fp \<Rightarrow> IQSample \<Rightarrow> (i16 \<times> i16) outcome" where
  "quantise_pair sf s = obind (quantise sf (fst s)) (\<lambda>i. obind (quantise sf (snd s)) (\<lambda>q. Inr (i, q)))"

lemma encode_sample_eq:
  "encode_sample order sf s = obind (quantise_pair sf s) (\<lambda>p. Inr (pairBytes order p))"
proof -
  have r: "replicate 4 0 = ([0, 0] @ [0, 0] :: bytes)" by (simp add: numeral_eq_Suc)
  have "obind (writeI16 order (replicate 4 0) i) (\<lambda>word. write_at word 2 (\<lambda>p. writeI16 order p q)) =
      Inr (i16Bytes order i @ i16Bytes order q)" for i q
    unfolding r by (simp add: word16.wr_long write_at_def)
  then show ?thesis
    by (cases "quantise sf (fst s)"; cases "quantise sf (snd s)")
      (simp_all add: encode_sample_def quantise_pair_def pairBytes_def)
qed

lemma encode_samples_eq:
  "encode_samples order sf samples out =
     obind (omap (quantise_pair sf) samples) (\<lambda>ps. Inr (out @ concat (map (pairBytes order) ps)))"
proof (induction samples arbitrary: out)
  case (Cons s samples)
  then show ?case
    by (cases "quantise_pair sf s"; cases "omap (quantise_pair sf) samples")
      (simp_all add: encode_sample_eq)
qed simp

definition signal_words :: "TSI \<Rightarrow> TSF \<Rightarrow> bool \<Rightarrow> nat \<Rightarrow> nat" where
  "signal_words tsi tsf includeTrailer n =
     2 + (if tsi \<noteq> TSI_None then 1 else 0) + (if tsf \<noteq> TSF_None then 2 else 0) + n +
     (if includeTrailer then 1 else 0)"

definition sent_header ::
  "u32 \<Rightarrow> u8 \<Rightarrow> TSI \<Rightarrow> TSF \<Rightarrow> u32 \<Rightarrow> u64 \<Rightarrow> bool \<Rightarrow> nat \<Rightarrow> PacketHeader" where
  "sent_header sid count tsi tsf it ft includeTrailer n =
     (signal_header sid count tsi tsf it ft includeTrailer)
       \<lparr>packetSize := of_nat (signal_words tsi tsf includeTrailer n)\<rparr>"

lemma sent_header_fields [simp]:
  "packetType (sent_header sid count tsi tsf it ft tr n) = IFDataWithStreamId"
  "classIdPresent (sent_header sid count tsi tsf it ft tr n) = False"
  "trailerPresent (sent_header sid count tsi tsf it ft tr n) = tr"
  "tsiType (sent_header sid count tsi tsf it ft tr n) = tsi"
  "tsfType (sent_header sid count tsi tsf it ft tr n) = tsf"
  "packetCount (sent_header sid count tsi tsf it ft tr n) = count AND 0xF"
  "packetSize (sent_header sid count tsi tsf it ft tr n) = of_nat (signal_words tsi tsf tr n)"
  "streamId (sent_header sid count tsi tsf it ft tr n) = Some sid"
  "classIdOUI (sent_header sid count tsi tsf it ft tr n) = None"
  "informationClassCode (sent_header sid count tsi tsf it ft tr n) = None"
  "packetClassCode (sent_header sid count tsi tsf it ft tr n) = None"
  "integerTimestamp (sent_header sid count tsi tsf it ft tr n) =
     (if tsi \<noteq> TSI_None then Some it else None)"
  "fractionalTimestamp (sent_header sid count tsi tsf it ft tr n) =
     (if tsf \<noteq> TSF_None then Some ft else None)"
  by (simp_all add: sent_header_def signal_header_def)

lemma sent_header_words:
  "sizeInWords (sent_header sid count tsi tsf it ft tr n) + n + (if tr then 1 else 0) =
     signal_words tsi tsf tr n"
  by (simp add: sizeInWords_def signal_words_def hasStreamId_def Let_def)

lemma signal_header_words:
  "sizeInWords (signal_header sid count tsi tsf it ft tr) =
     sizeInWords (sent_header sid count tsi tsf it ft tr n)"
  by (rule sizeInWords_cong) (simp_all add: signal_header_def)

lemma wf_sent_header: "wf_header (sent_header sid count tsi tsf it ft tr n)"
proof -
  have "(count AND 0xF :: u8) < 16"
    using and_mask_less' [of 4 count] by (simp add: mask_eq_exp_minus_1)
  then show ?thesis
    by (simp add: wf_header_def named_or_4bit_def isDataPacket_def hasStreamId_def)
qed

lemma max_words: "unat MAX_PACKET_SIZE_WORDS = 65535"
  by (simp add: MAX_PACKET_SIZE_WORDS_def)

lemma maxSamplesPerPacket_eq: "maxSamplesPerPacket tsi tsf False tr = 65535 - signal_words tsi tsf tr 0"
  by (simp add: maxSamplesPerPacket_def signal_words_def max_words Let_def)

lemma fits_iff: "signal_words tsi tsf tr n \<le> 65535 \<longleftrightarrow> n \<le> maxSamplesPerPacket tsi tsf False tr"
  by (simp add: maxSamplesPerPacket_eq signal_words_def)

text \<open>The whole packet, given the quantised samples.\<close>

definition signal_wire ::
  "u32 \<Rightarrow> (i16 \<times> i16) list \<Rightarrow> u8 \<Rightarrow> ByteOrder \<Rightarrow> TSI \<Rightarrow> TSF \<Rightarrow> u32 \<Rightarrow> u64 \<Rightarrow> bool \<Rightarrow> bytes" where
  "signal_wire sid ps count order tsi tsf it ft tr =
     header_wire order (sent_header sid count tsi tsf it ft tr (length ps)) @
     concat (map (pairBytes order) ps) @ (if tr then [0, 0, 0, 0] else [])"

lemma signal_encode_eq:
  "signal_encode sid samples count order sf tsi tsf it ft tr =
    (if maxSamplesPerPacket tsi tsf False tr < length samples then Inr []
     else obind (omap (quantise_pair sf) samples) (\<lambda>ps.
       Inr (signal_wire sid ps count order tsi tsf it ft tr)))"
proof -
  let ?n = "length samples"
  have w: "sizeInWords (signal_header sid count tsi tsf it ft tr) + ?n + (if tr then 1 else 0) =
      signal_words tsi tsf tr ?n"
    using sent_header_words [of sid count tsi tsf it ft tr ?n]
      signal_header_words [of sid count tsi tsf it ft tr ?n] by simp
  show ?thesis
  proof (cases "omap (quantise_pair sf) samples")
    case (Inr ps)
    then have "length ps = ?n" by (rule omap_length)
    with Inr show ?thesis
      by (auto simp: signal_encode_def Let_def w max_words serialize_eq encode_samples_eq
          signal_wire_def fits_iff simp flip: not_le sent_header_def)
  qed (auto simp: signal_encode_def Let_def w max_words serialize_eq encode_samples_eq fits_iff
      simp flip: not_le)
qed

lemma length_signal_wire:
  "length (signal_wire sid ps count order tsi tsf it ft tr) = 4 * signal_words tsi tsf tr (length ps)"
proof -
  have l: "length (header_wire order (sent_header sid count tsi tsf it ft tr (length ps))) =
      sizeInWords (sent_header sid count tsi tsf it ft tr (length ps)) * 4"
    by (simp add: length_header_wire wf_sent_header sizeInBytes_def)
  show ?thesis
    using sent_header_words [of sid count tsi tsf it ft tr "length ps"]
    by (simp add: signal_wire_def l split: if_splits)
qed

lemma signal_decode_wire:
  assumes fits: "length ps \<le> maxSamplesPerPacket tsi tsf False tr" and sf: "sf \<noteq> Finite 0"
    and len: "4 * signal_words tsi tsf tr (length ps) \<le> len"
      "len \<le> length (signal_wire sid ps count order tsi tsf it ft tr @ rest)"
  shows "signal_decode (Some (signal_wire sid ps count order tsi tsf it ft tr @ rest)) len order sf bc =
    Inr (Some \<lparr>sd_header = sent_header sid count tsi tsf it ft tr (length ps),
               sd_samples = map (dequantise_pair (float_div (Finite 1) sf)) ps\<rparr>,
         4 * signal_words tsi tsf tr (length ps))"
proof -
  let ?h = "sent_header sid count tsi tsf it ft tr (length ps)"
  let ?w = "signal_words tsi tsf tr (length ps)"
  have w: "?w \<le> 65535" using fits by (simp add: fits_iff)
  then have u: "unat (packetSize ?h) = ?w"
    by (simp add: unat_of_nat take_bit_nat_eq_self)
  have pos: "0 < ?w" by (simp add: signal_words_def)
  have sw: "sizeInWords ?h + length ps + (if tr then 1 else 0) = ?w" by (rule sent_header_words)
  let ?buf = "signal_wire sid ps count order tsi tsf it ft tr @ rest"
  let ?rest = "concat (map (pairBytes order) ps) @ (if tr then [0, 0, 0, 0] else []) @ rest"
  have buf: "?buf = header_wire order ?h @ ?rest" by (simp add: signal_wire_def)
  have p: "parse (Some ?buf) len order default_PacketHeader 0 = Inr (True, ?h, sizeInBytes ?h)"
    unfolding buf
  proof (rule parse_of_serialize)
    show "serialize ?h order [] = Inr (header_wire order ?h)" by (simp add: serialize_eq)
    show "packetSize ?h \<noteq> 0" using u pos by (metis unat_0 less_irrefl)
    show "len \<le> length (header_wire order ?h @ ?rest)" using len(2) buf by simp
  qed (use u sw len(1) in \<open>simp_all add: wf_sent_header\<close>)
  have pl: "drop (sizeInBytes ?h) ?buf = ?rest"
    unfolding buf using length_header_wire [OF wf_sent_header] by simp
  have n: "(?w * 4 - sizeInBytes ?h - (if tr then 4 else 0)) div 4 = length ps"
    using sw by (auto simp: sizeInBytes_def)
  have ok: "\<not> len < 4" using len(1) pos by linarith
  have le: "sizeInBytes ?h + (if tr then 4 else 0) \<le> ?w * 4"
    using sw by (auto simp: sizeInBytes_def)
  have d: "isDataPacket (packetType ?h)" by (simp add: isDataPacket_def)
  have tp: "trailerPresent ?h = tr" by simp
  show ?thesis
    unfolding signal_decode_def option.case if_False p obind_Inr prod.case not_True_eq_False u tp Let_def pl n
    using ok sf le d decode_samples_wire [of order "float_div (Finite 1) sf" ps]
    by (simp add: pl n del: sent_header_fields)
qed

section \<open>Quantisation\<close>

lemma clamp_range: "lo \<le> hi \<Longrightarrow> lo \<le> clamp v lo hi \<and> clamp v lo hi \<le> hi"
  by (simp add: clamp_def)

lemma lroundf_Finite:
  "lroundf (Finite y) = (if in_signed_range 64 (round_half_away y) then Inr (round_half_away y)
     else Inl BadConversion)"
  by (simp add: lroundf_def)

lemma quantise_in_int_range:
  assumes "float_mul x sf = Finite y" and "- 2147483648 \<le> round_half_away y" "round_half_away y < 2147483648"
  shows "quantise sf x = Inr (word_of_int (clamp (round_half_away y) (-32768) 32767))"
  using assms by (simp add: quantise_def lroundf_Finite in_signed_range_def sint_i32_of_int)

definition float32 :: "rat \<Rightarrow> bool" where
  "float32 x \<longleftrightarrow> round32 x = Finite x"

lemma round32_exact:
  assumes "\<bar>m\<bar> < 2 ^ 24" and "-149 \<le> q" and "\<bar>of_int m * 2 powi q\<bar> < (2 :: rat) ^ 128"
  shows "round32 (of_int m * 2 powi q) = Finite (of_int m * 2 powi q)"
  using round_to_exact [of m 24 "-149" q] assms by (simp add: round32_def fp_round_def)

lemma round32_int: "\<bar>m\<bar> < 2 ^ 24 \<Longrightarrow> round32 (of_int m) = Finite (of_int m)"
proof -
  assume m: "\<bar>m\<bar> < 2 ^ 24"
  then have "of_int \<bar>m\<bar> < (of_int (2 ^ 24) :: rat)" by (simp only: of_int_less_iff)
  then have "\<bar>of_int m\<bar> < (2 :: rat) ^ 128" by simp
  with round32_exact [of m 0] m show ?thesis by simp
qed

lemma float_of_int_i16: "float_of_int (sint (v :: i16)) = Finite (of_int (sint v))"
  using sint_i16_bounds [of v] by (auto simp: float_of_int_def intro!: round32_int)

lemma float32_scale_up:
  assumes "float32 x" and "\<bar>x * 2 ^ n\<bar> < 2 ^ 128"
  shows "round32 (x * 2 ^ n) = Finite (x * 2 ^ n)"
proof -
  have "round_to 24 (-149) x = x"
    using assms(1) by (auto simp: float32_def round32_def fp_round_def fp_inf_def Let_def split: if_splits)
  from round_to_scale_up [OF this] assms(2) show ?thesis
    by (simp add: round32_def fp_round_def)
qed

lemma float32_scale_down_i16: "round32 (of_int (sint (v :: i16)) / 32768) = Finite (of_int (sint v) / 32768)"
proof -
  have "\<bar>sint v\<bar> < 2 ^ 24" using sint_i16_bounds [of v] by auto
  moreover have "of_int (sint v) / 32768 = (of_int (sint v) * 2 powi (-15) :: rat)"
    by (simp add: power_int_minus field_simps)
  moreover have "\<bar>of_int (sint v) / 32768\<bar> < (2 :: rat) ^ 128"
  proof -
    have "of_int \<bar>sint v\<bar> \<le> (of_int 32768 :: rat)"
      using sint_i16_bounds [of v] unfolding of_int_le_iff by linarith
    then have ri: "\<bar>of_int (sint v)\<bar> \<le> (32768 :: rat)" by simp
    have "\<bar>of_int (sint v) / 32768\<bar> \<le> (1 :: rat)"
      using ri by simp
    then show ?thesis by (rule le_less_trans) simp
  qed
  ultimately show ?thesis using round32_exact [of "sint v" "-15"] by simp
qed

text \<open>At the default scale the decoder computes the exact quotient.\<close>

lemma dequantise_default:
  "dequantise (float_div (Finite 1) DEFAULT_SCALE_FACTOR) v = Finite (of_int (sint v) / 32768)"
proof -
  have "(1 :: rat) / 32768 = of_int 1 * 2 powi (-15)" by (simp add: power_int_minus)
  moreover have "round32 (of_int 1 * 2 powi (-15)) = Finite (of_int 1 * 2 powi (-15))"
    by (rule round32_exact) (simp_all add: power_int_minus)
  ultimately have "float_div (Finite 1) DEFAULT_SCALE_FACTOR = Finite (1 / 32768)"
    by (simp add: float_div_def DEFAULT_SCALE_FACTOR_def)
  then show ?thesis
    using float32_scale_down_i16 [of v] by (simp add: dequantise_def float_of_int_i16 float_mul_def)
qed

lemma round32_near:
  assumes "\<bar>round_to 24 (-149) x\<bar> < 2 ^ 128"
  shows "round32 x = Finite (round_to 24 (-149) x)"
  using assms by (simp add: round32_def fp_round_def)

lemma round32_magnitude: "\<bar>x\<bar> \<le> b \<Longrightarrow> 1 \<le> b \<Longrightarrow> \<bar>round_to 24 (-149) x\<bar> \<le> 2 * b"
  by (rule round_to_magnitude) simp_all

lemma reciprocal_bounds:
  assumes s: "2 powi (-110) \<le> \<bar>s\<bar>" "\<bar>s\<bar> \<le> 2 powi 125"
  shows "\<bar>1 / s\<bar> \<le> 2 ^ 110" and "2 * 2 powi (-126) \<le> \<bar>1 / s\<bar>"
    and "\<bar>round_to 24 (-149) (1 / s)\<bar> \<le> 2 ^ 111"
proof -
  have "(0 :: rat) < 2 powi (-110)" by simp
  with s(1) have s0: "0 < \<bar>s\<bar>" by linarith
  have "1 / \<bar>s\<bar> \<le> 1 / 2 powi (-110)" using s(1) s0 by (intro divide_left_mono) auto
  then show up: "\<bar>1 / s\<bar> \<le> 2 ^ 110" by (simp add: power_int_minus)
  have "1 / 2 powi 125 \<le> 1 / \<bar>s\<bar>" using s(2) s0 by (intro divide_left_mono) auto
  moreover have "(2 :: rat) * 2 powi (-126) = 1 / 2 powi 125" by (simp add: power_int_minus)
  ultimately show lo: "2 * 2 powi (-126) \<le> \<bar>1 / s\<bar>" by simp
  then have "2 powi (-126) \<le> \<bar>1 / s\<bar>" by (rule order_trans [rotated]) simp
  from binary32.magnitude [OF this] up show "\<bar>round_to 24 (-149) (1 / s)\<bar> \<le> 2 ^ 111" by simp
qed

text \<open>Re-encoding a decoded sample.\<close>

lemma requantise:
  assumes s: "2 powi (-110) \<le> \<bar>s\<bar>" "\<bar>s\<bar> \<le> 2 powi 125"
  shows "quantise (Finite s) (dequantise (float_div (Finite 1) (Finite s)) v) = Inr v"
proof -
  let ?r = "round_to 24 (-149)"
  define i where "i = sint v"
  have i: "-32768 \<le> i" "i \<le> 32767" using sint_i16_bounds [of v] by (simp_all add: i_def)
  then have "of_int \<bar>i\<bar> \<le> (of_int 32768 :: rat)" by (simp only: of_int_le_iff)
  then have ri: "\<bar>of_int i\<bar> \<le> (32768 :: rat)" by simp
  have "(0 :: rat) < 2 powi (-110)" by simp
  with s(1) have s0: "s \<noteq> 0" by (metis abs_zero not_le)
  note inv = reciprocal_bounds [OF s]
  have f1: "round32 (1 / s) = Finite (?r (1 / s))"
    by (rule round32_near) (rule le_less_trans [OF inv(3)], simp)
  have "\<bar>of_int i * ?r (1 / s)\<bar> \<le> 32768 * 2 ^ 111"
    unfolding abs_mult using ri inv(3) by (intro mult_mono) auto
  then have "\<bar>?r (of_int i * ?r (1 / s))\<bar> \<le> 2 * (32768 * 2 ^ 111)"
    by (rule round32_magnitude) simp
  then have f2: "round32 (of_int i * ?r (1 / s)) = Finite (?r (of_int i * ?r (1 / s)))"
    by (intro round32_near) (rule le_less_trans, assumption, simp)
  let ?y = "?r (?r (of_int i * ?r (1 / s)) * s)"
  have "\<bar>?y - of_int i\<bar> \<le> (4 * 2 powi (-24) + 3 * (2 powi (-24))\<^sup>2) * of_int \<bar>i\<bar>"
    by (rule binary32.rescale_error [OF s0]) (use inv(2) in simp)
  also have "\<dots> \<le> (4 * 2 powi (-24) + 3 * (2 powi (-24))\<^sup>2) * 32768"
    using ri by (intro mult_left_mono) auto
  also have "\<dots> < (1 / 2 :: rat)" by (simp add: power_int_minus power2_eq_square)
  finally have e: "\<bar>?y - of_int i\<bar> < 1 / 2" .
  then have "\<bar>?y\<bar> < 32769" using ri unfolding abs_less_iff abs_le_iff by linarith
  then have "\<bar>?y\<bar> < 2 ^ 128" by (rule less_trans) simp
  then have f3: "round32 (?r (of_int i * ?r (1 / s)) * s) = Finite ?y" by (rule round32_near)
  have "float_mul (dequantise (float_div (Finite 1) (Finite s)) v) (Finite s) = Finite ?y"
    using s0 float_of_int_i16 [of v, folded i_def] by (simp add: dequantise_def float_mul_def float_div_def float_of_int_i16 i_def [symmetric] f1 f2 f3)
  from quantise_in_int_range [OF this] show ?thesis
    using i by (simp add: round_half_away_unique [OF e] clamp_def) (simp add: i_def of_int_sint)
qed

lemma quantise_out_of_int_range:
  assumes "float_mul x sf = Finite y" and "2 ^ 31 \<le> round_half_away y" "round_half_away y \<le> 2 ^ 32 - 32768"
  shows "quantise sf x = Inr (-32768)"
proof -
  let ?r = "round_half_away y"
  have "(?r + 2147483648) mod 4294967296 = ?r - 2147483648"
  proof -
    have "(?r + 2147483648) mod 4294967296 = (?r - 2147483648 + 4294967296) mod 4294967296"
      by (simp add: add.commute)
    also have "\<dots> = ?r - 2147483648"
      using assms(2,3) unfolding mod_add_self2 by (intro mod_pos_pos_trivial) simp_all
    finally show ?thesis .
  qed
  then have "sint (word_of_int ?r :: 32 word) = ?r - 2 ^ 32" by (simp add: int_word_sint)
  then show ?thesis
    using assms by (auto simp: quantise_def lroundf_Finite in_signed_range_def clamp_def Let_def)
qed

lemma quantise_default:
  assumes "float32 x" and "\<bar>x\<bar> \<le> 1"
  shows "quantise DEFAULT_SCALE_FACTOR (Finite x) =
    Inr (word_of_int (clamp (round_half_away (x * 32768)) (-32768) 32767))"
    and "\<bar>round_half_away (x * 32768)\<bar> \<le> 32768"
proof -
  have b: "\<bar>x * 32768\<bar> \<le> 32768" using assms(2) by (simp add: abs_mult)
  then have "\<bar>x * 32768\<bar> < 2 ^ 128" by (rule le_less_trans) simp
  then have "float_mul (Finite x) DEFAULT_SCALE_FACTOR = Finite (x * 32768)"
    using float32_scale_up [OF assms(1), of 15] by (simp add: float_mul_def DEFAULT_SCALE_FACTOR_def)
  note q = quantise_in_int_range [OF this]
  have "\<bar>of_int (round_half_away (x * 32768))\<bar> \<le> (32768 + 1 / 2 :: rat)"
    using round_half_away_error [of "x * 32768"] b unfolding abs_le_iff by linarith
  then have "\<bar>round_half_away (x * 32768)\<bar> < 32769" unfolding abs_le_iff abs_less_iff by linarith
  then show "\<bar>round_half_away (x * 32768)\<bar> \<le> 32768" by linarith
  then show "quantise DEFAULT_SCALE_FACTOR (Finite x) =
    Inr (word_of_int (clamp (round_half_away (x * 32768)) (-32768) 32767))"
    using q by (auto simp: abs_le_iff)
qed

section \<open>Properties of the signal codec\<close>

text \<open>
  Decoding never reads outside the available bytes.  It either returns nothing and leaves
  \<open>bytesConsumed\<close> alone, or returns the header of a data packet, consumes exactly the size that
  the header announces (at least one word), and returns as many samples as the packet has words
  between header and trailer.
\<close>

theorem signal_decode_safe:
  assumes "len \<le> length buf"
  shows "\<exists>r n. signal_decode (Some buf) len order sf bc = Inr (r, n) \<and>
    (case r of None \<Rightarrow> n = bc
     | Some d \<Rightarrow> let h = sd_header d in
         parse (Some buf) len order default_PacketHeader 0 = Inr (True, h, sizeInBytes h) \<and>
         isDataPacket (packetType h) \<and> n = 4 * unat (packetSize h) \<and> n \<le> len \<and> 0 < n \<and>
         4 * length (sd_samples d) + sizeInBytes h + (if trailerPresent h then 4 else 0) = n)"
  using assms by (rule signal_decode_total)

theorem signal_decode_safe_witness:
  "\<exists>r n. signal_decode (Some [0x10, 0, 0, 3, 0, 0, 0, 7, 0x40, 0, 0xC0, 0]) 12 BigEndian
       DEFAULT_SCALE_FACTOR 0 = Inr (r, n) \<and>
    (case r of None \<Rightarrow> n = 0
     | Some d \<Rightarrow> let h = sd_header d in
         parse (Some [0x10, 0, 0, 3, 0, 0, 0, 7, 0x40, 0, 0xC0, 0]) 12 BigEndian default_PacketHeader 0
           = Inr (True, h, sizeInBytes h) \<and>
         isDataPacket (packetType h) \<and> n = 4 * unat (packetSize h) \<and> n \<le> 12 \<and> 0 < n \<and>
         4 * length (sd_samples d) + sizeInBytes h + (if trailerPresent h then 4 else 0) = n)"
  by (rule signal_decode_safe) simp

lemma example_pair:
  "omap (quantise_pair DEFAULT_SCALE_FACTOR) [(Finite (1 / 2), Finite (- 1 / 4))] = Inr [(0x4000, 0xE000)]"
proof -
  have "(1 / 2 :: rat) = of_int 1 * 2 powi (-1)" "(- 1 / 4 :: rat) = of_int (-1) * 2 powi (-2)"
    by (simp_all add: power_int_minus)
  moreover have "round32 (of_int 1 * 2 powi (-1)) = Finite (of_int 1 * 2 powi (-1))"
    "round32 (of_int (-1) * 2 powi (-2)) = Finite (of_int (-1) * 2 powi (-2))"
    by (intro round32_exact; simp add: power_int_minus)+
  ultimately have "float32 (1 / 2)" "float32 (- 1 / 4)" by (simp_all add: float32_def)
  moreover have "round_half_away (16384 :: rat) = 16384" "round_half_away (-8192 :: rat) = -8192"
    using round_half_away_int [of 16384] round_half_away_int [of "-8192"] by simp_all
  ultimately show ?thesis
    using quantise_default(1) [of "1 / 2"] quantise_default(1) [of "- 1 / 4"]
    by (simp add: quantise_pair_def clamp_def)
qed

text \<open>
  When every sample quantises, encoding yields no packet exactly when there are more samples
  than \<open>maxSamplesPerPacket\<close> allows; otherwise the packet has one word per sample besides header
  and trailer, never more than 65535 words, and its header announces exactly that size.
\<close>

theorem signal_encode_capacity:
  assumes "omap (quantise_pair sf) samples = Inr ps"
  shows "\<exists>wire. signal_encode sid samples count order sf tsi tsf it ft tr = Inr wire \<and>
    (wire = [] \<longleftrightarrow> maxSamplesPerPacket tsi tsf False tr < length samples) \<and>
    (wire \<noteq> [] \<longrightarrow>
       length wire = 4 * unat (packetSize (sent_header sid count tsi tsf it ft tr (length samples))) \<and>
       length wire = sizeInBytes (sent_header sid count tsi tsf it ft tr (length samples)) +
         4 * length samples + (if tr then 4 else 0))"
proof (cases "maxSamplesPerPacket tsi tsf False tr < length samples")
  case False
  let ?w = "signal_words tsi tsf tr (length samples)"
  have w: "?w \<le> 65535" using False by (simp add: fits_iff not_less)
  have l: "length (signal_wire sid ps count order tsi tsf it ft tr) = 4 * ?w"
    using omap_length [OF assms] by (simp add: length_signal_wire)
  moreover have "0 < ?w" by (simp add: signal_words_def)
  moreover have "unat (of_nat ?w :: u16) = ?w" using w by (simp add: unat_of_nat take_bit_nat_eq_self)
  moreover have "4 * ?w = sizeInBytes (sent_header sid count tsi tsf it ft tr (length samples)) +
      4 * length samples + (if tr then 4 else 0)"
    using sent_header_words [of sid count tsi tsf it ft tr "length samples"]
    by (simp add: sizeInBytes_def split: if_splits)
  ultimately show ?thesis
    using False assms by (auto simp: signal_encode_eq)
qed (simp add: signal_encode_eq)

theorem signal_encode_capacity_witness:
  "\<exists>wire. signal_encode 7 [(Finite (1 / 2), Finite (- 1 / 4))] 3 BigEndian DEFAULT_SCALE_FACTOR
      TSI_UTC TSF_None 9 0 True = Inr wire \<and>
    (wire = [] \<longleftrightarrow> maxSamplesPerPacket TSI_UTC TSF_None False True < 1) \<and>
    (wire \<noteq> [] \<longrightarrow>
       length wire = 4 * unat (packetSize (sent_header 7 3 TSI_UTC TSF_None 9 0 True 1)) \<and>
       length wire = sizeInBytes (sent_header 7 3 TSI_UTC TSF_None 9 0 True 1) + 4 * 1 + 4)"
  using signal_encode_capacity [OF example_pair, of 7 3 BigEndian TSI_UTC TSF_None 9 0 True] by simp

text \<open>
  C21. Decoding an encoded packet, whatever bytes follow it, returns the header that was sent and
  the quantised samples scaled back, and consumes exactly the packet.
\<close>

theorem signal_roundtrip:
  assumes "omap (quantise_pair sf) samples = Inr ps"
    and "signal_encode sid samples count order sf tsi tsf it ft tr = Inr wire" and "wire \<noteq> []"
    and "sf \<noteq> Finite 0" and "length wire \<le> len" and "len \<le> length (wire @ rest)"
  shows "signal_decode (Some (wire @ rest)) len order sf bc =
    Inr (Some \<lparr>sd_header = sent_header sid count tsi tsf it ft tr (length samples),
               sd_samples = map (dequantise_pair (float_div (Finite 1) sf)) ps\<rparr>, length wire)"
proof -
  have fits: "length samples \<le> maxSamplesPerPacket tsi tsf False tr"
    and w: "wire = signal_wire sid ps count order tsi tsf it ft tr"
    using assms(1-3) by (auto simp: signal_encode_eq split: if_splits)
  have l: "length ps = length samples" using assms(1) by (rule omap_length)
  show ?thesis
    using signal_decode_wire [of ps tsi tsf tr sf len sid count order it ft rest bc]
      fits assms(4-6) w l by (simp add: length_signal_wire)
qed

theorem signal_roundtrip_witness:
  "\<exists>wire. signal_encode 7 [(Finite (1 / 2), Finite (- 1 / 4))] 3 LittleEndian DEFAULT_SCALE_FACTOR
      TSI_None TSF_None 0 0 False = Inr wire \<and> length wire = 12 \<and>
    signal_decode (Some (wire @ [1, 2, 3])) 15 LittleEndian DEFAULT_SCALE_FACTOR 0 =
    Inr (Some \<lparr>sd_header = sent_header 7 3 TSI_None TSF_None 0 0 False 1,
      sd_samples = [(dequantise (float_div (Finite 1) DEFAULT_SCALE_FACTOR) 0x4000,
                     dequantise (float_div (Finite 1) DEFAULT_SCALE_FACTOR) 0xE000)]\<rparr>, 12)"
proof -
  let ?wire = "signal_wire 7 [(0x4000, 0xE000)] 3 LittleEndian TSI_None TSF_None 0 0 False"
  have m: "\<not> maxSamplesPerPacket TSI_None TSF_None False False < 1"
    by (simp add: maxSamplesPerPacket_eq signal_words_def)
  have e: "signal_encode 7 [(Finite (1 / 2), Finite (- 1 / 4))] 3 LittleEndian DEFAULT_SCALE_FACTOR
      TSI_None TSF_None 0 0 False = Inr ?wire"
    using example_pair m by (simp add: signal_encode_eq)
  have l: "length ?wire = 12" by (simp add: length_signal_wire signal_words_def)
  then have n: "?wire \<noteq> []" by force
  show ?thesis
    using signal_roundtrip [OF example_pair e n, of 15 "[1, 2, 3]" 0] l e
    by (simp add: DEFAULT_SCALE_FACTOR_def dequantise_pair_def)
qed

text \<open>
  C36. For every scale factor between 2 to the -110 and 2 to the 125 in magnitude, encoding
  decoded samples is bit-exact: the packet carries the 16-bit values that were decoded, although
  the reciprocal and both products are rounded.
\<close>

theorem signal_reencode:
  assumes "2 powi (-110) \<le> \<bar>s\<bar>" and "\<bar>s\<bar> \<le> 2 powi 125"
    and "length ps \<le> maxSamplesPerPacket tsi tsf False tr"
  shows "signal_encode sid (map (dequantise_pair (float_div (Finite 1) (Finite s))) ps) count order
      (Finite s) tsi tsf it ft tr = Inr (signal_wire sid ps count order tsi tsf it ft tr)"
proof -
  have "omap (quantise_pair (Finite s)) (map (dequantise_pair (float_div (Finite 1) (Finite s))) ps) = Inr ps"
    by (induction ps) (simp_all add: quantise_pair_def dequantise_pair_def requantise [OF assms(1,2)])
  with assms(3) show ?thesis by (simp add: signal_encode_eq)
qed

theorem signal_reencode_witness:
  "signal_encode 7 (map (dequantise_pair (float_div (Finite 1) (Finite 3))) [(0x7FFF, 0x8000)]) 0 BigEndian
      (Finite 3) TSI_None TSF_None 0 0 False =
    Inr (signal_wire 7 [(0x7FFF, 0x8000)] 0 BigEndian TSI_None TSF_None 0 0 False)"
  by (rule signal_reencode)
    (simp_all add: power_int_minus maxSamplesPerPacket_eq signal_words_def)

text \<open>
  At the default scale factor a sample within [-1, 1 - 1/32768] comes back within half a
  quantisation step, 1/65536.
\<close>

theorem default_scale_accuracy:
  assumes "float32 x" and "-1 \<le> x" and "x \<le> 32767 / 32768"
  shows "\<exists>v y. quantise DEFAULT_SCALE_FACTOR (Finite x) = Inr v \<and>
    dequantise (float_div (Finite 1) DEFAULT_SCALE_FACTOR) v = Finite y \<and> \<bar>y - x\<bar> \<le> 1 / 65536"
proof -
  let ?r = "round_half_away (x * 32768)"
  have x: "\<bar>x\<bar> \<le> 1" using assms(2,3) by (simp add: abs_le_iff)
  note q = quantise_default [OF assms(1) x]
  have "of_int ?r \<le> x * 32768 + (1 / 2 :: rat)"
    using round_half_away_error [of "x * 32768"] unfolding abs_le_iff by linarith
  also have "\<dots> < 32768" using assms(3) by simp
  finally have r: "?r \<le> 32767" by linarith
  have c: "clamp ?r (-32768) 32767 = ?r" using r q(2) by (simp add: clamp_def abs_le_iff)
  have "sint (word_of_int ?r :: i16) = ?r" using r q(2) by (intro sint_i16_of_int) auto
  moreover have "\<bar>of_int ?r / 32768 - x\<bar> = \<bar>of_int ?r - x * 32768\<bar> / 32768"
  proof -
    have "of_int ?r / 32768 - x = (of_int ?r - x * 32768) / 32768" by (simp add: field_simps)
    then show ?thesis by (simp only: abs_divide abs_numeral)
  qed
  moreover have "\<bar>of_int ?r - x * 32768\<bar> / 32768 \<le> 1 / 2 / (32768 :: rat)"
    using round_half_away_error [of "x * 32768"] by (intro divide_right_mono) auto
  ultimately show ?thesis
    using q(1) c
    by (intro exI [of _ "word_of_int ?r"] exI [of _ "of_int ?r / 32768"]) (simp add: dequantise_default)
qed

theorem default_scale_accuracy_witness:
  "\<exists>v y. quantise DEFAULT_SCALE_FACTOR (Finite (3 / 65536)) = Inr v \<and>
    dequantise (float_div (Finite 1) DEFAULT_SCALE_FACTOR) v = Finite y \<and> \<bar>y - 3 / 65536\<bar> \<le> 1 / 65536"
proof (rule default_scale_accuracy)
  have "(3 / 65536 :: rat) = of_int 3 * 2 powi (-16)" by (simp add: power_int_minus)
  moreover have "round32 (of_int 3 * 2 powi (-16)) = Finite (of_int 3 * 2 powi (-16))"
    by (rule round32_exact) (simp_all add: power_int_minus)
  ultimately show "float32 (3 / 65536)" by (simp add: float32_def)
qed simp_all

text \<open>
  A scaled sample that rounds to a value of 32 bits saturates: it is encoded as the nearest
  16-bit value.
\<close>

theorem quantise_saturates:
  assumes "float_mul x sf = Finite y" and "- (2 ^ 31) \<le> round_half_away y" "round_half_away y < 2 ^ 31"
  shows "\<exists>v. quantise sf x = Inr v \<and> sint v = clamp (round_half_away y) (-32768) 32767"
proof -
  have "sint (word_of_int (clamp (round_half_away y) (-32768) 32767) :: i16) =
      clamp (round_half_away y) (-32768) 32767"
    by (rule sint_i16_of_int) (simp_all add: clamp_range)
  then show ?thesis using assms quantise_in_int_range [OF assms(1)] by simp
qed

lemma float_mul_power:
  "float_mul (Finite (2 ^ a)) (Finite (2 ^ b)) = Finite (2 ^ (a + b))" if "a + b < 128"
proof -
  have "(2 :: rat) ^ (a + b) < 2 ^ 128" using that by (rule power_strict_increasing) simp
  then show ?thesis
    using round32_exact [of 1 "int (a + b)"] powi_add_nat [of "int a" b]
    by (simp add: float_mul_def power_add)
qed

theorem quantise_saturates_witness:
  "\<exists>v. quantise DEFAULT_SCALE_FACTOR (Finite 4) = Inr v \<and> sint v = 32767"
proof -
  have m: "float_mul (Finite 4) DEFAULT_SCALE_FACTOR = Finite (of_int 131072)"
    using float_mul_power [of 2 15] by (simp add: DEFAULT_SCALE_FACTOR_def)
  show ?thesis using quantise_saturates [OF m] by (simp only: round_half_away_int) (simp add: clamp_def)
qed

text \<open>
  The cast to \<open>int\<close> before the clamp breaks saturation above 32 bits: a scaled sample that
  rounds to a value between 2 to the 31 and 2 to the 32 less 32768 is encoded as -32768, the most
  negative value.
\<close>

theorem quantise_wraps:
  assumes "float_mul x sf = Finite y" and "2 ^ 31 \<le> round_half_away y" "round_half_away y \<le> 2 ^ 32 - 32768"
  shows "quantise sf x = Inr (-32768)"
  using assms by (rule quantise_out_of_int_range)

theorem quantise_wraps_witness: "quantise (Finite 65536) (Finite 32768) = Inr (-32768)"
proof -
  have m: "float_mul (Finite 32768) (Finite 65536) = Finite (of_int 2147483648)"
    using float_mul_power [of 15 16] by simp
  show ?thesis using quantise_wraps [OF m] by (simp only: round_half_away_int) simp
qed

end
