(* ===== verification/ContextPacket.thy ===== *)
theory ContextPacket
  imports PacketHeader FloatModel
begin

text \<open>
  \<open>src/libs/Vita49_2/ContextPacket.cpp\<close>: decoding and encoding IF context packets, whose
  fields are announced by the bits of the CIF0 word and stored as fixed-point numbers.

  \<^item> \<open>freqToFixed\<close>, \<open>refLevelToFixed\<close> and \<open>gainToFixed\<close> cast a rounded \<open>double\<close> to a signed
    integer of 64 and 16 bits; the cast is undefined when the value does not fit, which the model
    shows as the fault \<open>BadConversion\<close>.
  \<^item> \<open>decode_loop\<close> is the loop over the CIF0 bits 30 down to 15; it returns \<open>None\<close> for the
    truncated packet.
  \<^item> \<open>put_word\<close> and \<open>put_dword\<close> are one conditional block of the encoder each.

  The reference is a record of raw fixed-point values, \<open>RawContext\<close>, with its wire form
  (\<open>context_wire\<close>).  The lemmas show that the encoder writes the wire form of its converted
  fields, that the decoder never reads outside the packet and accepts exactly the packets that
  are long enough for their CIF0, that it inverts the encoder, and how exact the conversions are.
\<close>

record ContextFields =
  changeIndicator :: bool
  referencePointId :: "u32 option"
  bandwidth :: "fp option"
  ifRefFrequency :: "fp option"
  rfFrequency :: "fp option"
  rfFreqOffset :: "fp option"
  ifBandOffset :: "fp option"
  referenceLevel :: "fp option"
  gain :: "fp option"
  overRangeCount :: "u32 option"
  sampleRate :: "fp option"

definition default_ContextFields :: ContextFields where
  "default_ContextFields = \<lparr>changeIndicator = False, referencePointId = None, bandwidth = None,
     ifRefFrequency = None, rfFrequency = None, rfFreqOffset = None, ifBandOffset = None,
     referenceLevel = None, gain = None, overRangeCount = None, sampleRate = None\<rparr>"

record ContextDecodeResult =
  cd_header :: PacketHeader
  cd_fields :: ContextFields

definition FREQ_RADIX :: fp where
  "FREQ_RADIX = Finite 1048576"

definition GAIN_RADIX :: fp where
  "GAIN_RADIX = Finite 128"

section \<open>Appending words\<close>

definition appendWord :: "ByteOrder \<Rightarrow> u32 \<Rightarrow> bytes \<Rightarrow> bytes outcome" where
  "appendWord order val out =
     (let buf = replicate 4 0
      in obind (if order = BigEndian then writeU32BE buf val else writeU32LE buf val) (\<lambda>buf.
           Inr (out @ buf)))"

definition appendDWord :: "ByteOrder \<Rightarrow> u64 \<Rightarrow> bytes \<Rightarrow> bytes outcome" where
  "appendDWord order val out =
     (let buf = replicate 8 0
      in obind (if order = BigEndian then writeU64BE buf val else writeU64LE buf val) (\<lambda>buf.
           Inr (out @ buf)))"

section \<open>Fixed-point conversions\<close>

definition freqFromFixed :: "i64 \<Rightarrow> fp" where
  "freqFromFixed raw = double_div (double_of_int (sint raw)) FREQ_RADIX"

definition freqToFixed :: "fp \<Rightarrow> i64 outcome" where
  "freqToFixed hz =
     obind (fp_to_signed 64 (fp_round_away (double_mul hz FREQ_RADIX))) (\<lambda>i. Inr (word_of_int i))"

definition refLevelFromFixed :: "u32 \<Rightarrow> fp" where
  "refLevelFromFixed raw =
     (let val = (ucast (drop_bit 16 raw AND 0xFFFF) :: i16)
      in double_div (double_of_int (sint val)) GAIN_RADIX)"

definition refLevelToFixed :: "fp \<Rightarrow> u32 outcome" where
  "refLevelToFixed dBm =
     obind (fp_to_signed 16 (fp_round_away (double_mul dBm GAIN_RADIX))) (\<lambda>i.
       let val = (word_of_int i :: i16) in Inr (push_bit 16 (ucast val)))"

definition gainFromFixed :: "u32 \<Rightarrow> fp" where
  "gainFromFixed raw =
     (let stage1 = (ucast (raw AND 0xFFFF) :: i16)
      in double_div (double_of_int (sint stage1)) GAIN_RADIX)"

definition gainToFixed :: "fp \<Rightarrow> u32 outcome" where
  "gainToFixed dB =
     obind (fp_to_signed 16 (fp_round_away (double_mul dB GAIN_RADIX))) (\<lambda>i.
       let val = (word_of_int i :: i16) in Inr (ucast val))"

section \<open>CIF0\<close>

definition CIF0_CHANGE_INDICATOR :: u32 where "CIF0_CHANGE_INDICATOR = push_bit 31 1"
definition CIF0_REF_POINT_ID :: u32 where "CIF0_REF_POINT_ID = push_bit 30 1"
definition CIF0_BANDWIDTH :: u32 where "CIF0_BANDWIDTH = push_bit 29 1"
definition CIF0_IF_REF_FREQ :: u32 where "CIF0_IF_REF_FREQ = push_bit 28 1"
definition CIF0_RF_REF_FREQ :: u32 where "CIF0_RF_REF_FREQ = push_bit 27 1"
definition CIF0_RF_FREQ_OFFSET :: u32 where "CIF0_RF_FREQ_OFFSET = push_bit 26 1"
definition CIF0_IF_BAND_OFFSET :: u32 where "CIF0_IF_BAND_OFFSET = push_bit 25 1"
definition CIF0_REF_LEVEL :: u32 where "CIF0_REF_LEVEL = push_bit 24 1"
definition CIF0_GAIN :: u32 where "CIF0_GAIN = push_bit 23 1"
definition CIF0_OVER_RANGE :: u32 where "CIF0_OVER_RANGE = push_bit 22 1"
definition CIF0_SAMPLE_RATE :: u32 where "CIF0_SAMPLE_RATE = push_bit 21 1"

lemmas cif0_masks =
  CIF0_CHANGE_INDICATOR_def CIF0_REF_POINT_ID_def CIF0_BANDWIDTH_def CIF0_IF_REF_FREQ_def
  CIF0_RF_REF_FREQ_def CIF0_RF_FREQ_OFFSET_def CIF0_IF_BAND_OFFSET_def CIF0_REF_LEVEL_def
  CIF0_GAIN_def CIF0_OVER_RANGE_def CIF0_SAMPLE_RATE_def

definition cif0FieldSizeWords :: "nat \<Rightarrow> int" where
  "cif0FieldSizeWords b =
    (if b = 31 then 0 else if b = 30 then 1 else if b = 29 then 2 else if b = 28 then 2
     else if b = 27 then 2 else if b = 26 then 2 else if b = 25 then 2 else if b = 24 then 1
     else if b = 23 then 1 else if b = 22 then 1 else if b = 21 then 2 else if b = 20 then 2
     else if b = 19 then 1 else if b = 18 then 1 else if b = 17 then 2 else if b = 16 then 1
     else if b = 15 then 2 else -1)"

section \<open>decode\<close>

text \<open>The \<open>switch\<close> over the bit: read the field at the offset.\<close>

definition decode_field ::
  "nat \<Rightarrow> ByteOrder \<Rightarrow> bytes \<Rightarrow> nat \<Rightarrow> ContextFields \<Rightarrow> ContextFields outcome" where
  "decode_field b order data offset flds =
    (let word = readWord order (drop offset data); dword = readDWord order (drop offset data)
     in if b = 30 then obind word (\<lambda>w. Inr (flds\<lparr>referencePointId := Some w\<rparr>))
        else if b = 29 then obind dword (\<lambda>raw. Inr (flds\<lparr>bandwidth := Some (freqFromFixed raw)\<rparr>))
        else if b = 28 then obind dword (\<lambda>raw. Inr (flds\<lparr>ifRefFrequency := Some (freqFromFixed raw)\<rparr>))
        else if b = 27 then obind dword (\<lambda>raw. Inr (flds\<lparr>rfFrequency := Some (freqFromFixed raw)\<rparr>))
        else if b = 26 then obind dword (\<lambda>raw. Inr (flds\<lparr>rfFreqOffset := Some (freqFromFixed raw)\<rparr>))
        else if b = 25 then obind dword (\<lambda>raw. Inr (flds\<lparr>ifBandOffset := Some (freqFromFixed raw)\<rparr>))
        else if b = 24 then obind word (\<lambda>raw. Inr (flds\<lparr>referenceLevel := Some (refLevelFromFixed raw)\<rparr>))
        else if b = 23 then obind word (\<lambda>raw. Inr (flds\<lparr>gain := Some (gainFromFixed raw)\<rparr>))
        else if b = 22 then obind word (\<lambda>w. Inr (flds\<lparr>overRangeCount := Some w\<rparr>))
        else if b = 21 then obind dword (\<lambda>raw. Inr (flds\<lparr>sampleRate := Some (freqFromFixed raw)\<rparr>))
        else Inr flds)"

text \<open>
  The loop \<open>for (int bit = 30; bit >= 15; --bit)\<close>, entered at any bit.  \<open>None\<close> is the
  \<open>return std::nullopt\<close> of the truncated packet.
\<close>

function decode_loop ::
  "u32 \<Rightarrow> nat \<Rightarrow> ByteOrder \<Rightarrow> bytes \<Rightarrow> nat \<Rightarrow> nat \<Rightarrow> ContextFields \<Rightarrow> ContextFields option outcome" where
  "decode_loop cif0 packetBytes order data b offset flds =
    (if b < 15 then Inr (Some flds)
     else if cif0 AND push_bit b 1 = 0
     then decode_loop cif0 packetBytes order data (b - 1) offset flds
     else
       let sizeWords = cif0FieldSizeWords b
       in if sizeWords < 0 then Inr (Some flds)
          else if sizeWords = 0 then decode_loop cif0 packetBytes order data (b - 1) offset flds
          else
            let fieldBytes = nat sizeWords * 4
            in if offset + fieldBytes > packetBytes then Inr None
               else obind (decode_field b order data offset flds) (\<lambda>flds.
                      decode_loop cif0 packetBytes order data (b - 1) (offset + fieldBytes) flds))"
  by pat_completeness auto
termination
  by (relation "measure (\<lambda>(cif0, packetBytes, order, data, b, offset, flds). b)") auto

declare decode_loop.simps [simp del]

definition context_decode ::
  "bytes option \<Rightarrow> nat \<Rightarrow> ByteOrder \<Rightarrow> nat \<Rightarrow> (ContextDecodeResult option \<times> nat) outcome" where
  "context_decode data len order bytesConsumed =
    (case data of
       None \<Rightarrow> Inr (None, bytesConsumed)
     | Some buf \<Rightarrow>
         if len < 4 then Inr (None, bytesConsumed)
         else obind (parse data len order default_PacketHeader 0) (\<lambda>(ok, header, headerBytes).
           if \<not> ok then Inr (None, bytesConsumed)
           else if \<not> isContextPacket (packetType header) then Inr (None, bytesConsumed)
           else
             let packetBytes = unat (packetSize header) * 4; offset = headerBytes
             in if offset + 4 > packetBytes then Inr (None, bytesConsumed)
                else obind (readWord order (drop offset buf)) (\<lambda>cif0.
                  let offset = offset + 4;
                      flds = default_ContextFields
                        \<lparr>changeIndicator := (cif0 AND CIF0_CHANGE_INDICATOR \<noteq> 0)\<rparr>
                  in obind (decode_loop cif0 packetBytes order buf 30 offset flds) (\<lambda>r.
                       case r of
                         None \<Rightarrow> Inr (None, bytesConsumed)
                       | Some flds \<Rightarrow>
                           Inr (Some \<lparr>cd_header = header, cd_fields = flds\<rparr>, packetBytes)))))"

section \<open>encode\<close>

text \<open>
  One block \<open>if (fields.f.has_value()) { cif0 |= MASK; append(...) }\<close>; the value of the field
  comes converted, as an outcome.
\<close>

definition put_word ::
  "ByteOrder \<Rightarrow> u32 \<Rightarrow> u32 outcome option \<Rightarrow> u32 \<times> bytes \<Rightarrow> (u32 \<times> bytes) outcome" where
  "put_word order flag value s =
    (case value of
       None \<Rightarrow> Inr s
     | Some v \<Rightarrow> obind v (\<lambda>v. obind (appendWord order v (snd s)) (\<lambda>fieldData.
         Inr (fst s OR flag, fieldData))))"

definition put_dword ::
  "ByteOrder \<Rightarrow> u32 \<Rightarrow> u64 outcome option \<Rightarrow> u32 \<times> bytes \<Rightarrow> (u32 \<times> bytes) outcome" where
  "put_dword order flag value s =
    (case value of
       None \<Rightarrow> Inr s
     | Some v \<Rightarrow> obind v (\<lambda>v. obind (appendDWord order v (snd s)) (\<lambda>fieldData.
         Inr (fst s OR flag, fieldData))))"

definition encode_fields :: "ContextFields \<Rightarrow> ByteOrder \<Rightarrow> (u32 \<times> bytes) outcome" where
  "encode_fields flds order =
     (let s = (if changeIndicator flds then 0 OR CIF0_CHANGE_INDICATOR else 0, [])
      in obind (put_word order CIF0_REF_POINT_ID (map_option Inr (referencePointId flds)) s) (\<lambda>s.
         obind (put_dword order CIF0_BANDWIDTH (map_option freqToFixed (bandwidth flds)) s) (\<lambda>s.
         obind (put_dword order CIF0_IF_REF_FREQ (map_option freqToFixed (ifRefFrequency flds)) s) (\<lambda>s.
         obind (put_dword order CIF0_RF_REF_FREQ (map_option freqToFixed (rfFrequency flds)) s) (\<lambda>s.
         obind (put_dword order CIF0_RF_FREQ_OFFSET (map_option freqToFixed (rfFreqOffset flds)) s) (\<lambda>s.
         obind (put_dword order CIF0_IF_BAND_OFFSET (map_option freqToFixed (ifBandOffset flds)) s) (\<lambda>s.
         obind (put_word order CIF0_REF_LEVEL (map_option refLevelToFixed (referenceLevel flds)) s) (\<lambda>s.
         obind (put_word order CIF0_GAIN (map_option gainToFixed (gain flds)) s) (\<lambda>s.
         obind (put_word order CIF0_OVER_RANGE (map_option Inr (overRangeCount flds)) s) (\<lambda>s.
           put_dword order CIF0_SAMPLE_RATE (map_option freqToFixed (sampleRate flds)) s))))))))))"

definition context_header :: "u32 \<Rightarrow> u8 \<Rightarrow> TSI \<Rightarrow> TSF \<Rightarrow> u32 \<Rightarrow> u64 \<Rightarrow> PacketHeader" where
  "context_header sid count tsi tsf intTimestamp fracTimestamp =
     default_PacketHeader\<lparr>
       packetType := IFContext, classIdPresent := False, trailerPresent := False,
       tsiType := tsi, tsfType := tsf, packetCount := count AND 0xF, streamId := Some sid,
       integerTimestamp := (if tsi \<noteq> TSI_None then Some intTimestamp else None),
       fractionalTimestamp := (if tsf \<noteq> TSF_None then Some fracTimestamp else None)\<rparr>"

definition context_encode ::
  "u32 \<Rightarrow> ContextFields \<Rightarrow> u8 \<Rightarrow> ByteOrder \<Rightarrow> TSI \<Rightarrow> TSF \<Rightarrow> u32 \<Rightarrow> u64 \<Rightarrow> bytes outcome" where
  "context_encode sid flds count order tsi tsf intTimestamp fracTimestamp =
     obind (encode_fields flds order) (\<lambda>(cif0, fieldData).
       let header = context_header sid count tsi tsf intTimestamp fracTimestamp;
           headerWords = sizeInWords header;
           cif0Words = 1;
           fieldWords = length fieldData div 4;
           totalWords = headerWords + cif0Words + fieldWords
       in if totalWords > unat MAX_PACKET_SIZE_WORDS then Inr []
          else
            let header = header\<lparr>packetSize := of_nat totalWords\<rparr>
            in obind (serialize header order []) (\<lambda>out.
               obind (appendWord order cif0 out) (\<lambda>out. Inr (out @ fieldData))))"

section \<open>The raw context and its wire form\<close>

record RawContext =
  rc_change :: bool
  rc_refPoint :: "u32 option"
  rc_bandwidth :: "i64 option"
  rc_ifRef :: "i64 option"
  rc_rf :: "i64 option"
  rc_rfOffset :: "i64 option"
  rc_ifBand :: "i64 option"
  rc_refLevel :: "u32 option"
  rc_gain :: "u32 option"
  rc_overRange :: "u32 option"
  rc_rate :: "i64 option"

definition convert :: "('a \<Rightarrow> 'b outcome) \<Rightarrow> 'a option \<Rightarrow> 'b option outcome" where
  "convert f v = (case v of None \<Rightarrow> Inr None | Some x \<Rightarrow> obind (f x) (\<lambda>y. Inr (Some y)))"

lemma convert_simps [simp]:
  "convert f None = Inr None" "convert f (Some x) = obind (f x) (\<lambda>y. Inr (Some y))"
  by (simp_all add: convert_def)

text \<open>The conversions of the encoder, in its order, and those of the decoder.\<close>

definition to_raw :: "ContextFields \<Rightarrow> RawContext outcome" where
  "to_raw f =
     obind (convert freqToFixed (bandwidth f)) (\<lambda>bw.
     obind (convert freqToFixed (ifRefFrequency f)) (\<lambda>ifr.
     obind (convert freqToFixed (rfFrequency f)) (\<lambda>rf.
     obind (convert freqToFixed (rfFreqOffset f)) (\<lambda>ofs.
     obind (convert freqToFixed (ifBandOffset f)) (\<lambda>ib.
     obind (convert refLevelToFixed (referenceLevel f)) (\<lambda>lvl.
     obind (convert gainToFixed (gain f)) (\<lambda>g.
     obind (convert freqToFixed (sampleRate f)) (\<lambda>rate.
       Inr \<lparr>rc_change = changeIndicator f, rc_refPoint = referencePointId f, rc_bandwidth = bw,
            rc_ifRef = ifr, rc_rf = rf, rc_rfOffset = ofs, rc_ifBand = ib, rc_refLevel = lvl,
            rc_gain = g, rc_overRange = overRangeCount f, rc_rate = rate\<rparr>))))))))"

text \<open>A conversion that fails, fails in one way.\<close>

lemma fp_to_signed_fault: "fp_to_signed k v = Inl e \<Longrightarrow> e = BadConversion"
  by (cases v) (auto split: if_splits)

lemma convert_fault: "convert f v = Inl e \<Longrightarrow> (\<And>x. f x = Inl e \<Longrightarrow> e = BadConversion) \<Longrightarrow> e = BadConversion"
  by (auto simp: convert_def obind_eq_Inl_iff split: option.splits)

lemma to_raw_fault: "to_raw f = Inl e \<Longrightarrow> e = BadConversion"
  by (auto simp: to_raw_def obind_eq_Inl_iff freqToFixed_def refLevelToFixed_def gainToFixed_def Let_def
      elim!: convert_fault dest: fp_to_signed_fault)

definition from_raw :: "RawContext \<Rightarrow> ContextFields" where
  "from_raw r = \<lparr>changeIndicator = rc_change r, referencePointId = rc_refPoint r,
     bandwidth = map_option freqFromFixed (rc_bandwidth r),
     ifRefFrequency = map_option freqFromFixed (rc_ifRef r),
     rfFrequency = map_option freqFromFixed (rc_rf r),
     rfFreqOffset = map_option freqFromFixed (rc_rfOffset r),
     ifBandOffset = map_option freqFromFixed (rc_ifBand r),
     referenceLevel = map_option refLevelFromFixed (rc_refLevel r),
     gain = map_option gainFromFixed (rc_gain r),
     overRangeCount = rc_overRange r,
     sampleRate = map_option freqFromFixed (rc_rate r)\<rparr>"

text \<open>The wire form of the field of each CIF0 bit.\<close>

definition raw_field :: "ByteOrder \<Rightarrow> RawContext \<Rightarrow> nat \<Rightarrow> bytes option" where
  "raw_field order r b =
    (if b = 30 then map_option (wordBytes order) (rc_refPoint r)
     else if b = 29 then map_option (dwordBytes order) (rc_bandwidth r)
     else if b = 28 then map_option (dwordBytes order) (rc_ifRef r)
     else if b = 27 then map_option (dwordBytes order) (rc_rf r)
     else if b = 26 then map_option (dwordBytes order) (rc_rfOffset r)
     else if b = 25 then map_option (dwordBytes order) (rc_ifBand r)
     else if b = 24 then map_option (wordBytes order) (rc_refLevel r)
     else if b = 23 then map_option (wordBytes order) (rc_gain r)
     else if b = 22 then map_option (wordBytes order) (rc_overRange r)
     else if b = 21 then map_option (dwordBytes order) (rc_rate r)
     else None)"

definition opt_bytes :: "('a \<Rightarrow> bytes) \<Rightarrow> 'a option \<Rightarrow> bytes" where
  "opt_bytes enc v = (case v of None \<Rightarrow> [] | Some x \<Rightarrow> enc x)"

lemma opt_bytes_map: "opt_bytes f (map_option g v) = opt_bytes (\<lambda>x. f (g x)) v"
  by (cases v) (simp_all add: opt_bytes_def)

definition field_bytes :: "ByteOrder \<Rightarrow> RawContext \<Rightarrow> nat \<Rightarrow> bytes" where
  "field_bytes order r b = opt_bytes (\<lambda>bs. bs) (raw_field order r b)"

text \<open>The fields of the bits below \<open>n\<close>, highest bit first.\<close>

fun fields_below :: "ByteOrder \<Rightarrow> RawContext \<Rightarrow> nat \<Rightarrow> bytes" where
  "fields_below order r 0 = []"
| "fields_below order r (Suc b) = field_bytes order r b @ fields_below order r b"

definition flag :: "nat \<Rightarrow> bool \<Rightarrow> u32" where
  "flag n c = (if c then push_bit n 1 else 0)"

definition cif0_of :: "RawContext \<Rightarrow> u32" where
  "cif0_of r = flag 31 (rc_change r) OR flag 30 (rc_refPoint r \<noteq> None) OR
     flag 29 (rc_bandwidth r \<noteq> None) OR flag 28 (rc_ifRef r \<noteq> None) OR flag 27 (rc_rf r \<noteq> None) OR
     flag 26 (rc_rfOffset r \<noteq> None) OR flag 25 (rc_ifBand r \<noteq> None) OR
     flag 24 (rc_refLevel r \<noteq> None) OR flag 23 (rc_gain r \<noteq> None) OR
     flag 22 (rc_overRange r \<noteq> None) OR flag 21 (rc_rate r \<noteq> None)"

lemma bit_flag [simp]: "bit (flag k c) n \<longleftrightarrow> c \<and> n = k \<and> k < 32"
  by (auto simp: flag_def bit_simps)

lemma bit_cif0_change: "bit (cif0_of r) 31 = rc_change r"
  by (simp add: cif0_of_def bit_or_iff)

lemma bit_cif0:
  assumes "n < 31"
  shows "bit (cif0_of r) n \<longleftrightarrow> raw_field order r n \<noteq> None"
proof -
  have "n = 30 \<or> n = 29 \<or> n = 28 \<or> n = 27 \<or> n = 26 \<or> n = 25 \<or> n = 24 \<or> n = 23 \<or>
      n = 22 \<or> n = 21 \<or> n < 21"
    using assms by arith
  then show ?thesis by (elim disjE) (simp_all add: cif0_of_def bit_or_iff raw_field_def)
qed

lemma appendWord_eq: "appendWord order v out = Inr (out @ wordBytes order v)"
  using word32.wr_long [of "replicate 4 0" order v]
  by (simp add: appendWord_def writeWord_def wordBytes_def)

lemma appendDWord_eq: "appendDWord order v out = Inr (out @ dwordBytes order v)"
  using word64.wr_long [of "replicate 8 0" order v]
  by (simp add: appendDWord_def writeDWord_def dwordBytes_def)

lemma put_word_eq:
  "put_word order (push_bit n 1) (map_option g x) (c, d) =
     obind (convert g x) (\<lambda>v. Inr (c OR flag n (v \<noteq> None), d @ opt_bytes (wordBytes order) v))"
  by (cases x; cases "g (the x)") (simp_all add: put_word_def appendWord_eq opt_bytes_def flag_def)

lemma put_dword_eq:
  "put_dword order (push_bit n 1) (map_option g x) (c, d) =
     obind (convert g x) (\<lambda>v. Inr (c OR flag n (v \<noteq> None), d @ opt_bytes (dwordBytes order) v))"
  by (cases x; cases "g (the x)") (simp_all add: put_dword_def appendDWord_eq opt_bytes_def flag_def)

lemma convert_Inr [simp]: "convert Inr x = Inr x"
  by (cases x) simp_all

lemma fields_below_31:
  "fields_below order r 31 =
     opt_bytes (wordBytes order) (rc_refPoint r) @ opt_bytes (dwordBytes order) (rc_bandwidth r) @
     opt_bytes (dwordBytes order) (rc_ifRef r) @ opt_bytes (dwordBytes order) (rc_rf r) @
     opt_bytes (dwordBytes order) (rc_rfOffset r) @ opt_bytes (dwordBytes order) (rc_ifBand r) @
     opt_bytes (wordBytes order) (rc_refLevel r) @ opt_bytes (wordBytes order) (rc_gain r) @
     opt_bytes (wordBytes order) (rc_overRange r) @ opt_bytes (dwordBytes order) (rc_rate r)"
proof -
  have low: "n \<le> 21 \<Longrightarrow> fields_below order r n = []" for n
    by (induction n) (simp_all add: field_bytes_def raw_field_def opt_bytes_def)
  have "fields_below order r (Suc (Suc (Suc (Suc (Suc (Suc (Suc (Suc (Suc (Suc 21)))))))))) =
     opt_bytes (wordBytes order) (rc_refPoint r) @ opt_bytes (dwordBytes order) (rc_bandwidth r) @
     opt_bytes (dwordBytes order) (rc_ifRef r) @ opt_bytes (dwordBytes order) (rc_rf r) @
     opt_bytes (dwordBytes order) (rc_rfOffset r) @ opt_bytes (dwordBytes order) (rc_ifBand r) @
     opt_bytes (wordBytes order) (rc_refLevel r) @ opt_bytes (wordBytes order) (rc_gain r) @
     opt_bytes (wordBytes order) (rc_overRange r) @ opt_bytes (dwordBytes order) (rc_rate r)"
    unfolding fields_below.simps low [OF order_refl] 
    by (simp add: field_bytes_def raw_field_def opt_bytes_map)
  then show ?thesis by simp
qed

lemma encode_fields_eq:
  "encode_fields f order = obind (to_raw f) (\<lambda>r. Inr (cif0_of r, fields_below order r 31))"
proof -
  have c: "(if changeIndicator f then 0 OR CIF0_CHANGE_INDICATOR else 0) = flag 31 (changeIndicator f)"
    by (simp add: flag_def CIF0_CHANGE_INDICATOR_def)
  show ?thesis
    unfolding encode_fields_def Let_def c to_raw_def fields_below_31 cif0_of_def
      CIF0_REF_POINT_ID_def CIF0_BANDWIDTH_def CIF0_IF_REF_FREQ_def
      CIF0_RF_REF_FREQ_def CIF0_RF_FREQ_OFFSET_def CIF0_IF_BAND_OFFSET_def CIF0_REF_LEVEL_def
      CIF0_GAIN_def CIF0_OVER_RANGE_def CIF0_SAMPLE_RATE_def
    by (simp only: put_word_eq put_dword_eq obind_assoc obind_Inr convert_Inr) (simp add: or.assoc)
qed

section \<open>The decoding loop\<close>

lemma and_push_bit_iff: "b < 32 \<Longrightarrow> (cif0 AND push_bit b 1 = 0) \<longleftrightarrow> \<not> bit (cif0 :: u32) b"
proof -
  assume b: "b < 32"
  have "cif0 AND push_bit b 1 = 0 \<longleftrightarrow> (\<forall>n. n < 32 \<longrightarrow> \<not> bit (cif0 AND push_bit b 1) n)"
    by (auto simp: bit_eq_iff)
  with b show ?thesis by (auto simp: bit_and_iff push_bit_of_1 bit_exp_iff)
qed

lemmas and_exp_iff = and_push_bit_iff [unfolded push_bit_of_1]

text \<open>The words of the fields that a CIF0 announces at the bits 15 and above, below \<open>n\<close>.\<close>

fun cif0_words :: "u32 \<Rightarrow> nat \<Rightarrow> nat" where
  "cif0_words cif0 0 = 0"
| "cif0_words cif0 (Suc b) =
     (if 15 \<le> b \<and> bit cif0 b then nat (cif0FieldSizeWords b) else 0) + cif0_words cif0 b"

lemma cif0_words_low: "n \<le> 15 \<Longrightarrow> cif0_words cif0 n = 0"
  by (induction n) simp_all

lemma fieldSize_cases:
  assumes "15 \<le> b" and "b < 31"
  shows "cif0FieldSizeWords b = 1 \<and> b \<in> {30, 24, 23, 22, 19, 18, 16} \<or>
    cif0FieldSizeWords b = 2 \<and> b \<in> {29, 28, 27, 26, 25, 21, 20, 17, 15}"
proof -
  have "b = 15 \<or> b = 16 \<or> b = 17 \<or> b = 18 \<or> b = 19 \<or> b = 20 \<or> b = 21 \<or> b = 22 \<or>
     b = 23 \<or> b = 24 \<or> b = 25 \<or> b = 26 \<or> b = 27 \<or> b = 28 \<or> b = 29 \<or> b = 30"
    using assms by arith
  then show ?thesis by (elim disjE) (simp_all add: cif0FieldSizeWords_def)
qed

lemma decode_field_safe:
  assumes "15 \<le> b" "b < 31" "offset + nat (cif0FieldSizeWords b) * 4 \<le> length data"
  shows "\<exists>f'. decode_field b order data offset f = Inr f'"
proof (cases "cif0FieldSizeWords b = 1")
  case True
  then have "4 \<le> length (drop offset data)" using assms(3) by simp
  then obtain w where "readWord order (drop offset data) = Inr w"
    using word32.rd_prefix by blast
  moreover have "b \<in> {30, 24, 23, 22, 19, 18, 16}" using fieldSize_cases [OF assms(1,2)] True by auto
  ultimately show ?thesis by (auto simp: decode_field_def Let_def)
next
  case False
  then have two: "cif0FieldSizeWords b = 2 \<and> b \<in> {29, 28, 27, 26, 25, 21, 20, 17, 15}"
    using fieldSize_cases [OF assms(1,2)] by blast
  then have "8 \<le> length (drop offset data)" using assms(3) by simp
  then obtain w where "readDWord order (drop offset data) = Inr w"
    using word64.rd_prefix by blast
  with two show ?thesis by (auto simp: decode_field_def Let_def)
qed

lemma decode_loop_low: "b < 15 \<Longrightarrow> decode_loop cif0 packetBytes order data b offset f = Inr (Some f)"
  by (simp add: decode_loop.simps)

lemma decode_loop_unset:
  "15 \<le> b \<Longrightarrow> b < 32 \<Longrightarrow> \<not> bit cif0 b \<Longrightarrow>
   decode_loop cif0 packetBytes order data b offset f = decode_loop cif0 packetBytes order data (b - 1) offset f"
  by (subst decode_loop.simps) (simp add: and_exp_iff leD)

lemma decode_loop_set:
  "15 \<le> b \<Longrightarrow> b < 32 \<Longrightarrow> bit cif0 b \<Longrightarrow> cif0FieldSizeWords b = int n \<Longrightarrow> 0 < n \<Longrightarrow>
   decode_loop cif0 packetBytes order data b offset f =
      (if offset + n * 4 > packetBytes then Inr None
       else obind (decode_field b order data offset f) (\<lambda>f'.
              decode_loop cif0 packetBytes order data (b - 1) (offset + n * 4) f'))"
  by (subst decode_loop.simps) (simp add: and_exp_iff Let_def)

lemma decode_loop_skip:
  assumes "b < 31" and "\<not> (15 \<le> b \<and> bit cif0 b)" and "b = Suc b'"
  shows "decode_loop cif0 packetBytes order data b offset f = decode_loop cif0 packetBytes order data b' offset f"
  using assms decode_loop_unset [of b cif0] by (cases "15 \<le> b") (simp_all add: decode_loop_low)

lemma decode_loop_total:
  assumes "packetBytes \<le> length data" and "offset \<le> packetBytes" and "b < 31"
  shows "\<exists>r. decode_loop cif0 packetBytes order data b offset f = Inr r \<and>
    (r \<noteq> None \<longleftrightarrow> offset + 4 * cif0_words cif0 (Suc b) \<le> packetBytes)"
  using assms
proof (induction b arbitrary: offset f)
  case 0
  then show ?case by (simp add: decode_loop.simps)
next
  case (Suc b)
  show ?case
  proof (cases "15 \<le> Suc b \<and> bit cif0 (Suc b)")
    case False
    have "\<exists>r. decode_loop cif0 packetBytes order data b offset f = Inr r \<and>
       (r \<noteq> None \<longleftrightarrow> offset + 4 * cif0_words cif0 (Suc b) \<le> packetBytes)"
      using Suc by simp
    moreover have "decode_loop cif0 packetBytes order data (Suc b) offset f =
        decode_loop cif0 packetBytes order data b offset f"
      by (rule decode_loop_skip [OF Suc.prems(3) False refl])
    ultimately show ?thesis using False by auto
  next
    case True
    define n where "n = nat (cif0FieldSizeWords (Suc b))"
    have n: "0 < n" "cif0FieldSizeWords (Suc b) = int n"
      using fieldSize_cases [of "Suc b"] True Suc.prems(3) by (auto simp: n_def)
    have eq: "decode_loop cif0 packetBytes order data (Suc b) offset f =
      (if offset + n * 4 > packetBytes then Inr None
       else obind (decode_field (Suc b) order data offset f) (\<lambda>f'.
              decode_loop cif0 packetBytes order data b (offset + n * 4) f'))"
      using n True Suc.prems(3) decode_loop_set [of "Suc b" cif0 n] by simp
    have w: "cif0_words cif0 (Suc (Suc b)) = n + cif0_words cif0 (Suc b)"
      using True by (simp add: n_def)
    show ?thesis
    proof (cases "offset + n * 4 > packetBytes")
      case False
      then have fit: "offset + n * 4 \<le> packetBytes" by simp
      then have "offset + nat (cif0FieldSizeWords (Suc b)) * 4 \<le> length data"
        using Suc.prems(1) by (simp add: n_def)
      then obtain f' where "decode_field (Suc b) order data offset f = Inr f'"
        using decode_field_safe [of "Suc b"] True Suc.prems(3) by blast
      then show ?thesis
        using Suc.IH [of "offset + n * 4" f'] Suc.prems fit False by (simp add: eq w algebra_simps del: cif0_words.simps)
    qed (simp add: eq w del: cif0_words.simps)
  qed
qed

text \<open>The loop on the wire form of a raw context.\<close>

definition fill_field :: "RawContext \<Rightarrow> nat \<Rightarrow> ContextFields \<Rightarrow> ContextFields" where
  "fill_field r b f =
    (if b = 30 then (case rc_refPoint r of None \<Rightarrow> f | Some v \<Rightarrow> f\<lparr>referencePointId := Some v\<rparr>)
     else if b = 29 then (case rc_bandwidth r of None \<Rightarrow> f | Some v \<Rightarrow> f\<lparr>bandwidth := Some (freqFromFixed v)\<rparr>)
     else if b = 28 then (case rc_ifRef r of None \<Rightarrow> f | Some v \<Rightarrow> f\<lparr>ifRefFrequency := Some (freqFromFixed v)\<rparr>)
     else if b = 27 then (case rc_rf r of None \<Rightarrow> f | Some v \<Rightarrow> f\<lparr>rfFrequency := Some (freqFromFixed v)\<rparr>)
     else if b = 26 then (case rc_rfOffset r of None \<Rightarrow> f | Some v \<Rightarrow> f\<lparr>rfFreqOffset := Some (freqFromFixed v)\<rparr>)
     else if b = 25 then (case rc_ifBand r of None \<Rightarrow> f | Some v \<Rightarrow> f\<lparr>ifBandOffset := Some (freqFromFixed v)\<rparr>)
     else if b = 24 then (case rc_refLevel r of None \<Rightarrow> f | Some v \<Rightarrow> f\<lparr>referenceLevel := Some (refLevelFromFixed v)\<rparr>)
     else if b = 23 then (case rc_gain r of None \<Rightarrow> f | Some v \<Rightarrow> f\<lparr>gain := Some (gainFromFixed v)\<rparr>)
     else if b = 22 then (case rc_overRange r of None \<Rightarrow> f | Some v \<Rightarrow> f\<lparr>overRangeCount := Some v\<rparr>)
     else if b = 21 then (case rc_rate r of None \<Rightarrow> f | Some v \<Rightarrow> f\<lparr>sampleRate := Some (freqFromFixed v)\<rparr>)
     else f)"

fun fill_below :: "RawContext \<Rightarrow> nat \<Rightarrow> ContextFields \<Rightarrow> ContextFields" where
  "fill_below r 0 f = f"
| "fill_below r (Suc b) f = fill_below r b (fill_field r b f)"

lemma raw_field_step:
  assumes "raw_field order r b = Some bs" and "drop offset data = bs @ rst"
  shows "21 \<le> b" and "cif0FieldSizeWords b = int (length bs div 4)" and "length bs \<in> {4, 8}"
    and "decode_field b order data offset f = Inr (fill_field r b f)"
proof -
  have "b = 30 \<or> b = 29 \<or> b = 28 \<or> b = 27 \<or> b = 26 \<or> b = 25 \<or> b = 24 \<or> b = 23 \<or> b = 22 \<or> b = 21"
    using assms(1) by (auto simp: raw_field_def split: if_splits)
  then have "21 \<le> b \<and> cif0FieldSizeWords b = int (length bs div 4) \<and> length bs \<in> {4, 8} \<and>
      decode_field b order data offset f = Inr (fill_field r b f)"
    using assms
    by (elim disjE) (auto simp: raw_field_def cif0FieldSizeWords_def decode_field_def fill_field_def
        word32.rd_enc word64.rd_enc)
  then show "21 \<le> b" "cif0FieldSizeWords b = int (length bs div 4)" "length bs \<in> {4, 8}"
    "decode_field b order data offset f = Inr (fill_field r b f)" by blast+
qed

lemma fill_field_absent: "raw_field order r b = None \<Longrightarrow> fill_field r b f = f"
  by (auto simp: raw_field_def fill_field_def split: if_splits)

lemma raw_field_low: "b < 21 \<Longrightarrow> raw_field order r b = None"
  by (simp add: raw_field_def)

lemma fill_below_low: "n \<le> 21 \<Longrightarrow> fill_below r n f = f"
  by (induction n) (simp_all add: fill_field_absent raw_field_low)

lemma decode_loop_wire:
  assumes "b < 31" and "drop offset data = fields_below order r (Suc b) @ rest"
    and "offset + length (fields_below order r (Suc b)) \<le> packetBytes"
  shows "decode_loop (cif0_of r) packetBytes order data b offset f = Inr (Some (fill_below r (Suc b) f))"
  using assms
proof (induction b arbitrary: offset f)
  case 0
  then show ?case by (simp add: decode_loop.simps fill_field_absent raw_field_low del: fill_below.simps(1))
      (simp add: fill_field_absent [OF raw_field_low])
next
  case (Suc b)
  show ?case
  proof (cases "raw_field order r (Suc b)")
    case None
    then have e: "field_bytes order r (Suc b) = []" by (simp add: field_bytes_def opt_bytes_def)
    have "decode_loop (cif0_of r) packetBytes order data b offset f =
        Inr (Some (fill_below r (Suc b) f))"
      using Suc.IH [of offset f] Suc.prems e by simp
    moreover have "\<not> bit (cif0_of r) (Suc b)"
      using None Suc.prems(1) bit_cif0 [where n = "Suc b" and r = r and order = order] by simp
    then have "decode_loop (cif0_of r) packetBytes order data (Suc b) offset f =
        decode_loop (cif0_of r) packetBytes order data b offset f"
      by (intro decode_loop_skip [OF Suc.prems(1) _ refl]) simp
    ultimately show ?thesis using None by (simp add: fill_field_absent)
  next
    case (Some bs)
    then have e: "field_bytes order r (Suc b) = bs" by (simp add: field_bytes_def opt_bytes_def)
    let ?rst = "fields_below order r (Suc b) @ rest"
    have d: "drop offset data = bs @ ?rst" using Suc.prems(2) e by simp
    note st = raw_field_step [OF Some d]
    have "drop (offset + length bs) data = ?rst"
      using d by (metis add.commute append_eq_conv_conj drop_drop)
    then have IH: "decode_loop (cif0_of r) packetBytes order data b (offset + length bs) (fill_field r (Suc b) f) =
        Inr (Some (fill_below r (Suc b) (fill_field r (Suc b) f)))"
      using Suc.prems e by (intro Suc.IH) simp_all
    have b: "bit (cif0_of r) (Suc b)" using Some Suc.prems(1) bit_cif0 [where n = "Suc b" and r = r and order = order] by simp
    have l: "length bs div 4 * 4 = length bs" "0 < length bs div 4" using st(3) by auto
    have "offset + length bs \<le> packetBytes" using Suc.prems(3) e by simp
    then show ?thesis
      using decode_loop_set [OF _ _ b st(2) l(2), of packetBytes order data offset f]
        st(1,4) IH Suc.prems(1) l(1) by simp
  qed
qed

lemma fill_below_31:
  "fill_below r 31 (default_ContextFields\<lparr>changeIndicator := rc_change r\<rparr>) = from_raw r"
proof -
  have "fill_below r (Suc (Suc (Suc (Suc (Suc (Suc (Suc (Suc (Suc (Suc 21))))))))))
      (default_ContextFields\<lparr>changeIndicator := rc_change r\<rparr>) = from_raw r"
    unfolding fill_below.simps fill_below_low [OF order_refl]
    by (rule ContextFields.equality)
      (simp_all add: fill_field_def from_raw_def default_ContextFields_def split: option.split)
  then show ?thesis by simp
qed

section \<open>Whole packets\<close>

definition raw_words :: "RawContext \<Rightarrow> nat" where
  "raw_words r =
     (let one = (\<lambda>v :: u32 option. if v = None then 0 else 1);
          two = (\<lambda>v :: i64 option. if v = None then 0 else 2)
      in one (rc_refPoint r) + two (rc_bandwidth r) + two (rc_ifRef r) + two (rc_rf r) +
         two (rc_rfOffset r) + two (rc_ifBand r) + one (rc_refLevel r) + one (rc_gain r) +
         one (rc_overRange r) + two (rc_rate r))"

lemma length_opt_word: "length (opt_bytes (wordBytes order) v) = 4 * (if v = None then 0 else 1)"
  by (cases v) (simp_all add: opt_bytes_def)

lemma length_opt_dword: "length (opt_bytes (dwordBytes order) v) = 4 * (if v = None then 0 else 2)"
  by (cases v) (simp_all add: opt_bytes_def)

lemma length_fields: "length (fields_below order r 31) = 4 * raw_words r"
  by (simp only: fields_below_31 length_append length_opt_word length_opt_dword raw_words_def Let_def
      add_mult_distrib2 add.assoc)

lemma raw_words_bound: "raw_words r \<le> 16"
  by (simp add: raw_words_def)

definition context_words :: "TSI \<Rightarrow> TSF \<Rightarrow> RawContext \<Rightarrow> nat" where
  "context_words tsi tsf r =
     3 + (if tsi \<noteq> TSI_None then 1 else 0) + (if tsf \<noteq> TSF_None then 2 else 0) + raw_words r"

lemma context_words_bound: "context_words tsi tsf r \<le> 22"
  using raw_words_bound [of r] by (simp add: context_words_def)

definition sent_context_header ::
  "u32 \<Rightarrow> u8 \<Rightarrow> TSI \<Rightarrow> TSF \<Rightarrow> u32 \<Rightarrow> u64 \<Rightarrow> RawContext \<Rightarrow> PacketHeader" where
  "sent_context_header sid count tsi tsf it ft r =
     (context_header sid count tsi tsf it ft)\<lparr>packetSize := of_nat (context_words tsi tsf r)\<rparr>"

lemma sent_context_header_fields [simp]:
  "packetType (sent_context_header sid count tsi tsf it ft r) = IFContext"
  "classIdPresent (sent_context_header sid count tsi tsf it ft r) = False"
  "trailerPresent (sent_context_header sid count tsi tsf it ft r) = False"
  "tsiType (sent_context_header sid count tsi tsf it ft r) = tsi"
  "tsfType (sent_context_header sid count tsi tsf it ft r) = tsf"
  "packetCount (sent_context_header sid count tsi tsf it ft r) = count AND 0xF"
  "packetSize (sent_context_header sid count tsi tsf it ft r) = of_nat (context_words tsi tsf r)"
  "streamId (sent_context_header sid count tsi tsf it ft r) = Some sid"
  "classIdOUI (sent_context_header sid count tsi tsf it ft r) = None"
  "informationClassCode (sent_context_header sid count tsi tsf it ft r) = None"
  "packetClassCode (sent_context_header sid count tsi tsf it ft r) = None"
  "integerTimestamp (sent_context_header sid count tsi tsf it ft r) =
     (if tsi \<noteq> TSI_None then Some it else None)"
  "fractionalTimestamp (sent_context_header sid count tsi tsf it ft r) =
     (if tsf \<noteq> TSF_None then Some ft else None)"
  by (simp_all add: sent_context_header_def context_header_def)

lemma sent_context_header_words:
  "sizeInWords (sent_context_header sid count tsi tsf it ft r) + 1 + raw_words r = context_words tsi tsf r"
  by (simp add: sizeInWords_def context_words_def hasStreamId_def Let_def)

lemma context_header_words:
  "sizeInWords (context_header sid count tsi tsf it ft) =
     sizeInWords (sent_context_header sid count tsi tsf it ft r)"
  by (rule sizeInWords_cong) (simp_all add: context_header_def)

lemma wf_sent_context_header: "wf_header (sent_context_header sid count tsi tsf it ft r)"
proof -
  have "(count AND 0xF :: u8) < 16"
    using and_mask_less' [of 4 count] by (simp add: mask_eq_exp_minus_1)
  then show ?thesis
    by (simp add: wf_header_def named_or_4bit_def isDataPacket_def hasStreamId_def)
qed

lemma unat_context_size:
  "unat (packetSize (sent_context_header sid count tsi tsf it ft r)) = context_words tsi tsf r"
  using context_words_bound [of tsi tsf r] by (simp add: unat_of_nat take_bit_nat_eq_self)

definition context_wire ::
  "u32 \<Rightarrow> RawContext \<Rightarrow> u8 \<Rightarrow> ByteOrder \<Rightarrow> TSI \<Rightarrow> TSF \<Rightarrow> u32 \<Rightarrow> u64 \<Rightarrow> bytes" where
  "context_wire sid r count order tsi tsf it ft =
     header_wire order (sent_context_header sid count tsi tsf it ft r) @
     wordBytes order (cif0_of r) @ fields_below order r 31"

lemma length_context_wire:
  "length (context_wire sid r count order tsi tsf it ft) = 4 * context_words tsi tsf r"
  using sent_context_header_words [of sid count tsi tsf it ft r]
  by (simp add: context_wire_def length_fields length_header_wire wf_sent_context_header sizeInBytes_def)

lemma context_encode_eq:
  "context_encode sid f count order tsi tsf it ft =
     obind (to_raw f) (\<lambda>r. Inr (context_wire sid r count order tsi tsf it ft))"
proof (cases "to_raw f")
  case (Inr r)
  have "sizeInWords (context_header sid count tsi tsf it ft) + 1 + length (fields_below order r 31) div 4 =
      context_words tsi tsf r"
    using sent_context_header_words [of sid count tsi tsf it ft r]
      context_header_words [of sid count tsi tsf it ft r] by (simp add: length_fields)
  then show ?thesis
    using Inr context_words_bound [of tsi tsf r]
    by (simp only: context_encode_def encode_fields_eq obind_Inr prod.case Let_def
        sent_context_header_def [symmetric])
      (simp add: MAX_PACKET_SIZE_WORDS_def serialize_eq appendWord_eq context_wire_def)
qed (simp add: context_encode_def encode_fields_eq)

lemma context_decode_wire:
  assumes "length (context_wire sid r count order tsi tsf it ft) \<le> len"
    and "len \<le> length (context_wire sid r count order tsi tsf it ft @ rest)"
  shows "context_decode (Some (context_wire sid r count order tsi tsf it ft @ rest)) len order bc =
    Inr (Some \<lparr>cd_header = sent_context_header sid count tsi tsf it ft r, cd_fields = from_raw r\<rparr>,
         length (context_wire sid r count order tsi tsf it ft))"
proof -
  let ?h = "sent_context_header sid count tsi tsf it ft r"
  let ?w = "context_words tsi tsf r"
  let ?buf = "context_wire sid r count order tsi tsf it ft @ rest"
  let ?rest = "wordBytes order (cif0_of r) @ fields_below order r 31 @ rest"
  note u = unat_context_size [of sid count tsi tsf it ft r]
  have sw: "sizeInWords ?h + 1 + raw_words r = ?w" by (rule sent_context_header_words)
  have pos: "0 < ?w" by (simp add: context_words_def)
  have buf: "?buf = header_wire order ?h @ ?rest" by (simp add: context_wire_def)
  have p: "parse (Some ?buf) len order default_PacketHeader 0 = Inr (True, ?h, sizeInBytes ?h)"
    unfolding buf
  proof (rule parse_of_serialize)
    show "serialize ?h order [] = Inr (header_wire order ?h)" by (simp add: serialize_eq)
    show "packetSize ?h \<noteq> 0" using u pos by (metis unat_0 less_irrefl)
    show "len \<le> length (header_wire order ?h @ ?rest)" using assms(2) buf by simp
    show "unat (packetSize ?h) * 4 \<le> len" using assms(1) u by (simp only: length_context_wire)
  qed (use u sw in \<open>simp_all only: wf_sent_context_header\<close>)
  have pl: "drop (sizeInBytes ?h) ?buf = ?rest"
    unfolding buf using length_header_wire [OF wf_sent_context_header] by simp
  then have pl4: "drop (sizeInBytes ?h + 4) ?buf = fields_below order r 31 @ rest"
  proof -
    have "drop (sizeInBytes ?h + 4) ?buf = drop 4 (drop (sizeInBytes ?h) ?buf)"
      by (simp only: drop_drop add.commute)
    with pl show ?thesis by simp
  qed
  have loop: "decode_loop (cif0_of r) (?w * 4) order ?buf 30 (sizeInBytes ?h + 4) f =
      Inr (Some (fill_below r 31 f))" for f
    using decode_loop_wire [of 30 "sizeInBytes ?h + 4" ?buf order r rest "?w * 4" f] pl4 sw
    by (simp add: length_fields sizeInBytes_def)
  have ch: "(cif0_of r AND CIF0_CHANGE_INDICATOR \<noteq> 0) = rc_change r"
    using and_push_bit_iff [of 31 "cif0_of r"] bit_cif0_change by (simp add: CIF0_CHANGE_INDICATOR_def)
  have t: "isContextPacket (packetType ?h)" by (simp add: isContextPacket_def)
  have len: "\<not> len < 4" using assms(1) pos by (simp add: length_context_wire)
  have le: "\<not> sizeInBytes ?h + 4 > ?w * 4" using sw by (simp add: sizeInBytes_def)
  show ?thesis
    unfolding context_decode_def option.case if_False len p obind_Inr prod.case Let_def u pl
      word32.rd_enc loop ch fill_below_31 length_context_wire mult.commute [of 4]
    using le len by (simp add: t del: sent_context_header_fields)
qed

lemma context_decode_total:
  assumes "len \<le> length buf"
  shows "\<exists>r n. context_decode (Some buf) len order bc = Inr (r, n) \<and>
    n = (case r of None \<Rightarrow> bc | Some d \<Rightarrow> unat (packetSize (cd_header d)) * 4) \<and>
    (case r of None \<Rightarrow> True
     | Some d \<Rightarrow> parse (Some buf) len order default_PacketHeader 0 =
         Inr (True, cd_header d, sizeInBytes (cd_header d)))  \<and>
    (r \<noteq> None \<longleftrightarrow> (\<exists>h. parse (Some buf) len order default_PacketHeader 0 = Inr (True, h, sizeInBytes h) \<and>
       isContextPacket (packetType h) \<and>
       sizeInWords h + 1 \<le> unat (packetSize h) \<and>
       sizeInWords h + 1 + cif0_words (word_at order (sizeInBytes h) buf) 31 \<le> unat (packetSize h)))"
proof -
  obtain ok h hb where p: "parse (Some buf) len order default_PacketHeader 0 = Inr (ok, h, hb)"
    using parse_accepted [OF assms, of order default_PacketHeader 0]
      parse_rejected [OF assms, of order default_PacketHeader 0] by blast
  show ?thesis
  proof (cases "4 \<le> len \<and> ok \<and> isContextPacket (packetType h) \<and> hb + 4 \<le> unat (packetSize h) * 4")
    case True
    then have ok: ok by blast
    note ph = parsed_header [OF p [simplified ok] assms]
    let ?pb = "unat (packetSize h) * 4"
    let ?cif0 = "word_at order hb buf"
    have c: "readWord order (drop hb buf) = Inr ?cif0"
      using True ph(3) assms by (intro readWord_at) simp
    let ?f = "default_ContextFields\<lparr>changeIndicator := (?cif0 AND CIF0_CHANGE_INDICATOR \<noteq> 0)\<rparr>"
    obtain r where r: "decode_loop ?cif0 ?pb order buf 30 (hb + 4) ?f = Inr r"
      "r \<noteq> None \<longleftrightarrow> hb + 4 + 4 * cif0_words ?cif0 (Suc 30) \<le> ?pb"
      using decode_loop_total [of ?pb buf "hb + 4" 30 ?cif0 order ?f] True ph(3) assms by auto
    have e: "hb + 4 + 4 * cif0_words ?cif0 (Suc 30) \<le> ?pb \<longleftrightarrow>
        sizeInWords h + 1 + cif0_words ?cif0 31 \<le> unat (packetSize h)"
      unfolding ph(1) sizeInBytes_def by (simp del: cif0_words.simps) presburger
    have d: "context_decode (Some buf) len order bc =
      Inr (case r of None \<Rightarrow> (None, bc) | Some fl \<Rightarrow> (Some \<lparr>cd_header = h, cd_fields = fl\<rparr>, ?pb))"
      using True p c r(1) by (cases r) (simp_all add: context_decode_def Let_def)
    show ?thesis
      unfolding d using p ok ph(1) True r(2)[unfolded e] by (cases r) (auto simp: sizeInBytes_def)
  next
    case False
    then have "context_decode (Some buf) len order bc = Inr (None, bc)"
      using p by (auto simp: context_decode_def Let_def)
    moreover have "4 \<le> len" if "ok"
      using parsed_header [OF p [simplified that] assms] unat_gt_0 [of "packetSize h"] that by force
    ultimately show ?thesis using False p parsed_header(1) [of buf len order 0 h hb] assms
      by (auto simp: sizeInBytes_def)
  qed
qed

section \<open>Exactness of the conversions\<close>

definition float64 :: "rat \<Rightarrow> bool" where
  "float64 x \<longleftrightarrow> round64 x = Finite x"

lemma abs_less_pow1024: "\<bar>x\<bar> \<le> 2 ^ 100 \<Longrightarrow> \<bar>x\<bar> < 2 powi 1024" for x :: rat
  by (erule le_less_trans) simp

lemma round64_near: "\<bar>round_to 53 (-1074) x\<bar> \<le> 2 ^ 100 \<Longrightarrow> round64 x = Finite (round_to 53 (-1074) x)"
  using abs_less_pow1024 by (simp add: round64_def fp_round_def Let_def)

lemma round64_scaled_int:
  assumes "\<bar>m\<bar> < 2 ^ 53" and "-1074 \<le> q" and "q \<le> 40"
  shows "round64 (of_int m * 2 powi q) = Finite (of_int m * 2 powi q)"
proof -
  have "\<bar>of_int m\<bar> < (of_int (2 ^ 53) :: rat)" by (rule abs_of_int_less) (rule assms(1))
  moreover have "2 powi q \<le> (2 powi 40 :: rat)" by (rule powi_mono) (rule assms(3))
  ultimately have "\<bar>of_int m * 2 powi q\<bar> \<le> (2 ^ 53 * 2 ^ 40 :: rat)"
    unfolding abs_mult by (intro mult_mono) auto
  then have "\<bar>of_int m * 2 powi q\<bar> \<le> (2 ^ 100 :: rat)" by (rule order_trans) simp
  then show ?thesis
    using round_to_exact [OF assms(1,2)] round64_near [of "of_int m * 2 powi q"] by simp
qed

lemma double_of_int_exact: "\<bar>i\<bar> < 2 ^ 53 \<Longrightarrow> double_of_int i = Finite (of_int i)"
  using round64_scaled_int [of i 0] by (simp add: double_of_int_def)

lemma fixed_quotient:
  assumes "\<bar>i\<bar> < 2 ^ 53" and "n \<le> 1000"
  shows "double_div (double_of_int i) (Finite (2 ^ n)) = Finite (of_int i / 2 ^ n)"
proof -
  have "of_int i * 2 powi (- int n) = (of_int i / 2 ^ n :: rat)"
    by (simp add: power_int_minus field_simps)
  then show ?thesis
    using round64_scaled_int [of i "- int n"] assms by (simp add: double_div_def double_of_int_exact)
qed

lemma float64_scale_up:
  assumes "float64 x" and "\<bar>x * 2 ^ n\<bar> \<le> 2 ^ 100"
  shows "double_mul (Finite x) (Finite (2 ^ n)) = Finite (x * 2 ^ n)"
proof -
  have "round_to 53 (-1074) x = x"
    using assms(1) by (auto simp: float64_def round64_def fp_round_def fp_inf_def Let_def split: if_splits)
  from round_to_scale_up [OF this, of n] assms(2) round64_near [of "x * 2 ^ n"]
  show ?thesis by (simp add: double_mul_def)
qed

lemma quotient_float64: "\<bar>i\<bar> < 2 ^ 53 \<Longrightarrow> n \<le> 1000 \<Longrightarrow> float64 (of_int i / 2 ^ n)"
  using round64_scaled_int [of i "- int n"] by (simp add: float64_def power_int_minus field_simps)

text \<open>A double in range converts to the nearest fixed-point value, and back to its quotient.\<close>

lemma scaled_conversion:
  assumes "float64 x" and "\<bar>x * 2 ^ n\<bar> \<le> 2 ^ 100" and "in_signed_range k (round_half_away (x * 2 ^ n))"
  shows "fp_to_signed k (fp_round_away (double_mul (Finite x) (Finite (2 ^ n)))) =
    Inr (round_half_away (x * 2 ^ n))"
  using assms by (simp add: float64_scale_up)

lemma scaled_conversion_fault:
  assumes "float64 x" and "\<bar>x * 2 ^ n\<bar> \<le> 2 ^ 100" and "\<not> in_signed_range k (round_half_away (x * 2 ^ n))"
  shows "fp_to_signed k (fp_round_away (double_mul (Finite x) (Finite (2 ^ n)))) = Inl BadConversion"
  using assms by (simp add: float64_scale_up)

lemma radix_powers: "FREQ_RADIX = Finite (2 ^ 20)" "GAIN_RADIX = Finite (2 ^ 7)"
  by (simp_all add: FREQ_RADIX_def GAIN_RADIX_def)

lemma half_step: "\<bar>of_int (round_half_away (x * 2 ^ n)) / 2 ^ n - x\<bar> \<le> 1 / 2 ^ Suc n"
proof -
  have "\<bar>of_int (round_half_away (x * 2 ^ n)) / 2 ^ n - x\<bar> =
      \<bar>of_int (round_half_away (x * 2 ^ n)) - x * 2 ^ n\<bar> / 2 ^ n"
  proof -
    have "of_int (round_half_away (x * 2 ^ n)) / 2 ^ n - x =
        (of_int (round_half_away (x * 2 ^ n)) - x * 2 ^ n) / 2 ^ n" by (simp add: field_simps)
    then show ?thesis by (simp only: abs_divide) simp
  qed
  also have "\<dots> \<le> 1 / 2 / 2 ^ n" by (intro divide_right_mono round_half_away_error) simp
  finally show ?thesis by (simp add: field_simps)
qed

lemma round_half_away_bound: "\<bar>x\<bar> \<le> of_int k \<Longrightarrow> \<bar>round_half_away x\<bar> \<le> k"
proof -
  assume x: "\<bar>x\<bar> \<le> of_int k"
  then have "\<bar>of_int (round_half_away x)\<bar> \<le> (of_int k + 1 / 2 :: rat)"
    using round_half_away_error [of x] unfolding abs_le_iff by linarith
  then have "of_int \<bar>round_half_away x\<bar> < (of_int (k + 1) :: rat)" by simp
  then show ?thesis unfolding of_int_less_iff by simp
qed

lemma freqFromFixed_exact:
  "\<bar>sint raw\<bar> < 2 ^ 53 \<Longrightarrow> freqFromFixed raw = Finite (of_int (sint raw) / 2 ^ 20)"
  using fixed_quotient [of "sint raw" 20] by (simp add: freqFromFixed_def FREQ_RADIX_def)

lemma refix_freq:
  assumes "\<bar>sint raw\<bar> < 2 ^ 53"
  shows "freqToFixed (freqFromFixed raw) = Inr raw"
proof -
  let ?i = "sint raw"
  have "of_int ?i / 2 ^ 20 * 2 ^ 20 = (of_int ?i :: rat)" by simp
  moreover have "\<bar>of_int ?i\<bar> \<le> (2 ^ 100 :: rat)"
    using abs_of_int_less [OF assms] by simp
  moreover have "in_signed_range 64 ?i" using assms by (auto simp: in_signed_range_def)
  ultimately show ?thesis
    using scaled_conversion [OF quotient_float64 [OF assms, of 20], of 20 64] assms
    by (simp only: freqToFixed_def freqFromFixed_exact radix_powers round_half_away_int)
      (simp add: word_of_int_sint)
qed

lemma i16_small: "\<bar>sint (v :: i16)\<bar> < 2 ^ 53"
  using sint_i16_bounds [of v] by auto

lemma refix_level:
  "fp_to_signed 16 (fp_round_away (double_mul (double_div (double_of_int (sint v)) GAIN_RADIX) GAIN_RADIX)) =
     Inr (sint (v :: i16))"
proof -
  have "of_int (sint v) / 2 ^ 7 * 2 ^ 7 = (of_int (sint v) :: rat)" by simp
  moreover have "\<bar>of_int (sint v)\<bar> \<le> (2 ^ 100 :: rat)"
    using abs_of_int_less [OF i16_small [of v]] by simp
  moreover have "in_signed_range 16 (sint v)"
    using sint_i16_bounds [of v] by (simp add: in_signed_range_def)
  ultimately show ?thesis
    using scaled_conversion [OF quotient_float64 [OF i16_small [of v], of 7], of 7 16]
      fixed_quotient [OF i16_small [of v], of 7]
    by (simp only: radix_powers round_half_away_int)
qed

lemma refix_refLevel: "refLevelToFixed (refLevelFromFixed w) = Inr (w AND 0xFFFF0000)"
proof -
  have "push_bit 16 (ucast (ucast (drop_bit 16 w AND 0xFFFF) :: u16)) = (w AND 0xFFFF0000 :: u32)"
  proof (rule bit_word_eqI)
    fix n
    have m: "(0xFFFF0000 :: u32) = push_bit 16 (mask 16)" by (simp add: mask_eq_exp_minus_1)
    assume "n < LENGTH(32)"
    then show "bit (push_bit 16 (ucast (ucast (drop_bit 16 w AND 0xFFFF) :: u16)) :: u32) n =
        bit (w AND 0xFFFF0000) n"
      unfolding m by (cases "n < 16") (auto simp: bit_simps mask_simps)
  qed
  then show ?thesis
    by (simp add: refLevelToFixed_def refLevelFromFixed_def Let_def refix_level word_of_int_sint)
qed

lemma refix_gain: "gainToFixed (gainFromFixed w) = Inr (w AND 0xFFFF)"
proof -
  have "ucast (ucast (w AND 0xFFFF) :: u16) = (w AND 0xFFFF :: u32)"
    by (rule bit_word_eqI) (auto simp: bit_simps mask_simps dest: bit_imp_le_length)
  then show ?thesis
    by (simp add: gainToFixed_def gainFromFixed_def Let_def refix_level word_of_int_sint)
qed

lemma freqToFixed_eq:
  assumes "float64 x" and "\<bar>x\<bar> \<le> 2 ^ 80"
  shows "freqToFixed (Finite x) =
    (if in_signed_range 64 (round_half_away (x * 2 ^ 20))
     then Inr (word_of_int (round_half_away (x * 2 ^ 20))) else Inl BadConversion)"
proof -
  have "\<bar>x * 2 ^ 20\<bar> \<le> 2 ^ 100"
    using mult_right_mono [OF assms(2), of "2 ^ 20"] by (simp add: abs_mult)
  then show ?thesis
    using scaled_conversion [OF assms(1), of 20 64] scaled_conversion_fault [OF assms(1), of 20 64]
    by (simp only: freqToFixed_def radix_powers) simp
qed

lemma levelToFixed_eq:
  assumes "float64 x" and "\<bar>x\<bar> \<le> 2 ^ 80"
  shows "refLevelToFixed (Finite x) =
    (if in_signed_range 16 (round_half_away (x * 2 ^ 7))
     then Inr (push_bit 16 (ucast (word_of_int (round_half_away (x * 2 ^ 7)) :: i16)))
     else Inl BadConversion)"
  and "gainToFixed (Finite x) =
    (if in_signed_range 16 (round_half_away (x * 2 ^ 7))
     then Inr (ucast (word_of_int (round_half_away (x * 2 ^ 7)) :: i16)) else Inl BadConversion)"
proof -
  have "\<bar>x * 2 ^ 7\<bar> \<le> 2 ^ 80 * 2 ^ 7"
    using mult_right_mono [OF assms(2), of "2 ^ 7"] by (simp add: abs_mult)
  then have "\<bar>x * 2 ^ 7\<bar> \<le> 2 ^ 100" by (rule order_trans) simp
  then have "fp_to_signed 16 (fp_round_away (double_mul (Finite x) (Finite (2 ^ 7)))) =
      (if in_signed_range 16 (round_half_away (x * 2 ^ 7))
       then Inr (round_half_away (x * 2 ^ 7)) else Inl BadConversion)"
    using scaled_conversion [OF assms(1), of 7 16] scaled_conversion_fault [OF assms(1), of 7 16]
    by simp
  then show "refLevelToFixed (Finite x) =
    (if in_signed_range 16 (round_half_away (x * 2 ^ 7))
     then Inr (push_bit 16 (ucast (word_of_int (round_half_away (x * 2 ^ 7)) :: i16)))
     else Inl BadConversion)"
   and "gainToFixed (Finite x) =
    (if in_signed_range 16 (round_half_away (x * 2 ^ 7))
     then Inr (ucast (word_of_int (round_half_away (x * 2 ^ 7)) :: i16)) else Inl BadConversion)"
    by (simp_all only: refLevelToFixed_def gainToFixed_def radix_powers Let_def) simp_all
qed

text \<open>The largest raw frequencies round up to 2 to the 63.\<close>

lemma double_of_top_int:
  assumes "2 ^ 63 - 512 \<le> i" and "i < 2 ^ 63"
  shows "double_of_int i = Finite (of_int (2 ^ 63))"
proof -
  define x :: rat where "x = of_int i"
  have "of_int (2 ^ 63 - 512) \<le> x" "x < of_int (2 ^ 63)"
    using assms unfolding x_def by (simp_all only: of_int_le_iff of_int_less_iff)
  then have lo: "2 ^ 63 - 512 \<le> x" and hi: "x < 2 ^ 63" by simp_all
  have "rat_log2 x = 62"
    by (rule rat_log2_unique) (use lo hi in \<open>simp_all add: abs_of_nonneg\<close>)
  then have q: "ulp_exponent 53 (-1074) x = 10" by (simp add: ulp_exponent_def)
  have f: "\<lfloor>x / 1024\<rfloor> = 2 ^ 53 - 1" using lo hi by (intro floor_unique) simp_all
  have "round_half_even (x / 1024) = 2 ^ 53"
    unfolding round_half_even_def Let_def f using lo by simp
  then have "round_to 53 (-1074) x = 2 ^ 63" using lo by (simp add: round_to_def q Let_def)
  then show ?thesis
    using round64_near [of x] by (simp add: double_of_int_def x_def)
qed

lemma top_freq_fault:
  assumes "2 ^ 63 - 512 \<le> sint raw"
  shows "freqToFixed (freqFromFixed raw) = Inl BadConversion"
proof -
  have hi: "sint raw < 2 ^ 63" using sint_range_size [of raw] by (simp add: word_size)
  have c: "(2 :: rat) ^ 43 = of_int 1 * 2 powi 43" by simp
  have r: "round64 ((2 :: rat) ^ 43) = Finite (2 ^ 43)"
  proof -
    have "(2 :: rat) ^ 43 = of_int (2 ^ 43) * 2 powi 0" by simp
    then show ?thesis using round64_scaled_int [of "2 ^ 43" 0] by simp
  qed
  have f: "freqFromFixed raw = Finite (2 ^ 43)"
    using r by (simp add: freqFromFixed_def double_of_top_int [OF assms hi] double_div_def FREQ_RADIX_def)
  have "float64 (2 ^ 43)" using r by (simp add: float64_def)
  from freqToFixed_eq [OF this] show ?thesis
    unfolding f using round_half_away_int [of "2 ^ 63"] by (simp add: in_signed_range_def)
qed

text \<open>Raw contexts that the conversions keep.\<close>

definition raw_exact :: "RawContext \<Rightarrow> bool" where
  "raw_exact r \<longleftrightarrow>
     (\<forall>v \<in> set_option (rc_bandwidth r) \<union> set_option (rc_ifRef r) \<union> set_option (rc_rf r) \<union>
        set_option (rc_rfOffset r) \<union> set_option (rc_ifBand r) \<union> set_option (rc_rate r).
        \<bar>sint v\<bar> < 2 ^ 53) \<and>
     (\<forall>w \<in> set_option (rc_refLevel r). w AND 0xFFFF0000 = w) \<and>
     (\<forall>w \<in> set_option (rc_gain r). w AND 0xFFFF = w)"

lemma convert_map: "(\<And>v. v \<in> set_option x \<Longrightarrow> f (g v) = Inr v) \<Longrightarrow> convert f (map_option g x) = Inr x"
  by (cases x) auto

lemma to_raw_from_raw:
  assumes "raw_exact r"
  shows "to_raw (from_raw r) = Inr r"
proof -
  have freq: "convert freqToFixed (map_option freqFromFixed x) = Inr x"
    if "\<forall>v \<in> set_option x. \<bar>sint v\<bar> < 2 ^ 53" for x
    using that by (intro convert_map refix_freq) blast
  have lvl: "convert refLevelToFixed (map_option refLevelFromFixed x) = Inr x"
    if "\<forall>w \<in> set_option x. w AND 0xFFFF0000 = w" for x
    using that by (intro convert_map) (metis refix_refLevel)
  have gn: "convert gainToFixed (map_option gainFromFixed x) = Inr x"
    if "\<forall>w \<in> set_option x. w AND 0xFFFF = w" for x
    using that by (intro convert_map) (metis refix_gain)
  have b: "\<forall>v \<in> set_option (rc_bandwidth r). \<bar>sint v\<bar> < 2 ^ 53" "\<forall>v \<in> set_option (rc_ifRef r). \<bar>sint v\<bar> < 2 ^ 53"
    "\<forall>v \<in> set_option (rc_rf r). \<bar>sint v\<bar> < 2 ^ 53" "\<forall>v \<in> set_option (rc_rfOffset r). \<bar>sint v\<bar> < 2 ^ 53"
    "\<forall>v \<in> set_option (rc_ifBand r). \<bar>sint v\<bar> < 2 ^ 53" "\<forall>v \<in> set_option (rc_rate r). \<bar>sint v\<bar> < 2 ^ 53"
    "\<forall>w \<in> set_option (rc_refLevel r). w AND 0xFFFF0000 = w" "\<forall>w \<in> set_option (rc_gain r). w AND 0xFFFF = w"
    using assms by (simp_all add: raw_exact_def)
  show ?thesis
    unfolding to_raw_def from_raw_def ContextFields.select_convs
      freq [OF b(1)] freq [OF b(2)] freq [OF b(3)] freq [OF b(4)] freq [OF b(5)] freq [OF b(6)]
      lvl [OF b(7)] gn [OF b(8)] obind_Inr
    by simp
qed

section \<open>Properties of the context codec\<close>

text \<open>
  C31. Decoding a context packet never reads outside the available bytes.  It succeeds exactly when
  the header parses, is a context header, and the packet is long enough for its CIF0 word and for
  every field that the bits 30 to 15 of CIF0 announce; then it consumes the size that the header
  announces, and otherwise \<open>bytesConsumed\<close> is left alone.
\<close>

theorem context_decode_safe_exact:
  assumes "len \<le> length buf"
  shows "\<exists>r n. context_decode (Some buf) len order bc = Inr (r, n) \<and>
    n = (case r of None \<Rightarrow> bc | Some d \<Rightarrow> unat (packetSize (cd_header d)) * 4) \<and>
    (case r of None \<Rightarrow> True
     | Some d \<Rightarrow> parse (Some buf) len order default_PacketHeader 0 =
         Inr (True, cd_header d, sizeInBytes (cd_header d)))  \<and>
    (r \<noteq> None \<longleftrightarrow> (\<exists>h. parse (Some buf) len order default_PacketHeader 0 = Inr (True, h, sizeInBytes h) \<and>
       isContextPacket (packetType h) \<and>
       sizeInWords h + 1 \<le> unat (packetSize h) \<and>
       sizeInWords h + 1 + cif0_words (word_at order (sizeInBytes h) buf) 31 \<le> unat (packetSize h)))"
  using assms by (rule context_decode_total)

text \<open>
  Encoding a context whose fields convert yields a packet of at most 22 words, as long as its
  header announces: the announced fields, the CIF0 word and the header.
\<close>

theorem context_encode_size:
  assumes "to_raw f = Inr r"
  shows "\<exists>wire. context_encode sid f count order tsi tsf it ft = Inr wire \<and>
    length wire = 4 * unat (packetSize (sent_context_header sid count tsi tsf it ft r)) \<and>
    length wire = sizeInBytes (sent_context_header sid count tsi tsf it ft r) + 4 + 4 * raw_words r \<and>
    0 < length wire \<and> length wire \<le> 88"
proof -
  have "0 < context_words tsi tsf r" by (simp add: context_words_def)
  then show ?thesis
    using assms context_words_bound [of tsi tsf r] sent_context_header_words [of sid count tsi tsf it ft r]
    by (simp add: context_encode_eq length_context_wire unat_context_size sizeInBytes_def
        del: sent_context_header_fields length_greater_0_conv)
qed

text \<open>
  C22. Decoding an encoded context packet, whatever bytes follow it, gives back the header, the
  presence of every field and the change indicator, and every value as its fixed-point
  conversion, and consumes exactly the packet.
\<close>

theorem context_roundtrip:
  assumes "to_raw f = Inr r" and "context_encode sid f count order tsi tsf it ft = Inr wire"
    and "length wire \<le> len" and "len \<le> length (wire @ rest)"
  shows "context_decode (Some (wire @ rest)) len order bc =
    Inr (Some \<lparr>cd_header = sent_context_header sid count tsi tsf it ft r, cd_fields = from_raw r\<rparr>,
         length wire)"
proof -
  have "wire = context_wire sid r count order tsi tsf it ft"
    using assms(1,2) by (simp add: context_encode_eq)
  with assms(3,4) show ?thesis by (simp only: context_decode_wire)
qed

text \<open>
  Encoding the decoded fields reproduces the packet bit for bit when the 64-bit values have
  at most 53 significant bits, the low half of the reference level word and the high half of the
  gain word are zero.
\<close>

theorem context_reencode:
  assumes "raw_exact r"
  shows "context_encode sid (from_raw r) count order tsi tsf it ft =
    Inr (context_wire sid r count order tsi tsf it ft)"
  using to_raw_from_raw [OF assms] by (simp add: context_encode_eq)

text \<open>
  A frequency or rate of at most 2 to the 32 Hz survives encoding and decoding within half a
  unit of the 20-bit fraction.
\<close>

theorem freq_accuracy:
  assumes "float64 x" and "\<bar>x\<bar> \<le> 2 ^ 32"
  shows "\<exists>raw y. freqToFixed (Finite x) = Inr raw \<and> freqFromFixed raw = Finite y \<and>
    \<bar>y - x\<bar> \<le> 1 / 2 ^ 21"
proof -
  let ?i = "round_half_away (x * 2 ^ 20)"
  have "\<bar>x * 2 ^ 20\<bar> \<le> of_int (2 ^ 52)"
    using mult_right_mono [OF assms(2), of "2 ^ 20"] by (simp add: abs_mult)
  then have i: "\<bar>?i\<bar> \<le> 2 ^ 52" by (rule round_half_away_bound)
  have r: "in_signed_range 64 ?i" using i by (auto simp: in_signed_range_def abs_le_iff)
  have s: "sint (word_of_int ?i :: i64) = ?i" using i by (intro sint_i64_of_int) (auto simp: abs_le_iff)
  have x: "\<bar>x\<bar> \<le> 2 ^ 80" using assms(2) by (rule order_trans) simp
  have "freqFromFixed (word_of_int ?i) = Finite (of_int ?i / 2 ^ 20)"
    using freqFromFixed_exact [of "word_of_int ?i"] i s by simp
  then show ?thesis
    using freqToFixed_eq [OF assms(1) x] r half_step [of x 20]
    by (intro exI [of _ "word_of_int ?i"] exI [of _ "of_int ?i / 2 ^ 20"]) simp
qed

text \<open>
  A reference level or gain within [-256, 256 - 1/128] survives encoding and decoding within
  half a step of the 7-bit fraction.
\<close>

theorem level_accuracy:
  assumes "float64 x" and "-256 \<le> x" and "x \<le> 256 - 1 / 128"
  shows "\<exists>w v y. refLevelToFixed (Finite x) = Inr w \<and> refLevelFromFixed w = Finite y \<and>
    gainToFixed (Finite x) = Inr v \<and> gainFromFixed v = Finite y \<and> \<bar>y - x\<bar> \<le> 1 / 2 ^ 8"
proof -
  let ?i = "round_half_away (x * 2 ^ 7)"
  have b: "\<bar>x\<bar> \<le> 256" using assms(2,3) by (simp add: abs_le_iff)
  have "\<bar>x * 2 ^ 7\<bar> \<le> of_int 32768" using b by (simp add: abs_mult)
  then have i: "\<bar>?i\<bar> \<le> 32768" by (rule round_half_away_bound)
  have "of_int ?i \<le> x * 2 ^ 7 + 1 / 2"
    using round_half_away_error [of "x * 2 ^ 7"] unfolding abs_le_iff by linarith
  also have "\<dots> < 32768" using assms(3) by simp
  finally have "?i < 32768" by linarith
  with i have r: "-32768 \<le> ?i" "?i \<le> 32767" by (simp_all add: abs_le_iff)
  then have s: "sint (word_of_int ?i :: i16) = ?i" by (rule sint_i16_of_int)
  have "\<bar>x\<bar> \<le> 2 ^ 80" using b by (rule order_trans) simp
  note eq = levelToFixed_eq [OF assms(1) this]
  have q: "double_div (double_of_int ?i) GAIN_RADIX = Finite (of_int ?i / 2 ^ 7)"
    using fixed_quotient [of ?i 7] i by (simp add: GAIN_RADIX_def)
  have w: "ucast (drop_bit 16 (push_bit 16 (ucast v)) AND 0xFFFF :: u32) = v"
    "ucast ((ucast v :: u32) AND 0xFFFF) = v" for v :: i16
    by (rule bit_word_eqI; auto simp: bit_simps mask_simps dest: bit_imp_le_length)+
  have "in_signed_range 16 ?i" using r by (simp add: in_signed_range_def)
  then show ?thesis
    using eq half_step [of x 7] s q
    by (intro exI [of _ "push_bit 16 (ucast (word_of_int ?i :: i16))"]
        exI [of _ "ucast (word_of_int ?i :: i16)"] exI [of _ "of_int ?i / 2 ^ 7"])
      (simp add: refLevelFromFixed_def gainFromFixed_def Let_def w)
qed

text \<open>
  Converting a finite level, gain or frequency is defined exactly when the rounded scaled value
  fits the 16- or 64-bit target: outside that range the encoder casts a \<open>double\<close> to a type that
  cannot represent it, which is undefined behaviour.
\<close>

theorem conversion_domain:
  assumes "float64 x" and "\<bar>x\<bar> \<le> 2 ^ 80"
  shows "(refLevelToFixed (Finite x) = Inl BadConversion \<longleftrightarrow>
      \<not> (- 32768 \<le> round_half_away (x * 128) \<and> round_half_away (x * 128) \<le> 32767)) \<and>
    (gainToFixed (Finite x) = Inl BadConversion \<longleftrightarrow>
      \<not> (- 32768 \<le> round_half_away (x * 128) \<and> round_half_away (x * 128) \<le> 32767)) \<and>
    (freqToFixed (Finite x) = Inl BadConversion \<longleftrightarrow>
      \<not> (- (2 ^ 63) \<le> round_half_away (x * 1048576) \<and> round_half_away (x * 1048576) < 2 ^ 63))"
proof -
  have "in_signed_range 16 i \<longleftrightarrow> - 32768 \<le> i \<and> i \<le> 32767" for i
    by (auto simp: in_signed_range_def)
  then show ?thesis
    using levelToFixed_eq [OF assms] freqToFixed_eq [OF assms]
    by (simp add: in_signed_range_def)
qed

text \<open>
  The largest raw frequencies do not survive: a decoded 64-bit value of at least 2 to the 63
  less 512 rounds up to 2 to the 63, and encoding the decoded frequency again is undefined.
\<close>

theorem top_freq_not_reencodable:
  assumes "2 ^ 63 - 512 \<le> sint raw"
  shows "freqToFixed (freqFromFixed raw) = Inl BadConversion"
  using assms by (rule top_freq_fault)

section \<open>Instances\<close>

definition example_raw :: RawContext where
  "example_raw = \<lparr>rc_change = True, rc_refPoint = None, rc_bandwidth = Some 0x1000000,
     rc_ifRef = None, rc_rf = None, rc_rfOffset = Some (-1), rc_ifBand = None,
     rc_refLevel = Some 0xFF800000, rc_gain = Some 0x0100, rc_overRange = Some 5, rc_rate = None\<rparr>"

lemma example_raw_exact: "raw_exact example_raw"
  by (simp add: raw_exact_def example_raw_def)

text \<open>A truncated context packet: CIF0 announces a bandwidth that is not there.\<close>

theorem context_decode_safe_exact_witness:
  "\<exists>r n. context_decode (Some [0x40, 0, 0, 3, 0, 0, 0, 9, 0x20, 0, 0, 0]) 12 BigEndian 0 = Inr (r, n) \<and>
    n = (case r of None \<Rightarrow> 0 | Some d \<Rightarrow> unat (packetSize (cd_header d)) * 4) \<and>
    (case r of None \<Rightarrow> True
     | Some d \<Rightarrow> parse (Some [0x40, 0, 0, 3, 0, 0, 0, 9, 0x20, 0, 0, 0]) 12 BigEndian default_PacketHeader 0 =
         Inr (True, cd_header d, sizeInBytes (cd_header d)))  \<and>
    (r \<noteq> None \<longleftrightarrow> (\<exists>h. parse (Some [0x40, 0, 0, 3, 0, 0, 0, 9, 0x20, 0, 0, 0]) 12 BigEndian default_PacketHeader 0
         = Inr (True, h, sizeInBytes h) \<and>
       isContextPacket (packetType h) \<and> sizeInWords h + 1 \<le> unat (packetSize h) \<and>
       sizeInWords h + 1 +
         cif0_words (word_at BigEndian (sizeInBytes h) [0x40, 0, 0, 3, 0, 0, 0, 9, 0x20, 0, 0, 0]) 31
         \<le> unat (packetSize h)))"
  by (rule context_decode_safe_exact) simp

theorem context_encode_size_witness:
  "\<exists>wire. context_encode 7 (from_raw example_raw) 3 BigEndian TSI_UTC TSF_None 9 0 = Inr wire \<and>
    length wire = 4 * unat (packetSize (sent_context_header 7 3 TSI_UTC TSF_None 9 0 example_raw)) \<and>
    length wire = sizeInBytes (sent_context_header 7 3 TSI_UTC TSF_None 9 0 example_raw) + 4 +
      4 * raw_words example_raw \<and>
    0 < length wire \<and> length wire \<le> 88"
  by (rule context_encode_size [OF to_raw_from_raw [OF example_raw_exact]])

theorem context_roundtrip_witness:
  "\<exists>wire. context_encode 7 (from_raw example_raw) 3 LittleEndian TSI_UTC TSF_None 9 0 = Inr wire \<and>
    context_decode (Some (wire @ [1, 2])) (length wire + 1) LittleEndian 0 =
    Inr (Some \<lparr>cd_header = sent_context_header 7 3 TSI_UTC TSF_None 9 0 example_raw,
               cd_fields = from_raw example_raw\<rparr>, length wire)"
proof -
  note t = to_raw_from_raw [OF example_raw_exact]
  let ?wire = "context_wire 7 example_raw 3 LittleEndian TSI_UTC TSF_None 9 0"
  have e: "context_encode 7 (from_raw example_raw) 3 LittleEndian TSI_UTC TSF_None 9 0 = Inr ?wire"
    by (simp add: context_encode_eq t)
  show ?thesis
    using context_roundtrip [OF t e, of "length ?wire + 1" "[1, 2]" 0] e by simp
qed

theorem context_reencode_witness:
  "context_encode 7 (from_raw example_raw) 3 BigEndian TSI_None TSF_None 0 0 =
    Inr (context_wire 7 example_raw 3 BigEndian TSI_None TSF_None 0 0)"
  by (rule context_reencode [OF example_raw_exact])

lemma float64_half: "float64 (5 / 2)"
  using quotient_float64 [of 5 1] by simp

theorem freq_accuracy_witness:
  "\<exists>raw y. freqToFixed (Finite (5 / 2)) = Inr raw \<and> freqFromFixed raw = Finite y \<and>
    \<bar>y - 5 / 2\<bar> \<le> 1 / 2 ^ 21"
  by (rule freq_accuracy [OF float64_half]) simp

theorem level_accuracy_witness:
  "\<exists>w v y. refLevelToFixed (Finite (5 / 2)) = Inr w \<and> refLevelFromFixed w = Finite y \<and>
    gainToFixed (Finite (5 / 2)) = Inr v \<and> gainFromFixed v = Finite y \<and> \<bar>y - 5 / 2\<bar> \<le> 1 / 2 ^ 8"
  by (rule level_accuracy [OF float64_half]) simp_all

text \<open>A gain of 256 dB is outside the domain, as a frequency it is inside.\<close>

theorem conversion_domain_witness:
  "gainToFixed (Finite 256) = Inl BadConversion \<and> refLevelToFixed (Finite 256) = Inl BadConversion \<and>
   freqToFixed (Finite 256) \<noteq> Inl BadConversion"
proof -
  have "float64 256" using quotient_float64 [of 256 0] by simp
  moreover have "round_half_away 32768 = 32768" "round_half_away 268435456 = 268435456"
    using round_half_away_int [of 32768] round_half_away_int [of 268435456] by simp_all
  ultimately show ?thesis using conversion_domain [of 256] by simp
qed

theorem top_freq_not_reencodable_witness:
  "freqToFixed (freqFromFixed 0x7FFFFFFFFFFFFFFF) = Inl BadConversion"
  by (rule top_freq_not_reencodable) simp

end
