(* ===== verification/Vita49Codec.thy ===== *)
theory Vita49Codec
  imports SignalDataPacket ContextPacket
begin

text \<open>
  \<open>src/libs/Vita49_2/Vita49Codec.cpp\<close>: the stream codec on top of the signal and context packets.

  \<^item> \<open>parsePacket\<close> peeks at the type in word 0 and dispatches; \<open>parse_loop\<close> is the loop of
    \<open>parseStream\<close>, whose termination rests on the test for zero progress.
  \<^item> \<open>encode_loop\<close> is the loop of \<open>encodeSignalData\<close>, which splits the samples into packets; it
    ends because \<open>maxSamplesPerPacket\<close> is never zero.

  The locale \<open>packet_stream\<close> states what a parser of concatenated packets relies on (progress and
  safety of the single-packet parser, the unfolding of the stream parser) and proves what follows
  for any sequence of framed packets: they are all found, in order, and a stream cut off anywhere
  yields exactly the packets that are complete.  It is interpreted on the codec.
\<close>

datatype ParsedPacketType = SignalData | Context | UnknownType

record ParsedPacket =
  pp_type :: ParsedPacketType
  pp_header :: PacketHeader
  pp_samples :: "IQSample list"
  pp_contextFields :: ContextFields

definition default_ParsedPacket :: ParsedPacket where
  "default_ParsedPacket = \<lparr>pp_type = UnknownType, pp_header = default_PacketHeader,
     pp_samples = [], pp_contextFields = default_ContextFields\<rparr>"

record Vita49Codec =
  byteOrder :: ByteOrder
  scaleFactor :: fp

definition make_codec :: "ByteOrder \<Rightarrow> fp \<Rightarrow> Vita49Codec" where
  "make_codec order factor = \<lparr>byteOrder = order, scaleFactor = factor\<rparr>"

definition setByteOrder :: "Vita49Codec \<Rightarrow> ByteOrder \<Rightarrow> Vita49Codec" where
  "setByteOrder codec order = codec\<lparr>byteOrder := order\<rparr>"

definition setScaleFactor :: "Vita49Codec \<Rightarrow> fp \<Rightarrow> Vita49Codec" where
  "setScaleFactor codec factor = codec\<lparr>scaleFactor := factor\<rparr>"

section \<open>parsePacket\<close>

definition peek_word0 :: "ByteOrder \<Rightarrow> bytes \<Rightarrow> u32 outcome" where
  "peek_word0 order data =
     obind (load data 0) (\<lambda>b0. obind (load data 1) (\<lambda>b1. obind (load data 2) (\<lambda>b2. obind (load data 3) (\<lambda>b3.
       Inr (if order = BigEndian
            then push_bit 24 (ucast b0) OR push_bit 16 (ucast b1) OR push_bit 8 (ucast b2) OR ucast b3
            else ucast b0 OR push_bit 8 (ucast b1) OR push_bit 16 (ucast b2) OR push_bit 24 (ucast b3))))))"

definition parsePacket ::
  "Vita49Codec \<Rightarrow> bytes option \<Rightarrow> nat \<Rightarrow> nat \<Rightarrow> (ParsedPacket option \<times> nat) outcome" where
  "parsePacket codec data len bytesConsumed =
    (case data of
       None \<Rightarrow> Inr (None, bytesConsumed)
     | Some buf \<Rightarrow>
         if len < 4 then Inr (None, bytesConsumed)
         else obind (peek_word0 (byteOrder codec) buf) (\<lambda>word0.
           let type = PacketType_of_u8 (ucast (drop_bit 28 word0 AND 0xF));
               result = default_ParsedPacket
           in if isDataPacket type then
                obind (signal_decode data len (byteOrder codec) (scaleFactor codec) bytesConsumed)
                  (\<lambda>(decoded, bytesConsumed).
                     case decoded of
                       None \<Rightarrow> Inr (None, bytesConsumed)
                     | Some d \<Rightarrow> Inr (Some (result\<lparr>pp_type := SignalData, pp_header := sd_header d,
                                     pp_samples := sd_samples d\<rparr>), bytesConsumed))
              else if isContextPacket type then
                obind (context_decode data len (byteOrder codec) bytesConsumed)
                  (\<lambda>(decoded, bytesConsumed).
                     case decoded of
                       None \<Rightarrow> Inr (None, bytesConsumed)
                     | Some d \<Rightarrow> Inr (Some (result\<lparr>pp_type := Context, pp_header := cd_header d,
                                     pp_contextFields := cd_fields d\<rparr>), bytesConsumed))
              else
                let size = (ucast (word0 AND 0xFFFF) :: u16);
                    packetBytes = unat size * 4
                in if size = 0 \<or> packetBytes > len then Inr (None, bytesConsumed)
                   else Inr (Some (result\<lparr>pp_type := UnknownType\<rparr>), packetBytes)))"

section \<open>parseStream\<close>

function parse_loop ::
  "Vita49Codec \<Rightarrow> bytes \<Rightarrow> nat \<Rightarrow> ParsedPacket list \<Rightarrow> nat \<Rightarrow> ParsedPacket list outcome" where
  "parse_loop codec buf len results offset =
    (if offset < len then
       let remaining = len - offset
       in if remaining < 4 then Inr results
          else obind (parsePacket codec (Some (drop offset buf)) remaining 0) (\<lambda>(packet, consumed).
            case packet of
              None \<Rightarrow> Inr results
            | Some p \<Rightarrow> if consumed = 0 then Inr results
                        else parse_loop codec buf len (results @ [p]) (offset + consumed))
     else Inr results)"
  by pat_completeness auto
termination
  by (relation "measure (\<lambda>(codec, buf, len, results, offset). len - offset)") auto

declare parse_loop.simps [simp del]

definition parseStream :: "Vita49Codec \<Rightarrow> bytes option \<Rightarrow> nat \<Rightarrow> ParsedPacket list outcome" where
  "parseStream codec data len =
    (case data of
       None \<Rightarrow> Inr []
     | Some buf \<Rightarrow> if len = 0 then Inr [] else parse_loop codec buf len [] 0)"

section \<open>encodeSignalData, encodeContext\<close>

lemma maxSamplesPerPacket_pos: "0 < maxSamplesPerPacket tsi tsf False tr"
  by (simp add: maxSamplesPerPacket_eq signal_words_def)

lemma split_progress:
  "offset < n \<Longrightarrow> n - (offset + min (maxSamplesPerPacket tsi tsf False tr) (n - offset)) < n - offset"
  using maxSamplesPerPacket_pos [of tsi tsf tr] by simp

function encode_loop ::
  "Vita49Codec \<Rightarrow> u32 \<Rightarrow> IQSample list \<Rightarrow> TSI \<Rightarrow> TSF \<Rightarrow> u32 \<Rightarrow> u64 \<Rightarrow> bool \<Rightarrow> bytes \<Rightarrow> nat \<Rightarrow> u8 \<Rightarrow> bytes outcome"
where
  "encode_loop codec sid samples tsi tsf it ft tr result offset pktCount =
    (if offset < length samples then
       let count = min (maxSamplesPerPacket tsi tsf False tr) (length samples - offset);
           chunk = take count (drop offset samples)
       in obind (signal_encode sid chunk pktCount (byteOrder codec) (scaleFactor codec) tsi tsf it ft tr)
            (\<lambda>packet. if packet = [] then Inr result
              else encode_loop codec sid samples tsi tsf it ft tr (result @ packet)
                     (offset + count) ((pktCount + 1) AND 0xF))
     else Inr result)"
  by pat_completeness auto
termination
  by (relation "measure (\<lambda>(codec, sid, samples, tsi, tsf, it, ft, tr, result, offset, pktCount).
        length samples - offset)") (auto simp: split_progress)

declare encode_loop.simps [simp del]

definition encodeSignalData ::
  "Vita49Codec \<Rightarrow> u32 \<Rightarrow> IQSample list \<Rightarrow> u8 \<Rightarrow> TSI \<Rightarrow> TSF \<Rightarrow> u32 \<Rightarrow> u64 \<Rightarrow> bool \<Rightarrow> bytes outcome" where
  "encodeSignalData codec sid samples startPacketCount tsi tsf it ft tr =
    (if maxSamplesPerPacket tsi tsf False tr = 0 then Inr []
     else obind (encode_loop codec sid samples tsi tsf it ft tr [] 0 startPacketCount) (\<lambda>result.
       if samples = []
       then signal_encode sid samples startPacketCount (byteOrder codec) (scaleFactor codec) tsi tsf it ft tr
       else Inr result))"

definition encodeContext ::
  "Vita49Codec \<Rightarrow> u32 \<Rightarrow> ContextFields \<Rightarrow> u8 \<Rightarrow> TSI \<Rightarrow> TSF \<Rightarrow> u32 \<Rightarrow> u64 \<Rightarrow> bytes outcome" where
  "encodeContext codec sid flds count tsi tsf it ft =
     context_encode sid flds count (byteOrder codec) tsi tsf it ft"

section \<open>Parsing a stream of packets\<close>

locale packet_stream =
  fixes parse1 :: "bytes \<Rightarrow> nat \<Rightarrow> ('p option \<times> nat) outcome"
    and stream :: "bytes \<Rightarrow> nat \<Rightarrow> 'p list outcome"
  assumes stream_unfold: "len \<le> length buf \<Longrightarrow> stream buf len =
      (if len < 4 then Inr []
       else obind (parse1 buf len) (\<lambda>(packet, consumed).
         case packet of None \<Rightarrow> Inr []
         | Some p \<Rightarrow> obind (stream (drop consumed buf) (len - consumed)) (\<lambda>ps. Inr (p # ps))))"
    and parse1_safe: "len \<le> length buf \<Longrightarrow> safe (parse1 buf len)"
    and parse1_progress: "len \<le> length buf \<Longrightarrow> parse1 buf len = Inr (Some p, n) \<Longrightarrow>
      4 \<le> n \<and> n \<le> len"
begin

text \<open>Every buffer parses without a fault, at most one packet per four bytes.\<close>

lemma stream_total: "len \<le> length buf \<Longrightarrow> \<exists>ps. stream buf len = Inr ps \<and> 4 * length ps \<le> len"
proof (induction len arbitrary: buf rule: less_induct)
  case (less len)
  obtain r n where p: "parse1 buf len = Inr (r, n)"
    using parse1_safe [OF less.prems] by (auto simp: safe_iff_ex)
  show ?case
  proof (cases "r = None \<or> len < 4")
    case False
    then obtain q where r: "r = Some q" by auto
    from parse1_progress [OF less.prems p [unfolded r]] have n: "4 \<le> n" "n \<le> len" by auto
    with less.prems have "\<exists>ps. stream (drop n buf) (len - n) = Inr ps \<and> 4 * length ps \<le> len - n"
      by (intro less.IH) auto
    then obtain ps where ps: "stream (drop n buf) (len - n) = Inr ps" "4 * length ps \<le> len - n"
      by blast
    then show ?thesis using False p r n less.prems by (simp add: stream_unfold)
  qed (use p less.prems in \<open>auto simp: stream_unfold\<close>)
qed

text \<open>
  \<open>w\<close> frames \<open>p\<close>: it is parsed as \<open>p\<close> whatever follows, and not at all when it is cut off.
\<close>

definition frames :: "bytes \<Rightarrow> 'p \<Rightarrow> bool" where
  "frames w p \<longleftrightarrow> 4 \<le> length w \<and>
     (\<forall>rest len. length w \<le> len \<and> len \<le> length (w @ rest) \<longrightarrow>
        parse1 (w @ rest) len = Inr (Some p, length w)) \<and>
     (\<forall>rest len. len < length w \<longrightarrow> (\<exists>n. parse1 (w @ rest) len = Inr (None, n)))"

lemma stream_frame:
  assumes "frames w p" and "length w \<le> len" and "len \<le> length (w @ rest)"
  shows "stream (w @ rest) len = obind (stream rest (len - length w)) (\<lambda>ps. Inr (p # ps))"
  using assms stream_unfold [OF assms(3)] by (simp add: frames_def)

lemma stream_cut:
  assumes "frames w p" and "len < length w"
  shows "stream (w @ rest) len = Inr []"
proof -
  obtain n where "parse1 (w @ rest) len = Inr (None, n)"
    using assms unfolding frames_def by blast
  then show ?thesis using assms(2) stream_unfold [of len "w @ rest"] by simp
qed

lemma stream_short: "len < 4 \<Longrightarrow> len \<le> length buf \<Longrightarrow> stream buf len = Inr []"
  by (simp add: stream_unfold)

text \<open>The packets that lie within the first \<open>len\<close> bytes.\<close>

fun complete :: "(bytes \<times> 'p) list \<Rightarrow> nat \<Rightarrow> 'p list" where
  "complete [] len = []"
| "complete ((w, p) # ws) len = (if length w \<le> len then p # complete ws (len - length w) else [])"

lemma complete_take:
  "\<exists>k \<le> length ws. complete ws len = map snd (take k ws) \<and>
     length (concat (map fst (take k ws))) \<le> len \<and>
     (k < length ws \<longrightarrow> len < length (concat (map fst (take (Suc k) ws))))"
proof (induction ws len rule: complete.induct)
  case (2 w p ws len)
  show ?case
  proof (cases "length w \<le> len")
    case True
    then obtain k where "k \<le> length ws" "complete ws (len - length w) = map snd (take k ws)"
      "length (concat (map fst (take k ws))) \<le> len - length w"
      "k < length ws \<longrightarrow> len - length w < length (concat (map fst (take (Suc k) ws)))"
      using 2 by blast
    with True show ?thesis by (intro exI [of _ "Suc k"]) auto
  qed (intro exI [of _ 0], simp)
qed simp

lemma complete_all: "length (concat (map fst ws)) \<le> len \<Longrightarrow> complete ws len = map snd ws"
  by (induction ws len rule: complete.induct) auto

lemma stream_frames:
  assumes "\<And>w p. (w, p) \<in> set ws \<Longrightarrow> frames w p"
    and "len \<le> length (concat (map fst ws))"
  shows "stream (concat (map fst ws) @ rest) len = Inr (complete ws len)"
  using assms
proof (induction ws len rule: complete.induct)
  case (2 w p ws len)
  then have f: "frames w p" by simp
  show ?case
  proof (cases "length w \<le> len")
    case True
    with 2 have "stream (concat (map fst ws) @ rest) (len - length w) = Inr (complete ws (len - length w))"
      by (intro "2.IH") auto
    moreover have "stream (w @ concat (map fst ws) @ rest) len =
        obind (stream (concat (map fst ws) @ rest) (len - length w)) (\<lambda>ps. Inr (p # ps))"
      using f True "2.prems"(2) by (intro stream_frame) auto
    ultimately show ?thesis using True by simp
  qed (use stream_cut [OF f] in simp)
qed (simp add: stream_short)

text \<open>What holds of every packet that the parser returns holds of the whole stream.\<close>

lemma stream_every:
  assumes "\<And>buf len p n. len \<le> length buf \<Longrightarrow> parse1 buf len = Inr (Some p, n) \<Longrightarrow> P p"
    and "len \<le> length buf" "stream buf len = Inr ps"
  shows "list_all P ps"
  using assms(2,3)
proof (induction len arbitrary: buf ps rule: less_induct)
  case (less len)
  obtain r n where p: "parse1 buf len = Inr (r, n)"
    using parse1_safe [OF less.prems(1)] by (auto simp: safe_iff_ex)
  show ?case
  proof (cases "r = None \<or> len < 4")
    case False
    then obtain q where r: "r = Some q" by auto
    from parse1_progress [OF less.prems(1) p [unfolded r]] have n: "4 \<le> n" "n \<le> len" by auto
    obtain qs where qs: "stream (drop n buf) (len - n) = Inr qs" "ps = q # qs"
      using less.prems False p r by (auto simp: stream_unfold obind_eq_Inr_iff)
    have "list_all P qs" by (rule less.IH [OF _ _ qs(1)]) (use n less.prems(1) in auto)
    then show ?thesis using qs(2) assms(1) [OF less.prems(1)] p r by simp
  qed (use p less.prems in \<open>auto simp: stream_unfold split: if_splits\<close>)
qed

end

section \<open>The codec as a packet stream\<close>

lemma peek_word0_eq:
  assumes "4 \<le> length buf"
  shows "peek_word0 order buf = Inr (word_at order 0 buf)"
proof -
  obtain b0 r0 where 0: "buf = b0 # r0" using assms by (cases buf) auto
  obtain b1 r1 where 1: "r0 = b1 # r1" using assms 0 by (cases r0) auto
  obtain b2 r2 where 2: "r1 = b2 # r2" using assms 0 1 by (cases r1) auto
  obtain b3 r3 where 3: "r2 = b3 # r3" using assms 0 1 2 by (cases r2) auto
  have "buf = b0 # b1 # b2 # b3 # r3" using 0 1 2 3 by simp
  then show ?thesis
    by (simp add: peek_word0_def load_def word_at_def readWord_def readU32BE_def readU32LE_def numeral_eq_Suc)
qed

lemma parsed_type:
  assumes "parse (Some buf) len order default_PacketHeader 0 = Inr (True, h, n)" and "len \<le> length buf"
  shows "packetType h = PacketType_of_u8 (ucast (drop_bit 28 (word_at order 0 buf) AND 0xF))"
    and "packetSize h = ucast (word_at order 0 buf AND 0xFFFF)"
proof -
  have "parse_accepts len order buf"
    using assms(1) parse_rejected [OF assms(2), of order default_PacketHeader 0] by fastforce
  from parse_accepted [OF assms(2) this, of default_PacketHeader 0] assms(1)
  have "h = fill_optional order buf (word0_header order buf default_PacketHeader)" by simp
  then show "packetType h = PacketType_of_u8 (ucast (drop_bit 28 (word_at order 0 buf) AND 0xF))"
    "packetSize h = ucast (word_at order 0 buf AND 0xFFFF)"
    by (simp_all add: word0_header_def)
qed

text \<open>\<open>parsePacket\<close> once the first word is known.\<close>

definition stream_type :: "ByteOrder \<Rightarrow> bytes \<Rightarrow> PacketType" where
  "stream_type order buf = PacketType_of_u8 (ucast (drop_bit 28 (word_at order 0 buf) AND 0xF))"

lemma parsePacket_short: "len < 4 \<Longrightarrow> parsePacket codec (Some buf) len bc = Inr (None, bc)"
  by (simp add: parsePacket_def)

lemma parsePacket_signal:
  assumes "4 \<le> len" "len \<le> length buf" "isDataPacket (stream_type (byteOrder codec) buf)"
  shows "parsePacket codec (Some buf) len bc =
    obind (signal_decode (Some buf) len (byteOrder codec) (scaleFactor codec) bc) (\<lambda>(d, n).
      Inr (map_option (\<lambda>d. default_ParsedPacket\<lparr>pp_type := SignalData, pp_header := sd_header d,
                             pp_samples := sd_samples d\<rparr>) d, n))"
  using assms
  by (cases "signal_decode (Some buf) len (byteOrder codec) (scaleFactor codec) bc")
    (auto simp: parsePacket_def peek_word0_eq stream_type_def Let_def split: option.split)

lemma parsePacket_context:
  assumes "4 \<le> len" "len \<le> length buf" "\<not> isDataPacket (stream_type (byteOrder codec) buf)"
    "isContextPacket (stream_type (byteOrder codec) buf)"
  shows "parsePacket codec (Some buf) len bc =
    obind (context_decode (Some buf) len (byteOrder codec) bc) (\<lambda>(d, n).
      Inr (map_option (\<lambda>d. default_ParsedPacket\<lparr>pp_type := Context, pp_header := cd_header d,
                             pp_contextFields := cd_fields d\<rparr>) d, n))"
  using assms
  by (cases "context_decode (Some buf) len (byteOrder codec) bc")
    (auto simp: parsePacket_def peek_word0_eq stream_type_def Let_def split: option.split)

lemma parsePacket_unknown:
  assumes "4 \<le> len" "len \<le> length buf" "\<not> isDataPacket (stream_type (byteOrder codec) buf)"
    "\<not> isContextPacket (stream_type (byteOrder codec) buf)"
  shows "parsePacket codec (Some buf) len bc =
    (let size = (ucast (word_at (byteOrder codec) 0 buf AND 0xFFFF) :: u16)
     in if size = 0 \<or> unat size * 4 > len then Inr (None, bc)
        else Inr (Some default_ParsedPacket, unat size * 4))"
  using assms
  by (simp add: parsePacket_def peek_word0_eq stream_type_def Let_def default_ParsedPacket_def)

lemma packet_cases:
  fixes len :: nat
  obtains (short) "len < 4" | (signal) "4 \<le> len" "isDataPacket (stream_type order buf)"
    | (ctx) "4 \<le> len" "\<not> isDataPacket (stream_type order buf)" "isContextPacket (stream_type order buf)"
    | (unknown) "4 \<le> len" "\<not> isDataPacket (stream_type order buf)" "\<not> isContextPacket (stream_type order buf)"
  by linarith

lemma parsePacket_context_total:
  assumes "len \<le> length buf" "4 \<le> len" "\<not> isDataPacket (stream_type (byteOrder codec) buf)"
    "isContextPacket (stream_type (byteOrder codec) buf)"
  shows "\<exists>r n. parsePacket codec (Some buf) len bc = Inr (r, n) \<and>
    (case r of None \<Rightarrow> n = bc | Some p \<Rightarrow> 4 \<le> n \<and> n \<le> len)"
proof -
  obtain r n where d: "context_decode (Some buf) len (byteOrder codec) bc = Inr (r, n)"
    "n = (case r of None \<Rightarrow> bc | Some d \<Rightarrow> unat (packetSize (cd_header d)) * 4)"
    "case r of None \<Rightarrow> True
     | Some d \<Rightarrow> parse (Some buf) len (byteOrder codec) default_PacketHeader 0 =
         Inr (True, cd_header d, sizeInBytes (cd_header d))"
    using context_decode_total [OF assms(1), of "byteOrder codec" bc] by blast
  show ?thesis
  proof (cases r)
    case (Some c)
    with d(3) have p: "parse (Some buf) len (byteOrder codec) default_PacketHeader 0 =
         Inr (True, cd_header c, sizeInBytes (cd_header c))" by simp
    have "0 < unat (packetSize (cd_header c))"
      using parsed_header(4) [OF p assms(1)] by (simp add: unat_gt_0)
    then show ?thesis
      using parsed_header(3) [OF p assms(1)] d(1,2) Some
      by (simp add: parsePacket_context [OF assms(2,1,3,4)])
  qed (use d in \<open>simp add: parsePacket_context [OF assms(2,1,3,4)]\<close>)
qed

lemma parsePacket_total:
  assumes "len \<le> length buf"
  shows "\<exists>r n. parsePacket codec (Some buf) len bc = Inr (r, n) \<and>
    (case r of None \<Rightarrow> n = bc | Some p \<Rightarrow> 4 \<le> n \<and> n \<le> len)"
proof (cases rule: packet_cases [where len = len and order = "byteOrder codec" and buf = buf])
  case signal
  obtain r n where "signal_decode (Some buf) len (byteOrder codec) (scaleFactor codec) bc = Inr (r, n)"
    "case r of None \<Rightarrow> n = bc
     | Some d \<Rightarrow> n = 4 * unat (packetSize (sd_header d)) \<and> n \<le> len \<and> 0 < n"
    using signal_decode_total [OF assms, of "byteOrder codec" "scaleFactor codec" bc]
    by (fastforce simp: Let_def split: option.splits)
  then show ?thesis
    by (cases r) (auto simp: parsePacket_signal [OF signal(1) assms signal(2)])
next
  case ctx
  then show ?thesis using assms by (intro parsePacket_context_total)
next
  case unknown
  have "0 < unat v" if "v \<noteq> 0" for v :: u16 using that by (simp add: unat_gt_0)
  then have "4 \<le> unat v * 4" if "v \<noteq> 0" for v :: u16
    using that by (metis One_nat_def Suc_leI mult.commute mult_le_mono2 nat_mult_1_right)
  then show ?thesis
    by (auto simp: parsePacket_unknown [OF unknown(1) assms unknown(2,3)] Let_def)
qed (simp add: parsePacket_short)

definition parse_one :: "Vita49Codec \<Rightarrow> bytes \<Rightarrow> nat \<Rightarrow> (ParsedPacket option \<times> nat) outcome" where
  "parse_one codec buf len = parsePacket codec (Some buf) len 0"

definition parse_all :: "Vita49Codec \<Rightarrow> bytes \<Rightarrow> nat \<Rightarrow> ParsedPacket list outcome" where
  "parse_all codec buf len = parseStream codec (Some buf) len"

text \<open>One turn of the loop.\<close>

lemma parse_loop_turn:
  assumes "offset < len" "4 \<le> len - offset"
  shows "parse_loop codec buf len results offset =
    obind (parsePacket codec (Some (drop offset buf)) (len - offset) 0) (\<lambda>(packet, consumed).
      case packet of None \<Rightarrow> Inr results
      | Some p \<Rightarrow> if consumed = 0 then Inr results
                  else parse_loop codec buf len (results @ [p]) (offset + consumed))"
  using assms by (subst parse_loop.simps) (simp add: Let_def)

lemma parse_loop_stop: "\<not> (offset < len \<and> 4 \<le> len - offset) \<Longrightarrow> parse_loop codec buf len results offset = Inr results"
  by (subst parse_loop.simps) (auto simp: Let_def)

lemma parse_loop_shift:
  "parse_loop codec buf len results offset =
     obind (parse_loop codec (drop offset buf) (len - offset) [] 0) (\<lambda>ps. Inr (results @ ps))"
proof (induction "len - offset" arbitrary: len results offset buf rule: less_induct)
  case less
  show ?case
  proof (cases "offset < len \<and> 4 \<le> len - offset")
    case True
    note lhs = parse_loop_turn [OF True [THEN conjunct1] True [THEN conjunct2], of codec buf results]
    note rhs = parse_loop_turn [of 0 "len - offset" codec "drop offset buf" "[]", simplified, OF True [THEN conjunct1] True [THEN conjunct2],
        unfolded append_Nil add_0]
    show ?thesis
    proof (cases "parsePacket codec (Some (drop offset buf)) (len - offset) 0")
      case (Inr a)
      obtain r n where a: "a = (r, n)" by fastforce
      show ?thesis
      proof (cases "r = None \<or> n = 0")
        case False
        then obtain p where r: "r = Some p" by auto
        have 1: "parse_loop codec buf len (results @ [p]) (offset + n) =
            obind (parse_loop codec (drop (offset + n) buf) (len - (offset + n)) [] 0)
              (\<lambda>ps. Inr ((results @ [p]) @ ps))"
          by (rule less.hyps) (use True False in auto)
        have 2: "parse_loop codec (drop offset buf) (len - offset) [p] n =
            obind (parse_loop codec (drop n (drop offset buf)) (len - offset - n) [] 0) (\<lambda>ps. Inr ([p] @ ps))"
          by (rule less.hyps) (use True False in auto)
        have "drop n (drop offset buf) = drop (offset + n) buf" "len - offset - n = len - (offset + n)"
          by (simp_all add: add.commute)
        with 1 2 show ?thesis
          unfolding lhs rhs Inr a r
          using False by (cases "parse_loop codec (drop (offset + n) buf) (len - (offset + n)) [] 0") simp_all
      qed (auto simp: lhs rhs Inr a split: option.split)
    qed (simp add: lhs rhs)
  qed (simp add: parse_loop_stop)
qed

lemma parse_all_eq: "parse_all codec buf len = parse_loop codec buf len [] 0"
  by (simp add: parse_all_def parseStream_def parse_loop.simps)

lemma parse_all_unfold:
  assumes "\<exists>r n. parsePacket codec (Some buf) len 0 = Inr (r, n) \<and>
    (case r of None \<Rightarrow> n = 0 | Some p \<Rightarrow> 4 \<le> n \<and> n \<le> len)"
  shows "parse_all codec buf len =
      (if len < 4 then Inr []
       else obind (parse_one codec buf len) (\<lambda>(packet, consumed).
         case packet of None \<Rightarrow> Inr []
         | Some p \<Rightarrow> obind (parse_all codec (drop consumed buf) (len - consumed)) (\<lambda>ps. Inr (p # ps))))"
proof -
  obtain r n where p: "parsePacket codec (Some buf) len 0 = Inr (r, n)"
    "case r of None \<Rightarrow> n = 0 | Some p \<Rightarrow> 4 \<le> n \<and> n \<le> len"
    using assms by blast
  have e: "parse_loop codec buf len [] 0 =
      (if len < 4 then Inr []
       else case r of None \<Rightarrow> Inr []
       | Some q \<Rightarrow> if n = 0 then Inr [] else parse_loop codec buf len [q] n)"
    by (subst parse_loop.simps) (auto simp: p(1) Let_def split: option.split)
  show ?thesis
    unfolding parse_all_eq parse_one_def e
    using p parse_loop_shift [of codec buf len _ n]
    by (cases r) simp_all
qed

interpretation codec_stream: packet_stream "parse_one codec" "parse_all codec" for codec
proof
  fix buf and len :: nat
  show "len \<le> length buf \<Longrightarrow> safe (parse_one codec buf len)"
    using parsePacket_total [of len buf codec 0] by (auto simp: parse_one_def)
  show "4 \<le> n \<and> n \<le> len" if "len \<le> length buf" "parse_one codec buf len = Inr (Some p, n)" for p n
    using parsePacket_total [OF that(1), of codec 0] that(2) by (auto simp: parse_one_def)
next
  fix buf :: bytes and len :: nat
  assume le: "len \<le> length buf"
  show "parse_all codec buf len =
      (if len < 4 then Inr []
       else obind (parse_one codec buf len) (\<lambda>(packet, consumed).
         case packet of None \<Rightarrow> Inr []
         | Some p \<Rightarrow> obind (parse_all codec (drop consumed buf) (len - consumed)) (\<lambda>ps. Inr (p # ps))))"
    using parsePacket_total [OF le, of codec 0] by (rule parse_all_unfold)
qed

section \<open>Encoded packets frame themselves\<close>

lemma omap_take: "omap f xs = Inr ys \<Longrightarrow> omap f (take n xs) = Inr (take n ys)"
proof (induction xs arbitrary: ys n)
  case (Cons x xs)
  then show ?case by (cases n) (auto simp: obind_eq_Inr_iff)
qed simp

lemma omap_drop: "omap f xs = Inr ys \<Longrightarrow> omap f (drop n xs) = Inr (drop n ys)"
proof (induction xs arbitrary: ys n)
  case (Cons x xs)
  then show ?case by (cases n) (auto simp: obind_eq_Inr_iff)
qed simp

lemma wire_type:
  assumes "wf_header h" and "buf = header_wire order h @ rest"
  shows "stream_type order buf = packetType h"
    and "word0_header order buf default_PacketHeader = parse_word0 (serialize_word0 h) default_PacketHeader"
proof -
  note w = wire_words(1) [OF assms]
  show "stream_type order buf = packetType h"
    unfolding stream_type_def w
    using parse_word0_fields(1) [of "serialize_word0 h" default_PacketHeader]
    by (simp add: parse_word0_serialize [OF assms(1)] del: parse_word0_fields)
  show "word0_header order buf default_PacketHeader = parse_word0 (serialize_word0 h) default_PacketHeader"
    by (simp add: word0_header_def w)
qed

lemma parse_truncated:
  assumes "wf_header h" and "buf = header_wire order h @ rest"
    and "len < unat (packetSize h) * 4" and "len \<le> length buf"
  shows "\<exists>h'. parse (Some buf) len order default_PacketHeader hb = Inr (False, h', hb)"
proof (rule parse_rejected [OF assms(4)])
  show "\<not> parse_accepts len order buf"
    using assms(3) wire_type(2) [OF assms(1,2)]
    by (simp add: parse_accepts_def parse_word0_serialize [OF assms(1)])
qed

definition parsed_signal ::
  "Vita49Codec \<Rightarrow> u32 \<Rightarrow> (i16 \<times> i16) list \<Rightarrow> u8 \<Rightarrow> TSI \<Rightarrow> TSF \<Rightarrow> u32 \<Rightarrow> u64 \<Rightarrow> bool \<Rightarrow> ParsedPacket" where
  "parsed_signal codec sid ps count tsi tsf it ft tr =
     \<lparr>pp_type = SignalData, pp_header = sent_header sid count tsi tsf it ft tr (length ps),
      pp_samples = map (dequantise_pair (float_div (Finite 1) (scaleFactor codec))) ps,
      pp_contextFields = default_ContextFields\<rparr>"

definition parsed_context ::
  "u32 \<Rightarrow> RawContext \<Rightarrow> u8 \<Rightarrow> TSI \<Rightarrow> TSF \<Rightarrow> u32 \<Rightarrow> u64 \<Rightarrow> ParsedPacket" where
  "parsed_context sid r count tsi tsf it ft =
     \<lparr>pp_type = Context, pp_header = sent_context_header sid count tsi tsf it ft r,
      pp_samples = [], pp_contextFields = from_raw r\<rparr>"

lemma signal_frames:
  assumes "length ps \<le> maxSamplesPerPacket tsi tsf False tr" and "scaleFactor codec \<noteq> Finite 0"
  shows "codec_stream.frames codec (signal_wire sid ps count (byteOrder codec) tsi tsf it ft tr)
    (parsed_signal codec sid ps count tsi tsf it ft tr)"
  unfolding codec_stream.frames_def
proof (intro conjI allI impI)
  let ?o = "byteOrder codec"
  let ?w = "signal_wire sid ps count ?o tsi tsf it ft tr"
  let ?h = "sent_header sid count tsi tsf it ft tr (length ps)"
  have l: "length ?w = 4 * signal_words tsi tsf tr (length ps)" by (rule length_signal_wire)
  show w4: "4 \<le> length ?w" by (simp add: l signal_words_def)
  have buf: "?w @ rest = header_wire ?o ?h @ (concat (map (pairBytes ?o) ps) @
      (if tr then [0, 0, 0, 0] else []) @ rest)" for rest
    by (simp add: signal_wire_def)
  have t: "isDataPacket (stream_type ?o (?w @ rest))" for rest
    unfolding wire_type(1) [OF wf_sent_header buf] by (simp add: isDataPacket_def)
  fix rest :: bytes and len
  show "parse_one codec (?w @ rest) len = Inr (Some (parsed_signal codec sid ps count tsi tsf it ft tr), length ?w)"
    if le: "length ?w \<le> len \<and> len \<le> length (?w @ rest)"
  proof -
    have 4: "4 \<le> len" using w4 le by linarith
    show ?thesis
      unfolding parse_one_def parsePacket_signal [OF 4 conjunct2 [OF le] t]
      using signal_decode_wire [OF assms, of len sid count ?o it ft rest 0] le
      by (simp add: l parsed_signal_def default_ParsedPacket_def)
  qed
  show "\<exists>n. parse_one codec (?w @ rest) len = Inr (None, n)" if short: "len < length ?w"
  proof (cases "len < 4")
    case False
    have le: "len \<le> length (?w @ rest)" using short by simp
    have "unat (packetSize ?h) = signal_words tsi tsf tr (length ps)"
      using assms(1) by (simp add: fits_iff [symmetric] unat_of_nat take_bit_nat_eq_self)
    then have "len < unat (packetSize ?h) * 4" using short l by simp
    from parse_truncated [OF wf_sent_header buf this le]
    obtain h' where "parse (Some (?w @ rest)) len ?o default_PacketHeader 0 = Inr (False, h', 0)" by blast
    then have "signal_decode (Some (?w @ rest)) len ?o (scaleFactor codec) 0 = Inr (None, 0)"
      by (simp add: signal_decode_def)
    then show ?thesis
      using parsePacket_signal [OF _ le t, of 0] False by (simp add: parse_one_def)
  qed (simp add: parse_one_def parsePacket_short)
qed

lemma context_frames:
  "codec_stream.frames codec (context_wire sid r count (byteOrder codec) tsi tsf it ft)
    (parsed_context sid r count tsi tsf it ft)"
  unfolding codec_stream.frames_def
proof (intro conjI allI impI)
  let ?o = "byteOrder codec"
  let ?w = "context_wire sid r count ?o tsi tsf it ft"
  let ?h = "sent_context_header sid count tsi tsf it ft r"
  have l: "length ?w = 4 * context_words tsi tsf r" by (rule length_context_wire)
  show w4: "4 \<le> length ?w" by (simp add: l context_words_def)
  have buf: "?w @ rest = header_wire ?o ?h @ (wordBytes ?o (cif0_of r) @ fields_below ?o r 31 @ rest)" for rest
    by (simp add: context_wire_def)
  have t: "\<not> isDataPacket (stream_type ?o (?w @ rest))" "isContextPacket (stream_type ?o (?w @ rest))" for rest
    unfolding wire_type(1) [OF wf_sent_context_header buf]
    by (simp_all add: isDataPacket_def isContextPacket_def)
  fix rest :: bytes and len
  show "parse_one codec (?w @ rest) len = Inr (Some (parsed_context sid r count tsi tsf it ft), length ?w)"
    if le: "length ?w \<le> len \<and> len \<le> length (?w @ rest)"
  proof -
    have 4: "4 \<le> len" using w4 le by linarith
    show ?thesis
      unfolding parse_one_def parsePacket_context [OF 4 conjunct2 [OF le] t]
      using context_decode_wire [of sid r count ?o tsi tsf it ft len rest 0] le
      by (simp add: parsed_context_def default_ParsedPacket_def)
  qed
  show "\<exists>n. parse_one codec (?w @ rest) len = Inr (None, n)" if short: "len < length ?w"
  proof (cases "len < 4")
    case False
    have le: "len \<le> length (?w @ rest)" using short by simp
    have "len < unat (packetSize ?h) * 4" using short l unat_context_size by simp
    from parse_truncated [OF wf_sent_context_header buf this le]
    obtain h' where "parse (Some (?w @ rest)) len ?o default_PacketHeader 0 = Inr (False, h', 0)" by blast
    then have "context_decode (Some (?w @ rest)) len ?o 0 = Inr (None, 0)"
      by (simp add: context_decode_def)
    then show ?thesis
      using parsePacket_context [OF _ le t, of 0] False by (simp add: parse_one_def)
  qed (simp add: parse_one_def parsePacket_short)
qed

section \<open>Splitting samples into packets\<close>

fun chunks :: "nat \<Rightarrow> 'a list \<Rightarrow> 'a list list" where
  "chunks m xs = (if m = 0 \<or> xs = [] then [] else take m xs # chunks m (drop m xs))"

declare chunks.simps [simp del]

lemma concat_chunks: "0 < m \<Longrightarrow> concat (chunks m xs) = xs"
  by (induction m xs rule: chunks.induct) (subst chunks.simps, simp)

lemma chunks_bounds: "c \<in> set (chunks m xs) \<Longrightarrow> c \<noteq> [] \<and> length c \<le> m"
  by (induction m xs rule: chunks.induct) (subst (asm) (2) chunks.simps, auto split: if_splits)

lemma chunks_full:
  "Suc i < length (chunks m xs) \<Longrightarrow> length (chunks m xs ! i) = m"
proof (induction m xs arbitrary: i rule: chunks.induct)
  case (1 m xs)
  have ne: "\<not> (m = 0 \<or> xs = [])" using "1.prems" by (subst (asm) chunks.simps) (auto split: if_splits)
  then have c: "chunks m xs = take m xs # chunks m (drop m xs)" by (subst chunks.simps) simp
  show ?case
  proof (cases i)
    case 0
    have "chunks m (drop m xs) \<noteq> []" using "1.prems" 0 c by auto
    then have "drop m xs \<noteq> []" by (subst (asm) chunks.simps) (auto split: if_splits)
    then show ?thesis using 0 c by simp
  next
    case (Suc j)
    then show ?thesis using "1.IH" [OF ne, of j] "1.prems" c by simp
  qed
qed

fun counted :: "u8 \<Rightarrow> 'a list \<Rightarrow> (u8 \<times> 'a) list" where
  "counted c [] = []"
| "counted c (x # xs) = (c, x) # counted ((c + 1) AND 0xF) xs"

lemma length_counted [simp]: "length (counted c xs) = length xs"
  by (induction xs arbitrary: c) simp_all

lemma map_snd_counted [simp]: "map snd (counted c xs) = xs"
  by (induction xs arbitrary: c) simp_all

lemma low_bits_add: "(((c :: u8) AND 0xF) + i) AND 0xF = (c + i) AND 0xF"
proof -
  have nib: "unat (w AND 0xF :: u8) = unat w mod 16" for w
  proof -
    have "unat (w AND 0xF :: u8) = take_bit 4 (unat w)"
      by (simp add: mask_simps unsigned_take_bit_eq flip: take_bit_eq_mask)
    then show ?thesis by (simp add: take_bit_eq_mod)
  qed
  have "unat (((c AND 0xF) + i) AND 0xF) = ((unat c mod 16 + unat i) mod 256) mod 16"
    by (simp add: nib unat_word_ariths)
  also have "\<dots> = (unat c + unat i) mod 16" by (simp add: mod_mod_cancel mod_add_left_eq)
  also have "\<dots> = unat ((c + i) AND 0xF)" by (simp add: nib unat_word_ariths mod_mod_cancel)
  finally show ?thesis by (simp add: word_unat_eq_iff)
qed

lemma counted_nth:
  "i < length xs \<Longrightarrow> fst (counted c xs ! i) AND 0xF = (c + of_nat i) AND 0xF \<and> snd (counted c xs ! i) = xs ! i"
proof (induction xs arbitrary: c i)
  case (Cons x xs)
  show ?case
  proof (cases i)
    case (Suc j)
    then have "fst (counted c (x # xs) ! i) AND 0xF = (((c + 1) AND 0xF) + of_nat j) AND 0xF"
      "snd (counted c (x # xs) ! i) = xs ! j"
      using Cons.IH [of j "(c + 1) AND 0xF"] Cons.prems by simp_all
    then show ?thesis by (simp add: low_bits_add Suc add.assoc)
  qed simp
qed simp

text \<open>The packets of a sample vector: each wire form with what it parses to.\<close>

definition split_packets ::
  "Vita49Codec \<Rightarrow> u32 \<Rightarrow> (i16 \<times> i16) list \<Rightarrow> u8 \<Rightarrow> TSI \<Rightarrow> TSF \<Rightarrow> u32 \<Rightarrow> u64 \<Rightarrow> bool \<Rightarrow> (bytes \<times> ParsedPacket) list" where
  "split_packets codec sid ps start tsi tsf it ft tr =
     map (\<lambda>(c, chunk). (signal_wire sid chunk c (byteOrder codec) tsi tsf it ft tr,
                        parsed_signal codec sid chunk c tsi tsf it ft tr))
       (counted start (chunks (maxSamplesPerPacket tsi tsf False tr) ps))"

lemma split_packets_frames:
  assumes "scaleFactor codec \<noteq> Finite 0" and "(w, p) \<in> set (split_packets codec sid ps start tsi tsf it ft tr)"
  shows "codec_stream.frames codec w p"
proof -
  let ?cs = "chunks (maxSamplesPerPacket tsi tsf False tr) ps"
  obtain c chunk where m: "(c, chunk) \<in> set (counted start ?cs)"
    and wp: "w = signal_wire sid chunk c (byteOrder codec) tsi tsf it ft tr"
      "p = parsed_signal codec sid chunk c tsi tsf it ft tr"
    using assms(2) by (auto simp: split_packets_def)
  have "chunk \<in> snd ` set (counted start ?cs)" using m by force
  then have "chunk \<in> set (map snd (counted start ?cs))" by (simp only: set_map)
  then have "length chunk \<le> maxSamplesPerPacket tsi tsf False tr"
    using chunks_bounds by (simp only: map_snd_counted) blast
  then show ?thesis unfolding wp by (rule signal_frames) (rule assms(1))
qed

lemma encode_loop_eq:
  assumes "omap (quantise_pair (scaleFactor codec)) samples = Inr ps"
  shows "encode_loop codec sid samples tsi tsf it ft tr result offset c =
    Inr (result @ concat (map fst (split_packets codec sid (drop offset ps) c tsi tsf it ft tr)))"
proof (induction "length samples - offset" arbitrary: result offset c rule: less_induct)
  case less
  let ?m = "maxSamplesPerPacket tsi tsf False tr"
  note pos = maxSamplesPerPacket_pos [of tsi tsf tr]
  have len: "length ps = length samples" using assms by (rule omap_length)
  show ?case
  proof (cases "offset < length samples")
    case True
    let ?n = "min ?m (length samples - offset)"
    let ?chunk = "take ?n (drop offset ps)"
    let ?w = "signal_wire sid ?chunk c (byteOrder codec) tsi tsf it ft tr"
    have q: "omap (quantise_pair (scaleFactor codec)) (take ?n (drop offset samples)) = Inr ?chunk"
      using assms by (intro omap_take omap_drop)
    have e: "signal_encode sid (take ?n (drop offset samples)) c (byteOrder codec) (scaleFactor codec)
        tsi tsf it ft tr = Inr ?w"
      by (simp add: signal_encode_eq q)
    have "4 \<le> length ?w" by (simp add: length_signal_wire signal_words_def)
    then have ne: "?w \<noteq> []" by auto
    have ch: "?chunk = take ?m (drop offset ps)" "drop (offset + ?n) ps = drop ?m (drop offset ps)"
      using len by (auto simp: min_def add.commute)
    have "chunks ?m (drop offset ps) = take ?m (drop offset ps) # chunks ?m (drop ?m (drop offset ps))"
      using True len pos by (subst chunks.simps) simp
    then have "split_packets codec sid (drop offset ps) c tsi tsf it ft tr =
        (?w, parsed_signal codec sid ?chunk c tsi tsf it ft tr) #
        split_packets codec sid (drop (offset + ?n) ps) ((c + 1) AND 0xF) tsi tsf it ft tr"
      by (simp add: split_packets_def ch del: drop_drop)
    moreover have "encode_loop codec sid samples tsi tsf it ft tr (result @ ?w) (offset + ?n) ((c + 1) AND 0xF) =
        Inr ((result @ ?w) @ concat (map fst (split_packets codec sid (drop (offset + ?n) ps)
          ((c + 1) AND 0xF) tsi tsf it ft tr)))"
      by (rule less) (use True split_progress in simp)
    ultimately show ?thesis
      using True e ne by (subst encode_loop.simps) (simp add: Let_def)
  next
    case False
    then have "split_packets codec sid (drop offset ps) c tsi tsf it ft tr = []"
      using len by (simp add: split_packets_def chunks.simps)
    then show ?thesis using False by (subst encode_loop.simps) simp
  qed
qed

section \<open>Properties of the stream codec\<close>

text \<open>What a caller puts on the stream, its bytes, and what a parser should make of them.\<close>

datatype stream_item =
    SignalItem u32 "IQSample list" u8 TSI TSF u32 u64 bool
  | ContextItem u32 ContextFields u8 TSI TSF u32 u64

fun item_wire :: "Vita49Codec \<Rightarrow> stream_item \<Rightarrow> bytes outcome" where
  "item_wire codec (SignalItem sid samples count tsi tsf it ft tr) =
     signal_encode sid samples count (byteOrder codec) (scaleFactor codec) tsi tsf it ft tr"
| "item_wire codec (ContextItem sid flds count tsi tsf it ft) =
     encodeContext codec sid flds count tsi tsf it ft"

fun item_packet :: "Vita49Codec \<Rightarrow> stream_item \<Rightarrow> ParsedPacket outcome" where
  "item_packet codec (SignalItem sid samples count tsi tsf it ft tr) =
     obind (omap (quantise_pair (scaleFactor codec)) samples) (\<lambda>ps.
       Inr (parsed_signal codec sid ps count tsi tsf it ft tr))"
| "item_packet codec (ContextItem sid flds count tsi tsf it ft) =
     obind (to_raw flds) (\<lambda>r. Inr (parsed_context sid r count tsi tsf it ft))"

lemma item_frames:
  assumes "scaleFactor codec \<noteq> Finite 0" and "item_wire codec item = Inr w" and "w \<noteq> []"
  shows "\<exists>p. item_packet codec item = Inr p \<and> codec_stream.frames codec w p"
proof (cases item)
  case (SignalItem sid samples count tsi tsf it ft tr)
  then obtain ps where ps: "omap (quantise_pair (scaleFactor codec)) samples = Inr ps"
    and w: "w = signal_wire sid ps count (byteOrder codec) tsi tsf it ft tr"
    and fits: "length samples \<le> maxSamplesPerPacket tsi tsf False tr"
    using assms(2,3) by (auto simp: signal_encode_eq obind_eq_Inr_iff split: if_splits)
  show ?thesis
    using SignalItem ps fits omap_length [OF ps] signal_frames [OF _ assms(1)] by (simp add: w)
next
  case (ContextItem sid flds count tsi tsf it ft)
  then obtain r where "to_raw flds = Inr r"
    and "w = context_wire sid r count (byteOrder codec) tsi tsf it ft"
    using assms(2) by (auto simp: encodeContext_def context_encode_eq obind_eq_Inr_iff)
  then show ?thesis using ContextItem context_frames by simp
qed

lemma items_frames:
  assumes "scaleFactor codec \<noteq> Finite 0" and "list_all2 (\<lambda>i w. item_wire codec i = Inr w \<and> w \<noteq> []) items ws"
  shows "\<exists>ps. list_all2 (\<lambda>i p. item_packet codec i = Inr p) items ps \<and> length ps = length ws \<and>
    (\<forall>(w, p) \<in> set (zip ws ps). codec_stream.frames codec w p)"
  using assms(2)
proof (induction items ws rule: list_all2_induct)
  case (Cons i items w ws)
  then obtain ps where "list_all2 (\<lambda>i p. item_packet codec i = Inr p) items ps" "length ps = length ws"
    "\<forall>(w, p) \<in> set (zip ws ps). codec_stream.frames codec w p" by blast
  moreover obtain p where "item_packet codec i = Inr p" "codec_stream.frames codec w p"
    using item_frames [OF assms(1)] Cons.hyps(1) by blast
  ultimately show ?case by (intro exI [of _ "p # ps"]) auto
qed simp

text \<open>
  C35. Parsing a stream never reads outside the available bytes and always ends; every parsed
  packet accounts for at least four bytes.
\<close>

theorem parseStream_total:
  assumes "len \<le> length buf"
  shows "\<exists>ps. parseStream codec (Some buf) len = Inr ps \<and> 4 * length ps \<le> len"
  using codec_stream.stream_total [OF assms, of codec] by (simp add: parse_all_def)

theorem parseStream_total_witness:
  "\<exists>ps. parseStream (make_codec LittleEndian DEFAULT_SCALE_FACTOR) (Some [1, 2, 3, 0xF0, 5, 6, 7]) 7 = Inr ps \<and>
     4 * length ps \<le> 7"
  by (rule parseStream_total) simp

text \<open>
  C1. A stream of encoded signal and context packets, in any mixture, followed by anything and cut
  off after any number of bytes, parses to exactly the packets that lie completely before the cut,
  in order, each with its header and its quantised content.
\<close>

theorem stream_of_packets:
  assumes "scaleFactor codec \<noteq> Finite 0"
    and "list_all2 (\<lambda>i w. item_wire codec i = Inr w \<and> w \<noteq> []) items ws"
    and "len \<le> length (concat ws)"
  shows "\<exists>ps k. list_all2 (\<lambda>i p. item_packet codec i = Inr p) items ps \<and>
    parseStream codec (Some (concat ws @ rest)) len = Inr (take k ps) \<and> k \<le> length ws \<and>
    length (concat (take k ws)) \<le> len \<and> (k < length ws \<longrightarrow> len < length (concat (take (Suc k) ws)))"
proof -
  obtain ps where ps: "list_all2 (\<lambda>i p. item_packet codec i = Inr p) items ps" "length ps = length ws"
    "\<forall>(w, p) \<in> set (zip ws ps). codec_stream.frames codec w p"
    using items_frames [OF assms(1,2)] by blast
  let ?z = "zip ws ps"
  have z: "map fst ?z = ws" "map snd ?z = ps" "length ?z = length ws" using ps(2) by simp_all
  obtain k where k: "k \<le> length ?z" "codec_stream.complete ?z len = map snd (take k ?z)"
    "length (concat (map fst (take k ?z))) \<le> len"
    "k < length ?z \<longrightarrow> len < length (concat (map fst (take (Suc k) ?z)))"
    using codec_stream.complete_take [of ?z len] by blast
  have "parse_all codec (concat (map fst ?z) @ rest) len = Inr (codec_stream.complete ?z len)"
    by (rule codec_stream.stream_frames) (use ps(3) assms(3) z in auto)
  then have "parseStream codec (Some (concat ws @ rest)) len = Inr (take k ps)"
    using k(2) z by (simp only: parse_all_def take_map [symmetric])
  then show ?thesis
    using ps(1) k z by (intro exI [of _ ps] exI [of _ k]) (simp only: take_map [symmetric])
qed

lemma split_packets_parsed:
  "map snd (split_packets codec sid ps start tsi tsf it ft tr) =
    map (\<lambda>(c, chunk). parsed_signal codec sid chunk c tsi tsf it ft tr)
      (counted start (chunks (maxSamplesPerPacket tsi tsf False tr) ps))"
  by (simp add: split_packets_def case_prod_unfold)

lemma split_packets_samples:
  "concat (map pp_samples (map snd (split_packets codec sid ps start tsi tsf it ft tr))) =
     map (dequantise_pair (float_div (Finite 1) (scaleFactor codec))) ps"
proof -
  let ?cs = "counted start (chunks (maxSamplesPerPacket tsi tsf False tr) ps)"
  let ?d = "map (dequantise_pair (float_div (Finite 1) (scaleFactor codec)))"
  have "map pp_samples (map (\<lambda>(c, chunk). parsed_signal codec sid chunk c tsi tsf it ft tr) ?cs) =
      map ?d (map snd ?cs)"
    by (simp add: parsed_signal_def case_prod_unfold del: map_snd_counted)
  then show ?thesis
    unfolding split_packets_parsed
    using concat_chunks [OF maxSamplesPerPacket_pos, of tsi tsf tr ps]
    by (simp only: map_snd_counted map_concat [symmetric])
qed

lemma split_packets_nth:
  assumes pkts_def: "pkts = map snd (split_packets codec sid ps start tsi tsf it ft tr)"
    and "i < length pkts"
  shows "pp_type (pkts ! i) = SignalData" and "pp_samples (pkts ! i) \<noteq> []"
    and "Suc i < length pkts \<Longrightarrow> length (pp_samples (pkts ! i)) = maxSamplesPerPacket tsi tsf False tr"
    and "streamId (pp_header (pkts ! i)) = Some sid"
    and "packetCount (pp_header (pkts ! i)) = (start + of_nat i) AND 0xF"
    and "integerTimestamp (pp_header (pkts ! i)) = (if tsi \<noteq> TSI_None then Some it else None)"
    and "fractionalTimestamp (pp_header (pkts ! i)) = (if tsf \<noteq> TSF_None then Some ft else None)"
proof -
  let ?chs = "chunks (maxSamplesPerPacket tsi tsf False tr) ps"
  let ?cs = "counted start ?chs"
  have l: "length pkts = length ?chs" by (simp add: pkts_def split_packets_parsed)
  then have i: "i < length ?chs" using assms(2) by simp
  obtain cnt chunk where ci: "?cs ! i = (cnt, chunk)" by fastforce
  have n: "cnt AND 0xF = (start + of_nat i) AND 0xF" "chunk = ?chs ! i"
    using counted_nth [OF i, of start] ci by simp_all
  have p: "pkts ! i = parsed_signal codec sid chunk cnt tsi tsf it ft tr"
    using i by (simp add: pkts_def split_packets_parsed ci)
  have "chunk \<in> set ?chs" using n(2) i by simp
  then have "chunk \<noteq> []" using chunks_bounds by blast
  then show "pp_type (pkts ! i) = SignalData" "pp_samples (pkts ! i) \<noteq> []"
    "streamId (pp_header (pkts ! i)) = Some sid"
    "packetCount (pp_header (pkts ! i)) = (start + of_nat i) AND 0xF"
    "integerTimestamp (pp_header (pkts ! i)) = (if tsi \<noteq> TSI_None then Some it else None)"
    "fractionalTimestamp (pp_header (pkts ! i)) = (if tsf \<noteq> TSF_None then Some ft else None)"
    using n(1) by (simp_all add: p parsed_signal_def)
  show "length (pp_samples (pkts ! i)) = maxSamplesPerPacket tsi tsf False tr" if "Suc i < length pkts"
    using that l n(2) chunks_full by (simp add: p parsed_signal_def)
qed

lemma encodeSignalData_eq:
  assumes "samples \<noteq> []" and "omap (quantise_pair (scaleFactor codec)) samples = Inr ps"
  shows "encodeSignalData codec sid samples start tsi tsf it ft tr =
    Inr (concat (map fst (split_packets codec sid ps start tsi tsf it ft tr)))"
  using encode_loop_eq [OF assms(2), of sid tsi tsf it ft tr "[]" 0 start] assms(1)
    maxSamplesPerPacket_pos [of tsi tsf tr]
  by (simp add: encodeSignalData_def)

lemma parseStream_split_packets:
  assumes z_def: "z = split_packets codec sid ps start tsi tsf it ft tr"
    and "scaleFactor codec \<noteq> Finite 0"
  shows "parseStream codec (Some (concat (map fst z) @ rest)) (length (concat (map fst z))) =
    Inr (map snd z)"
proof -
  let ?w = "concat (map fst z)"
  have "parse_all codec (?w @ rest) (length ?w) = Inr (codec_stream.complete z (length ?w))"
    by (rule codec_stream.stream_frames)
      (use split_packets_frames [OF assms(2)] in \<open>auto simp: z_def\<close>)
  moreover have "codec_stream.complete z (length ?w) = map snd z"
    by (rule codec_stream.complete_all) simp
  ultimately show ?thesis by (simp only: parse_all_def)
qed

text \<open>
  C11. Encoding samples of any number and parsing the result gives back all the samples, quantised,
  in order: packets of the given stream id, every one but the last filled to the maximum, with
  sequence counters that increase by one modulo 16 from the start value, and with the same
  timestamps in every packet.
\<close>

theorem encodeSignalData_roundtrip:
  assumes "scaleFactor codec \<noteq> Finite 0" and "samples \<noteq> []"
    and "omap (quantise_pair (scaleFactor codec)) samples = Inr ps"
  shows "\<exists>wire pkts. encodeSignalData codec sid samples start tsi tsf it ft tr = Inr wire \<and>
    parseStream codec (Some (wire @ rest)) (length wire) = Inr pkts \<and>
    concat (map pp_samples pkts) =
      map (dequantise_pair (float_div (Finite 1) (scaleFactor codec))) ps \<and>
    (\<forall>i < length pkts. pp_type (pkts ! i) = SignalData \<and> pp_samples (pkts ! i) \<noteq> [] \<and>
       (Suc i < length pkts \<longrightarrow> length (pp_samples (pkts ! i)) = maxSamplesPerPacket tsi tsf False tr) \<and>
       streamId (pp_header (pkts ! i)) = Some sid \<and>
       packetCount (pp_header (pkts ! i)) = (start + of_nat i) AND 0xF \<and>
       integerTimestamp (pp_header (pkts ! i)) = (if tsi \<noteq> TSI_None then Some it else None) \<and>
       fractionalTimestamp (pp_header (pkts ! i)) = (if tsf \<noteq> TSF_None then Some ft else None))"
proof -
  let ?z = "split_packets codec sid ps start tsi tsf it ft tr"
  show ?thesis
  proof (rule exI [of _ "concat (map fst ?z)"], rule exI [of _ "map snd ?z"], intro conjI allI impI)
    show "encodeSignalData codec sid samples start tsi tsf it ft tr = Inr (concat (map fst ?z))"
      by (rule encodeSignalData_eq [OF assms(2,3)])
    show "parseStream codec (Some (concat (map fst ?z) @ rest)) (length (concat (map fst ?z))) =
        Inr (map snd ?z)"
      by (rule parseStream_split_packets [OF refl assms(1)])
    show "concat (map pp_samples (map snd ?z)) =
        map (dequantise_pair (float_div (Finite 1) (scaleFactor codec))) ps"
      by (rule split_packets_samples)
  next
    fix i assume "i < length (map snd ?z)"
    note n = split_packets_nth [OF refl this]
    let ?p = "map snd ?z ! i"
    show "pp_type ?p = SignalData" "pp_samples ?p \<noteq> []" "streamId (pp_header ?p) = Some sid"
      "packetCount (pp_header ?p) = (start + of_nat i) AND 0xF"
      "integerTimestamp (pp_header ?p) = (if tsi \<noteq> TSI_None then Some it else None)"
      "fractionalTimestamp (pp_header ?p) = (if tsf \<noteq> TSF_None then Some ft else None)"
      by (rule n)+
    show "length (pp_samples ?p) = maxSamplesPerPacket tsi tsf False tr" if "Suc i < length (map snd ?z)"
      using that by (rule n(3))
  qed
qed

text \<open>
  A packet of a type the codec does not know is skipped by the size it announces, and the
  packets behind it are still found.
\<close>

theorem unknown_packet_skipped:
  assumes "len \<le> length buf" and "4 \<le> len" and "stream_type (byteOrder codec) buf = UnnamedPacketType v"
    and "sz = (ucast (word_at (byteOrder codec) 0 buf AND 0xFFFF) :: u16)"
    and "sz \<noteq> 0" and "4 * unat sz \<le> len"
  shows "parseStream codec (Some buf) len =
    obind (parseStream codec (Some (drop (4 * unat sz) buf)) (len - 4 * unat sz))
      (\<lambda>ps. Inr (default_ParsedPacket # ps))"
proof -
  have "\<not> isDataPacket (stream_type (byteOrder codec) buf)" "\<not> isContextPacket (stream_type (byteOrder codec) buf)"
    by (simp_all add: assms(3) isDataPacket_def isContextPacket_def)
  then have "parse_one codec buf len = Inr (Some default_ParsedPacket, unat sz * 4)"
    using assms parsePacket_unknown [OF assms(2,1)] by (simp add: parse_one_def Let_def)
  then show ?thesis
    using codec_stream.stream_unfold [OF assms(1), of codec] assms(2)
    by (simp add: parse_all_def mult.commute)
qed


text \<open>Instances at the default scale factor.\<close>

definition example_codec :: Vita49Codec where
  "example_codec = make_codec BigEndian DEFAULT_SCALE_FACTOR"

lemma example_codec_fields [simp]:
  "byteOrder example_codec = BigEndian" "scaleFactor example_codec = DEFAULT_SCALE_FACTOR"
  by (simp_all add: example_codec_def make_codec_def)

lemma default_scale_nonzero: "DEFAULT_SCALE_FACTOR \<noteq> Finite 0"
  by (simp add: DEFAULT_SCALE_FACTOR_def)

text \<open>Two packets of 12 and 40 bytes, the second one cut off after 28.\<close>

theorem stream_of_packets_witness:
  "\<exists>ws ps. list_all2 (\<lambda>i w. item_wire example_codec i = Inr w \<and> w \<noteq> [])
      [SignalItem 7 [(Finite (1 / 2), Finite (- 1 / 4))] 3 TSI_None TSF_None 0 0 False,
       ContextItem 7 (from_raw example_raw) 0 TSI_None TSF_None 0 0] ws \<and>
    length (concat ws) = 52 \<and> length ps = 1 \<and>
    parseStream example_codec (Some (concat ws @ [9])) 40 = Inr ps"
proof -
  let ?s = "SignalItem 7 [(Finite (1 / 2), Finite (- 1 / 4))] 3 TSI_None TSF_None 0 0 False"
  let ?c = "ContextItem 7 (from_raw example_raw) 0 TSI_None TSF_None 0 0"
  let ?w1 = "signal_wire 7 [(0x4000, 0xE000)] 3 BigEndian TSI_None TSF_None 0 0 False"
  let ?w2 = "context_wire 7 example_raw 0 BigEndian TSI_None TSF_None 0 0"
  have m: "\<not> maxSamplesPerPacket TSI_None TSF_None False False < 1"
    by (simp add: maxSamplesPerPacket_eq signal_words_def)
  have l: "length ?w1 = 12" "length ?w2 = 40"
    by (simp_all add: length_signal_wire signal_words_def length_context_wire context_words_def
        raw_words_def example_raw_def)
  then have ne: "?w1 \<noteq> []" "?w2 \<noteq> []" by force+
  have ws: "list_all2 (\<lambda>i w. item_wire example_codec i = Inr w \<and> w \<noteq> []) [?s, ?c] [?w1, ?w2]"
    using example_pair m ne to_raw_from_raw [OF example_raw_exact]
    by (simp add: signal_encode_eq encodeContext_def context_encode_eq)
  have n: "length (concat [?w1, ?w2]) = 52" using l by simp
  obtain ps k where ps: "list_all2 (\<lambda>i p. item_packet example_codec i = Inr p) [?s, ?c] ps"
    and p: "parseStream example_codec (Some (concat [?w1, ?w2] @ [9])) 40 = Inr (take k ps)"
    and k: "length (concat (take k [?w1, ?w2])) \<le> 40" "k \<le> length [?w1, ?w2]"
      "k < length [?w1, ?w2] \<longrightarrow> 40 < length (concat (take (Suc k) [?w1, ?w2]))"
    using stream_of_packets [OF _ ws, of 40 "[9]"] n default_scale_nonzero by auto
  have "k = 1"
  proof -
    have "k = 0 \<or> k = 1 \<or> k = 2" using k(2) by auto
    then show ?thesis using k(1,3) l by (elim disjE) (simp_all add: numeral_eq_Suc)
  qed
  moreover have "length ps = 2" using list_all2_lengthD [OF ps] by simp
  ultimately show ?thesis
    using ws n p by (intro exI [of _ "[?w1, ?w2]"] exI [of _ "take k ps"]) simp
qed

theorem encodeSignalData_roundtrip_witness:
  "\<exists>wire pkts. encodeSignalData example_codec 7 [(Finite (1 / 2), Finite (- 1 / 4))] 15
      TSI_None TSF_None 0 0 False = Inr wire \<and>
    parseStream example_codec (Some (wire @ [1])) (length wire) = Inr pkts \<and>
    concat (map pp_samples pkts) =
      [(dequantise (float_div (Finite 1) DEFAULT_SCALE_FACTOR) 0x4000,
        dequantise (float_div (Finite 1) DEFAULT_SCALE_FACTOR) 0xE000)]"
proof -
  have q: "omap (quantise_pair (scaleFactor example_codec)) [(Finite (1 / 2), Finite (- 1 / 4))]
      = Inr [(0x4000, 0xE000)]"
    using example_pair by simp
  show ?thesis
    using encodeSignalData_roundtrip [OF _ _ q, of 7 15 TSI_None TSF_None 0 0 False "[1]"]
      default_scale_nonzero
    by (auto simp: dequantise_pair_def)
qed

theorem unknown_packet_skipped_witness:
  "parseStream example_codec (Some [0x60, 0, 0, 1, 0xF0, 0, 0]) 7 =
    obind (parseStream example_codec (Some [0xF0, 0, 0]) 3) (\<lambda>ps. Inr (default_ParsedPacket # ps))"
proof -
  have t: "stream_type (byteOrder example_codec) [0x60, 0, 0, 1, 0xF0, 0, 0] = UnnamedPacketType 6"
    by (simp add: stream_type_def eval_words PacketType_of_u8_def)
  have s: "(1 :: u16) = ucast (word_at (byteOrder example_codec) 0 [0x60, 0, 0, 1, 0xF0, 0, 0] AND 0xFFFF)"
    by (simp add: eval_words)
  show ?thesis using unknown_packet_skipped [OF _ _ t s, of 7] by simp
qed

end
