(* ===== verification/StreamLayout.thy ===== *)
theory StreamLayout
  imports Vita49Codec
begin

text \<open>
  Where everything in a parsed packet comes from.

  \<open>packet_layout\<close> writes down the packet at the start of a buffer field by field: the header fields, the
  samples and the context fields, each read at its own offset, by the format of VITA 49.2; \<open>packet_fits\<close> says
  when a packet is there.  Neither has a loop or a running offset.  \<open>laid_out\<close> is a list of packets that follow
  one another until none fits.  The lemmas show that the decoders of the code, which walk through
  the buffer, find exactly the layout, and the property that \<open>parseStream\<close> returns the packets laid out.
\<close>

section \<open>The layout of a packet\<close>

definition half_at :: "ByteOrder \<Rightarrow> nat \<Rightarrow> bytes \<Rightarrow> i16" where
  "half_at order off buf = projr (readI16 order (drop off buf))"

lemma readI16_at: "off + 2 \<le> length buf \<Longrightarrow> readI16 order (drop off buf) = Inr (half_at order off buf)"
  using word16.rd_long [of "drop off buf" order] by (auto simp: le_diff_conv2 half_at_def safe_iff_ex)

definition layout_header :: "ByteOrder \<Rightarrow> bytes \<Rightarrow> PacketHeader" where
  "layout_header order buf = fill_optional order buf (word0_header order buf default_PacketHeader)"

definition layout_samples :: "ByteOrder \<Rightarrow> fp \<Rightarrow> nat \<Rightarrow> nat \<Rightarrow> bytes \<Rightarrow> IQSample list" where
  "layout_samples order invScale off n buf =
     map (\<lambda>i. (dequantise invScale (half_at order (off + 4 * i) buf),
               dequantise invScale (half_at order (off + 4 * i + 2) buf))) [0..<n]"

text \<open>
  A context field is present when its bit of CIF0, the word at \<open>off\<close>, is set; it stands behind the
  fields of the higher bits.
\<close>

definition field_offset :: "ByteOrder \<Rightarrow> nat \<Rightarrow> bytes \<Rightarrow> nat \<Rightarrow> nat" where
  "field_offset order off buf b =
    (let cif0 = word_at order off buf in off + 4 + 4 * (cif0_words cif0 31 - cif0_words cif0 (Suc b)))"

definition word_field :: "ByteOrder \<Rightarrow> nat \<Rightarrow> bytes \<Rightarrow> nat \<Rightarrow> u32 option" where
  "word_field order off buf b =
    (if bit (word_at order off buf) b then Some (word_at order (field_offset order off buf b) buf) else None)"

definition dword_field :: "ByteOrder \<Rightarrow> nat \<Rightarrow> bytes \<Rightarrow> nat \<Rightarrow> u64 option" where
  "dword_field order off buf b =
    (if bit (word_at order off buf) b then Some (dword_at order (field_offset order off buf b) buf) else None)"

definition layout_fields :: "ByteOrder \<Rightarrow> nat \<Rightarrow> bytes \<Rightarrow> ContextFields" where
  "layout_fields order off buf =
     \<lparr>changeIndicator = bit (word_at order off buf) 31,
      referencePointId = word_field order off buf 30,
      bandwidth = map_option freqFromFixed (dword_field order off buf 29),
      ifRefFrequency = map_option freqFromFixed (dword_field order off buf 28),
      rfFrequency = map_option freqFromFixed (dword_field order off buf 27),
      rfFreqOffset = map_option freqFromFixed (dword_field order off buf 26),
      ifBandOffset = map_option freqFromFixed (dword_field order off buf 25),
      referenceLevel = map_option refLevelFromFixed (word_field order off buf 24),
      gain = map_option gainFromFixed (word_field order off buf 23),
      overRangeCount = word_field order off buf 22,
      sampleRate = map_option freqFromFixed (dword_field order off buf 21)\<rparr>"

definition layout_bytes :: "ByteOrder \<Rightarrow> bytes \<Rightarrow> nat" where
  "layout_bytes order buf = 4 * unat (packetSize (layout_header order buf))"

definition trailer_words :: "PacketHeader \<Rightarrow> nat" where
  "trailer_words h = (if trailerPresent h then 1 else 0)"

definition packet_fits :: "Vita49Codec \<Rightarrow> bytes \<Rightarrow> nat \<Rightarrow> bool" where
  "packet_fits codec buf len \<longleftrightarrow>
    (let order = byteOrder codec;
         h = layout_header order buf;
         size = unat (packetSize h)
     in 4 \<le> len \<and> size \<noteq> 0 \<and> 4 * size \<le> len \<and>
        (isDataPacket (packetType h) \<longrightarrow>
           scaleFactor codec \<noteq> Finite 0 \<and> sizeInWords h + trailer_words h \<le> size) \<and>
        (isContextPacket (packetType h) \<longrightarrow>
           sizeInWords h + 1 + cif0_words (word_at order (sizeInBytes h) buf) 31 \<le> size))"

definition packet_layout :: "Vita49Codec \<Rightarrow> bytes \<Rightarrow> ParsedPacket" where
  "packet_layout codec buf =
    (let order = byteOrder codec;
         h = layout_header order buf
     in if isDataPacket (packetType h) then
          \<lparr>pp_type = SignalData, pp_header = h,
           pp_samples = layout_samples order (float_div (Finite 1) (scaleFactor codec)) (sizeInBytes h)
             (unat (packetSize h) - sizeInWords h - trailer_words h) buf,
           pp_contextFields = default_ContextFields\<rparr>
        else if isContextPacket (packetType h) then
          \<lparr>pp_type = Context, pp_header = h, pp_samples = [],
           pp_contextFields = layout_fields order (sizeInBytes h) buf\<rparr>
        else default_ParsedPacket)"

text \<open>The packets in the first \<open>len\<close> bytes, up to the first that does not fit.\<close>

fun laid_out :: "Vita49Codec \<Rightarrow> bytes \<Rightarrow> nat \<Rightarrow> ParsedPacket list \<Rightarrow> bool" where
  "laid_out codec buf len [] \<longleftrightarrow> \<not> packet_fits codec buf len"
| "laid_out codec buf len (p # ps) \<longleftrightarrow> packet_fits codec buf len \<and> p = packet_layout codec buf \<and>
     (let n = layout_bytes (byteOrder codec) buf in laid_out codec (drop n buf) (len - n) ps)"

lemma layout_header_type: "packetType (layout_header order buf) = stream_type order buf"
  "packetSize (layout_header order buf) = ucast (word_at order 0 buf AND 0xFFFF)"
  "wf_header (layout_header order buf)"
  by (simp_all add: layout_header_def word0_header_def stream_type_def wf_header_parsed)

lemma parse_layout:
  assumes "len \<le> length buf"
  shows "parse_accepts len order buf \<Longrightarrow>
      parse (Some buf) len order default_PacketHeader 0 = Inr (True, layout_header order buf, sizeInBytes (layout_header order buf))"
    "parse_accepts len order buf \<longleftrightarrow> 4 \<le> len \<and> unat (packetSize (layout_header order buf)) \<noteq> 0 \<and>
      4 * unat (packetSize (layout_header order buf)) \<le> len \<and>
      sizeInWords (layout_header order buf) \<le> unat (packetSize (layout_header order buf))"
proof -
  have "sizeInBytes (word0_header order buf default_PacketHeader) = sizeInBytes (layout_header order buf)"
    by (simp add: layout_header_def)
  then have s: "sizeInWords (word0_header order buf default_PacketHeader) = sizeInWords (layout_header order buf)"
    by (simp add: sizeInBytes_def)
  show "parse_accepts len order buf \<Longrightarrow>
      parse (Some buf) len order default_PacketHeader 0 = Inr (True, layout_header order buf, sizeInBytes (layout_header order buf))"
    using parse_accepted [OF assms, of order default_PacketHeader 0] by (simp add: layout_header_def)
  have "packetSize (layout_header order buf) = packetSize (word0_header order buf default_PacketHeader)"
    by (simp add: layout_header_def)
  then show "parse_accepts len order buf \<longleftrightarrow> 4 \<le> len \<and> unat (packetSize (layout_header order buf)) \<noteq> 0 \<and>
      4 * unat (packetSize (layout_header order buf)) \<le> len \<and>
      sizeInWords (layout_header order buf) \<le> unat (packetSize (layout_header order buf))"
    using s by (auto simp: parse_accepts_def Let_def unat_eq_0 mult.commute)
qed

section \<open>Signal packets\<close>

lemma decode_samples_layout:
  assumes "off + 4 * n \<le> length buf"
  shows "decode_samples order invScale (drop off buf) n = Inr (layout_samples order invScale off n buf)"
  unfolding decode_samples_def layout_samples_def
proof (rule omap_total)
  fix i assume "i \<in> set [0..<n]"
  then have i: "off + 4 * i + 2 + 2 \<le> length buf" using assms by auto
  have d: "drop (i * 4) (drop off buf) = drop (off + 4 * i) buf"
    "drop 2 (drop (off + 4 * i) buf) = drop (off + 4 * i + 2) buf"
    by (simp_all only: drop_drop add.commute mult.commute)
  show "decode_sample order invScale (drop (i * 4) (drop off buf)) =
      Inr (dequantise invScale (half_at order (off + 4 * i) buf), dequantise invScale (half_at order (off + 4 * i + 2) buf))"
    unfolding decode_sample_def d using i readI16_at [of "off + 4 * i" buf order] readI16_at [of "off + 4 * i + 2" buf order]
    by simp
qed

lemma signal_decode_layout:
  assumes "len \<le> length buf" "4 \<le> len" "isDataPacket (packetType (layout_header order buf))"
  shows "signal_decode (Some buf) len order sf 0 =
    (let h = layout_header order buf
     in if sf \<noteq> Finite 0 \<and> parse_accepts len order buf \<and> sizeInWords h + trailer_words h \<le> unat (packetSize h)
        then Inr (Some \<lparr>sd_header = h, sd_samples = layout_samples order (float_div (Finite 1) sf) (sizeInBytes h)
               (unat (packetSize h) - sizeInWords h - trailer_words h) buf\<rparr>, 4 * unat (packetSize h))
        else Inr (None, 0))"
proof (cases "parse_accepts len order buf")
  case True
  let ?h = "layout_header order buf"
  let ?n = "unat (packetSize ?h) - sizeInWords ?h - trailer_words ?h"
  have acc: "4 * unat (packetSize ?h) \<le> len" using True parse_layout(2) [OF assms(1)] by blast
  have tr: "(if trailerPresent ?h then 4 else 0) = 4 * trailer_words ?h" by (simp add: trailer_words_def)
  have n: "(unat (packetSize ?h) * 4 - sizeInBytes ?h - 4 * trailer_words ?h) div 4 = ?n"
  proof -
    have "unat (packetSize ?h) * 4 - sizeInBytes ?h - 4 * trailer_words ?h = 4 * ?n" unfolding sizeInBytes_def by arith
    then show ?thesis by simp
  qed
  have fit: "sizeInBytes ?h + 4 * trailer_words ?h > unat (packetSize ?h) * 4 \<longleftrightarrow>
      \<not> sizeInWords ?h + trailer_words ?h \<le> unat (packetSize ?h)" unfolding sizeInBytes_def by arith
  have samples: "decode_samples order inv (drop (sizeInBytes ?h) buf) ?n = Inr (layout_samples order inv (sizeInBytes ?h) ?n buf)"
    if "sizeInWords ?h + trailer_words ?h \<le> unat (packetSize ?h)" for inv
    by (rule decode_samples_layout) (use that acc assms(1) in \<open>simp add: sizeInBytes_def\<close>)
  have four: "\<not> len < 4" "(len < 4 \<or> sf = Finite 0) = (sf = Finite 0)" using assms(2) by simp_all
  show ?thesis
    unfolding signal_decode_def option.case four parse_layout(1) [OF assms(1) True] obind_Inr prod.case Let_def tr n fit
    using True assms(3) samples by (simp del: diff_diff_left)
next
  case False
  then show ?thesis
    using parse_rejected [OF assms(1) False, of default_PacketHeader 0] by (auto simp: signal_decode_def)
qed

section \<open>Context packets\<close>

text \<open>The field of a bit, as a word or as a number.\<close>

definition ctx_field :: "nat \<Rightarrow> ContextFields \<Rightarrow> (u32 + fp) option" where
  "ctx_field c f =
    (if c = 30 then map_option Inl (referencePointId f) else if c = 29 then map_option Inr (bandwidth f)
     else if c = 28 then map_option Inr (ifRefFrequency f) else if c = 27 then map_option Inr (rfFrequency f)
     else if c = 26 then map_option Inr (rfFreqOffset f) else if c = 25 then map_option Inr (ifBandOffset f)
     else if c = 24 then map_option Inr (referenceLevel f) else if c = 23 then map_option Inr (gain f)
     else if c = 22 then map_option Inl (overRangeCount f) else if c = 21 then map_option Inr (sampleRate f)
     else None)"

definition value_at :: "ByteOrder \<Rightarrow> nat \<Rightarrow> nat \<Rightarrow> bytes \<Rightarrow> u32 + fp" where
  "value_at order c off buf =
    (if c = 30 \<or> c = 22 then Inl (word_at order off buf)
     else if c = 24 then Inr (refLevelFromFixed (word_at order off buf))
     else if c = 23 then Inr (gainFromFixed (word_at order off buf))
     else Inr (freqFromFixed (dword_at order off buf)))"

lemma ctx_field_ext:
  assumes "changeIndicator f = changeIndicator g" "\<And>c. 21 \<le> c \<Longrightarrow> c \<le> 30 \<Longrightarrow> ctx_field c f = ctx_field c g"
  shows "f = (g :: ContextFields)"
proof -
  have inj: "map_option Inl x = map_option Inl y \<longleftrightarrow> x = y" "map_option Inr u = map_option Inr v \<longleftrightarrow> u = v"
    for x y :: "u32 option" and u v :: "fp option"
    by (cases x; cases y; simp) (cases u; cases v; simp)
  show ?thesis
    using assms(1) assms(2) [of 30] assms(2) [of 29] assms(2) [of 28] assms(2) [of 27] assms(2) [of 26] assms(2) [of 25]
      assms(2) [of 24] assms(2) [of 23] assms(2) [of 22] assms(2) [of 21]
    by (intro ContextFields.equality) (simp_all add: ctx_field_def inj)
qed

lemma decode_field_value:
  assumes "15 \<le> b" "b < 31" "offset + nat (cif0FieldSizeWords b) * 4 \<le> length data"
  shows "\<exists>f'. decode_field b order data offset f = Inr f' \<and> changeIndicator f' = changeIndicator f \<and>
    (\<forall>c. ctx_field c f' = (if c = b \<and> 21 \<le> b then Some (value_at order b offset data) else ctx_field c f))"
proof (cases "cif0FieldSizeWords b = 1")
  case True
  then have "readWord order (drop offset data) = Inr (word_at order offset data)" using assms(3) by (intro readWord_at) simp
  moreover have "b \<in> {30, 24, 23, 22, 19, 18, 16}" using fieldSize_cases [OF assms(1,2)] True by auto
  ultimately show ?thesis by (auto simp: decode_field_def Let_def ctx_field_def value_at_def)
next
  case False
  then have two: "cif0FieldSizeWords b = 2 \<and> b \<in> {29, 28, 27, 26, 25, 21, 20, 17, 15}"
    using fieldSize_cases [OF assms(1,2)] by blast
  then have "readDWord order (drop offset data) = Inr (dword_at order offset data)" using assms(3) by (intro readDWord_at) simp
  with two show ?thesis by (auto simp: decode_field_def Let_def ctx_field_def value_at_def)
qed

lemma cif0_words_mono: "m \<le> n \<Longrightarrow> cif0_words cif0 m \<le> cif0_words cif0 n"
  by (induction n) (auto simp: le_Suc_eq)

lemma decode_loop_values:
  assumes "packetBytes \<le> length data" "b < 31" "offset + 4 * cif0_words cif0 (Suc b) \<le> packetBytes"
  shows "\<exists>f'. decode_loop cif0 packetBytes order data b offset f = Inr (Some f') \<and> changeIndicator f' = changeIndicator f \<and>
    (\<forall>c. ctx_field c f' = (if 21 \<le> c \<and> c \<le> b \<and> bit cif0 c
        then Some (value_at order c (offset + 4 * (cif0_words cif0 (Suc b) - cif0_words cif0 (Suc c))) data)
        else ctx_field c f))"
  using assms(2,3)
proof (induction b arbitrary: offset f)
  case 0
  then show ?case by (auto simp: decode_loop_low)
next
  case (Suc b)
  show ?case
  proof (cases "15 \<le> Suc b \<and> bit cif0 (Suc b)")
    case False
    then have w: "cif0_words cif0 (Suc (Suc b)) = cif0_words cif0 (Suc b)" by auto
    obtain f' where "decode_loop cif0 packetBytes order data b offset f = Inr (Some f')" "changeIndicator f' = changeIndicator f"
      "\<forall>c. ctx_field c f' = (if 21 \<le> c \<and> c \<le> b \<and> bit cif0 c
        then Some (value_at order c (offset + 4 * (cif0_words cif0 (Suc b) - cif0_words cif0 (Suc c))) data)
        else ctx_field c f)"
      using Suc.IH [of offset f] Suc.prems unfolding w by auto
    moreover have "decode_loop cif0 packetBytes order data (Suc b) offset f = decode_loop cif0 packetBytes order data b offset f"
      by (rule decode_loop_skip [OF Suc.prems(1) False refl])
    ultimately show ?thesis using False unfolding w by (intro exI [of _ f']) (auto simp: le_Suc_eq)
  next
    case True
    define n where "n = nat (cif0FieldSizeWords (Suc b))"
    have n: "0 < n" "cif0FieldSizeWords (Suc b) = int n"
      using fieldSize_cases [of "Suc b"] True Suc.prems(1) by (auto simp: n_def)
    have w: "cif0_words cif0 (Suc (Suc b)) = n + cif0_words cif0 (Suc b)" using True by (simp add: n_def)
    have fit: "offset + n * 4 \<le> packetBytes" "offset + n * 4 + 4 * cif0_words cif0 (Suc b) \<le> packetBytes"
      using Suc.prems(2) unfolding w by (simp_all add: algebra_simps)
    have "offset + nat (cif0FieldSizeWords (Suc b)) * 4 \<le> length data" using fit(1) assms(1) by (simp add: n_def)
    then obtain f1 where f1: "decode_field (Suc b) order data offset f = Inr f1" "changeIndicator f1 = changeIndicator f"
      "\<forall>c. ctx_field c f1 = (if c = Suc b \<and> 21 \<le> Suc b then Some (value_at order (Suc b) offset data) else ctx_field c f)"
      using decode_field_value [of "Suc b" offset data order f] True Suc.prems(1) by blast
    obtain f' where f': "decode_loop cif0 packetBytes order data b (offset + n * 4) f1 = Inr (Some f')"
      "changeIndicator f' = changeIndicator f1"
      "\<forall>c. ctx_field c f' = (if 21 \<le> c \<and> c \<le> b \<and> bit cif0 c
        then Some (value_at order c (offset + n * 4 + 4 * (cif0_words cif0 (Suc b) - cif0_words cif0 (Suc c))) data)
        else ctx_field c f1)"
      using Suc.IH [of "offset + n * 4" f1] Suc.prems(1) fit(2) by auto
    have eq: "decode_loop cif0 packetBytes order data (Suc b) offset f = Inr (Some f')"
      using n True Suc.prems(1) decode_loop_set [of "Suc b" cif0 n] fit(1) f1(1) f'(1) by simp
    have off: "value_at order c (offset + n * 4 + 4 * (cif0_words cif0 (Suc b) - cif0_words cif0 (Suc c))) data =
        value_at order c (offset + 4 * (n + cif0_words cif0 (Suc b) - cif0_words cif0 (Suc c))) data" if "c \<le> b" for c
    proof -
      have "offset + n * 4 + 4 * (cif0_words cif0 (Suc b) - cif0_words cif0 (Suc c)) =
          offset + 4 * (n + cif0_words cif0 (Suc b) - cif0_words cif0 (Suc c))"
        using cif0_words_mono [of "Suc c" "Suc b" cif0] that by (simp add: algebra_simps del: cif0_words.simps)
      then show ?thesis by (simp only:)
    qed
    show ?thesis unfolding w
      using eq f'(2) f1(2,3) True w
      by (intro exI [of _ f']) (auto simp: f'(3) off le_Suc_eq simp del: cif0_words.simps)
  qed
qed

lemma context_fields_layout:
  assumes "packetBytes \<le> length buf" "off + 4 + 4 * cif0_words (word_at order off buf) 31 \<le> packetBytes"
  shows "decode_loop (word_at order off buf) packetBytes order buf 30 (off + 4)
      (default_ContextFields\<lparr>changeIndicator := (word_at order off buf AND CIF0_CHANGE_INDICATOR \<noteq> 0)\<rparr>) =
    Inr (Some (layout_fields order off buf))"
proof -
  let ?cif0 = "word_at order off buf"
  let ?f = "default_ContextFields\<lparr>changeIndicator := (?cif0 AND CIF0_CHANGE_INDICATOR \<noteq> 0)\<rparr>"
  obtain f' where f': "decode_loop ?cif0 packetBytes order buf 30 (off + 4) ?f = Inr (Some f')"
    "changeIndicator f' = changeIndicator ?f"
    "\<forall>c. ctx_field c f' = (if 21 \<le> c \<and> c \<le> 30 \<and> bit ?cif0 c
      then Some (value_at order c (off + 4 + 4 * (cif0_words ?cif0 (Suc 30) - cif0_words ?cif0 (Suc c))) buf)
      else ctx_field c ?f)"
    using decode_loop_values [OF assms(1), of 30 "off + 4" ?cif0 order ?f] assms(2) by auto
  have ci: "(?cif0 AND CIF0_CHANGE_INDICATOR \<noteq> 0) = bit ?cif0 31"
    using and_push_bit_iff [of 31 ?cif0] by (simp add: CIF0_CHANGE_INDICATOR_def)
  have "f' = layout_fields order off buf"
  proof (rule ctx_field_ext)
    show "changeIndicator f' = changeIndicator (layout_fields order off buf)"
      using f'(2) ci by (simp add: layout_fields_def)
    fix c :: nat assume c: "21 \<le> c" "c \<le> 30"
    have fo: "off + 4 + 4 * (cif0_words ?cif0 (Suc 30) - cif0_words ?cif0 (Suc c)) = field_offset order off buf c"
      by (simp add: field_offset_def Let_def del: cif0_words.simps)
    have "ctx_field c f' = (if bit ?cif0 c then Some (value_at order c (field_offset order off buf c) buf) else None)"
      using f'(3) c unfolding fo [symmetric] by (simp add: ctx_field_def default_ContextFields_def del: cif0_words.simps)
    moreover have "c = 21 \<or> c = 22 \<or> c = 23 \<or> c = 24 \<or> c = 25 \<or> c = 26 \<or> c = 27 \<or> c = 28 \<or> c = 29 \<or> c = 30"
      using c by arith
    ultimately show "ctx_field c f' = ctx_field c (layout_fields order off buf)"
      by (elim disjE) (simp_all add: ctx_field_def value_at_def layout_fields_def word_field_def dword_field_def)
  qed
  then show ?thesis using f'(1) by simp
qed

lemma context_decode_layout:
  assumes "len \<le> length buf" "4 \<le> len" "isContextPacket (packetType (layout_header order buf))"
  shows "context_decode (Some buf) len order 0 =
    (let h = layout_header order buf
     in if parse_accepts len order buf \<and>
           sizeInWords h + 1 + cif0_words (word_at order (sizeInBytes h) buf) 31 \<le> unat (packetSize h)
        then Inr (Some \<lparr>cd_header = h, cd_fields = layout_fields order (sizeInBytes h) buf\<rparr>, 4 * unat (packetSize h))
        else Inr (None, 0))"
proof -
  let ?h = "layout_header order buf"
  obtain r n where r: "context_decode (Some buf) len order 0 = Inr (r, n)"
    "n = (case r of None \<Rightarrow> 0 | Some d \<Rightarrow> unat (packetSize (cd_header d)) * 4)"
    "r \<noteq> None \<longleftrightarrow> (\<exists>h. parse (Some buf) len order default_PacketHeader 0 = Inr (True, h, sizeInBytes h) \<and>
       isContextPacket (packetType h) \<and> sizeInWords h + 1 \<le> unat (packetSize h) \<and>
       sizeInWords h + 1 + cif0_words (word_at order (sizeInBytes h) buf) 31 \<le> unat (packetSize h))"
    using context_decode_total [OF assms(1), of order 0] by blast
  show ?thesis
  proof (cases "parse_accepts len order buf \<and>
      sizeInWords ?h + 1 + cif0_words (word_at order (sizeInBytes ?h) buf) 31 \<le> unat (packetSize ?h)")
    case True
    then have p: "parse (Some buf) len order default_PacketHeader 0 = Inr (True, ?h, sizeInBytes ?h)"
      using parse_layout(1) [OF assms(1)] by blast
    let ?pb = "unat (packetSize ?h) * 4" and ?off = "sizeInBytes ?h"
    have fit: "?off + 4 + 4 * cif0_words (word_at order ?off buf) 31 \<le> ?pb" "?pb \<le> length buf" "\<not> len < 4"
      using True parse_layout(2) [OF assms(1), of order] assms(1,2) unfolding sizeInBytes_def by auto
    then have c: "readWord order (drop ?off buf) = Inr (word_at order ?off buf)" by (intro readWord_at) simp
    show ?thesis
      using True fit assms(3) context_fields_layout [OF fit(2,1)]
      by (simp add: context_decode_def p Let_def c mult.commute [of _ 4] del: cif0_words.simps)
  next
    case False
    have "\<not> (\<exists>h. parse (Some buf) len order default_PacketHeader 0 = Inr (True, h, sizeInBytes h) \<and>
       isContextPacket (packetType h) \<and> sizeInWords h + 1 \<le> unat (packetSize h) \<and>
       sizeInWords h + 1 + cif0_words (word_at order (sizeInBytes h) buf) 31 \<le> unat (packetSize h))"
      using False parse_layout(1) [OF assms(1), of order] parse_rejected [OF assms(1), of order default_PacketHeader 0] by fastforce
    then have "r = None" using r(3) by blast
    then have "context_decode (Some buf) len order 0 = Inr (None, 0)" using r(1,2) by simp
    then show ?thesis by (simp only: Let_def False if_False)
  qed
qed

section \<open>Whole streams\<close>

lemma parsePacket_layout:
  assumes "len \<le> length buf"
  shows "parse_one codec buf len =
    Inr (if packet_fits codec buf len then (Some (packet_layout codec buf), layout_bytes (byteOrder codec) buf) else (None, 0))"
proof -
  let ?o = "byteOrder codec"
  let ?h = "layout_header ?o buf"
  note layout = packet_fits_def packet_layout_def layout_bytes_def Let_def default_ParsedPacket_def
  note type = layout_header_type(1) [of ?o buf]
  show ?thesis
  proof (cases rule: packet_cases [where len = len and order = ?o and buf = buf])
    case short
    then show ?thesis by (simp add: parse_one_def parsePacket_short packet_fits_def)
  next
    case signal
    then have t: "isDataPacket (packetType ?h)" "\<not> isContextPacket (packetType ?h)" by (simp_all add: type data_not_context)
    show ?thesis
      using signal(1) t
      by (auto simp: parse_one_def parsePacket_signal [OF signal(1) assms signal(2)] signal_decode_layout [OF assms signal(1) t(1)]
          parse_layout(2) [OF assms] layout)
  next
    case ctx
    then have t: "\<not> isDataPacket (packetType ?h)" "isContextPacket (packetType ?h)" by (simp_all add: type)
    show ?thesis
      using ctx(1) t
      by (auto simp: parse_one_def parsePacket_context [OF ctx(1) assms ctx(2,3)] context_decode_layout [OF assms ctx(1) t(2)]
          parse_layout(2) [OF assms] layout simp del: cif0_words.simps)
  next
    case unknown
    then have t: "\<not> isDataPacket (packetType ?h)" "\<not> isContextPacket (packetType ?h)" by (simp_all add: type)
    show ?thesis
      using unknown(1) t
      by (auto simp: parse_one_def parsePacket_unknown [OF unknown(1) assms unknown(2,3)] layout_header_type(2) unat_eq_0
          mult.commute layout)
  qed
qed

lemma stream_laid_out:
  "len \<le> length buf \<Longrightarrow> parse_all codec buf len = Inr ps \<Longrightarrow> laid_out codec buf len ps"
proof (induction len arbitrary: buf ps rule: less_induct)
  case (less len)
  note one = parsePacket_layout [OF less.prems(1), of codec]
  let ?n = "layout_bytes (byteOrder codec) buf"
  show ?case
  proof (cases "packet_fits codec buf len")
    case True
    then have n: "4 \<le> len" "0 < ?n" "?n \<le> len" by (auto simp: packet_fits_def layout_bytes_def Let_def)
    then obtain qs where qs: "parse_all codec (drop ?n buf) (len - ?n) = Inr qs" "ps = packet_layout codec buf # qs"
      using less.prems True one by (auto simp: codec_stream.stream_unfold obind_eq_Inr_iff)
    have "laid_out codec (drop ?n buf) (len - ?n) qs" by (rule less.IH [OF _ _ qs(1)]) (use n less.prems(1) in auto)
    then show ?thesis using qs(2) True by (simp add: Let_def)
  next
    case False
    then have "ps = []" using less.prems one by (auto simp: codec_stream.stream_unfold split: if_splits)
    then show ?thesis using False by simp
  qed
qed

text \<open>
  A signal packet has the header of a data packet, one sample per payload word and no context fields;
  a context packet has the header of a context packet, room for its CIF0 word and no samples; a packet of
  unknown type is the default packet.
\<close>

fun typed_as :: "ParsedPacketType \<Rightarrow> ParsedPacket \<Rightarrow> bool" where
  "typed_as SignalData p \<longleftrightarrow>
     isDataPacket (packetType (pp_header p)) \<and> wf_header (pp_header p) \<and> pp_contextFields p = default_ContextFields \<and>
     4 * length (pp_samples p) + sizeInBytes (pp_header p) + (if trailerPresent (pp_header p) then 4 else 0) =
       4 * unat (packetSize (pp_header p))"
| "typed_as Context p \<longleftrightarrow>
     isContextPacket (packetType (pp_header p)) \<and> wf_header (pp_header p) \<and> pp_samples p = [] \<and>
     sizeInBytes (pp_header p) + 4 \<le> 4 * unat (packetSize (pp_header p))"
| "typed_as UnknownType p \<longleftrightarrow> p = default_ParsedPacket"

lemma packet_layout_typed: "packet_fits codec buf len \<Longrightarrow> typed_as (pp_type (packet_layout codec buf)) (packet_layout codec buf)"
  using layout_header_type(3) [of "byteOrder codec" buf]
  by (auto simp: packet_layout_def packet_fits_def Let_def layout_samples_def trailer_words_def sizeInBytes_def default_ParsedPacket_def
      split: if_splits)

lemma laid_out_typed: "laid_out codec buf len ps \<Longrightarrow> list_all (\<lambda>p. typed_as (pp_type p) p) ps"
  by (induction ps arbitrary: buf len) (auto simp: packet_layout_typed Let_def)

text \<open>
  C23. Whatever bytes are parsed, the stream parser returns exactly the packets that the buffer lays out, up to
  the first place where none fits.  A signal packet has the header fields and the samples, scaled back,
  that stand at their offsets; a context packet has the header fields, no samples, and every field whose
  bit of CIF0 is set, and no other, from the place behind the fields of the higher bits; a packet of
  another type is the default packet.  Each has the type that it says: a well-formed data header with as many
  samples as its size announces, a well-formed context header with room for CIF0, or nothing.
\<close>

theorem parseStream_typed:
  assumes "len \<le> length buf"
  shows "\<exists>ps. parseStream codec (Some buf) len = Inr ps \<and> laid_out codec buf len ps \<and>
    list_all (\<lambda>p. typed_as (pp_type p) p) ps"
proof -
  obtain ps where ps: "parse_all codec buf len = Inr ps" using codec_stream.stream_total [OF assms] by blast
  from stream_laid_out [OF assms this] show ?thesis using ps laid_out_typed by (auto simp: parse_all_def)
qed

text \<open>A signal packet, a context packet and one of type 6, of a word; then three bytes more.\<close>

definition example_stream :: bytes where
  "example_stream = signal_wire 7 [(0x4000, 0xE000)] 3 BigEndian TSI_None TSF_None 0 0 False @
     context_wire 7 example_raw 0 BigEndian TSI_None TSF_None 0 0 @ [0x60, 0, 0, 1] @ [1, 2, 3]"

lemma example_unknown: "parseStream example_codec (Some ([0x60, 0, 0, 1] @ [1, 2, 3])) 7 = Inr [default_ParsedPacket]"
proof -
  let ?buf = "[0x60, 0, 0, 1] @ [1, 2, 3] :: bytes"
  have t: "stream_type BigEndian ?buf = UnnamedPacketType 6"
    by (simp add: stream_type_def eval_words PacketType_of_u8_def)
  have "word_at BigEndian 0 ?buf AND 0xFFFF = 1" by (simp add: eval_words)
  then have "parse_one example_codec ?buf 7 = Inr (Some default_ParsedPacket, 4)"
    using parsePacket_unknown [of 7 ?buf example_codec 0] t
    by (simp add: parse_one_def isDataPacket_def isContextPacket_def Let_def)
  then show ?thesis
    using codec_stream.stream_unfold [of 7 ?buf example_codec] codec_stream.stream_short [of 3 "[1, 2, 3]" example_codec]
    by (simp add: parse_all_def)
qed

theorem parseStream_typed_witness:
  "\<exists>p q ps. parseStream example_codec (Some example_stream) 59 = Inr ps \<and> laid_out example_codec example_stream 59 ps \<and>
    ps = [p, q, default_ParsedPacket] \<and> typed_as SignalData p \<and> typed_as Context q \<and>
    streamId (pp_header p) = Some 7 \<and> length (pp_samples p) = 1 \<and>
    changeIndicator (pp_contextFields q) \<and> overRangeCount (pp_contextFields q) = Some 5 \<and>
    referencePointId (pp_contextFields q) = None"
proof -
  let ?w1 = "signal_wire 7 [(0x4000, 0xE000)] 3 BigEndian TSI_None TSF_None 0 0 False"
  let ?w2 = "context_wire 7 example_raw 0 BigEndian TSI_None TSF_None 0 0"
  let ?p = "parsed_signal example_codec 7 [(0x4000, 0xE000)] 3 TSI_None TSF_None 0 0 False"
  let ?q = "parsed_context 7 example_raw 0 TSI_None TSF_None 0 0"
  let ?u = "[0x60, 0, 0, 1] @ [1, 2, 3] :: bytes"
  have l: "length ?w1 = 12" "length ?w2 = 40"
    by (simp_all add: length_signal_wire signal_words_def length_context_wire context_words_def raw_words_def example_raw_def)
  have f1: "codec_stream.frames example_codec ?w1 ?p"
    using signal_frames [of "[(0x4000, 0xE000)]" TSI_None TSF_None False example_codec 7 3 0 0] default_scale_nonzero
    by (simp add: maxSamplesPerPacket_eq signal_words_def)
  have f2: "codec_stream.frames example_codec ?w2 ?q"
    using context_frames [of example_codec 7 example_raw 0 TSI_None TSF_None 0 0] by simp
  have "parse_all example_codec (?w2 @ ?u) 47 = Inr [?q, default_ParsedPacket]"
    using codec_stream.stream_frame [OF f2, of 47 ?u] l example_unknown by (simp add: parse_all_def)
  then have all: "parseStream example_codec (Some example_stream) 59 = Inr [?p, ?q, default_ParsedPacket]"
    using codec_stream.stream_frame [OF f1, of 59 "?w2 @ ?u"] l by (simp add: parse_all_def example_stream_def)
  have "length example_stream = 59" using l by (simp add: example_stream_def)
  then obtain ps where ps: "parseStream example_codec (Some example_stream) 59 = Inr ps" "laid_out example_codec example_stream 59 ps"
    "list_all (\<lambda>p. typed_as (pp_type p) p) ps" using parseStream_typed [of 59 example_stream example_codec] by auto
  then have eq: "ps = [?p, ?q, default_ParsedPacket]" using all by simp
  then have "typed_as SignalData ?p" "typed_as Context ?q" using ps(3) by (simp_all add: parsed_signal_def parsed_context_def)
  moreover have "streamId (pp_header ?p) = Some 7 \<and> length (pp_samples ?p) = 1 \<and> changeIndicator (pp_contextFields ?q) \<and>
      overRangeCount (pp_contextFields ?q) = Some 5 \<and> referencePointId (pp_contextFields ?q) = None"
    by (simp add: parsed_signal_def parsed_context_def example_raw_def from_raw_def)
  ultimately show ?thesis using ps eq by blast
qed

end
