(* ===== verification/FileCodec.thy ===== *)
theory FileCodec
  imports Vita49Codec
begin

text \<open>
  \<open>src/apps/Tools/Vita49FileCodec.cpp\<close>: the command-line tool that generates, inspects and round-trips
  files of VITA 49.2 packets.

  \<^item> The file system is a map from paths to contents.  Whether a file can be created and written is an
    argument (\<open>write_result\<close>); a file that opens is read completely.
  \<^item> A log call is the pair of its format string and its arguments; the formatting itself (\<open>fmt\<close>) and
    the timestamps of the logger are not modelled.  A dash outside ASCII is written as two hyphens.
  \<^item> The record \<open>platform\<close> holds what the tool takes from the C library: \<open>cos\<close>, \<open>sin\<close> and \<open>sqrt\<close>, whose
    last bits depend on the implementation, \<open>atof\<close>, and how many samples can be allocated.
  \<^item> The packet number that \<open>inspect\<close> prints does not overflow: there are fewer than 2 to the 31 packets.

  The lemmas show that the round trip of any file whatever reports perfection unless a context frequency
  cannot be converted back, and that a generated file comes back bit for bit.
\<close>

section \<open>Environment\<close>

type_synonym disk = "string \<rightharpoonup> bytes"

datatype log_arg = ArgS string | ArgI int | ArgF fp

type_synonym log = "(string \<times> log_arg list) list"

record platform =
  cosf :: "fp \<Rightarrow> fp"
  sinf :: "fp \<Rightarrow> fp"
  sqrt64 :: "fp \<Rightarrow> fp"
  atof :: "string \<Rightarrow> fp"
  max_samples :: nat

datatype write_result = CannotCreate | WriteFails bytes | WriteOk

definition readFile :: "disk \<Rightarrow> string \<Rightarrow> bytes \<times> log" where
  "readFile disk path =
    (case disk path of
       None \<Rightarrow> ([], [(''Cannot open file: {}'', [ArgS path])])
     | Some content \<Rightarrow>
         let fileSize = length content
         in if fileSize = 0 then ([], []) else (content, []))"

definition writeFile :: "write_result \<Rightarrow> disk \<Rightarrow> string \<Rightarrow> bytes \<Rightarrow> bool \<times> log \<times> disk" where
  "writeFile os disk path data =
    (case os of
       CannotCreate \<Rightarrow> (False, [(''Cannot create file: {}'', [ArgS path])], disk)
     | WriteFails written \<Rightarrow> (False, [], disk(path \<mapsto> written))
     | WriteOk \<Rightarrow> (True, [], disk(path \<mapsto> data)))"

section \<open>Names\<close>

fun packetTypeName :: "PacketType \<Rightarrow> string" where
  "packetTypeName IFDataWithoutStreamId = ''IF Data (no SID)''"
| "packetTypeName IFDataWithStreamId = ''IF Data (SID)''"
| "packetTypeName ExtDataWithoutStreamId = ''Ext Data (no SID)''"
| "packetTypeName ExtDataWithStreamId = ''Ext Data (SID)''"
| "packetTypeName IFContext = ''IF Context''"
| "packetTypeName ExtContext = ''Ext Context''"
| "packetTypeName (UnnamedPacketType v) = ''Unknown''"

fun tsiName :: "TSI \<Rightarrow> string" where
  "tsiName TSI_None = ''None''"
| "tsiName TSI_UTC = ''UTC''"
| "tsiName TSI_GPS = ''GPS''"
| "tsiName TSI_Other = ''Other''"

fun tsfName :: "TSF \<Rightarrow> string" where
  "tsfName TSF_None = ''None''"
| "tsfName TSF_SampleCount = ''SampleCount''"
| "tsfName TSF_RealTime = ''RealTime(ps)''"
| "tsfName TSF_FreeRunning = ''FreeRunning''"

section \<open>inspect\<close>

text \<open>A line that is logged when an optional has a value.\<close>

definition when_some :: "string \<Rightarrow> ('a \<Rightarrow> log_arg) \<Rightarrow> 'a option \<Rightarrow> log" where
  "when_some text arg v = (case v of None \<Rightarrow> [] | Some x \<Rightarrow> [(text, [arg x])])"

definition logHeader :: "PacketHeader \<Rightarrow> int \<Rightarrow> log" where
  "logHeader hdr index =
    [(''  Packet #{}'', [ArgI index]),
     (''    Type:         {}'', [ArgS (packetTypeName (packetType hdr))]),
     (''    PacketCount:  {}'', [ArgI (uint (packetCount hdr))]),
     (''    PacketSize:   {} words ({} bytes)'', [ArgI (uint (packetSize hdr)), ArgI (uint (packetSize hdr) * 4)]),
     (''    ClassID:      {}'', [ArgS (if classIdPresent hdr then ''yes'' else ''no'')]),
     (''    Trailer:      {}'', [ArgS (if trailerPresent hdr then ''yes'' else ''no'')]),
     (''    TSI:          {}'', [ArgS (tsiName (tsiType hdr))]),
     (''    TSF:          {}'', [ArgS (tsfName (tsfType hdr))])] @
    when_some ''    StreamID:     0x{:08X}'' (\<lambda>v. ArgI (uint v)) (streamId hdr) @
    when_some ''    IntTimestamp:  {}'' (\<lambda>v. ArgI (uint v)) (integerTimestamp hdr) @
    when_some ''    FracTimestamp: {}'' (\<lambda>v. ArgI (uint v)) (fractionalTimestamp hdr)"

definition logContextFields :: "ContextFields \<Rightarrow> log" where
  "logContextFields f =
    [(''    --- Context Fields ---'', []),
     (''    ChangeIndicator: {}'', [ArgS (if changeIndicator f then ''true'' else ''false'')])] @
    when_some ''    RefPointID:      0x{:08X}'' (\<lambda>v. ArgI (uint v)) (referencePointId f) @
    when_some ''    Bandwidth:       {:.6e} Hz'' ArgF (bandwidth f) @
    when_some ''    IF Ref Freq:     {:.6e} Hz'' ArgF (ifRefFrequency f) @
    when_some ''    RF Frequency:    {:.6e} Hz'' ArgF (rfFrequency f) @
    when_some ''    RF Freq Offset:  {:.6e} Hz'' ArgF (rfFreqOffset f) @
    when_some ''    IF Band Offset:  {:.6e} Hz'' ArgF (ifBandOffset f) @
    when_some ''    Ref Level:       {:.2f} dBm'' ArgF (referenceLevel f) @
    when_some ''    Gain:            {:.2f} dB'' ArgF (gain f) @
    when_some ''    Over-Range Cnt:  {}'' (\<lambda>v. ArgI (uint v)) (overRangeCount f) @
    when_some ''    Sample Rate:     {:.6e} Hz'' ArgF (sampleRate f)"

text \<open>The loop of the statistics: least and greatest components, sum of squared magnitudes.\<close>

fun stats_loop :: "IQSample list \<Rightarrow> fp \<times> fp \<times> fp \<times> fp \<times> fp \<Rightarrow> fp \<times> fp \<times> fp \<times> fp \<times> fp" where
  "stats_loop [] acc = acc"
| "stats_loop ((re, im) # samples) (minI, maxI, minQ, maxQ, sumMag2) =
     stats_loop samples
       (fp_min minI re, fp_max maxI re, fp_min minQ im, fp_max maxQ im,
        double_add sumMag2 (float_add (float_mul re re) (float_mul im im)))"

definition logSampleSummary :: "platform \<Rightarrow> IQSample list \<Rightarrow> log" where
  "logSampleSummary plat samples =
    [(''    --- Signal Data ---'', []), (''    Samples:         {}'', [ArgI (int (length samples))])] @
    (case samples of
       [] \<Rightarrow> []
     | (re0, im0) # _ \<Rightarrow>
         let (minI, maxI, minQ, maxQ, sumMag2) = stats_loop samples (re0, re0, im0, im0, Finite 0);
             rmsMag = sqrt64 plat (double_div sumMag2 (double_of_int (int (length samples))));
             printCount = min (length samples) 5
         in [(''    I range:         [{:.6f}, {:.6f}]'', [ArgF minI, ArgF maxI]),
             (''    Q range:         [{:.6f}, {:.6f}]'', [ArgF minQ, ArgF maxQ]),
             (''    RMS magnitude:   {:.6f}'', [ArgF rmsMag]),
             (''    First {} samples:'', [ArgI (int printCount)])] @
            map (\<lambda>i. (''      [{}] I={:10.6f}  Q={:10.6f}'',
                       [ArgI (int i), ArgF (fst (samples ! i)), ArgF (snd (samples ! i))])) [0..<printCount])"

definition rule_line :: log where
  "rule_line = [(''=========================================================='', [])]"

text \<open>The loop over the packets; the result is the log and the number of samples.\<close>

fun inspect_loop :: "platform \<Rightarrow> ParsedPacket list \<Rightarrow> int \<Rightarrow> nat \<Rightarrow> log \<times> nat" where
  "inspect_loop plat [] idx totalSamples = ([], totalSamples)"
| "inspect_loop plat (pkt # pkts) idx totalSamples =
    (let (body, totalSamples) =
           (case pp_type pkt of
              SignalData \<Rightarrow> (logSampleSummary plat (pp_samples pkt), totalSamples + length (pp_samples pkt))
            | Context \<Rightarrow> (logContextFields (pp_contextFields pkt), totalSamples)
            | UnknownType \<Rightarrow> ([(''    (Unknown packet type)'', [])], totalSamples));
         (rest, total') = inspect_loop plat pkts (idx + 1) totalSamples
     in (logHeader (pp_header pkt) idx @ body @ rest, total'))"

definition file_codec :: Vita49Codec where
  "file_codec = make_codec BigEndian DEFAULT_SCALE_FACTOR"

definition unreadable :: "string \<Rightarrow> log" where
  "unreadable path = [(''File is empty or unreadable: {}'', [ArgS path])]"

definition doInspect :: "platform \<Rightarrow> disk \<Rightarrow> string \<Rightarrow> (int \<times> log) outcome" where
  "doInspect plat disk path =
    (let (data, l) = readFile disk path
     in if data = [] then Inr (1, l @ unreadable path)
        else obind (parseStream file_codec (Some data) (length data)) (\<lambda>packets.
          let (body, totalSamples) = inspect_loop plat packets 0 0
          in Inr (0, l @ rule_line @ [(''VITA 49.2 File Inspector'', [])] @ rule_line @
               [(''File:  {}'', [ArgS path]), (''Size:  {} bytes'', [ArgI (int (length data))])] @ rule_line @
               [(''Decoded {} packet(s):'', [ArgI (int (length packets))])] @ body @ rule_line @
               [(''Total: {} packets, {} I/Q samples'', [ArgI (int (length packets)), ArgI (int totalSamples)])] @
               rule_line)))"

section \<open>generate\<close>

definition SAMPLE_RATE :: fp where "SAMPLE_RATE = Finite 1000000"
definition STREAM_ID :: u32 where "STREAM_ID = 0x00001234"

text \<open>\<open>std::numbers::pi\<close> and \<open>0.8f\<close>.\<close>

definition pi64 :: fp where "pi64 = Finite (884279719003555 / 2 ^ 48)"
definition amplitude :: fp where "amplitude = Finite (13421773 / 2 ^ 24)"

definition tone_sample :: "platform \<Rightarrow> fp \<Rightarrow> nat \<Rightarrow> IQSample" where
  "tone_sample plat freqHz i =
    (let t = double_div (double_of_int (int i)) SAMPLE_RATE;
         phase = float_of_double (double_mul (double_mul (double_mul (Finite 2) pi64) freqHz) t)
     in (float_mul amplitude (cosf plat phase), float_mul amplitude (sinf plat phase)))"

definition generate_context :: ContextFields where
  "generate_context = default_ContextFields\<lparr>
     changeIndicator := True, rfFrequency := Some (Finite 2400000000), bandwidth := Some SAMPLE_RATE,
     sampleRate := Some SAMPLE_RATE, gain := Some (Finite 20), referenceLevel := Some (Finite (- 40))\<rparr>"

definition doGenerate ::
  "platform \<Rightarrow> write_result \<Rightarrow> disk \<Rightarrow> string \<Rightarrow> u64 \<Rightarrow> fp \<Rightarrow> (int \<times> log \<times> disk) outcome" where
  "doGenerate plat os disk path numSamples freqHz =
    (let banner = rule_line @ [(''VITA 49.2 File Generator'', [])] @ rule_line @
           [(''  Output:      {}'', [ArgS path]), (''  Samples:     {}'', [ArgI (uint numSamples)]),
            (''  Tone freq:   {} Hz'', [ArgF freqHz]), (''  Sample rate: {} Hz'', [ArgF SAMPLE_RATE]),
            (''  Stream ID:   0x{:08X}'', [ArgI (uint STREAM_ID)])] @ rule_line
     in obind (encodeContext file_codec STREAM_ID generate_context 0 TSI_UTC TSF_RealTime 1738886400 0) (\<lambda>contextBytes.
        if max_samples plat < unat numSamples then Inl BadAlloc
        else
          let samples = map (tone_sample plat freqHz) [0..<unat numSamples]
          in obind (encodeSignalData file_codec STREAM_ID samples 1 TSI_UTC TSF_RealTime 1738886400 0 False)
               (\<lambda>signalBytes.
             let output = contextBytes @ signalBytes;
                 (ok, l, disk) = writeFile os disk path output
             in if \<not> ok then Inr (1, banner @ l, disk)
                else Inr (0, banner @ l @
                  [(''Written {} bytes ({} context + {} signal data)'',
                    [ArgI (int (length output)), ArgI (int (length contextBytes)),
                     ArgI (int (length signalBytes))])], disk))))"

section \<open>roundtrip\<close>

definition value_or :: "'a option \<Rightarrow> 'a \<Rightarrow> 'a" where
  "value_or v d = (case v of None \<Rightarrow> d | Some x \<Rightarrow> x)"

fun reencode :: "Vita49Codec \<Rightarrow> ParsedPacket list \<Rightarrow> bytes \<Rightarrow> bytes outcome" where
  "reencode codec [] reEncoded = Inr reEncoded"
| "reencode codec (pkt # pkts) reEncoded =
    (let h = pp_header pkt; sid = value_or (streamId h) 0
     in case pp_type pkt of
          SignalData \<Rightarrow>
            obind (encodeSignalData codec sid (pp_samples pkt) (packetCount h) (tsiType h) (tsfType h)
                (value_or (integerTimestamp h) 0) (value_or (fractionalTimestamp h) 0) (trailerPresent h))
              (\<lambda>bytes. reencode codec pkts (reEncoded @ bytes))
        | Context \<Rightarrow>
            obind (encodeContext codec sid (pp_contextFields pkt) (packetCount h) (tsiType h) (tsfType h)
                (value_or (integerTimestamp h) 0) (value_or (fractionalTimestamp h) 0))
              (\<lambda>bytes. reencode codec pkts (reEncoded @ bytes))
        | UnknownType \<Rightarrow> reencode codec pkts reEncoded)"

text \<open>The samples of the signal packets, with the number of these packets.\<close>

fun collect_samples :: "ParsedPacket list \<Rightarrow> IQSample list \<Rightarrow> nat \<Rightarrow> IQSample list \<times> nat" where
  "collect_samples [] allSamples sigIdx = (allSamples, sigIdx)"
| "collect_samples (pkt # pkts) allSamples sigIdx =
    (if pp_type pkt = SignalData then collect_samples pkts (allSamples @ pp_samples pkt) (sigIdx + 1)
     else collect_samples pkts allSamples sigIdx)"

fun error_loop :: "IQSample list \<Rightarrow> IQSample list \<Rightarrow> fp \<Rightarrow> fp" where
  "error_loop ((i1, q1) # xs) ((i2, q2) # ys) maxErr =
    (let eI = fp_abs (float_sub i1 i2); eQ = fp_abs (float_sub q1 q2)
     in error_loop xs ys (fp_max (fp_max maxErr eI) eQ))"
| "error_loop _ _ maxErr = maxErr"

definition perfect :: "string \<times> log_arg list" where
  "perfect = (''Round-trip: PERFECT (bit-exact after re-encode)'', [])"

definition compare_samples :: "IQSample list \<Rightarrow> IQSample list \<Rightarrow> log" where
  "compare_samples allSamples1 allSamples2 =
    (if length allSamples1 = length allSamples2 then
       let maxErr = error_loop allSamples1 allSamples2 (Finite 0)
       in [(''Max sample error: {:.6e}'', [ArgF maxErr]),
           if maxErr = Finite 0 then perfect
           else (''Round-trip: PASS (non-zero error from external source)'', [])]
     else [(''Round-trip: SAMPLE COUNT MISMATCH'', [])])"

definition size_mismatch :: "bytes \<Rightarrow> bytes \<Rightarrow> log" where
  "size_mismatch data reEncoded =
    (if length reEncoded \<noteq> length data
     then [(''Size mismatch -- original={} re-encoded={}'', [ArgI (int (length data)), ArgI (int (length reEncoded))]),
           (''  (This may be expected if original has unsupported fields)'', [])]
     else [])"

definition doRoundTrip :: "disk \<Rightarrow> string \<Rightarrow> (int \<times> log) outcome" where
  "doRoundTrip disk path =
    (let (data, l) = readFile disk path
     in if data = [] then Inr (1, l @ unreadable path)
        else
          let l = l @ rule_line @ [(''VITA 49.2 File Round-Trip Test'', [])] @ rule_line @
                [(''File:  {}'', [ArgS path]), (''Size:  {} bytes'', [ArgI (int (length data))])] @ rule_line
          in obind (parseStream file_codec (Some data) (length data)) (\<lambda>packets.
             let l = l @ [(''Decoded {} packet(s) from file.'', [ArgI (int (length packets))])]
             in if packets = [] then Inr (1, l @ [(''No packets decoded.'', [])])
                else obind (reencode file_codec packets []) (\<lambda>reEncoded.
                  obind (parseStream file_codec (Some reEncoded) (length reEncoded)) (\<lambda>packets2.
                    let (allSamples1, sigIdx1) = collect_samples packets [] 0;
                        (allSamples2, sigIdx2) = collect_samples packets2 [] 0
                    in Inr (0, l @ [(''Re-encoded {} bytes.'', [ArgI (int (length reEncoded))])] @
                         size_mismatch data reEncoded @
                         [(''Re-decoded {} packet(s).'', [ArgI (int (length packets2))]),
                          (''Signal packets: original={} re-encoded={}'', [ArgI (int sigIdx1), ArgI (int sigIdx2)]),
                          (''Total samples:  original={} re-encoded={}'',
                           [ArgI (int (length allSamples1)), ArgI (int (length allSamples2))])] @
                         compare_samples allSamples1 allSamples2 @ rule_line)))))"

section \<open>main\<close>

text \<open>\<open>std::atol\<close>: white space, a sign, digits; undefined when the value does not fit.\<close>

fun digits_value :: "int \<Rightarrow> string \<Rightarrow> int" where
  "digits_value acc [] = acc"
| "digits_value acc (c # cs) =
    (let d = of_char c - 48 :: int
     in if 0 \<le> d \<and> d \<le> 9 then digits_value (10 * acc + d) cs else acc)"

definition is_space :: "char \<Rightarrow> bool" where
  "is_space c \<longleftrightarrow> of_char c \<in> {9, 10, 11, 12, 13, 32 :: nat}"

definition std_atol :: "string \<Rightarrow> int outcome" where
  "std_atol s =
    (let s = dropWhile is_space s;
         v = (case s of
                [] \<Rightarrow> 0
              | c # cs \<Rightarrow> if c = CHR ''-'' then - digits_value 0 cs
                          else if c = CHR ''+'' then digits_value 0 cs else digits_value 0 s)
     in if in_signed_range 64 v then Inr v else Inl BadConversion)"

definition usage_text :: "string \<Rightarrow> log" where
  "usage_text progName =
    [(''Usage:'', []),
     (''  {} generate <output.v49> [numSamples] [freqHz]'', [ArgS progName]),
     (''  {} inspect  <input.v49>'', [ArgS progName]),
     (''  {} roundtrip <input.v49>'', [ArgS progName]),
     ('''', []),
     (''Modes:'', []),
     (''  generate  - Create a .v49 file with synthetic tone + context'', []),
     (''  inspect   - Decode and print packet details from a .v49 file'', []),
     (''  roundtrip - Read, decode, re-encode, and compare'', []),
     ('''', []),
     (''Defaults:'', []),
     (''  numSamples = 10000'', []),
     (''  freqHz     = 1000.0'', [])]"

text \<open>The arguments are those after the name of the program.\<close>

definition file_codec_main ::
  "platform \<Rightarrow> write_result \<Rightarrow> disk \<Rightarrow> string \<Rightarrow> string list \<Rightarrow> (int \<times> log \<times> disk) outcome" where
  "file_codec_main plat os disk progName args =
    (case args of
       mode # filePath # opts \<Rightarrow>
         if mode = ''generate'' then
           obind (case opts of [] \<Rightarrow> Inr 10000 | a # _ \<Rightarrow> std_atol a) (\<lambda>n.
             let numSamples = word_of_int n :: u64;
                 freqHz = (case opts of _ # a # _ \<Rightarrow> atof plat a | _ \<Rightarrow> Finite 1000)
             in doGenerate plat os disk filePath numSamples freqHz)
         else if mode = ''inspect'' then
           obind (doInspect plat disk filePath) (\<lambda>(code, l). Inr (code, l, disk))
         else if mode = ''roundtrip'' then
           obind (doRoundTrip disk filePath) (\<lambda>(code, l). Inr (code, l, disk))
         else Inr (1, (''Unknown mode '' @ [CHR 0x27] @ ''{}'' @ [CHR 0x27], [ArgS mode]) # usage_text progName, disk)
     | _ \<Rightarrow> Inr (1, usage_text progName, disk))"

section \<open>Packets of a parsed stream\<close>

definition inverse_scale :: fp where
  "inverse_scale = float_div (Finite 1) DEFAULT_SCALE_FACTOR"

text \<open>A signal packet as the decoder returns it: its samples are 16-bit values divided by the scale.\<close>

definition decoded_packet :: "ParsedPacket \<Rightarrow> bool" where
  "decoded_packet p \<longleftrightarrow> pp_type p = SignalData \<longrightarrow> pp_samples p \<in> range (map (dequantise_pair inverse_scale))"

lemma decode_sample_range:
  "decode_sample order scale w = Inr s \<Longrightarrow> s \<in> range (dequantise_pair scale)"
  by (auto simp: decode_sample_def obind_eq_Inr_iff dequantise_pair_def image_iff)

lemma decode_samples_range:
  assumes "decode_samples order scale payload n = Inr xs"
  shows "xs \<in> range (map (dequantise_pair scale))"
proof -
  have "omap (\<lambda>i. decode_sample order scale (drop (i * 4) payload)) is0 = Inr xs \<Longrightarrow>
      xs \<in> range (map (dequantise_pair scale))" for is0 :: "nat list"
  proof (induction is0 arbitrary: xs)
    case (Cons i is0)
    then obtain y ys where y: "decode_sample order scale (drop (i * 4) payload) = Inr y"
      "omap (\<lambda>i. decode_sample order scale (drop (i * 4) payload)) is0 = Inr ys" "xs = y # ys"
      by (auto simp: obind_eq_Inr_iff)
    obtain p ps where "y = dequantise_pair scale p" "ys = map (dequantise_pair scale) ps"
      using decode_sample_range [OF y(1)] Cons.IH [OF y(2)] by blast
    then show ?case using y(3) by (intro range_eqI [of _ _ "p # ps"]) simp
  qed simp
  then show ?thesis using assms by (simp add: decode_samples_def)
qed

lemma parsePacket_decoded:
  assumes "parsePacket file_codec (Some buf) len bc = Inr (Some p, n)"
  shows "decoded_packet p"
proof -
  have "pp_samples p \<in> range (map (dequantise_pair inverse_scale))"
    if "pp_type p = SignalData"
    using assms that
    by (auto simp: parsePacket_def file_codec_def make_codec_def signal_decode_def Let_def obind_eq_Inr_iff
        inverse_scale_def [symmetric] default_ParsedPacket_def split: if_splits option.splits
        dest!: decode_samples_range)
  then show ?thesis by (simp add: decoded_packet_def)
qed

lemma parseStream_decoded:
  assumes "len \<le> length buf" "parseStream file_codec (Some buf) len = Inr ps"
  shows "list_all decoded_packet ps"
  by (rule codec_stream.stream_every [of file_codec decoded_packet])
    (use assms parsePacket_decoded in \<open>auto simp: parse_one_def parse_all_def\<close>)

section \<open>Re-encoding decoded packets\<close>

lemma file_codec_fields [simp]: "byteOrder file_codec = BigEndian" "scaleFactor file_codec = DEFAULT_SCALE_FACTOR"
  by (simp_all add: file_codec_def make_codec_def)

lemma default_scale_range: "2 powi (-110) \<le> \<bar>32768 :: rat\<bar>" "\<bar>32768 :: rat\<bar> \<le> 2 powi 125"
  by (simp_all add: power_int_minus)

lemma requantise_pairs:
  "omap (quantise_pair DEFAULT_SCALE_FACTOR) (map (dequantise_pair inverse_scale) ps) = Inr ps"
  unfolding DEFAULT_SCALE_FACTOR_def inverse_scale_def
  by (induction ps) (simp_all add: quantise_pair_def dequantise_pair_def requantise [OF default_scale_range])

text \<open>The packets that encoding samples produces, each with what it parses to; no sample is one packet.\<close>

definition signal_packets ::
  "u32 \<Rightarrow> (i16 \<times> i16) list \<Rightarrow> u8 \<Rightarrow> TSI \<Rightarrow> TSF \<Rightarrow> u32 \<Rightarrow> u64 \<Rightarrow> bool \<Rightarrow> (bytes \<times> ParsedPacket) list" where
  "signal_packets sid ps start tsi tsf it ft tr =
    (if ps = [] then [(signal_wire sid [] start BigEndian tsi tsf it ft tr,
                       parsed_signal file_codec sid [] start tsi tsf it ft tr)]
     else split_packets file_codec sid ps start tsi tsf it ft tr)"

lemma encodeSignalData_packets:
  assumes "omap (quantise_pair DEFAULT_SCALE_FACTOR) samples = Inr ps"
  shows "encodeSignalData file_codec sid samples start tsi tsf it ft tr =
    Inr (concat (map fst (signal_packets sid ps start tsi tsf it ft tr)))"
proof (cases "samples = []")
  case True
  then have "ps = []" using assms by simp
  moreover have "encode_loop file_codec sid [] tsi tsf it ft tr [] 0 start = Inr []"
    by (subst encode_loop.simps) simp
  ultimately show ?thesis
    using True maxSamplesPerPacket_pos [of tsi tsf tr]
    by (simp add: encodeSignalData_def signal_packets_def signal_encode_eq)
next
  case False
  then have "ps \<noteq> []" using omap_length [OF assms] by auto
  then show ?thesis using encodeSignalData_eq [OF False, of file_codec ps] assms by (simp add: signal_packets_def)
qed

lemma signal_packets_frames:
  "(w, p) \<in> set (signal_packets sid ps start tsi tsf it ft tr) \<Longrightarrow> codec_stream.frames file_codec w p"
  using split_packets_frames [of file_codec w p sid ps start tsi tsf it ft tr]
    signal_frames [of "[]" tsi tsf tr file_codec sid start it ft] default_scale_nonzero
  by (auto simp: signal_packets_def split: if_splits)

lemma signal_packets_parsed:
  "concat (map pp_samples (map snd (signal_packets sid ps start tsi tsf it ft tr))) = map (dequantise_pair inverse_scale) ps"
  "list_all (\<lambda>p. pp_type p = SignalData) (map snd (signal_packets sid ps start tsi tsf it ft tr))"
proof -
  show "concat (map pp_samples (map snd (signal_packets sid ps start tsi tsf it ft tr))) = map (dequantise_pair inverse_scale) ps"
    using split_packets_samples [of file_codec sid ps start tsi tsf it ft tr]
    by (cases "ps = []") (simp_all add: signal_packets_def parsed_signal_def inverse_scale_def del: map_map)
  show "list_all (\<lambda>p. pp_type p = SignalData) (map snd (signal_packets sid ps start tsi tsf it ft tr))"
    by (simp add: signal_packets_def parsed_signal_def split_packets_def list_all_iff case_prod_unfold)
qed

lemma collect_samples_eq:
  "collect_samples pkts xs n =
    (xs @ concat (map pp_samples (filter (\<lambda>p. pp_type p = SignalData) pkts)),
     n + length (filter (\<lambda>p. pp_type p = SignalData) pkts))"
  by (induction pkts arbitrary: xs n) auto

definition signal_samples :: "ParsedPacket list \<Rightarrow> IQSample list" where
  "signal_samples pkts = concat (map pp_samples (filter (\<lambda>p. pp_type p = SignalData) pkts))"

lemma signal_samples_append [simp]: "signal_samples (ps @ qs) = signal_samples ps @ signal_samples qs"
  by (simp add: signal_samples_def)

lemma signal_samples_signal: "list_all (\<lambda>p. pp_type p = SignalData) ps \<Longrightarrow> signal_samples ps = concat (map pp_samples ps)"
  by (simp add: signal_samples_def list_all_iff filter_True)

text \<open>
  Re-encoding decoded packets writes a sequence of packets that parse again, with the same samples; it
  fails only on a context that does not convert back.
\<close>

abbreviation reencoded_as :: "bytes \<Rightarrow> ParsedPacket list \<Rightarrow> bytes \<Rightarrow> (bytes \<times> ParsedPacket) list \<Rightarrow> bool" where
  "reencoded_as out pkts out' zs \<equiv> out' = out @ concat (map fst zs) \<and>
    (\<forall>(w, p) \<in> set zs. codec_stream.frames file_codec w p) \<and> signal_samples (map snd zs) = signal_samples pkts"

lemma reencoded_Cons:
  assumes "reencoded_as out [p] o1 ys" and "reencoded_as o1 pkts o2 zs"
  shows "reencoded_as out (p # pkts) o2 (ys @ zs)"
  using assms signal_samples_append [of "[p]" pkts] by auto

lemma reencode_signal:
  assumes "decoded_packet p" and "pp_type p = SignalData"
  shows "\<exists>o1 ys. reencode file_codec (p # pkts) out = reencode file_codec pkts o1 \<and> reencoded_as out [p] o1 ys"
proof -
  let ?h = "pp_header p"
  obtain ps where ps: "pp_samples p = map (dequantise_pair inverse_scale) ps"
    using assms by (auto simp: decoded_packet_def)
  let ?ys = "signal_packets (value_or (streamId ?h) 0) ps (packetCount ?h) (tsiType ?h) (tsfType ?h)
    (value_or (integerTimestamp ?h) 0) (value_or (fractionalTimestamp ?h) 0) (trailerPresent ?h)"
  have "reencode file_codec (p # pkts) out = reencode file_codec pkts (out @ concat (map fst ?ys))"
    by (simp add: Let_def assms(2) ps encodeSignalData_packets [OF requantise_pairs])
  moreover have "\<forall>(w, p) \<in> set ?ys. codec_stream.frames file_codec w p" using signal_packets_frames by blast
  moreover have "signal_samples (map snd ?ys) = signal_samples [p]"
    by (simp only: signal_samples_signal [OF signal_packets_parsed(2)] signal_packets_parsed(1))
      (simp add: signal_samples_def assms(2) ps)
  ultimately show ?thesis by blast
qed

lemma reencode_context:
  assumes "pp_type p = Context" and "to_raw (pp_contextFields p) = Inr r"
  shows "\<exists>o1 ys. reencode file_codec (p # pkts) out = reencode file_codec pkts o1 \<and> reencoded_as out [p] o1 ys"
proof -
  let ?h = "pp_header p"
  let ?sid = "value_or (streamId ?h) 0" and ?it = "value_or (integerTimestamp ?h) 0"
    and ?ft = "value_or (fractionalTimestamp ?h) 0"
  let ?y = "(context_wire ?sid r (packetCount ?h) BigEndian (tsiType ?h) (tsfType ?h) ?it ?ft,
    parsed_context ?sid r (packetCount ?h) (tsiType ?h) (tsfType ?h) ?it ?ft)"
  have "reencode file_codec (p # pkts) out = reencode file_codec pkts (out @ concat (map fst [?y]))"
    by (simp add: assms Let_def encodeContext_def context_encode_eq)
  moreover have "\<forall>(w, p) \<in> set [?y]. codec_stream.frames file_codec w p"
    using context_frames [of file_codec] by simp
  moreover have "signal_samples (map snd [?y]) = signal_samples [p]"
    by (simp add: signal_samples_def assms(1) parsed_context_def)
  ultimately show ?thesis by blast
qed

lemma reencode_step:
  assumes "decoded_packet p" and "pp_type p = Context \<longrightarrow> safe (to_raw (pp_contextFields p))"
  shows "\<exists>o1 ys. reencode file_codec (p # pkts) out = reencode file_codec pkts o1 \<and> reencoded_as out [p] o1 ys"
proof (cases "pp_type p")
  case SignalData
  then show ?thesis by (rule reencode_signal [OF assms(1)])
next
  case Context
  then obtain r where "to_raw (pp_contextFields p) = Inr r" using assms(2) by (auto simp: safe_iff_ex)
  with Context show ?thesis by (rule reencode_context)
next
  case UnknownType
  then show ?thesis by (intro exI [of _ out] exI [of _ "[]"]) (simp add: signal_samples_def)
qed

lemma reencode_packets:
  assumes "list_all decoded_packet pkts"
    and "\<forall>p \<in> set pkts. pp_type p = Context \<longrightarrow> safe (to_raw (pp_contextFields p))"
  shows "\<exists>zs. reencode file_codec pkts out = Inr (out @ concat (map fst zs)) \<and>
    (\<forall>(w, p) \<in> set zs. codec_stream.frames file_codec w p) \<and> signal_samples (map snd zs) = signal_samples pkts"
  using assms
proof (induction pkts arbitrary: out)
  case Nil
  then show ?case by (intro exI [of _ "[]"]) simp
next
  case (Cons p pkts)
  obtain o1 ys where ys: "reencode file_codec (p # pkts) out = reencode file_codec pkts o1" "reencoded_as out [p] o1 ys"
    using reencode_step [of p pkts out] Cons.prems by auto
  obtain zs where zs: "reencode file_codec pkts o1 = Inr (o1 @ concat (map fst zs))"
    "reencoded_as o1 pkts (o1 @ concat (map fst zs)) zs"
    using Cons.IH [of o1] Cons.prems by auto
  have "reencoded_as out (p # pkts) (o1 @ concat (map fst zs)) (ys @ zs)"
    by (rule reencoded_Cons [OF ys(2) zs(2)])
  then show ?case unfolding ys(1) zs(1) by blast
qed

lemma reencode_converts:
  "reencode codec pkts out = Inr out' \<Longrightarrow> p \<in> set pkts \<Longrightarrow> pp_type p = Context \<Longrightarrow> safe (to_raw (pp_contextFields p))"
proof (induction pkts arbitrary: out)
  case (Cons q pkts)
  then show ?case
    by (cases "pp_type q") (auto simp: Let_def obind_eq_Inr_iff encodeContext_def context_encode_eq)
qed simp

lemma parse_frames:
  assumes "\<forall>(w, p) \<in> set zs. codec_stream.frames codec w p"
  shows "parseStream codec (Some (concat (map fst zs))) (length (concat (map fst zs))) = Inr (map snd zs)"
proof -
  have "parse_all codec (concat (map fst zs) @ []) (length (concat (map fst zs))) =
      Inr (codec_stream.complete zs (length (concat (map fst zs))))"
    by (rule codec_stream.stream_frames) (use assms in auto)
  then show ?thesis by (simp add: parse_all_def codec_stream.complete_all)
qed

lemma signal_samples_finite:
  "list_all decoded_packet pkts \<Longrightarrow> (i, q) \<in> set (signal_samples pkts) \<Longrightarrow> \<exists>x y. i = Finite x \<and> q = Finite y"
  unfolding signal_samples_def decoded_packet_def
  by (force simp: list_all_iff dequantise_pair_def inverse_scale_def dequantise_default)

lemma error_loop_same:
  "(\<And>i q. (i, q) \<in> set xs \<Longrightarrow> \<exists>x y. i = Finite x \<and> q = Finite y) \<Longrightarrow> error_loop xs xs (Finite 0) = Finite 0"
proof (induction xs)
  case (Cons s xs)
  obtain x y where s: "s = (Finite x, Finite y)" using Cons.prems [of "fst s" "snd s"] by (cases s) auto
  have z: "round32 0 = Finite 0" by (simp add: round32_def fp_round_def round_to_def)
  have "error_loop (s # xs) (s # xs) (Finite 0) = error_loop xs xs (Finite 0)"
    by (simp add: s Let_def float_sub_def float_add_def z fp_max_def)
  moreover have "error_loop xs xs (Finite 0) = Finite 0"
    by (rule Cons.IH) (use Cons.prems in auto)
  ultimately show ?case by simp
qed simp

lemma readFile_Some: "disk path = Some data \<Longrightarrow> data \<noteq> [] \<Longrightarrow> readFile disk path = (data, [])"
  by (simp add: readFile_def)

lemma doRoundTrip_converts:
  assumes "disk path = Some data" "data \<noteq> []"
    and "parseStream file_codec (Some data) (length data) = Inr pkts" "pkts \<noteq> []"
    and "\<forall>p \<in> set pkts. pp_type p = Context \<longrightarrow> safe (to_raw (pp_contextFields p))"
  shows "\<exists>l. doRoundTrip disk path = Inr (0, l) \<and> perfect \<in> set l"
proof -
  have dec: "list_all decoded_packet pkts" by (rule parseStream_decoded [OF _ assms(3)]) simp
  obtain zs where zs: "reencode file_codec pkts [] = Inr (concat (map fst zs))"
    "\<forall>(w, p) \<in> set zs. codec_stream.frames file_codec w p" "signal_samples (map snd zs) = signal_samples pkts"
    using reencode_packets [OF dec assms(5), of "[]"] by auto
  have "compare_samples (signal_samples pkts) (signal_samples pkts) =
      [(''Max sample error: {:.6e}'', [ArgF (Finite 0)]), perfect]"
    using error_loop_same [of "signal_samples pkts"] signal_samples_finite [OF dec] by (simp add: compare_samples_def)
  then show ?thesis
    using assms(2-4) zs parse_frames [OF zs(2)]
    by (simp add: doRoundTrip_def readFile_Some [of disk path, OF assms(1,2)] Let_def collect_samples_eq signal_samples_def [symmetric])
qed

text \<open>What can go wrong: a conversion, and nothing else.\<close>

lemma encode_context_fault:
  "\<not> safe (to_raw f) \<Longrightarrow> encodeContext codec sid f pc tsi tsf it ft = Inl BadConversion"
  by (cases "to_raw f") (auto simp: encodeContext_def context_encode_eq dest: to_raw_fault)

lemma reencode_fault:
  "list_all decoded_packet pkts \<Longrightarrow> reencode file_codec pkts out = Inl e \<Longrightarrow>
    e = BadConversion \<and> (\<exists>p \<in> set pkts. pp_type p = Context \<and> \<not> safe (to_raw (pp_contextFields p)))"
proof (induction pkts arbitrary: out)
  case (Cons p pkts)
  show ?case
  proof (cases "pp_type p = Context \<longrightarrow> safe (to_raw (pp_contextFields p))")
    case True
    then obtain o1 where "reencode file_codec (p # pkts) out = reencode file_codec pkts o1"
      using reencode_step [of p pkts out] Cons.prems(1) by auto
    then show ?thesis using Cons by auto
  next
    case False
    then show ?thesis using Cons.prems(2) by (auto simp: Let_def encode_context_fault)
  qed
qed simp

section \<open>Properties\<close>

text \<open>The packets of a file, and those with a value that cannot be converted back.\<close>

definition file_packets :: "disk \<Rightarrow> string \<Rightarrow> ParsedPacket list \<Rightarrow> bool" where
  "file_packets disk path pkts \<longleftrightarrow>
     (\<exists>data. disk path = Some data \<and> parseStream file_codec (Some data) (length data) = Inr pkts)"

definition unconvertible :: "ParsedPacket \<Rightarrow> bool" where
  "unconvertible p \<longleftrightarrow> pp_type p = Context \<and> \<not> safe (to_raw (pp_contextFields p))"

text \<open>
  C3. The round trip of any file whatever.  If the file does not open or holds no packet, the tool returns 1.
  Otherwise it re-encodes the packets, finds the same samples, reports perfection and returns 0; unless the
  file has a context packet with a value that cannot be converted back (a frequency within 512 of the
  largest), and then the only thing that happens is this undefined conversion.  So no read is out of bounds,
  and nothing else faults.
\<close>

theorem roundtrip_perfect:
  "case doRoundTrip disk path of
     Inl e \<Rightarrow> e = BadConversion \<and> (\<exists>pkts. file_packets disk path pkts \<and> (\<exists>p \<in> set pkts. unconvertible p))
   | Inr (code, l) \<Rightarrow>
       code = 0 \<and> perfect \<in> set l \<and> (\<exists>pkts. file_packets disk path pkts \<and> pkts \<noteq> [] \<and> \<not> (\<exists>p \<in> set pkts. unconvertible p)) \<or>
       code = 1 \<and> (disk path = None \<or> file_packets disk path [])"
proof (cases "fst (readFile disk path) = []")
  case True
  then have "disk path = None \<or> disk path = Some []" by (auto simp: readFile_def Let_def split: option.splits if_splits)
  moreover have "parseStream file_codec (Some []) 0 = Inr []" by (simp add: parseStream_def)
  ultimately show ?thesis using True by (auto simp: doRoundTrip_def file_packets_def split: prod.split)
next
  case False
  then obtain data where data: "disk path = Some data" "data \<noteq> []" and read: "readFile disk path = (data, [])"
    by (cases "disk path") (auto simp: readFile_def Let_def split: if_splits)
  obtain pkts where pkts: "parseStream file_codec (Some data) (length data) = Inr pkts"
    using codec_stream.stream_total [of "length data" data file_codec] by (auto simp: parse_all_def)
  have held: "file_packets disk path pkts" using data(1) pkts by (auto simp: file_packets_def)
  have dec: "list_all decoded_packet pkts" by (rule parseStream_decoded [OF _ pkts]) simp
  consider "pkts = []" | "pkts \<noteq> []" "\<not> (\<exists>p \<in> set pkts. unconvertible p)" | p where "p \<in> set pkts" "unconvertible p" by blast
  then show ?thesis
  proof cases
    case 1
    then show ?thesis using data pkts held by (simp add: doRoundTrip_def read Let_def)
  next
    case 2
    then obtain l where "doRoundTrip disk path = Inr (0, l)" "perfect \<in> set l"
      using doRoundTrip_converts [of disk path, OF data pkts 2(1)] by (auto simp: unconvertible_def)
    then show ?thesis using 2 held by auto
  next
    case 3
    obtain e where e: "reencode file_codec pkts [] = Inl e"
      using reencode_converts [of file_codec pkts "[]"] 3 by (cases "reencode file_codec pkts []") (auto simp: unconvertible_def)
    have "pkts \<noteq> []" using 3(1) by auto
    then have "doRoundTrip disk path = Inl e" using data(2) pkts by (simp add: doRoundTrip_def read Let_def e)
    then show ?thesis using reencode_fault [OF dec e] 3 held by auto
  qed
qed

section \<open>Generated files\<close>

text \<open>A finite value of bounded magnitude.\<close>

definition bounded_by :: "rat \<Rightarrow> fp \<Rightarrow> bool" where
  "bounded_by b v \<longleftrightarrow> (\<exists>x. v = Finite x \<and> \<bar>x\<bar> \<le> b)"

lemma bounded_by_Finite [simp]: "bounded_by b (Finite x) \<longleftrightarrow> \<bar>x\<bar> \<le> b"
  by (simp add: bounded_by_def)

lemma bounded_by_round64: "\<bar>x\<bar> \<le> b \<Longrightarrow> 1 \<le> b \<Longrightarrow> 2 * b \<le> 2 ^ 100 \<Longrightarrow> bounded_by (2 * b) (round64 x)"
  using round_to_magnitude [of x b 53 "-1074"] round64_near [of x] by (auto simp: bounded_by_def)

lemma bounded_by_round32: "\<bar>x\<bar> \<le> b \<Longrightarrow> 1 \<le> b \<Longrightarrow> 2 * b < 2 ^ 128 \<Longrightarrow> bounded_by (2 * b) (round32 x)"
  using round_to_magnitude [of x b 24 "-149"] round32_near [of x] by (auto simp: bounded_by_def)

lemma abs_product: "\<bar>x\<bar> \<le> a \<Longrightarrow> \<bar>y\<bar> \<le> b \<Longrightarrow> \<bar>x * y\<bar> \<le> a * b" for x :: rat
  unfolding abs_mult by (rule mult_mono) auto

lemma bounded_by_double_mul:
  "bounded_by a u \<Longrightarrow> bounded_by b v \<Longrightarrow> 1 \<le> a * b \<Longrightarrow> 2 * (a * b) \<le> 2 ^ 100 \<Longrightarrow> bounded_by (2 * (a * b)) (double_mul u v)"
  using abs_product bounded_by_round64 by (force simp: bounded_by_def [of a] bounded_by_def [of b] double_mul_def)

lemma bounded_by_float_mul:
  "bounded_by a u \<Longrightarrow> bounded_by b v \<Longrightarrow> 1 \<le> a * b \<Longrightarrow> 2 * (a * b) < 2 ^ 128 \<Longrightarrow> bounded_by (2 * (a * b)) (float_mul u v)"
  using abs_product bounded_by_round32 by (force simp: bounded_by_def [of a] bounded_by_def [of b] float_mul_def)

lemma bounded_by_mono: "bounded_by a v \<Longrightarrow> a \<le> b \<Longrightarrow> bounded_by b v"
  by (auto simp: bounded_by_def)

text \<open>Time and phase of every sample are finite.\<close>

lemma phase_finite:
  assumes "i < 2 ^ 64" and "\<bar>f\<bar> \<le> 2 ^ 40"
  shows "\<exists>x. float_of_double (double_mul (double_mul (double_mul (Finite 2) pi64) (Finite f))
    (double_div (double_of_int (int i)) SAMPLE_RATE)) = Finite x"
proof -
  have "\<bar>of_int (int i)\<bar> \<le> (2 ^ 64 :: rat)" using abs_of_int_le [of "int i" "2 ^ 64"] assms(1) by simp
  then have "bounded_by (2 * 2 ^ 64) (double_of_int (int i))" unfolding double_of_int_def by (rule bounded_by_round64) simp_all
  then obtain y where y: "double_of_int (int i) = Finite y" "\<bar>y\<bar> \<le> 2 ^ 65" by (auto simp: bounded_by_def)
  have "\<bar>y / 1000000\<bar> \<le> 2 ^ 46" using y(2) by (simp add: abs_le_iff)
  then have "bounded_by (2 * 2 ^ 46) (round64 (y / 1000000))" by (rule bounded_by_round64) simp_all
  then have t: "bounded_by (2 ^ 47) (double_div (double_of_int (int i)) SAMPLE_RATE)"
    by (simp add: y(1) double_div_def SAMPLE_RATE_def)
  have "bounded_by 2 (Finite 2)" "bounded_by 4 pi64" "bounded_by (2 ^ 40) (Finite f)"
    using assms(2) by (simp_all add: pi64_def)
  then have "bounded_by (2 * (2 * (2 * 4) * 2 ^ 40)) (double_mul (double_mul (Finite 2) pi64) (Finite f))"
    by (intro bounded_by_double_mul) simp_all
  then have "bounded_by (2 * (2 * (2 * (2 * 4) * 2 ^ 40) * 2 ^ 47)) (double_mul (double_mul (double_mul (Finite 2) pi64) (Finite f))
      (double_div (double_of_int (int i)) SAMPLE_RATE))"
    by (rule bounded_by_double_mul [OF _ t]) simp_all
  then obtain p where p: "double_mul (double_mul (double_mul (Finite 2) pi64) (Finite f))
      (double_div (double_of_int (int i)) SAMPLE_RATE) = Finite p" "\<bar>p\<bar> \<le> 2 ^ 100" by (auto simp: bounded_by_def)
  have "bounded_by (2 * 2 ^ 100) (round32 p)" using p(2) by (rule bounded_by_round32) simp_all
  then show ?thesis by (auto simp: p(1) bounded_by_def)
qed

lemma quantise_bounded:
  assumes "bounded_by 4 v"
  shows "\<exists>w. quantise DEFAULT_SCALE_FACTOR v = Inr w"
proof -
  have "bounded_by 32768 DEFAULT_SCALE_FACTOR" by (simp add: bounded_by_def DEFAULT_SCALE_FACTOR_def)
  then have "bounded_by (2 * (4 * 32768)) (float_mul v DEFAULT_SCALE_FACTOR)"
    by (intro bounded_by_float_mul assms) simp_all
  then obtain y where y: "float_mul v DEFAULT_SCALE_FACTOR = Finite y" "\<bar>y\<bar> \<le> 262144" by (auto simp: bounded_by_def)
  have "\<bar>round_half_away y\<bar> \<le> 262144" using round_half_away_bound [of y 262144] y(2) by simp
  then show ?thesis using quantise_in_int_range [OF y(1)] by (auto simp: abs_le_iff)
qed

text \<open>What the tool relies on of the C library.\<close>

definition trigonometric :: "platform \<Rightarrow> bool" where
  "trigonometric plat \<longleftrightarrow> (\<forall>x. bounded_by 1 (cosf plat (Finite x)) \<and> bounded_by 1 (sinf plat (Finite x)))"

lemma tone_quantises:
  assumes "trigonometric plat" and "\<bar>f\<bar> \<le> 2 ^ 40" and "n \<le> 2 ^ 64"
  shows "\<exists>qs. omap (quantise_pair DEFAULT_SCALE_FACTOR) (map (tone_sample plat (Finite f)) [0..<n]) = Inr qs"
proof -
  have one: "\<exists>q. quantise_pair DEFAULT_SCALE_FACTOR (tone_sample plat (Finite f) i) = Inr q" if "i < n" for i
  proof -
    have "i < 2 ^ 64" using that assms(3) by (rule less_le_trans)
    then obtain x where x: "float_of_double (double_mul (double_mul (double_mul (Finite 2) pi64) (Finite f))
      (double_div (double_of_int (int i)) SAMPLE_RATE)) = Finite x"
      using phase_finite [OF _ assms(2)] by blast
    have a: "bounded_by 1 amplitude" by (simp add: amplitude_def)
    have "bounded_by 4 (float_mul amplitude v)" if "bounded_by 1 v" for v
      using bounded_by_mono [OF bounded_by_float_mul [OF a that], of 4] by simp
    then have "bounded_by 4 (float_mul amplitude (cosf plat (Finite x)))" "bounded_by 4 (float_mul amplitude (sinf plat (Finite x)))"
      using assms(1) by (simp_all add: trigonometric_def)
    then obtain p q where "quantise DEFAULT_SCALE_FACTOR (float_mul amplitude (cosf plat (Finite x))) = Inr p"
      "quantise DEFAULT_SCALE_FACTOR (float_mul amplitude (sinf plat (Finite x))) = Inr q"
      using quantise_bounded by blast
    then show ?thesis by (simp add: tone_sample_def x Let_def quantise_pair_def)
  qed
  have "\<exists>qs. omap g xs = Inr qs" if "\<forall>x \<in> set xs. \<exists>q. g x = Inr q" for g :: "fp \<times> fp \<Rightarrow> (i16 \<times> i16) outcome" and xs
    using that by (induction xs) auto
  then show ?thesis using one by simp
qed

definition gen_raw :: RawContext where
  "gen_raw = \<lparr>rc_change = True, rc_refPoint = None, rc_bandwidth = Some 1048576000000, rc_ifRef = None,
     rc_rf = Some 2516582400000000, rc_rfOffset = None, rc_ifBand = None, rc_refLevel = Some 0xEC000000,
     rc_gain = Some 0xA00, rc_overRange = None, rc_rate = Some 1048576000000\<rparr>"

lemma gen_raw_exact: "raw_exact gen_raw"
  by (simp add: raw_exact_def gen_raw_def)

lemma from_raw_gen: "from_raw gen_raw = generate_context"
proof -
  have "freqFromFixed 1048576000000 = SAMPLE_RATE" "freqFromFixed 2516582400000000 = Finite 2400000000"
    using freqFromFixed_exact [of 1048576000000] freqFromFixed_exact [of 2516582400000000]
    by (simp_all add: SAMPLE_RATE_def)
  moreover have "gainFromFixed 0xA00 = Finite 20" "refLevelFromFixed 0xEC000000 = Finite (- 40)"
    using fixed_quotient [of 2560 7] fixed_quotient [of "-5120" 7]
    by (simp_all add: gainFromFixed_def refLevelFromFixed_def GAIN_RADIX_def)
  ultimately show ?thesis
    by (simp add: from_raw_def gen_raw_def generate_context_def default_ContextFields_def)
qed

lemma to_raw_generate: "to_raw generate_context = Inr gen_raw"
  using to_raw_from_raw [OF gen_raw_exact] by (simp only: from_raw_gen)

text \<open>An encoded packet, decoded and encoded again, is itself.\<close>

definition fixpoint :: "bytes \<Rightarrow> ParsedPacket \<Rightarrow> bool" where
  "fixpoint w p \<longleftrightarrow> (\<forall>pkts out. reencode file_codec (p # pkts) out = reencode file_codec pkts (out @ w))"

lemma reencode_fixpoints:
  "\<forall>(w, p) \<in> set zs. fixpoint w p \<Longrightarrow> reencode file_codec (map snd zs) out = Inr (out @ concat (map fst zs))"
proof (induction zs arbitrary: out)
  case (Cons z zs)
  obtain w p where z: "z = (w, p)" by (cases z)
  then show ?case using Cons by (simp add: fixpoint_def del: reencode.simps(2))
qed simp

lemma sent_header_again:
  "sent_header sid (c AND 0xF) tsi tsf (value_or (if tsi \<noteq> TSI_None then Some it else None) 0)
     (value_or (if tsf \<noteq> TSF_None then Some ft else None) 0) tr n = sent_header sid c tsi tsf it ft tr n"
  by (simp add: sent_header_def signal_header_def value_or_def and.assoc)

lemma sent_context_header_again:
  "sent_context_header sid (c AND 0xF) tsi tsf (value_or (if tsi \<noteq> TSI_None then Some it else None) 0)
     (value_or (if tsf \<noteq> TSF_None then Some ft else None) 0) r = sent_context_header sid c tsi tsf it ft r"
  by (simp add: sent_context_header_def context_header_def value_or_def and.assoc)

lemma one_chunk:
  assumes "length ps \<le> maxSamplesPerPacket tsi tsf False tr"
  shows "map fst (signal_packets sid ps start tsi tsf it ft tr) = [signal_wire sid ps start BigEndian tsi tsf it ft tr]"
proof (cases "ps = []")
  case False
  let ?m = "maxSamplesPerPacket tsi tsf False tr"
  have "chunks ?m ps = [ps]"
    using False assms maxSamplesPerPacket_pos [of tsi tsf tr] by (simp add: chunks.simps [of ?m ps] chunks.simps [of ?m "[]"])
  then show ?thesis using False by (simp add: signal_packets_def split_packets_def)
qed (simp add: signal_packets_def)

lemma signal_fixpoint:
  assumes "length ps \<le> maxSamplesPerPacket tsi tsf False tr"
  shows "fixpoint (signal_wire sid ps c BigEndian tsi tsf it ft tr) (parsed_signal file_codec sid ps c tsi tsf it ft tr)"
proof -
  have "reencode file_codec (parsed_signal file_codec sid ps c tsi tsf it ft tr # pkts) out =
      reencode file_codec pkts (out @ signal_wire sid ps (c AND 0xF) BigEndian tsi tsf
        (value_or (if tsi \<noteq> TSI_None then Some it else None) 0)
        (value_or (if tsf \<noteq> TSF_None then Some ft else None) 0) tr)" for pkts out
    by (simp add: Let_def parsed_signal_def inverse_scale_def [symmetric] encodeSignalData_packets [OF requantise_pairs]
        one_chunk [OF assms] value_or_def [of "Some _"])
  then show ?thesis by (simp only: fixpoint_def signal_wire_def sent_header_again) simp
qed

lemma context_fixpoint:
  assumes "raw_exact r"
  shows "fixpoint (context_wire sid r c BigEndian tsi tsf it ft) (parsed_context sid r c tsi tsf it ft)"
proof -
  have "reencode file_codec (parsed_context sid r c tsi tsf it ft # pkts) out =
      reencode file_codec pkts (out @ context_wire sid r (c AND 0xF) BigEndian tsi tsf
        (value_or (if tsi \<noteq> TSI_None then Some it else None) 0)
        (value_or (if tsf \<noteq> TSF_None then Some ft else None) 0))" for pkts out
    by (simp add: Let_def parsed_context_def encodeContext_def context_encode_eq to_raw_from_raw [OF assms]
        value_or_def [of "Some _"])
  then show ?thesis by (simp only: fixpoint_def context_wire_def sent_context_header_again) simp
qed

lemma signal_packets_fixpoints:
  assumes "(w, p) \<in> set (signal_packets sid ps start tsi tsf it ft tr)"
  shows "fixpoint w p"
proof (cases "ps = []")
  case True
  then show ?thesis using assms signal_fixpoint [of "[]"] by (simp add: signal_packets_def)
next
  case False
  let ?cs = "chunks (maxSamplesPerPacket tsi tsf False tr) ps"
  obtain c chunk where m: "(c, chunk) \<in> set (counted start ?cs)"
    and wp: "w = signal_wire sid chunk c BigEndian tsi tsf it ft tr"
      "p = parsed_signal file_codec sid chunk c tsi tsf it ft tr"
    using assms False by (auto simp: signal_packets_def split_packets_def)
  have "chunk \<in> snd ` set (counted start ?cs)" using m by force
  then have "chunk \<in> set (map snd (counted start ?cs))" by (simp only: set_map)
  then have "length chunk \<le> maxSamplesPerPacket tsi tsf False tr"
    using chunks_bounds by (simp only: map_snd_counted) blast
  then show ?thesis unfolding wp by (rule signal_fixpoint)
qed

text \<open>
  C20. A generated file survives the round trip bit for bit.  When cosine and sine of finite values lie
  between -1 and 1, the frequency is at most 2 to the 40 Hz, the samples can be allocated and the file
  can be written, \<open>generate\<close> succeeds; the file parses to a context packet with exactly the generated
  fields, followed by packets with the quantised samples of the tone; re-encoding them gives the file
  back, and \<open>roundtrip\<close> reports perfection.
\<close>

theorem generated_file_survives:
  assumes "trigonometric plat" and "\<bar>f\<bar> \<le> 2 ^ 40" and "unat n \<le> max_samples plat"
  shows "\<exists>l disk' data ctx pkts qs l'. doGenerate plat WriteOk disk path n (Finite f) = Inr (0, l, disk') \<and>
    disk' path = Some data \<and> parseStream file_codec (Some data) (length data) = Inr (ctx # pkts) \<and>
    pp_type ctx = Context \<and> pp_contextFields ctx = generate_context \<and>
    omap (quantise_pair DEFAULT_SCALE_FACTOR) (map (tone_sample plat (Finite f)) [0..<unat n]) = Inr qs \<and>
    signal_samples pkts = map (dequantise_pair inverse_scale) qs \<and>
    reencode file_codec (ctx # pkts) [] = Inr data \<and> doRoundTrip disk' path = Inr (0, l') \<and> perfect \<in> set l'"
proof -
  have "unat n \<le> 2 ^ 64" using unsigned_less [of n, where ?'a = nat] by simp
  from tone_quantises [OF assms(1,2) this] obtain qs
    where qs: "omap (quantise_pair DEFAULT_SCALE_FACTOR) (map (tone_sample plat (Finite f)) [0..<unat n]) = Inr qs" by blast
  let ?z = "(context_wire STREAM_ID gen_raw 0 BigEndian TSI_UTC TSF_RealTime 1738886400 0,
    parsed_context STREAM_ID gen_raw 0 TSI_UTC TSF_RealTime 1738886400 0)"
  let ?zs = "signal_packets STREAM_ID qs 1 TSI_UTC TSF_RealTime 1738886400 0 False"
  define data where "data = concat (map fst (?z # ?zs))"
  obtain l where gen: "doGenerate plat WriteOk disk path n (Finite f) = Inr (0, l, disk(path \<mapsto> data))"
    using assms(3) by (simp add: doGenerate_def Let_def encodeContext_def context_encode_eq to_raw_generate
        encodeSignalData_packets [OF qs] writeFile_def data_def)
  have frames: "\<forall>(w, p) \<in> set (?z # ?zs). codec_stream.frames file_codec w p"
    using context_frames [of file_codec] signal_packets_frames by auto
  have parse: "parseStream file_codec (Some data) (length data) = Inr (snd ?z # map snd ?zs)"
    unfolding data_def using parse_frames [OF frames] by (simp only: list.map)
  have again: "reencode file_codec (snd ?z # map snd ?zs) [] = Inr data"
    unfolding data_def using reencode_fixpoints [of "?z # ?zs" "[]"] context_fixpoint [OF gen_raw_exact] signal_packets_fixpoints
    by (fastforce simp del: reencode.simps(2))
  have "4 \<le> length (fst ?z)" by (simp add: length_context_wire context_words_def)
  then have ne: "data \<noteq> []" by (auto simp: data_def)
  have sig: "list_all (\<lambda>p. pp_type p = SignalData) (map snd ?zs)" by (rule signal_packets_parsed(2))
  have "\<forall>p \<in> set (snd ?z # map snd ?zs). pp_type p = Context \<longrightarrow> safe (to_raw (pp_contextFields p))"
    using sig to_raw_generate by (auto simp: parsed_context_def from_raw_gen list_all_iff)
  then obtain l' where trip: "doRoundTrip (disk(path \<mapsto> data)) path = Inr (0, l')" "perfect \<in> set l'"
    using doRoundTrip_converts [OF _ ne parse, of "disk(path \<mapsto> data)" path] by auto
  have "signal_samples (map snd ?zs) = map (dequantise_pair inverse_scale) qs"
    by (simp only: signal_samples_signal [OF sig] signal_packets_parsed(1))
  moreover have "pp_type (snd ?z) = Context" "pp_contextFields (snd ?z) = generate_context"
    by (simp_all add: parsed_context_def from_raw_gen)
  ultimately show ?thesis using gen parse qs again trip by (metis fun_upd_same)
qed

text \<open>A tone of frequency zero, with exact cosine and sine, and three samples.\<close>

theorem generated_file_survives_witness:
  "\<exists>l disk' data l'. doGenerate \<lparr>cosf = (\<lambda>_. Finite 1), sinf = (\<lambda>_. Finite 0), sqrt64 = (\<lambda>x. x),
      atof = (\<lambda>_. Finite 0), max_samples = 100\<rparr> WriteOk Map.empty ''a.v49'' 3 (Finite 0) = Inr (0, l, disk') \<and>
    disk' ''a.v49'' = Some data \<and> doRoundTrip disk' ''a.v49'' = Inr (0, l') \<and> perfect \<in> set l'"
  using generated_file_survives [of "\<lparr>cosf = (\<lambda>_. Finite 1), sinf = (\<lambda>_. Finite 0), sqrt64 = (\<lambda>x. x),
      atof = (\<lambda>_. Finite 0), max_samples = 100\<rparr>" 0 3 Map.empty "''a.v49''"]
  by (simp add: trigonometric_def) blast

text \<open>
  A negative count becomes one of nearly 2 to the 64 samples, which no platform can allocate.
\<close>

lemma negative_count_aborts:
  assumes "max_samples plat < 2 ^ 64 - 1"
  shows "file_codec_main plat os disk progName [''generate'', path, ''-1''] = Inl BadAlloc"
proof -
  have "digits_value 0 ''1'' = 1" by (simp add: Let_def)
  then have a: "std_atol ''-1'' = Inr (- 1)" by (simp add: std_atol_def is_space_def in_signed_range_def)
  have "unat (- 1 :: u64) = 2 ^ 64 - 1" by (simp add: unsigned_minus_1_eq_mask mask_eq_exp_minus_1)
  then show ?thesis using assms by (simp add: file_codec_main_def a doGenerate_def Let_def
        encodeContext_def context_encode_eq to_raw_generate)
qed

end
