(* ===== verification/GrpcServer.thy ===== *)
theory GrpcServer
  imports FloatModel
begin

text \<open>
  \<open>src/apps/TestApps/GrpcServerTest.cpp\<close>: the three services that the gRPC server implements.

  \<^item> The messages of \<open>libs/GrpcService/proto/sensor_service.proto\<close> are records and datatypes (\<open>SensorReading_msg\<close> and \<open>CommandResponse_msg\<close> have
    a suffix because topics have those names); a value of an
    enumeration that has no name can arrive from the wire.
  \<^item> The gRPC library is not part of the repository.  It calls one handler per request; what a handler
    writes to a stream is returned, what a client streams is a list, and the answers of
    \<open>IsCancelled\<close> are a function of the number of the question.
  \<^item> The readings are protected by a mutex, so a call is one step; a stream works on a snapshot.
  \<^item> Log output is left out.  A counter of type \<open>int32_t\<close> that overflows is a fault.

  The lemmas show that a stream delivers the first matching readings since the last \<open>ClearReadings\<close>, in
  the order of submission, that the log summary counts right up to the width of its counters, and which
  signals end the server.
\<close>

section \<open>Messages\<close>

record SensorReading_msg =
  sr_sensor_id :: string
  sr_sensor_name :: string
  sr_value :: fp
  sr_unit :: string
  sr_timestamp_ns :: int

record SubmitReadingResponse =
  srr_accepted :: bool
  srr_detail :: string

record StreamReadingsRequest =
  srq_sensor_id_filter :: string
  srq_max_count :: int

datatype CommandType =
  COMMAND_UNKNOWN | COMMAND_START | COMMAND_STOP | COMMAND_RESET | COMMAND_CALIBRATE | UnnamedCommand int

record CommandRequest =
  cr_command_id :: string
  cr_type :: CommandType
  cr_target_id :: string
  cr_payload :: string

record CommandResponse_msg =
  cp_command_id :: string
  cp_success :: bool
  cp_message :: string

datatype Severity =
  SEVERITY_DEBUG | SEVERITY_INFO | SEVERITY_WARNING | SEVERITY_ERROR | UnnamedSeverity int

record LogEntry =
  le_source :: string
  le_severity :: Severity
  le_message :: string
  le_timestamp_ns :: int

record LogSummary =
  ls_entries_received :: int
  ls_errors :: int
  ls_warnings :: int

datatype HealthStatus = HealthUnknown | Serving | NotServing

record HealthCheckResponse =
  hc_status :: HealthStatus
  hc_details :: string
  hc_uptime_ms :: int

datatype grpc_status = StatusOK | Cancelled string

section \<open>SensorService\<close>

record SensorServiceImpl =
  readings :: "SensorReading_msg list"

definition make_SensorService :: SensorServiceImpl where
  "make_SensorService = \<lparr>readings = []\<rparr>"

definition SubmitReading :: "SensorServiceImpl \<Rightarrow> SensorReading_msg \<Rightarrow> SensorServiceImpl \<times> SubmitReadingResponse \<times> grpc_status" where
  "SubmitReading svc r =
    (let svc = svc\<lparr>readings := readings svc @ [r]\<rparr>
     in (svc, \<lparr>srr_accepted = True, srr_detail = ''Stored reading for '' @ sr_sensor_id r\<rparr>, StatusOK))"

fun stream_loop ::
  "(nat \<Rightarrow> bool) \<Rightarrow> string \<Rightarrow> int \<Rightarrow> nat \<Rightarrow> int \<Rightarrow> SensorReading_msg list \<Rightarrow> SensorReading_msg list \<times> grpc_status" where
  "stream_loop isCancelled flt maxCount i sent [] = ([], StatusOK)"
| "stream_loop isCancelled flt maxCount i sent (r # rs) =
    (if isCancelled i then ([], Cancelled ''Client cancelled'')
     else if flt \<noteq> '''' \<and> sr_sensor_id r \<noteq> flt then stream_loop isCancelled flt maxCount (i + 1) sent rs
     else
       let sent = sent + 1
       in if sent \<ge> maxCount then ([r], StatusOK)
          else let (written, status) = stream_loop isCancelled flt maxCount (i + 1) sent rs
               in (r # written, status))"

definition StreamReadings ::
  "SensorServiceImpl \<Rightarrow> (nat \<Rightarrow> bool) \<Rightarrow> StreamReadingsRequest \<Rightarrow> SensorReading_msg list \<times> grpc_status" where
  "StreamReadings svc isCancelled request =
    (let flt = srq_sensor_id_filter request;
         maxCount = srq_max_count request;
         maxCount = (if maxCount \<le> 0 then 10 else maxCount);
         snapshot = readings svc
     in stream_loop isCancelled flt maxCount 0 0 snapshot)"

definition ClearReadings :: "SensorServiceImpl \<Rightarrow> SensorServiceImpl \<times> grpc_status" where
  "ClearReadings svc = (svc\<lparr>readings := []\<rparr>, StatusOK)"

section \<open>CommandService\<close>

fun CommandType_Name :: "CommandType \<Rightarrow> string" where
  "CommandType_Name COMMAND_UNKNOWN = ''COMMAND_UNKNOWN''"
| "CommandType_Name COMMAND_START = ''COMMAND_START''"
| "CommandType_Name COMMAND_STOP = ''COMMAND_STOP''"
| "CommandType_Name COMMAND_RESET = ''COMMAND_RESET''"
| "CommandType_Name COMMAND_CALIBRATE = ''COMMAND_CALIBRATE''"
| "CommandType_Name (UnnamedCommand v) = ''''"

definition ExecuteCommand :: "CommandRequest \<Rightarrow> CommandResponse_msg \<times> grpc_status" where
  "ExecuteCommand request =
    (\<lparr>cp_command_id = cr_command_id request, cp_success = True,
      cp_message = ''Executed '' @ CommandType_Name (cr_type request) @ '' on '' @ cr_target_id request\<rparr>, StatusOK)"

definition FireCommand :: "CommandRequest \<Rightarrow> grpc_status" where
  "FireCommand request = StatusOK"

section \<open>DiagnosticsService\<close>

text \<open>Times are nanoseconds of the steady clock.\<close>

record DiagnosticsServiceImpl =
  startTime :: int

definition make_DiagnosticsService :: "int \<Rightarrow> DiagnosticsServiceImpl" where
  "make_DiagnosticsService now = \<lparr>startTime = now\<rparr>"

definition CheckHealth :: "DiagnosticsServiceImpl \<Rightarrow> int \<Rightarrow> HealthCheckResponse \<times> grpc_status" where
  "CheckHealth svc now =
    (let elapsed = now - startTime svc;
         uptime = (if elapsed < 0 then - ((- elapsed) div 1000000) else elapsed div 1000000)
     in (\<lparr>hc_status = Serving, hc_details = ''All systems nominal'', hc_uptime_ms = uptime\<rparr>, StatusOK))"

definition increment32 :: "int \<Rightarrow> int outcome" where
  "increment32 n = (if n < 2 ^ 31 - 1 then Inr (n + 1) else Inl SignedOverflow)"

fun ingest_loop :: "LogEntry list \<Rightarrow> int \<Rightarrow> int \<Rightarrow> int \<Rightarrow> (int \<times> int \<times> int) outcome" where
  "ingest_loop [] entries errors warnings = Inr (entries, errors, warnings)"
| "ingest_loop (entry # es) entries errors warnings =
    obind (increment32 entries) (\<lambda>entries.
    if le_severity entry = SEVERITY_ERROR then
      obind (increment32 errors) (\<lambda>errors. ingest_loop es entries errors warnings)
    else if le_severity entry = SEVERITY_WARNING then
      obind (increment32 warnings) (\<lambda>warnings. ingest_loop es entries errors warnings)
    else ingest_loop es entries errors warnings)"

definition IngestLogs :: "LogEntry list \<Rightarrow> (LogSummary \<times> grpc_status) outcome" where
  "IngestLogs stream =
    obind (ingest_loop stream 0 0 0) (\<lambda>(entries, errors, warnings).
      Inr (\<lparr>ls_entries_received = entries, ls_errors = errors, ls_warnings = warnings\<rparr>, StatusOK))"

definition ResetCounters :: "DiagnosticsServiceImpl \<Rightarrow> int \<Rightarrow> DiagnosticsServiceImpl \<times> grpc_status" where
  "ResetCounters svc now = (svc\<lparr>startTime := now\<rparr>, StatusOK)"

section \<open>What a stream delivers\<close>

text \<open>The calls that change the readings, and their effect.\<close>

datatype sensor_call = Submit SensorReading_msg | Clear

fun run_calls :: "sensor_call list \<Rightarrow> SensorServiceImpl \<Rightarrow> SensorServiceImpl" where
  "run_calls [] svc = svc"
| "run_calls (Submit r # cs) svc = run_calls cs (fst (SubmitReading svc r))"
| "run_calls (Clear # cs) svc = run_calls cs (fst (ClearReadings svc))"

text \<open>The readings submitted since the last \<open>Clear\<close>, read off the calls.\<close>

definition submitted_since_clear :: "sensor_call list \<Rightarrow> SensorReading_msg list" where
  "submitted_since_clear cs = [r. Submit r \<leftarrow> rev (takeWhile (\<lambda>c. c \<noteq> Clear) (rev cs))]"

lemma run_calls_append: "run_calls (cs @ ds) svc = run_calls ds (run_calls cs svc)"
  by (induction cs svc rule: run_calls.induct) simp_all

lemma run_calls_readings: "readings (run_calls cs make_SensorService) = submitted_since_clear cs"
proof (induction cs rule: rev_induct)
  case (snoc c cs)
  then show ?case
    by (cases c) (simp_all add: run_calls_append SubmitReading_def ClearReadings_def submitted_since_clear_def)
qed (simp add: make_SensorService_def submitted_since_clear_def)

definition matching :: "string \<Rightarrow> SensorReading_msg list \<Rightarrow> SensorReading_msg list" where
  "matching flt rs = filter (\<lambda>r. flt = '''' \<or> sr_sensor_id r = flt) rs"

text \<open>A turn of the loop that does not find the call cancelled.\<close>

lemma stream_turn:
  assumes "\<not> isCancelled i"
  shows "\<not> (flt = '''' \<or> sr_sensor_id r = flt) \<Longrightarrow>
      stream_loop isCancelled flt maxCount i sent (r # rs) = stream_loop isCancelled flt maxCount (Suc i) sent rs"
    "flt = '''' \<or> sr_sensor_id r = flt \<Longrightarrow> sent + 1 \<ge> maxCount \<Longrightarrow>
      stream_loop isCancelled flt maxCount i sent (r # rs) = ([r], StatusOK)"
    "flt = '''' \<or> sr_sensor_id r = flt \<Longrightarrow> sent + 1 < maxCount \<Longrightarrow>
      stream_loop isCancelled flt maxCount i sent (r # rs) =
        (r # fst (stream_loop isCancelled flt maxCount (Suc i) (sent + 1) rs),
         snd (stream_loop isCancelled flt maxCount (Suc i) (sent + 1) rs))"
  using assms by (auto simp: Let_def split_beta)

lemma matching_Cons:
  "matching flt (r # rs) = (if flt = '''' \<or> sr_sensor_id r = flt then r # matching flt rs else matching flt rs)"
  by (simp add: matching_def)

text \<open>What the loop may return with a budget of readings: all up to the budget, or fewer when it is cancelled.\<close>

definition stream_outcome ::
  "(nat \<Rightarrow> bool) \<Rightarrow> nat \<Rightarrow> SensorReading_msg list \<Rightarrow> SensorReading_msg list \<times> grpc_status \<Rightarrow> bool" where
  "stream_outcome isCancelled budget ms res \<longleftrightarrow>
    res = (take budget ms, StatusOK) \<or>
    (\<exists>k n. res = (take k ms, Cancelled ''Client cancelled'') \<and> k < budget \<and> isCancelled n)"

lemma stream_outcome_Cons:
  assumes "stream_outcome isCancelled budget ms res"
  shows "stream_outcome isCancelled (Suc budget) (r # ms) (r # fst res, snd res)"
proof -
  have "take (Suc k) (r # ms) = r # take k ms" for k by simp
  then show ?thesis using assms unfolding stream_outcome_def by (metis Suc_mono fst_conv snd_conv)
qed

lemma stream_loop_outcome:
  assumes "sent < maxCount"
  shows "stream_outcome isCancelled (nat (maxCount - sent)) (matching flt rs) (stream_loop isCancelled flt maxCount i sent rs)"
  using assms
proof (induction rs arbitrary: i sent)
  case Nil
  then show ?case by (simp add: matching_def stream_outcome_def)
next
  case (Cons r rs)
  let ?m = "flt = '''' \<or> sr_sensor_id r = flt"
  consider "isCancelled i" | "\<not> isCancelled i" "\<not> ?m" | "\<not> isCancelled i" ?m "sent + 1 \<ge> maxCount"
    | "\<not> isCancelled i" ?m "sent + 1 < maxCount" by linarith
  then show ?case
  proof cases
    case 1
    then have "stream_loop isCancelled flt maxCount i sent (r # rs) = (take 0 (matching flt (r # rs)), Cancelled ''Client cancelled'')" by simp
    moreover have "0 < nat (maxCount - sent)" using Cons.prems by simp
    ultimately show ?thesis using 1 unfolding stream_outcome_def by blast
  next
    case 2
    then show ?thesis using Cons.IH [OF Cons.prems, of "Suc i"]
      unfolding stream_turn(1) [where isCancelled = isCancelled and i = i, OF 2] matching_Cons by simp
  next
    case 3
    have "nat (maxCount - sent) = 1" using 3(3) Cons.prems by simp
    then show ?thesis unfolding stream_turn(2) [where isCancelled = isCancelled and i = i, OF 3] matching_Cons using 3(2) by (simp add: stream_outcome_def)
  next
    case 4
    have "nat (maxCount - sent) = Suc (nat (maxCount - (sent + 1)))" using 4(3) by simp
    then show ?thesis using stream_outcome_Cons [OF Cons.IH [OF 4(3), of "Suc i"], of r] 4(2)
      unfolding stream_turn(3) [where isCancelled = isCancelled and i = i, OF 4] matching_Cons by simp
  qed
qed

text \<open>
  C24. After any sequence of submissions and clearings, \<open>StreamReadings\<close> writes the readings submitted
  since the last clearing that match the filter, in order, up to the requested count, where a count
  that is not positive means ten.  When the client cancels, it writes a beginning of them that is
  shorter than the count, and says so.
\<close>

theorem stream_delivers:
  "case StreamReadings (run_calls cs make_SensorService) isCancelled \<lparr>srq_sensor_id_filter = flt, srq_max_count = n\<rparr> of
     (written, status) \<Rightarrow>
       let limit = (if n \<le> 0 then 10 else nat n); wanted = take limit (matching flt (submitted_since_clear cs))
       in status = StatusOK \<and> written = wanted \<or>
          status = Cancelled ''Client cancelled'' \<and>
          (\<exists>k j. written = take k wanted \<and> k < limit \<and> isCancelled j)"
proof -
  let ?max = "if n \<le> 0 then 10 else n" and ?ms = "matching flt (submitted_since_clear cs)"
  have "0 < ?max" by simp
  from stream_loop_outcome [OF this, of isCancelled flt "submitted_since_clear cs" 0]
  have "stream_outcome isCancelled (nat ?max) ?ms (stream_loop isCancelled flt ?max 0 0 (submitted_since_clear cs))" by simp
  moreover have "take k ?ms = take k (take (nat ?max) ?ms)" if "k < nat ?max" for k using that by (simp add: min_def)
  moreover have "nat ?max = (if n \<le> 0 then 10 else nat n)" by simp
  ultimately show ?thesis
    unfolding stream_outcome_def by (auto simp add: StreamReadings_def Let_def run_calls_readings split_beta)
qed

lemma ingest_loop_eq:
  assumes "0 \<le> a" "0 \<le> b" "0 \<le> c" "b \<le> a" "c \<le> a" "a < 2 ^ 31"
  shows "ingest_loop es a b c =
    (if a + int (length es) < 2 ^ 31
     then Inr (a + int (length es), b + int (length (filter (\<lambda>e. le_severity e = SEVERITY_ERROR) es)),
               c + int (length (filter (\<lambda>e. le_severity e = SEVERITY_WARNING) es)))
     else Inl SignedOverflow)"
  using assms
proof (induction es arbitrary: a b c)
  case (Cons e es)
  show ?case
  proof (cases "a + 1 < 2 ^ 31")
    case True
    then have "increment32 a = Inr (a + 1)" "increment32 b = Inr (b + 1)" "increment32 c = Inr (c + 1)"
      using Cons.prems by (simp_all add: increment32_def)
    then show ?thesis
      using Cons.IH [of "a + 1" "b + 1" c] Cons.IH [of "a + 1" b "c + 1"] Cons.IH [of "a + 1" b c] Cons.prems True
      by (simp add: algebra_simps)
  next
    case False
    then show ?thesis using Cons.prems by (simp add: increment32_def)
  qed
qed simp

text \<open>
  The summary of a log stream counts the entries, the errors and the warnings, as long as there
  are fewer than 2 to the 31 entries; one more overflows the counter.
\<close>

theorem log_summary:
  "IngestLogs es =
    (if length es < 2 ^ 31
     then Inr (\<lparr>ls_entries_received = int (length es),
                ls_errors = int (length (filter (\<lambda>e. le_severity e = SEVERITY_ERROR) es)),
                ls_warnings = int (length (filter (\<lambda>e. le_severity e = SEVERITY_WARNING) es))\<rparr>, StatusOK)
     else Inl SignedOverflow)"
  using ingest_loop_eq [of 0 0 0 es] by (simp add: IngestLogs_def)

section \<open>The server program\<close>

text \<open>
  The two globals, the request to shut down that reaches the server, and the services.  The main program is
  told whether the server could be started and how many signals come before and after it publishes the
  pointer to the server; \<open>None\<close> is a program that waits for ever.
\<close>

record server_process =
  sp_running :: bool
  sp_server :: bool
  sp_shutdown :: bool

definition signalHandler :: "server_process \<Rightarrow> server_process" where
  "signalHandler p =
    (let p = p\<lparr>sp_running := False\<rparr>
     in if sp_server p then p\<lparr>sp_shutdown := True\<rparr> else p)"

definition server_main ::
  "string list \<Rightarrow> bool \<Rightarrow> int \<Rightarrow> nat \<Rightarrow> nat \<Rightarrow>
   string \<times> SensorServiceImpl \<times> DiagnosticsServiceImpl \<times> server_process \<times> int option" where
  "server_main args starts now early late =
    (let listenAddr = (case args of [] \<Rightarrow> ''0.0.0.0:50051'' | a # _ \<Rightarrow> a);
         sensorService = make_SensorService;
         diagnosticsService = make_DiagnosticsService now;
         p = (signalHandler ^^ early) \<lparr>sp_running = True, sp_server = False, sp_shutdown = False\<rparr>
     in if \<not> starts then (listenAddr, sensorService, diagnosticsService, p, Some 1)
        else
          let p = (signalHandler ^^ late) (p\<lparr>sp_server := True\<rparr>)
          in (listenAddr, sensorService, diagnosticsService, p, if sp_shutdown p then Some 0 else None))"

lemma early_signals:
  "(signalHandler ^^ n) \<lparr>sp_running = r, sp_server = False, sp_shutdown = d\<rparr> =
     \<lparr>sp_running = r \<and> n = 0, sp_server = False, sp_shutdown = d\<rparr>"
  by (induction n) (simp_all add: signalHandler_def Let_def)

lemma late_signals:
  "(signalHandler ^^ n) \<lparr>sp_running = r, sp_server = True, sp_shutdown = d\<rparr> =
     \<lparr>sp_running = r \<and> n = 0, sp_server = True, sp_shutdown = d \<or> n \<noteq> 0\<rparr>"
  by (induction n) (auto simp: signalHandler_def Let_def)

text \<open>
  The exit code: a signal that comes before the pointer to the server is set is lost, for the flag that it
  clears is never read; without another one the program waits for ever.
\<close>

lemma server_exit:
  "snd (snd (snd (snd (server_main args starts now early late)))) =
     (if \<not> starts then Some 1 else if late = 0 then None else Some 0)"
  by (simp add: server_main_def early_signals late_signals Let_def)

end
