(* ===== verification/HighBandwidthPublisher.thy ===== *)
theory HighBandwidthPublisher
  imports SignalDataPacket
begin

text \<open>
  \<open>src/libs/PubSub/HighBandwidthPublisher.cpp\<close>: cutting a message into UDP datagrams.

  \<^item> A \<open>std::string\<close> is the list of its bytes.  Sizes are \<open>size_t\<close>, 64-bit words that wrap: the
    payload space of the first fragment is a difference of two of them.
  \<^item> The fragment header is a packed struct written through a pointer, so its fields are in the
    byte order of the host, which is a parameter (\<open>host\<close>).
  \<^item> The results of the operating system are parameters: the descriptor that \<open>socket\<close> returns,
    whether \<open>inet_pton\<close> accepts the address, whether the \<open>sendto\<close> of a fragment succeeds.  So is
    the protobuf serialisation of the message (\<open>None\<close> when it fails).
  \<^item> \<open>memcpy\<close> outside its source or target is a fault.

  The lemmas show which datagrams a message becomes (\<open>fragments_of\<close>), that nothing is written
  out of bounds when the topic fits in one datagram, and that it is when the topic does not.
\<close>

record FragmentHeader =
  fh_messageId :: u32
  fh_fragmentNum :: u16
  fh_totalFragments :: u16
  fh_topicLen :: u16
  fh_reserved :: u16

definition header_bytes :: "ByteOrder \<Rightarrow> FragmentHeader \<Rightarrow> bytes" where
  "header_bytes host h =
     wordBytes host (fh_messageId h) @ i16Bytes host (fh_fragmentNum h) @
     i16Bytes host (fh_totalFragments h) @ i16Bytes host (fh_topicLen h) @
     i16Bytes host (fh_reserved h)"

definition sizeof_FragmentHeader :: u64 where
  "sizeof_FragmentHeader = 12"

definition memcpy :: "bytes \<Rightarrow> nat \<Rightarrow> bytes \<Rightarrow> nat \<Rightarrow> nat \<Rightarrow> bytes outcome" where
  "memcpy dst d src s n =
     (if d + n \<le> length dst \<and> s + n \<le> length src
      then Inr (take d dst @ take n (drop s src) @ drop (d + n) dst) else Inl OutOfBounds)"

record HBPublisher =
  pub_name :: bytes
  pub_port :: u16
  pub_mtu :: u64
  pub_maxPayload :: u64
  pub_socket :: int
  pub_messageId :: u32
  pub_running :: bool

section \<open>Construction\<close>

definition make_publisher :: "int \<Rightarrow> bool \<Rightarrow> bytes \<Rightarrow> u16 \<Rightarrow> u64 \<Rightarrow> HBPublisher" where
  "make_publisher fd addr_ok name port mtu =
    (let pub = \<lparr>pub_name = name, pub_port = port, pub_mtu = mtu,
                pub_maxPayload = mtu - sizeof_FragmentHeader, pub_socket = fd,
                pub_messageId = 0, pub_running = False\<rparr>
     in if fd < 0 then pub
        else if \<not> addr_ok then pub\<lparr>pub_socket := -1\<rparr>
        else pub\<lparr>pub_running := True\<rparr>)"

section \<open>publish\<close>

definition num_fragments :: "u64 \<Rightarrow> u64 \<Rightarrow> u64 \<Rightarrow> u64 outcome" where
  "num_fragments totalPayloadSize firstFragPayloadSpace maxPayload =
    (if totalPayloadSize > firstFragPayloadSpace then
       let remaining = totalPayloadSize - firstFragPayloadSpace
       in if maxPayload = 0 then Inl DivisionByZero
          else Inr (1 + (remaining + maxPayload - 1) div maxPayload)
     else Inr 1)"

text \<open>One turn of the loop: fill the packet; the bytes to send and the new payload offset.\<close>

definition fill_fragment ::
  "ByteOrder \<Rightarrow> u64 \<Rightarrow> bytes \<Rightarrow> bytes \<Rightarrow> u32 \<Rightarrow> u16 \<Rightarrow> u16 \<Rightarrow> bytes \<Rightarrow> u64 \<Rightarrow> (bytes \<times> u64 \<times> u64) outcome"
where
  "fill_fragment host maxPayload namespacedTopic serialized messageId numFragments fragNum packet payloadOffset =
    (let topicSize = (of_nat (length namespacedTopic) :: u64);
         totalPayloadSize = (of_nat (length serialized) :: u64);
         firstFragPayloadSpace = maxPayload - topicSize;
         header = \<lparr>fh_messageId = messageId, fh_fragmentNum = fragNum,
                   fh_totalFragments = numFragments,
                   fh_topicLen = (if fragNum = 0 then ucast topicSize else 0), fh_reserved = 0\<rparr>
     in obind (memcpy packet 0 (header_bytes host header) 0 12) (\<lambda>packet.
        if fragNum = 0 then
          obind (memcpy packet 12 namespacedTopic 0 (length namespacedTopic)) (\<lambda>packet.
          let packetDataOffset = 12 + length namespacedTopic;
              payloadInFirstFrag = min totalPayloadSize firstFragPayloadSpace
          in obind (memcpy packet packetDataOffset serialized 0 (unat payloadInFirstFrag)) (\<lambda>packet.
               Inr (packet, sizeof_FragmentHeader + topicSize + payloadInFirstFrag, payloadInFirstFrag)))
        else
          let remainingPayload = totalPayloadSize - payloadOffset;
              payloadInThisFrag = min remainingPayload maxPayload
          in obind (memcpy packet 12 serialized (unat payloadOffset) (unat payloadInThisFrag)) (\<lambda>packet.
               Inr (packet, sizeof_FragmentHeader + payloadInThisFrag, payloadOffset + payloadInThisFrag))))"

lemma unat_next: "a < b \<Longrightarrow> unat (a + 1) = unat a + 1" for a b :: "'a::len word"
proof -
  assume "a < b"
  then have "unat a < unat b" by (simp add: word_less_nat_alt)
  moreover have "unat b < 2 ^ LENGTH('a)" by (rule unsigned_less)
  ultimately have "unat a + 1 < 2 ^ LENGTH('a)" by linarith
  then show ?thesis by (simp add: unat_word_ariths)
qed

text \<open>
  The loop.  It returns whether every \<open>sendto\<close> succeeded and the datagrams that went out.
\<close>

function send_loop ::
  "ByteOrder \<Rightarrow> (u16 \<Rightarrow> bool) \<Rightarrow> u64 \<Rightarrow> bytes \<Rightarrow> bytes \<Rightarrow> u32 \<Rightarrow> u16 \<Rightarrow> u16 \<Rightarrow> bytes \<Rightarrow> u64 \<Rightarrow>
   (bool \<times> bytes list) outcome"
where
  "send_loop host sends maxPayload namespacedTopic serialized messageId numFragments fragNum packet payloadOffset =
    (if fragNum < numFragments then
       obind (fill_fragment host maxPayload namespacedTopic serialized messageId numFragments fragNum
                packet payloadOffset) (\<lambda>(packet, bytesToSend, payloadOffset).
         if \<not> sends fragNum then Inr (False, [])
         else obind (send_loop host sends maxPayload namespacedTopic serialized messageId numFragments
                       (fragNum + 1) packet payloadOffset) (\<lambda>(ok, sent).
                Inr (ok, take (unat bytesToSend) packet # sent)))
     else Inr (True, []))"
  by pat_completeness auto
termination
  by (relation "measure (\<lambda>(host, sends, maxPayload, topic, serialized, messageId, numFragments, fragNum, packet, off).
        unat numFragments - unat fragNum)") (auto simp: unat_next word_less_nat_alt)

declare send_loop.simps [simp del]

definition publish ::
  "ByteOrder \<Rightarrow> (u16 \<Rightarrow> bool) \<Rightarrow> HBPublisher \<Rightarrow> bytes \<Rightarrow> bytes option \<Rightarrow> (bool \<times> HBPublisher \<times> bytes list) outcome"
where
  "publish host sends pub topic message =
    (if pub_socket pub < 0 \<or> \<not> pub_running pub then Inr (False, pub, [])
     else case message of
       None \<Rightarrow> Inr (False, pub, [])
     | Some serialized \<Rightarrow>
         let namespacedTopic = pub_name pub @ [0x2F] @ topic;
             topicSize = (of_nat (length namespacedTopic) :: u64);
             totalPayloadSize = (of_nat (length serialized) :: u64);
             firstFragPayloadSpace = pub_maxPayload pub - topicSize
         in obind (num_fragments totalPayloadSize firstFragPayloadSpace (pub_maxPayload pub)) (\<lambda>numFragmentsCalc.
              if numFragmentsCalc > 65535 then Inr (False, pub, [])
              else
                let numFragments = (ucast numFragmentsCalc :: u16);
                    messageId = pub_messageId pub;
                    pub = pub\<lparr>pub_messageId := messageId + 1\<rparr>;
                    packet = replicate (unat (pub_mtu pub)) 0
                in obind (send_loop host sends (pub_maxPayload pub) namespacedTopic serialized messageId
                            numFragments 0 packet 0) (\<lambda>(ok, sent). Inr (ok, pub, sent))))"

definition destroy_publisher :: "HBPublisher \<Rightarrow> HBPublisher \<times> int option" where
  "destroy_publisher pub =
    (let pub = pub\<lparr>pub_running := False\<rparr>
     in (pub, if pub_socket pub \<ge> 0 then Some (pub_socket pub) else None))"

section \<open>The datagrams of a message\<close>

text \<open>
  With \<open>M\<close> payload bytes per datagram and the topic in the first one, fragment \<open>i\<close> carries the
  bytes of the message from \<open>piece_start i\<close> to \<open>piece_start (i + 1)\<close>.
\<close>

definition piece_start :: "nat \<Rightarrow> nat \<Rightarrow> nat \<Rightarrow> nat" where
  "piece_start M T i = (if i = 0 then 0 else (M - T) + (i - 1) * M)"

definition piece :: "nat \<Rightarrow> nat \<Rightarrow> bytes \<Rightarrow> nat \<Rightarrow> bytes" where
  "piece M T serialized i = take (if i = 0 then M - T else M) (drop (piece_start M T i) serialized)"

definition fragment_count :: "nat \<Rightarrow> nat \<Rightarrow> nat \<Rightarrow> nat" where
  "fragment_count M T L = (if L > M - T then 1 + (L - (M - T) + M - 1) div M else 1)"

definition fragment_header :: "u32 \<Rightarrow> nat \<Rightarrow> nat \<Rightarrow> nat \<Rightarrow> FragmentHeader" where
  "fragment_header messageId n T i =
     \<lparr>fh_messageId = messageId, fh_fragmentNum = of_nat i, fh_totalFragments = of_nat n,
      fh_topicLen = (if i = 0 then of_nat T else 0), fh_reserved = 0\<rparr>"

definition fragment_of :: "ByteOrder \<Rightarrow> nat \<Rightarrow> bytes \<Rightarrow> bytes \<Rightarrow> u32 \<Rightarrow> nat \<Rightarrow> nat \<Rightarrow> bytes" where
  "fragment_of host M topic serialized messageId n i =
     header_bytes host (fragment_header messageId n (length topic) i) @
     (if i = 0 then topic else []) @ piece M (length topic) serialized i"

lemma length_header_bytes [simp]: "length (header_bytes host h) = 12"
  by (simp add: header_bytes_def)

lemma piece_start_Suc: "i \<noteq> 0 \<Longrightarrow> piece_start M T (Suc i) = piece_start M T i + M"
  by (cases i) (simp_all add: piece_start_def)

lemma piece_start_next: "piece_start M T (Suc i) = piece_start M T i + (if i = 0 then M - T else M)"
  by (cases i) (simp_all add: piece_start_def)

lemma concat_pieces: "concat (map (piece M T xs) [0..<n]) = take (piece_start M T n) xs"
proof (induction n)
  case 0
  then show ?case by (simp add: piece_start_def)
next
  case (Suc n)
  then show ?case by (simp add: piece_start_next take_add piece_def)
qed

lemma fragment_count_covers:
  assumes "0 < M"
  shows "L \<le> piece_start M T (fragment_count M T L)"
proof (cases "L > M - T")
  case True
  have "L - (M - T) \<le> (L - (M - T) + M - 1) div M * M"
  proof -
    let ?r = "L - (M - T)"
    have "?r + M - 1 < (?r + M - 1) div M * M + M"
      using assms by (metis div_mult_mod_eq add_less_cancel_left mod_less_divisor)
    then show ?thesis using assms by linarith
  qed
  then show ?thesis using True by (simp add: fragment_count_def piece_start_def)
qed (simp add: fragment_count_def piece_start_def)

lemma fragment_count_tight:
  assumes "0 < M" and "Suc i < fragment_count M T L"
  shows "piece_start M T (Suc i) < L"
proof (cases "L > M - T")
  case True
  then have "i < (L - (M - T) + M - 1) div M" using assms(2) by (simp add: fragment_count_def)
  then have "Suc i * M \<le> L - (M - T) + M - 1" using assms(1) by (simp add: less_eq_div_iff_mult_less_eq flip: Suc_le_eq)
  then have "i * M < L - (M - T)" using assms(1) by simp
  then show ?thesis using True by (simp add: piece_start_def)
qed (use assms(2) in \<open>simp add: fragment_count_def\<close>)

text \<open>The message is the concatenation of the pieces.\<close>

lemma pieces_join:
  assumes "0 < M"
  shows "concat (map (piece M T xs) [0..<fragment_count M T (length xs)]) = xs"
  using fragment_count_covers [OF assms, of "length xs" T] by (simp add: concat_pieces)

lemma fragment_count_pos: "0 < fragment_count M T L"
  by (simp add: fragment_count_def)

lemma length_fragment:
  "length topic \<le> M \<Longrightarrow> length (fragment_of host M topic serialized messageId n i) \<le> 12 + M"
  by (cases "i = 0") (auto simp: fragment_of_def piece_def)

section \<open>Sending a message that fits\<close>

lemma memcpy_after:
  assumes "n \<le> length rest" and "s + n \<le> length src" and "d = length pre"
  shows "memcpy (pre @ rest) d src s n = Inr (pre @ take n (drop s src) @ drop n rest)"
  using assms by (simp add: memcpy_def)

definition publishable :: "HBPublisher \<Rightarrow> bytes \<Rightarrow> bytes \<Rightarrow> bool" where
  "publishable pub topic serialized \<longleftrightarrow>
     12 < unat (pub_mtu pub) \<and> unat (pub_mtu pub) \<le> 65535 \<and>
     pub_maxPayload pub = pub_mtu pub - sizeof_FragmentHeader \<and>
     length (pub_name pub @ [0x2F] @ topic) \<le> unat (pub_mtu pub) - 12 \<and> length serialized < 2 ^ 63"

lemma unat_small: "n < 2 ^ 64 \<Longrightarrow> unat (of_nat n :: u64) = n"
  by (simp add: unat_of_nat take_bit_nat_eq_self)

lemma unat_payload_space:
  assumes "12 < unat (mtu :: u64)"
  shows "unat (mtu - sizeof_FragmentHeader) = unat mtu - 12"
  using assms by (simp add: sizeof_FragmentHeader_def unat_sub word_le_nat_alt)

lemma num_fragments_eq:
  assumes M: "0 < M" "M \<le> 65535" and T: "T \<le> M" and L: "L < 2 ^ 63"
  shows "num_fragments (of_nat L) (of_nat M - of_nat T) (of_nat M) = Inr (of_nat (fragment_count M T L))"
    and "fragment_count M T L < 2 ^ 64"
proof -
  have f: "of_nat M - of_nat T = (of_nat (M - T) :: u64)" using T by (simp add: of_nat_diff)
  have u: "unat (of_nat L :: u64) = L" "unat (of_nat (M - T) :: u64) = M - T" "unat (of_nat M :: u64) = M"
    using M(2) L by (simp_all add: unat_small)
  have c: "(of_nat (M - T) < (of_nat L :: u64)) \<longleftrightarrow> M - T < L" by (simp add: word_less_nat_alt u)
  have "fragment_count M T L \<le> 1 + (L + M)"
    by (simp add: fragment_count_def) (meson div_le_dividend order_trans diff_le_self add_le_mono le_trans)
  then show b: "fragment_count M T L < 2 ^ 64" using M(2) L by simp
  have d: "(of_nat a div of_nat M :: u64) = of_nat (a div M)" if "a < 2 ^ 64" for a
    using that u(3) by (simp add: word_unat_eq_iff unat_div unat_small less_imp_diff_less div_le_dividend
        le_less_trans [OF div_le_dividend])
  show "num_fragments (of_nat L) (of_nat M - of_nat T) (of_nat M) = Inr (of_nat (fragment_count M T L))"
  proof (cases "M - T < L")
    case True
    have m0: "(of_nat M :: u64) \<noteq> 0" using u(3) M(1) by (metis unat_0 less_irrefl)
    have "(of_nat L - of_nat (M - T) + of_nat M - 1 :: u64) = of_nat (L - (M - T) + M - 1)"
      using True M(1) by (simp add: of_nat_diff)
    moreover have "L - (M - T) + M - 1 < 2 ^ 64" using L M(2) by simp
    ultimately have "(of_nat L - of_nat (M - T) + of_nat M - 1 :: u64) div of_nat M =
        of_nat ((L - (M - T) + M - 1) div M)" using d by (simp only:)
    then show ?thesis
      using True m0 by (simp only: num_fragments_def f c Let_def fragment_count_def if_True if_False)
        simp
  qed (simp add: num_fragments_def f c fragment_count_def)
qed

lemma of_nat_u16_zero: "i < 65536 \<Longrightarrow> (of_nat i :: u16) = 0 \<longleftrightarrow> i = 0"
  by (simp add: word_unat_eq_iff unat_of_nat take_bit_nat_eq_self)

lemma ucast_of_nat_u16: "T < 2 ^ 64 \<Longrightarrow> (ucast (of_nat T :: u64) :: u16) = of_nat T"
  by (simp add: unsigned_of_nat take_bit_nat_eq_self)

lemma min_of_nat: "a < 2 ^ 64 \<Longrightarrow> b < 2 ^ 64 \<Longrightarrow> min (of_nat a) (of_nat b :: u64) = of_nat (min a b)"
  by (simp add: min_def word_le_nat_alt unat_small)

lemma length_64:
  assumes "x \<le> k" "k < 2 ^ 63"
  shows "x < (2 :: nat) ^ 64"
  by (rule less_trans [OF le_less_trans [OF assms]]) simp

lemma payload_64:
  assumes "x \<le> M" "M \<le> 65535"
  shows "x < (2 :: nat) ^ 64"
  by (rule le_less_trans [OF order_trans [OF assms]]) simp

lemma fragment_number_zero: "n \<le> 65535 \<Longrightarrow> i < n \<Longrightarrow> (of_nat i :: u16) = 0 \<longleftrightarrow> i = 0"
  by (intro of_nat_u16_zero) simp

lemma filled_header:
  assumes "T \<le> M" "M \<le> 65535" "n \<le> 65535" "i < n"
  shows "\<lparr>fh_messageId = messageId, fh_fragmentNum = of_nat i, fh_totalFragments = of_nat n,
       fh_topicLen = (if (of_nat i :: u16) = 0 then ucast (of_nat T :: u64) else 0), fh_reserved = 0\<rparr> =
      fragment_header messageId n T i"
  using assms by (simp add: fragment_header_def fragment_number_zero ucast_of_nat_u16)

lemma header_copied:
  "length packet = 12 + M \<Longrightarrow> memcpy packet 0 (header_bytes host h) 0 12 = Inr (header_bytes host h @ drop 12 packet)"
  using memcpy_after [of 12 packet 0 "header_bytes host h" 0 "[]"] by simp

abbreviation fragment_filled :: "ByteOrder \<Rightarrow> nat \<Rightarrow> bytes \<Rightarrow> bytes \<Rightarrow> u32 \<Rightarrow> nat \<Rightarrow> nat \<Rightarrow> bytes \<Rightarrow> bool" where
  "fragment_filled host M topic serialized messageId n i packet \<equiv>
    (\<exists>packet' off. fill_fragment host (of_nat M) topic serialized messageId (of_nat n) (of_nat i) packet
      (of_nat (piece_start M (length topic) i)) =
      Inr (packet', of_nat (length (fragment_of host M topic serialized messageId n i)), off) \<and>
    length packet' = 12 + M \<and>
    take (length (fragment_of host M topic serialized messageId n i)) packet' =
      fragment_of host M topic serialized messageId n i \<and>
    (Suc i < n \<longrightarrow> off = of_nat (piece_start M (length topic) (Suc i))))"

text \<open>The second copy into the packet follows the first without a gap.\<close>

lemma topic_copied:
  assumes "length h = 12" "length packet = 12 + M" "length topic \<le> M"
  shows "memcpy (h @ drop 12 packet) 12 topic 0 (length topic) = Inr (h @ topic @ drop (length topic) (drop 12 packet))"
proof -
  have "memcpy (h @ drop 12 packet) 12 topic 0 (length topic) =
      Inr (h @ take (length topic) (drop 0 topic) @ drop (length topic) (drop 12 packet))"
    by (rule memcpy_after) (simp_all add: assms)
  then show ?thesis by (simp only: drop_0 take_all order_refl)
qed

lemma first_piece_copied:
  assumes "length h = 12" "length packet = 12 + M" "length topic \<le> M" "n \<le> length serialized" "n \<le> M - length topic"
  shows "memcpy (h @ topic @ drop (length topic) (drop 12 packet)) (12 + length topic) serialized 0 n =
    Inr (h @ topic @ take n serialized @ drop n (drop (length topic) (drop 12 packet)))"
proof -
  have "memcpy ((h @ topic) @ drop (length topic) (drop 12 packet)) (12 + length topic) serialized 0 n =
      Inr ((h @ topic) @ take n (drop 0 serialized) @ drop n (drop (length topic) (drop 12 packet)))"
    by (rule memcpy_after) (use assms in simp_all)
  then show ?thesis by (simp only: drop_0 append_assoc)
qed

text \<open>Where the payload goes on after a fragment that is not the last one.\<close>

lemma first_piece_full:
  assumes "0 < M" "n = fragment_count M T L" "Suc 0 < n"
  shows "min L (M - T) = piece_start M T (Suc 0)"
  using fragment_count_tight [OF assms(1), of 0 T L] assms(2,3) by (simp add: piece_start_def)

lemma later_piece_full:
  assumes "0 < M" "n = fragment_count M T L" "Suc i < n" "i \<noteq> 0"
  shows "piece_start M T i + min (L - piece_start M T i) M = piece_start M T (Suc i)"
proof -
  have "piece_start M T (Suc i) < L" using fragment_count_tight [OF assms(1)] assms(2,3) by simp
  then show ?thesis using piece_start_Suc [OF assms(4), of M T] by simp
qed

lemma fill_first_fragment:
  assumes M: "0 < M" "M \<le> 65535" and T: "length topic \<le> M" and L: "length serialized < 2 ^ 63"
    and n: "n = fragment_count M (length topic) (length serialized)" "n \<le> 65535" and i: "i < n"
    and packet: "length packet = 12 + M"
    and True: "i = 0"
  shows "fragment_filled host M topic serialized messageId n i packet"
proof -
  let ?T = "length topic" and ?L = "length serialized"
  let ?s = "piece_start M ?T i"
  let ?h = "header_bytes host (fragment_header messageId n ?T i)"
  let ?p = "piece M ?T serialized i"
  let ?F = "fragment_of host M topic serialized messageId n i"
  note hd = filled_header [OF T M(2) n(2) i] and m1 = header_copied [OF packet] and z = fragment_number_zero [OF n(2) i]
  have six: "sizeof_FragmentHeader = of_nat 12" by (simp add: sizeof_FragmentHeader_def)
  let ?n = "min ?L (M - ?T)"
  have k: "min (of_nat ?L) (of_nat M - of_nat ?T) = (of_nat ?n :: u64)"
    unfolding of_nat_diff [OF T, symmetric] by (rule min_of_nat) (rule length_64 [OF _ L] payload_64 [OF _ M(2)], simp)+
  have u: "unat (of_nat ?n :: u64) = ?n" by (intro unat_small length_64 [OF _ L]) simp
  have p: "?p = take ?n serialized" using True by (simp add: piece_def piece_start_def min_def)
  have m2: "memcpy (?h @ drop 12 packet) 12 topic 0 ?T = Inr (?h @ topic @ drop ?T (drop 12 packet))"
    by (rule topic_copied [OF _ packet T]) simp
  have m3: "memcpy (?h @ topic @ drop ?T (drop 12 packet)) (12 + ?T) serialized 0 ?n =
      Inr (?h @ topic @ ?p @ drop ?n (drop ?T (drop 12 packet)))"
    unfolding p by (rule first_piece_copied [OF _ packet T]) simp_all
  have F: "?F = ?h @ topic @ ?p" using True by (simp add: fragment_of_def)
  have lp: "length ?p = ?n" by (simp add: p)
  have e: "fill_fragment host (of_nat M) topic serialized messageId (of_nat n) (of_nat i) packet (of_nat ?s) =
      Inr (?F @ drop ?n (drop ?T (drop 12 packet)), of_nat 12 + of_nat ?T + of_nat ?n, of_nat ?n)"
  proof -
    have z1: "((of_nat i :: u16) = 0) = True" using z True by simp
    show ?thesis
      unfolding fill_fragment_def Let_def hd unfolding m1 obind_Inr unfolding z1 if_True m2 k
      unfolding obind_Inr u m3 unfolding obind_Inr F six append_assoc ..
  qed
  have b: "(of_nat 12 + of_nat ?T + of_nat ?n :: u64) = of_nat (length ?F)"
    by (simp add: F lp)
  have o: "Suc i < n \<longrightarrow> ?n = piece_start M ?T (Suc i)" using first_piece_full [OF M(1) n(1)] True by simp
  show ?thesis
    unfolding e b using o packet T lp by (auto simp: F min_def)
qed

lemma fill_later_fragment:
  assumes M: "0 < M" "M \<le> 65535" and T: "length topic \<le> M" and L: "length serialized < 2 ^ 63"
    and n: "n = fragment_count M (length topic) (length serialized)" "n \<le> 65535" and i: "i < n"
    and packet: "length packet = 12 + M"
    and False: "i \<noteq> 0"
  shows "fragment_filled host M topic serialized messageId n i packet"
proof -
  let ?T = "length topic" and ?L = "length serialized"
  let ?s = "piece_start M ?T i"
  let ?h = "header_bytes host (fragment_header messageId n ?T i)"
  let ?p = "piece M ?T serialized i"
  let ?F = "fragment_of host M topic serialized messageId n i"
  note hd = filled_header [OF T M(2) n(2) i] and m1 = header_copied [OF packet] and z = fragment_number_zero [OF n(2) i]
  have six: "sizeof_FragmentHeader = of_nat 12" by (simp add: sizeof_FragmentHeader_def)
  obtain j where j: "i = Suc j" using False by (cases i) auto
  have s: "?s < ?L" using fragment_count_tight [OF M(1), of j ?T ?L] i n(1) j by simp
  let ?n = "min (?L - ?s) M"
  have k: "min (of_nat ?L - of_nat ?s) (of_nat M) = (of_nat ?n :: u64)"
    unfolding of_nat_diff [OF less_imp_le [OF s], symmetric]
    by (rule min_of_nat) (rule length_64 [OF _ L] payload_64 [OF _ M(2)], simp)+
  have u: "unat (of_nat ?n :: u64) = ?n" "unat (of_nat ?s :: u64) = ?s"
    by (intro unat_small length_64 [OF _ L]; use s in simp)+
  have p: "?p = take ?n (drop ?s serialized)" using False by (simp add: piece_def min_def)
  have m2: "memcpy (?h @ drop 12 packet) 12 serialized ?s ?n = Inr (?h @ ?p @ drop ?n (drop 12 packet))"
    unfolding p by (rule memcpy_after) (use s in \<open>simp_all add: packet\<close>)
  have F: "?F = ?h @ ?p" using False by (simp add: fragment_of_def)
  have lp: "length ?p = ?n" by (simp add: p)
  have e: "fill_fragment host (of_nat M) topic serialized messageId (of_nat n) (of_nat i) packet (of_nat ?s) =
      Inr (?F @ drop ?n (drop 12 packet), of_nat 12 + of_nat ?n, of_nat ?s + of_nat ?n)"
  proof -
    have z1: "((of_nat i :: u16) = 0) = False" using z False by simp
    show ?thesis
      unfolding fill_fragment_def Let_def hd unfolding m1 obind_Inr unfolding z1 if_False k
      unfolding u m2 unfolding obind_Inr F six append_assoc ..
  qed
  have b: "(of_nat 12 + of_nat ?n :: u64) = of_nat (length ?F)"
    by (simp add: F lp)
  have o: "Suc i < n \<longrightarrow> of_nat ?s + of_nat ?n = (of_nat (piece_start M ?T (Suc i)) :: u64)"
    using later_piece_full [OF M(1) n(1) _ False] by (simp only: of_nat_add [symmetric]) simp
  show ?thesis
    unfolding e b using o packet lp by (auto simp: F min_def)
qed

lemma fill_fragment_eq:
  assumes M: "0 < M" "M \<le> 65535" and T: "length topic \<le> M" and L: "length serialized < 2 ^ 63"
    and n: "n = fragment_count M (length topic) (length serialized)" "n \<le> 65535" and i: "i < n"
    and packet: "length packet = 12 + M"
  shows "fragment_filled host M topic serialized messageId n i packet"
  using fill_first_fragment [OF assms] fill_later_fragment [OF assms] by (cases "i = 0") simp_all

lemma send_loop_eq:
  assumes M: "0 < M" "M \<le> 65535" and T: "length topic \<le> M" and L: "length serialized < 2 ^ 63"
    and n: "n = fragment_count M (length topic) (length serialized)" "n \<le> 65535" and i: "i \<le> n"
    and packet: "length packet = 12 + M" and off: "i < n \<Longrightarrow> off = of_nat (piece_start M (length topic) i)"
  shows "send_loop host sends (of_nat M) topic serialized messageId (of_nat n) (of_nat i) packet off =
    Inr (list_all (\<lambda>j. sends (of_nat j)) [i..<n],
         map (fragment_of host M topic serialized messageId n) (takeWhile (\<lambda>j. sends (of_nat j)) [i..<n]))"
  using i packet off
proof (induction "n - i" arbitrary: i packet off)
  case 0
  then have "i = n" by simp
  then show ?case by (subst send_loop.simps) simp
next
  case (Suc k)
  then have i: "i < n" by simp
  let ?F = "fragment_of host M topic serialized messageId n i"
  have lt: "(of_nat i :: u16) < of_nat n"
    using i n(2) by (simp add: word_less_nat_alt unat_of_nat take_bit_nat_eq_self)
  obtain packet' off' where f: "fill_fragment host (of_nat M) topic serialized messageId (of_nat n)
      (of_nat i) packet off = Inr (packet', of_nat (length ?F), off')"
    and p: "length packet' = 12 + M" "take (length ?F) packet' = ?F"
    and o: "Suc i < n \<longrightarrow> off' = of_nat (piece_start M (length topic) (Suc i))"
    using fill_fragment_eq [OF M T L n i Suc.prems(2)] Suc.prems(3) i by metis
  have "length ?F \<le> 12 + M" using T by (rule length_fragment)
  then have u: "unat (of_nat (length ?F) :: u64) = length ?F" using M(2) by (intro unat_small) simp
  have IH: "send_loop host sends (of_nat M) topic serialized messageId (of_nat n) (of_nat (Suc i)) packet' off' =
    Inr (list_all (\<lambda>j. sends (of_nat j)) [Suc i..<n],
         map (fragment_of host M topic serialized messageId n) (takeWhile (\<lambda>j. sends (of_nat j)) [Suc i..<n]))"
    by (rule Suc.hyps(1)) (use Suc.hyps(2) i p(1) o in auto)
  have up: "[i..<n] = i # [Suc i..<n]" using i by (rule upt_conv_Cons)
  show ?case
    using lt f IH p(2) u by (subst send_loop.simps) (simp add: up add.commute)
qed

lemma publish_eq:
  assumes "publishable pub topic serialized" and "0 \<le> pub_socket pub" and "pub_running pub"
  shows "publish host sends pub topic (Some serialized) =
   (let M = unat (pub_mtu pub) - 12; full = pub_name pub @ [0x2F] @ topic;
        n = fragment_count M (length full) (length serialized)
    in Inr (if n > 65535 then (False, pub, [])
            else (list_all (\<lambda>j. sends (of_nat j)) [0..<n], pub\<lparr>pub_messageId := pub_messageId pub + 1\<rparr>,
                  map (fragment_of host M full serialized (pub_messageId pub) n)
                    (takeWhile (\<lambda>j. sends (of_nat j)) [0..<n]))))"
proof -
  define M where "M = unat (pub_mtu pub) - 12"
  define full where "full = pub_name pub @ [0x2F] @ topic"
  define n where "n = fragment_count M (length full) (length serialized)"
  note p = assms(1) [unfolded publishable_def]
  have mtu: "12 < unat (pub_mtu pub)" "unat (pub_mtu pub) \<le> 65535" using p by auto
  have M: "0 < M" "M \<le> 65535" using mtu by (simp_all add: M_def)
  have T: "length full \<le> M" and L: "length serialized < 2 ^ 63" using p by (simp_all add: M_def full_def)
  have mx: "pub_maxPayload pub = of_nat M"
    using p unat_payload_space [OF mtu(1)] by (metis M_def of_nat_unat ucast_id)
  have nf: "num_fragments (of_nat (length serialized)) (of_nat M - of_nat (length full)) (of_nat M) = Inr (of_nat n)"
    "n < 2 ^ 64"
    using num_fragments_eq [OF M T L] by (simp_all add: n_def)
  have big: "(65535 :: u64) < of_nat n \<longleftrightarrow> 65535 < n"
    using nf(2) by (simp add: word_less_nat_alt unat_small)
  have packet: "length (replicate (unat (pub_mtu pub)) (0 :: u8)) = 12 + M" using mtu by (simp add: M_def)
  have loop: "send_loop host sends (of_nat M) full serialized (pub_messageId pub) (of_nat n) 0
      (replicate (unat (pub_mtu pub)) 0) 0 =
      Inr (list_all (\<lambda>j. sends (of_nat j)) [0..<n],
           map (fragment_of host M full serialized (pub_messageId pub) n) (takeWhile (\<lambda>j. sends (of_nat j)) [0..<n]))"
    if "n \<le> 65535"
    using send_loop_eq [OF M T L n_def that, of 0 _ 0 host sends "pub_messageId pub"] packet
    by (simp add: piece_start_def)
  show ?thesis
    unfolding publish_def Let_def M_def [symmetric] full_def [symmetric] n_def [symmetric]
    using assms(2,3) by (simp add: mx nf big loop ucast_of_nat_u16 not_less)
qed

section \<open>A topic that does not fit\<close>

lemma header_or_topic_overflow:
  assumes "length packet < 12 + length topic"
  shows "fill_fragment host maxPayload topic serialized messageId n 0 packet off = Inl OutOfBounds"
proof (cases "length packet < 12")
  case True
  then show ?thesis by (simp add: fill_fragment_def Let_def memcpy_def)
next
  case False
  then show ?thesis using assms by (simp add: fill_fragment_def Let_def memcpy_def)
qed

lemma wrapped_space:
  assumes "unat (mtu :: u64) < 12 + T" and "T < 2 ^ 62" and "L < 2 ^ 62"
  shows "\<not> (of_nat L > mtu - sizeof_FragmentHeader - of_nat T)"
proof -
  let ?d = "12 + T - unat mtu"
  have d: "0 < ?d" "?d < 2 ^ 63" using assms(1,2) by simp_all
  have "mtu - sizeof_FragmentHeader - of_nat T = (of_nat (2 ^ 64 - ?d) :: u64)"
    using assms(1) d by (simp add: sizeof_FragmentHeader_def of_nat_diff)
  moreover have "unat (of_nat (2 ^ 64 - ?d) :: u64) = 2 ^ 64 - ?d"
    using d by (intro unat_small) simp
  moreover have "unat (of_nat L :: u64) = L" using assms(3) by (intro unat_small) simp
  ultimately show ?thesis using assms(3) d(2) by (simp add: word_less_nat_alt)
qed

lemma publish_overflow:
  assumes "0 \<le> pub_socket pub" "pub_running pub"
    and "pub_maxPayload pub = pub_mtu pub - sizeof_FragmentHeader"
    and "unat (pub_mtu pub) < 12 + length (pub_name pub @ [0x2F] @ topic)"
    and "length (pub_name pub @ [0x2F] @ topic) < 2 ^ 62" and "length serialized < 2 ^ 62"
  shows "publish host sends pub topic (Some serialized) = Inl OutOfBounds"
proof -
  define full where "full = pub_name pub @ [0x2F] @ topic"
  note f = full_def [symmetric]
  have "num_fragments (of_nat (length serialized))
      (pub_mtu pub - sizeof_FragmentHeader - of_nat (length full)) (pub_mtu pub - sizeof_FragmentHeader) = Inr 1"
    using wrapped_space [OF assms(4-6), unfolded f] by (simp only: num_fragments_def if_False)
  moreover have "send_loop host sends (pub_mtu pub - sizeof_FragmentHeader) full serialized (pub_messageId pub)
      1 0 (replicate (unat (pub_mtu pub)) 0) 0 = Inl OutOfBounds"
  proof -
    have "fill_fragment host (pub_mtu pub - sizeof_FragmentHeader) full serialized (pub_messageId pub) 1 0
        (replicate (unat (pub_mtu pub)) 0) 0 = Inl OutOfBounds"
      by (rule header_or_topic_overflow) (use assms(4) [unfolded f] in simp)
    then show ?thesis by (subst send_loop.simps) simp
  qed
  ultimately show ?thesis
    unfolding publish_def Let_def f assms(3) using assms(1,2) by (simp add: assms(3))
qed

section \<open>Properties of the publisher\<close>

text \<open>
  C25. Publishing a message whose topic fits in one datagram writes nothing out of bounds and, when
  every \<open>sendto\<close> succeeds and at most 65535 fragments are needed, sends the fragments 0 to n-1:
  each at most one MTU long, each with the next message id, its number and the total, the topic
  in fragment 0 only, and the message as the concatenation of their payloads.  A longer message
  is refused without sending anything or using up a message id.
\<close>

theorem publish_fragments:
  assumes "publishable pub topic serialized" and "0 \<le> pub_socket pub" and "pub_running pub"
    and "\<forall>i. sends i"
  shows "let full = pub_name pub @ [0x2F] @ topic; M = unat (pub_mtu pub) - 12;
      n = fragment_count M (length full) (length serialized)
    in publish host sends pub topic (Some serialized) =
         Inr (if n > 65535 then (False, pub, [])
              else (True, pub\<lparr>pub_messageId := pub_messageId pub + 1\<rparr>,
                map (\<lambda>i. header_bytes host (fragment_header (pub_messageId pub) n (length full) i) @
                       (if i = 0 then full else []) @ piece M (length full) serialized i) [0..<n])) \<and>
       concat (map (piece M (length full) serialized) [0..<n]) = serialized \<and> 0 < n \<and>
       (\<forall>i < n. 12 + length (if i = 0 then full else []) +
          length (piece M (length full) serialized i) \<le> unat (pub_mtu pub))"
proof -
  let ?full = "pub_name pub @ [0x2F] @ topic" and ?M = "unat (pub_mtu pub) - 12"
  have M: "0 < ?M" "length ?full \<le> ?M" using assms(1) by (simp_all add: publishable_def)
  have "12 + length (if i = 0 then ?full else []) + length (piece ?M (length ?full) serialized i)
      \<le> unat (pub_mtu pub)" for i
    using length_fragment [OF M(2), of host serialized 0 0 i] M(1)
    by (cases "i = 0") (simp_all add: fragment_of_def)
  then show ?thesis
    using publish_eq [OF assms(1-3), of host sends] assms(4) pieces_join [OF M(1), of "length ?full" serialized]
      fragment_count_pos
    unfolding Let_def by (simp add: fragment_of_def list_all_iff takeWhile_eq_all_conv [THEN iffD2])
qed

text \<open>
  C37. Publishing is memory-safe exactly when the namespaced topic and the header fit in one MTU.
  When they do not, the size of the first payload wraps around, the message counts as one
  fragment, and the topic is copied past the end of the packet buffer.
\<close>

theorem publish_safe_iff:
  assumes "0 \<le> pub_socket pub" "pub_running pub"
    and "pub_maxPayload pub = pub_mtu pub - sizeof_FragmentHeader" and "unat (pub_mtu pub) \<le> 65535"
    and "length (pub_name pub @ [0x2F] @ topic) < 2 ^ 62" and "length serialized < 2 ^ 62"
  shows "safe (publish host sends pub topic (Some serialized)) \<longleftrightarrow>
    12 + length (pub_name pub @ [0x2F] @ topic) \<le> unat (pub_mtu pub)"
proof (cases "12 + length (pub_name pub @ [0x2F] @ topic) \<le> unat (pub_mtu pub)")
  case True
  have "length serialized < 2 ^ 63" using assms(6) by (rule less_trans) simp
  then have "publishable pub topic serialized"
    using True assms(3,4) by (simp add: publishable_def)
  then show ?thesis using True publish_eq [OF _ assms(1,2), of topic serialized] by (simp add: Let_def)
next
  case False
  then show ?thesis using publish_overflow [OF assms(1-3) _ assms(5,6)] by simp
qed

text \<open>
  The message ids of a publisher count up from 0 for every publisher, modulo 2 to the 32: the
  first message that two publishers send has the same id.
\<close>

theorem first_message_id:
  assumes "0 \<le> fd" "0 \<le> fd'" and "\<forall>i. sends i"
    and "publishable (make_publisher fd True name port mtu) topic serialized"
    and "publishable (make_publisher fd' True name' port' mtu') topic' serialized'"
    and "fragment_count (unat mtu - 12) (length (name @ [0x2F] @ topic)) (length serialized) \<le> 65535"
    and "fragment_count (unat mtu' - 12) (length (name' @ [0x2F] @ topic')) (length serialized') \<le> 65535"
  shows "\<exists>pub pub' sent sent'.
    publish host sends (make_publisher fd True name port mtu) topic (Some serialized) = Inr (True, pub, sent) \<and>
    publish host sends (make_publisher fd' True name' port' mtu') topic' (Some serialized') = Inr (True, pub', sent') \<and>
    sent \<noteq> [] \<and> sent' \<noteq> [] \<and>
    readWord host (hd sent) = Inr 0 \<and> readWord host (hd sent') = Inr 0"
proof -
  have one: "\<exists>pub sent. publish host sends (make_publisher f True nm pt m) tp (Some ser) = Inr (True, pub, sent) \<and>
      sent \<noteq> [] \<and> readWord host (hd sent) = Inr 0"
    if f: "0 \<le> f" and p: "publishable (make_publisher f True nm pt m) tp ser"
      and n: "fragment_count (unat m - 12) (length (nm @ [0x2F] @ tp)) (length ser) \<le> 65535"
    for f nm pt m tp ser
  proof -
    have s: "0 \<le> pub_socket (make_publisher f True nm pt m)" "pub_running (make_publisher f True nm pt m)"
      "pub_messageId (make_publisher f True nm pt m) = 0" "pub_mtu (make_publisher f True nm pt m) = m"
      "pub_name (make_publisher f True nm pt m) = nm"
      using f by (simp_all add: make_publisher_def)
    let ?n = "fragment_count (unat m - 12) (length (nm @ [0x2F] @ tp)) (length ser)"
    have "[0..<?n] = 0 # [1..<?n]" using fragment_count_pos by (simp add: upt_conv_Cons)
    then have h: "hd (map (fragment_of host (unat m - 12) (nm @ [0x2F] @ tp) ser 0 ?n) [0..<?n]) =
        fragment_of host (unat m - 12) (nm @ [0x2F] @ tp) ser 0 ?n 0" "[0..<?n] \<noteq> []" by simp_all
    have "readWord host (fragment_of host M t sr 0 k 0) = Inr 0" for M t sr k
      by (simp add: fragment_of_def header_bytes_def fragment_header_def word32.rd_enc)
    then show ?thesis
      using publish_eq [OF p s(1,2), of host sends] n assms(3) h
      by (simp add: Let_def s list_all_iff takeWhile_eq_all_conv [THEN iffD2])
  qed
  show ?thesis using one [OF assms(1,4,6)] one [OF assms(2,5,7)] by blast
qed

text \<open>A publisher with datagrams of 16 bytes, and one with datagrams too short for its topics.\<close>

definition small_publisher :: HBPublisher where
  "small_publisher = make_publisher 3 True [0x6E] 5670 16"

lemma small_publisher_fields [simp]:
  "pub_socket small_publisher = 3" "pub_running small_publisher" "pub_mtu small_publisher = 16"
  "pub_name small_publisher = [0x6E]" "pub_messageId small_publisher = 0"
  "pub_maxPayload small_publisher = 16 - sizeof_FragmentHeader"
  by (simp_all add: small_publisher_def make_publisher_def)

lemma small_publishable: "length topic \<le> 2 \<Longrightarrow> length serialized < 2 ^ 63 \<Longrightarrow>
    publishable small_publisher topic serialized"
  by (simp add: publishable_def)

theorem publish_fragments_witness:
  "\<exists>pub sent. publish BigEndian (\<lambda>_. True) small_publisher [0x74] (Some [1, 2, 3, 4, 5, 6]) = Inr (True, pub, sent) \<and>
     length sent = 3 \<and> hd sent = [0, 0, 0, 0, 0, 0, 0, 3, 0, 3, 0, 0, 0x6E, 0x2F, 0x74, 1]"
proof -
  have n: "fragment_count 4 (Suc (Suc (Suc 0))) (Suc (Suc (Suc (Suc (Suc (Suc 0)))))) = 3"
    by (simp add: fragment_count_def)
  have u: "[0..<3] = [0, 1, 2 :: nat]" by (simp add: upt_rec)
  have h: "header_bytes BigEndian (fragment_header 0 3 (Suc (Suc (Suc 0))) 0) = [0, 0, 0, 0, 0, 0, 0, 3, 0, 3, 0, 0]"
    by (simp add: header_bytes_def fragment_header_def wordBytes_def i16Bytes_def bytes_explicit)
  show ?thesis
    using publish_fragments [OF small_publishable [of "[0x74]" "[1, 2, 3, 4, 5, 6]"], of "\<lambda>_. True" BigEndian]
    by (simp add: n u h piece_def piece_start_def Let_def)
qed

theorem publish_safe_iff_witness:
  "safe (publish LittleEndian (\<lambda>_. True) small_publisher [1, 2] (Some [7])) \<and>
   \<not> safe (publish LittleEndian (\<lambda>_. True) small_publisher [1, 2, 3] (Some [7]))"
  using publish_safe_iff [of small_publisher "[1, 2]" "[7]" LittleEndian "\<lambda>_. True"]
    publish_safe_iff [of small_publisher "[1, 2, 3]" "[7]" LittleEndian "\<lambda>_. True"] by simp

theorem first_message_id_witness:
  "\<exists>pub pub' sent sent'.
    publish LittleEndian (\<lambda>_. True) (make_publisher 3 True [0x6E] 5670 16) [1] (Some [7]) = Inr (True, pub, sent) \<and>
    publish LittleEndian (\<lambda>_. True) (make_publisher 4 True [0x6F] 5670 16) [1] (Some [8]) = Inr (True, pub', sent') \<and>
    sent \<noteq> [] \<and> sent' \<noteq> [] \<and>
    readWord LittleEndian (hd sent) = Inr 0 \<and> readWord LittleEndian (hd sent') = Inr 0"
  by (rule first_message_id)
    (simp_all add: publishable_def make_publisher_def fragment_count_def)

end
