(* ===== verification/HighBandwidthSubscriber.thy ===== *)
theory HighBandwidthSubscriber
  imports HighBandwidthPublisher
begin

text \<open>
  \<open>src/libs/PubSub/HighBandwidthSubscriber.cpp\<close>: reassembling messages from UDP datagrams.

  \<^item> The hash maps are maps, the set of received fragment numbers is a set, a handler is a token
    of type \<open>'h\<close> (\<open>None\<close> for an empty \<open>std::function\<close>), and a call of a handler is recorded in
    the list of deliveries that an operation returns.
  \<^item> Time is the count of nanoseconds of \<open>steady_clock\<close>, an argument of the operations that read it.
  \<^item> The receive thread is a fold over the events that its system calls produce; the flags that
    another thread sets are events too.
  \<^item> What the operating system answers to \<open>start\<close> is a record, and the descriptors that the process
    holds are a set that \<open>start\<close> and the destructor change.

  The lemmas show exactly when a datagram makes the code write outside the fragment vector, that
  the reassembly state stays well-formed, that fragments of one message arriving in any order,
  repeated and interleaved with other traffic are delivered unchanged and once for every complete set of
  them, and what two messages with one id do to each other.
\<close>

record PartialMessage =
  pm_topic :: bytes
  pm_fragments :: "bytes list"
  pm_received :: "u16 set"
  pm_totalFragments :: u16
  pm_firstFragmentTime :: int

record 'h HBSubscriber =
  sub_name :: bytes
  sub_interfaceAddr :: bytes
  sub_port :: u16
  sub_timeoutMs :: int
  sub_socket :: int
  sub_running :: bool
  sub_shouldStop :: bool
  sub_handlers :: "bytes \<rightharpoonup> 'h option"
  sub_partial :: "u32 \<rightharpoonup> PartialMessage"
  sub_threadJoinable :: bool

type_synonym 'h deliveries = "('h \<times> bytes \<times> bytes) list"

definition make_subscriber :: "bytes \<Rightarrow> u16 \<Rightarrow> int \<Rightarrow> bytes \<Rightarrow> 'h HBSubscriber" where
  "make_subscriber name port timeoutMs interfaceAddr =
     \<lparr>sub_name = name, sub_interfaceAddr = interfaceAddr, sub_port = port,
      sub_timeoutMs = timeoutMs, sub_socket = -1, sub_running = False, sub_shouldStop = False,
      sub_handlers = Map.empty, sub_partial = Map.empty, sub_threadJoinable = False\<rparr>"

definition subscribe :: "'h HBSubscriber \<Rightarrow> bytes \<Rightarrow> 'h option \<Rightarrow> 'h HBSubscriber" where
  "subscribe sub topic handler =
    (let namespacedTopic = sub_name sub @ [0x2F] @ topic
     in sub\<lparr>sub_handlers := (sub_handlers sub)(namespacedTopic \<mapsto> handler)\<rparr>)"

section \<open>start, stop\<close>

record start_env =
  env_socket :: int
  env_bind_ok :: bool
  env_group_ok :: bool
  env_interface_ok :: bool
  env_join_ok :: bool

definition start :: "start_env \<Rightarrow> 'h HBSubscriber \<Rightarrow> int set \<Rightarrow> (bool \<times> 'h HBSubscriber \<times> int set) outcome" where
  "start env sub fds =
    (if sub_running sub then Inr (True, sub, fds)
     else
       let sub = sub\<lparr>sub_socket := env_socket env\<rparr>
       in if sub_socket sub < 0 then Inr (False, sub, fds)
          else
            let fds = insert (sub_socket sub) fds;
                failed = (sub\<lparr>sub_socket := -1\<rparr>, fds - {sub_socket sub})
            in if \<not> env_bind_ok env then Inr (False, failed)
               else if \<not> env_group_ok env then Inr (False, failed)
               else if sub_interfaceAddr sub \<noteq> [] \<and> \<not> env_interface_ok env then Inr (False, failed)
               else if \<not> env_join_ok env then Inr (False, failed)
               else
                 let sub = sub\<lparr>sub_shouldStop := False, sub_running := True\<rparr>
                 in if sub_threadJoinable sub then Inl ThreadTerminate
                    else Inr (True, sub\<lparr>sub_threadJoinable := True\<rparr>, fds))"

definition stop :: "'h HBSubscriber \<Rightarrow> 'h HBSubscriber" where
  "stop sub =
    (if \<not> sub_running sub then sub
     else
       let sub = sub\<lparr>sub_shouldStop := True, sub_running := False\<rparr>
       in if sub_threadJoinable sub then sub\<lparr>sub_threadJoinable := False\<rparr> else sub)"

definition destroy_subscriber :: "'h HBSubscriber \<Rightarrow> int set \<Rightarrow> int set" where
  "destroy_subscriber sub fds =
    (let sub = stop sub in if sub_socket sub \<ge> 0 then fds - {sub_socket sub} else fds)"

section \<open>Reassembly\<close>

definition deliverMessage :: "'h HBSubscriber \<Rightarrow> bytes \<Rightarrow> bytes \<Rightarrow> 'h deliveries" where
  "deliverMessage sub topic payload =
    (case sub_handlers sub topic of
       Some (Some handler) \<Rightarrow> [(handler, topic, payload)]
     | _ \<Rightarrow> [])"

text \<open>A \<open>std::string\<close> made of the \<open>n\<close> bytes at a position of the datagram.\<close>

definition string_at :: "bytes \<Rightarrow> nat \<Rightarrow> nat \<Rightarrow> bytes outcome" where
  "string_at data pos n =
     (if pos + n \<le> length data then Inr (take n (drop pos data)) else Inl OutOfBounds)"

definition empty_partial :: PartialMessage where
  "empty_partial = \<lparr>pm_topic = [], pm_fragments = [], pm_received = {},
     pm_totalFragments = 0, pm_firstFragmentTime = 0\<rparr>"

definition read_header :: "ByteOrder \<Rightarrow> bytes \<Rightarrow> (u32 \<times> u16 \<times> u16 \<times> u16) outcome" where
  "read_header host data =
     obind (readWord host data) (\<lambda>messageId.
     obind (readI16 host (drop 4 data)) (\<lambda>fragNum.
     obind (readI16 host (drop 6 data)) (\<lambda>totalFrags.
     obind (readI16 host (drop 8 data)) (\<lambda>topicLen.
       Inr (messageId, fragNum, totalFrags, topicLen)))))"

definition set_partial :: "'h HBSubscriber \<Rightarrow> u32 \<Rightarrow> PartialMessage option \<Rightarrow> 'h HBSubscriber" where
  "set_partial sub messageId p = sub\<lparr>sub_partial := (sub_partial sub)(messageId := p)\<rparr>"

text \<open>The content of the fragment into the partial message.\<close>

definition store_fragment ::
  "bytes \<Rightarrow> nat \<Rightarrow> u16 \<Rightarrow> u16 \<Rightarrow> PartialMessage \<Rightarrow> PartialMessage outcome" where
  "store_fragment data payloadLen fragNum topicLen partial =
    (if fragNum = 0 then
       obind (string_at data 12 (unat topicLen)) (\<lambda>topic.
       obind (string_at data (12 + unat topicLen) (payloadLen - unat topicLen)) (\<lambda>body.
       obind (store (pm_fragments partial) 0 body) (\<lambda>fragments.
         Inr (partial\<lparr>pm_topic := topic, pm_fragments := fragments\<rparr>))))
     else
       obind (string_at data 12 payloadLen) (\<lambda>body.
       obind (store (pm_fragments partial) (unat fragNum) body) (\<lambda>fragments.
         Inr (partial\<lparr>pm_fragments := fragments\<rparr>))))"

definition processFragment ::
  "ByteOrder \<Rightarrow> int \<Rightarrow> 'h HBSubscriber \<Rightarrow> bytes \<Rightarrow> nat \<Rightarrow> ('h HBSubscriber \<times> 'h deliveries) outcome" where
  "processFragment host now sub data len =
    (if len < 12 then Inr (sub, [])
     else obind (read_header host data) (\<lambda>(messageId, fragNum, totalFrags, topicLen).
       let payloadLen = len - 12;
           partial = (case sub_partial sub messageId of Some p \<Rightarrow> p | None \<Rightarrow> empty_partial);
           partial = (if pm_fragments partial = []
                      then partial\<lparr>pm_totalFragments := totalFrags,
                                   pm_fragments := replicate (unat totalFrags) [],
                                   pm_firstFragmentTime := now\<rparr>
                      else partial)
       in if pm_totalFragments partial \<noteq> totalFrags then Inr (set_partial sub messageId None, [])
          else if fragNum \<in> pm_received partial then Inr (set_partial sub messageId (Some partial), [])
          else if fragNum = 0 \<and> unat topicLen > payloadLen then Inr (set_partial sub messageId None, [])
          else obind (store_fragment data payloadLen fragNum topicLen partial) (\<lambda>partial.
            let partial = partial\<lparr>pm_received := insert fragNum (pm_received partial)\<rparr>
            in if card (pm_received partial) = unat totalFrags
               then
                 let fullPayload = concat (pm_fragments partial); topic = pm_topic partial;
                     sub = set_partial sub messageId None
                 in Inr (sub, deliverMessage sub topic fullPayload)
               else Inr (set_partial sub messageId (Some partial), []))))"

section \<open>The receive thread\<close>

definition stale :: "int \<Rightarrow> int \<Rightarrow> PartialMessage \<Rightarrow> bool" where
  "stale now timeoutMs p \<longleftrightarrow> (now - pm_firstFragmentTime p) div 1000000 > timeoutMs"

definition cleanupStaleMessages :: "int \<Rightarrow> 'h HBSubscriber \<Rightarrow> 'h HBSubscriber" where
  "cleanupStaleMessages now sub =
     sub\<lparr>sub_partial := (\<lambda>k. case sub_partial sub k of
            Some p \<Rightarrow> if stale now (sub_timeoutMs sub) p then None else Some p
          | None \<Rightarrow> None)\<rparr>"

datatype net_event =
    PollFailed
  | PollTimeout int
  | RecvFailed
  | Received bytes int
  | StopRequested

text \<open>One turn of the loop: the subscriber and the time of the last clean-up.\<close>

fun receive_step ::
  "ByteOrder \<Rightarrow> net_event \<Rightarrow> 'h HBSubscriber \<times> int \<Rightarrow> (('h HBSubscriber \<times> int) \<times> 'h deliveries) outcome" where
  "receive_step host PollFailed (sub, lastCleanup) = Inr ((sub, lastCleanup), [])"
| "receive_step host (PollTimeout now) (sub, lastCleanup) =
     (if (now - lastCleanup) div 1000000 > 500
      then Inr ((cleanupStaleMessages now sub, now), []) else Inr ((sub, lastCleanup), []))"
| "receive_step host RecvFailed (sub, lastCleanup) = Inr ((sub, lastCleanup), [])"
| "receive_step host (Received data now) (sub, lastCleanup) =
     (if length data \<ge> 12
      then obind (processFragment host now sub data (length data)) (\<lambda>(sub, ds). Inr ((sub, lastCleanup), ds))
      else Inr ((sub, lastCleanup), []))"
| "receive_step host StopRequested (sub, lastCleanup) =
     Inr ((sub\<lparr>sub_shouldStop := True, sub_running := False\<rparr>, lastCleanup), [])"

fun receiveLoop ::
  "ByteOrder \<Rightarrow> net_event list \<Rightarrow> 'h HBSubscriber \<times> int \<Rightarrow> (('h HBSubscriber \<times> int) \<times> 'h deliveries) outcome" where
  "receiveLoop host [] s = Inr (s, [])"
| "receiveLoop host (e # es) s =
     (if sub_running (fst s) \<and> \<not> sub_shouldStop (fst s) then
        obind (receive_step host e s) (\<lambda>(s, ds).
        obind (receiveLoop host es s) (\<lambda>(s, ds'). Inr (s, ds @ ds')))
      else Inr (s, []))"

section \<open>One message at a time\<close>

text \<open>
  What a datagram does to the entry of its own message id: the new entry, and the message to
  deliver if it is complete.  The subscriber is a family of these machines, one per id.
\<close>

definition react ::
  "int \<Rightarrow> bytes \<Rightarrow> nat \<Rightarrow> u16 \<Rightarrow> u16 \<Rightarrow> u16 \<Rightarrow> PartialMessage option \<Rightarrow>
   (PartialMessage option \<times> (bytes \<times> bytes) option) outcome" where
  "react now data len fragNum totalFrags topicLen entry =
    (let partial = (case entry of Some p \<Rightarrow> p | None \<Rightarrow> empty_partial);
         partial = (if pm_fragments partial = []
                    then partial\<lparr>pm_totalFragments := totalFrags,
                                 pm_fragments := replicate (unat totalFrags) [],
                                 pm_firstFragmentTime := now\<rparr>
                    else partial)
     in if pm_totalFragments partial \<noteq> totalFrags then Inr (None, None)
        else if fragNum \<in> pm_received partial then Inr (Some partial, None)
        else if fragNum = 0 \<and> unat topicLen > len - 12 then Inr (None, None)
        else obind (store_fragment data (len - 12) fragNum topicLen partial) (\<lambda>partial.
          let partial = partial\<lparr>pm_received := insert fragNum (pm_received partial)\<rparr>
          in if card (pm_received partial) = unat totalFrags
             then Inr (None, Some (pm_topic partial, concat (pm_fragments partial)))
             else Inr (Some partial, None)))"

definition delivery :: "'h HBSubscriber \<Rightarrow> (bytes \<times> bytes) option \<Rightarrow> 'h deliveries" where
  "delivery sub m = (case m of None \<Rightarrow> [] | Some (topic, payload) \<Rightarrow> deliverMessage sub topic payload)"

lemma delivery_simps [simp]:
  "delivery sub None = []" "delivery sub (Some (topic, payload)) = deliverMessage sub topic payload"
  by (simp_all add: delivery_def)

lemma set_partial_fields [simp]:
  "sub_partial (set_partial sub k p) = (sub_partial sub)(k := p)"
  "sub_handlers (set_partial sub k p) = sub_handlers sub"
  "sub_running (set_partial sub k p) = sub_running sub"
  "sub_shouldStop (set_partial sub k p) = sub_shouldStop sub"
  by (simp_all add: set_partial_def)

lemma deliverMessage_set_partial [simp]:
  "deliverMessage (set_partial sub k p) topic payload = deliverMessage sub topic payload"
  by (simp add: deliverMessage_def)

lemma processFragment_react:
  assumes "12 \<le> len" and "read_header host data = Inr (messageId, fragNum, totalFrags, topicLen)"
  shows "processFragment host now sub data len =
    obind (react now data len fragNum totalFrags topicLen (sub_partial sub messageId)) (\<lambda>(p, m).
      Inr (set_partial sub messageId p, delivery sub m))"
proof -
  let ?p0 = "case sub_partial sub messageId of Some p \<Rightarrow> p | None \<Rightarrow> empty_partial"
  let ?p = "if pm_fragments ?p0 = [] then ?p0\<lparr>pm_totalFragments := totalFrags,
      pm_fragments := replicate (unat totalFrags) [], pm_firstFragmentTime := now\<rparr> else ?p0"
  show ?thesis
    using assms
    by (cases "store_fragment data (len - 12) fragNum topicLen ?p")
      (simp_all add: processFragment_def react_def Let_def)
qed

lemma processFragment_short: "len < 12 \<Longrightarrow> processFragment host now sub data len = Inr (sub, [])"
  by (simp add: processFragment_def)

lemma read_header_total:
  assumes "12 \<le> length data"
  shows "\<exists>messageId fragNum totalFrags topicLen.
    read_header host data = Inr (messageId, fragNum, totalFrags, topicLen)"
proof -
  have "safe (readWord host data)" by (rule word32.rd_long) (use assms in simp)
  moreover have "safe (readI16 host (drop 4 data))" "safe (readI16 host (drop 6 data))"
    "safe (readI16 host (drop 8 data))"
    by (rule word16.rd_long; use assms in simp)+
  ultimately show ?thesis by (auto simp: read_header_def safe_iff_ex)
qed

section \<open>Well-formed reassembly state\<close>

definition wf_partial :: "PartialMessage \<Rightarrow> bool" where
  "wf_partial p \<longleftrightarrow>
     0 < unat (pm_totalFragments p) \<and> length (pm_fragments p) = unat (pm_totalFragments p) \<and>
     (\<forall>v \<in> pm_received p. v < pm_totalFragments p) \<and>
     card (pm_received p) < unat (pm_totalFragments p)"

definition wf_sub :: "'h HBSubscriber \<Rightarrow> bool" where
  "wf_sub sub \<longleftrightarrow> (\<forall>k p. sub_partial sub k = Some p \<longrightarrow> wf_partial p)"

lemma received_card: "\<forall>v \<in> (R :: u16 set). v < t \<Longrightarrow> card R \<le> unat t"
proof -
  assume "\<forall>v \<in> R. v < t"
  then have "unat ` R \<subseteq> {..<unat t}" by (auto simp: word_less_nat_alt)
  then have "card (unat ` R) \<le> unat t" by (metis card_lessThan card_mono finite_lessThan)
  moreover have "inj_on unat R" by (rule inj_onI) (simp add: word_unat_eq_iff)
  ultimately show ?thesis by (simp add: card_image)
qed

lemma store_fragment_safe:
  assumes "len \<le> length data" "12 \<le> len" and "fragNum = 0 \<longrightarrow> unat topicLen \<le> len - 12"
  shows "store_fragment data (len - 12) fragNum topicLen p =
    (if unat fragNum < length (pm_fragments p)
     then Inr (p\<lparr>pm_topic := (if fragNum = 0 then take (unat topicLen) (drop 12 data) else pm_topic p),
                 pm_fragments := (pm_fragments p)[unat fragNum :=
                   take (len - 12 - (if fragNum = 0 then unat topicLen else 0))
                     (drop (12 + (if fragNum = 0 then unat topicLen else 0)) data)]\<rparr>)
     else Inl OutOfBounds)"
  using assms by (cases "fragNum = 0") (auto simp: store_fragment_def string_at_def store_def)

text \<open>The entry that a datagram meets, after the first-fragment initialisation.\<close>

definition met :: "int \<Rightarrow> u16 \<Rightarrow> PartialMessage option \<Rightarrow> PartialMessage" where
  "met now totalFrags entry =
    (let partial = (case entry of Some p \<Rightarrow> p | None \<Rightarrow> empty_partial)
     in if pm_fragments partial = []
        then partial\<lparr>pm_totalFragments := totalFrags,
                     pm_fragments := replicate (unat totalFrags) [], pm_firstFragmentTime := now\<rparr>
        else partial)"

lemma met_None: "met now t None = \<lparr>pm_topic = [], pm_fragments = replicate (unat t) [], pm_received = {},
    pm_totalFragments = t, pm_firstFragmentTime = now\<rparr>"
  by (simp add: met_def empty_partial_def)

lemma met_Some: "wf_partial p \<Longrightarrow> met now t (Some p) = p"
  by (auto simp: met_def wf_partial_def)

lemma react_met:
  "react now data len fragNum totalFrags topicLen entry =
    (let partial = met now totalFrags entry
     in if pm_totalFragments partial \<noteq> totalFrags then Inr (None, None)
        else if fragNum \<in> pm_received partial then Inr (Some partial, None)
        else if fragNum = 0 \<and> unat topicLen > len - 12 then Inr (None, None)
        else obind (store_fragment data (len - 12) fragNum topicLen partial) (\<lambda>partial.
          let partial = partial\<lparr>pm_received := insert fragNum (pm_received partial)\<rparr>
          in if card (pm_received partial) = unat totalFrags
             then Inr (None, Some (pm_topic partial, concat (pm_fragments partial)))
             else Inr (Some partial, None)))"
  by (simp add: react_def met_def Let_def)

lemma react_fault_iff:
  assumes len: "len \<le> length data" "12 \<le> len" and wf: "\<forall>p. entry = Some p \<longrightarrow> wf_partial p"
  shows "react now data len fragNum totalFrags topicLen entry = Inl e \<longleftrightarrow>
    e = OutOfBounds \<and> totalFrags \<le> fragNum \<and> \<not> (fragNum = 0 \<and> unat topicLen > len - 12) \<and>
    (\<forall>p. entry = Some p \<longrightarrow> pm_totalFragments p = totalFrags)"
proof -
  let ?m = "met now totalFrags entry"
  have l: "length (pm_fragments ?m) = unat (pm_totalFragments ?m)"
    "\<forall>v \<in> pm_received ?m. v < pm_totalFragments ?m"
    "pm_totalFragments ?m = totalFrags \<longleftrightarrow> (\<forall>p. entry = Some p \<longrightarrow> pm_totalFragments p = totalFrags)"
    using wf by (cases entry; auto simp: met_None met_Some; auto simp: wf_partial_def)+
  show ?thesis
  proof (cases "fragNum = 0 \<and> unat topicLen > len - 12")
    case False
    then have s: "store_fragment data (len - 12) fragNum topicLen ?m = Inl OutOfBounds \<longleftrightarrow>
        pm_totalFragments ?m \<le> fragNum"
      "store_fragment data (len - 12) fragNum topicLen ?m \<noteq> Inl f \<or> f = OutOfBounds" for f
      using store_fragment_safe [OF len, of fragNum topicLen ?m] l(1)
      by (auto simp: word_le_nat_alt not_less)
    show ?thesis
      unfolding react_met Let_def using False s l(2,3)
      by (cases "store_fragment data (len - 12) fragNum topicLen ?m") (auto simp: not_le)
  qed (auto simp: react_met Let_def)
qed

lemma react_wf:
  assumes len: "len \<le> length data" "12 \<le> len" and wf: "\<forall>p. entry = Some p \<longrightarrow> wf_partial p"
    and r: "react now data len fragNum totalFrags topicLen entry = Inr (Some p', m)"
  shows "wf_partial p'"
proof -
  let ?m = "met now totalFrags entry"
  have t: "pm_totalFragments ?m = totalFrags" and tl: "\<not> (fragNum = 0 \<and> unat topicLen > len - 12) \<or> fragNum \<in> pm_received ?m"
    using r by (auto simp: react_met Let_def split: if_splits)
  have l: "length (pm_fragments ?m) = unat totalFrags" "\<forall>v \<in> pm_received ?m. v < totalFrags"
    "pm_received ?m \<noteq> {} \<longrightarrow> wf_partial ?m"
    using wf t by (cases entry; auto simp: met_None met_Some; auto simp: wf_partial_def)+
  show ?thesis
  proof (cases "fragNum \<in> pm_received ?m")
    case True
    then show ?thesis using r t l(3) by (auto simp: react_met Let_def split: if_splits)
  next
    case False
    then obtain p where p: "store_fragment data (len - 12) fragNum topicLen ?m = Inr p"
      and c: "card (insert fragNum (pm_received p)) \<noteq> unat totalFrags"
      and p': "p' = p\<lparr>pm_received := insert fragNum (pm_received p)\<rparr>"
      using r t tl by (auto simp: react_met Let_def obind_eq_Inr_iff split: if_splits)
    have f: "unat fragNum < unat totalFrags" and pr: "pm_received p = pm_received ?m"
      "pm_totalFragments p = totalFrags" "length (pm_fragments p) = unat totalFrags"
      using p store_fragment_safe [OF len, of fragNum topicLen ?m] tl False l(1) t
      by (auto split: if_splits)
    have R: "\<forall>v \<in> insert fragNum (pm_received p). v < totalFrags"
      using l(2) f pr(1) by (auto simp: word_less_nat_alt)
    then have "card (insert fragNum (pm_received p)) < unat totalFrags"
      using received_card [OF R] c by linarith
    then show ?thesis using f R pr by (auto simp: p' wf_partial_def)
  qed
qed

lemma processFragment_wf:
  assumes "wf_sub sub" and "len \<le> length data" and "processFragment host now sub data len = Inr (sub', ds)"
  shows "wf_sub sub'"
proof (cases "len < 12")
  case False
  then have l: "12 \<le> len" "12 \<le> length data" using assms(2) by simp_all
  obtain k fn tot tl where h: "read_header host data = Inr (k, fn, tot, tl)"
    using read_header_total [OF l(2)] by blast
  obtain p m where r: "react now data len fn tot tl (sub_partial sub k) = Inr (p, m)"
    and s: "sub' = set_partial sub k p"
    using assms(3) by (auto simp: processFragment_react [OF l(1) h] obind_eq_Inr_iff)
  have "\<forall>q. sub_partial sub k = Some q \<longrightarrow> wf_partial q" using assms(1) by (simp add: wf_sub_def)
  then have "wf_partial q" if "p = Some q" for q
    using react_wf [OF assms(2) l(1)] r that by blast
  then show ?thesis using assms(1) by (auto simp: wf_sub_def s)
qed (use assms in \<open>simp add: processFragment_short\<close>)

section \<open>A run of datagrams\<close>

fun process_all ::
  "ByteOrder \<Rightarrow> (bytes \<times> int) list \<Rightarrow> 'h HBSubscriber \<Rightarrow> ('h HBSubscriber \<times> 'h deliveries) outcome" where
  "process_all host [] sub = Inr (sub, [])"
| "process_all host ((data, now) # xs) sub =
     obind (processFragment host now sub data (length data)) (\<lambda>(sub, ds).
     obind (process_all host xs sub) (\<lambda>(sub, ds'). Inr (sub, ds @ ds')))"

lemma process_all_append:
  "process_all host (xs @ ys) sub =
     obind (process_all host xs sub) (\<lambda>(sub, ds). obind (process_all host ys sub) (\<lambda>(sub, ds').
       Inr (sub, ds @ ds')))"
proof (induction xs arbitrary: sub)
  case Nil
  show ?case by (cases "process_all host ys sub") auto
next
  case (Cons x xs)
  obtain d t where x: "x = (d, t)" by fastforce
  show ?case
  proof (cases "processFragment host t sub d (length d)")
    case (Inr a)
    obtain sub1 ds1 where a: "a = (sub1, ds1)" by fastforce
    show ?thesis
    proof (cases "process_all host xs sub1")
      case (Inr b)
      obtain sub2 ds2 where b: "b = (sub2, ds2)" by fastforce
      show ?thesis
        using Cons.IH [of sub1] Inr a b x \<open>processFragment host t sub d (length d) = Inr a\<close>
        by (cases "process_all host ys sub2") auto
    qed (use Cons.IH [of sub1] a x Inr in simp)
  qed (simp add: x)
qed

lemma processFragment_flags:
  assumes "processFragment host now sub data len = Inr (sub', ds)" and "len \<le> length data"
  shows "sub_running sub' = sub_running sub" "sub_shouldStop sub' = sub_shouldStop sub"
    "sub_handlers sub' = sub_handlers sub"
proof -
  have "\<exists>k p. sub' = sub \<or> sub' = set_partial sub k p"
  proof (cases "len < 12")
    case False
    then have l: "12 \<le> len" "12 \<le> length data" using assms(2) by simp_all
    obtain k fn tot tl where h: "read_header host data = Inr (k, fn, tot, tl)"
      using read_header_total [OF l(2)] by blast
    show ?thesis using assms(1) by (auto simp: processFragment_react [OF l(1) h] obind_eq_Inr_iff)
  qed (use assms(1) in \<open>simp add: processFragment_short\<close>)
  then show "sub_running sub' = sub_running sub" "sub_shouldStop sub' = sub_shouldStop sub"
    "sub_handlers sub' = sub_handlers sub" by auto
qed

text \<open>The receive thread on a run of datagrams, when nobody stops it.\<close>

lemma receiveLoop_process_all:
  assumes "sub_running sub" "\<not> sub_shouldStop sub"
  shows "receiveLoop host (map (\<lambda>(d, t). Received d t) xs) (sub, lc) =
    obind (process_all host xs sub) (\<lambda>(sub, ds). Inr ((sub, lc), ds))"
  using assms
proof (induction xs arbitrary: sub)
  case (Cons x xs)
  obtain d t where x: "x = (d, t)" by fastforce
  have s: "receive_step host (Received d t) (sub, lc) =
      obind (processFragment host t sub d (length d)) (\<lambda>(sub, ds). Inr ((sub, lc), ds))"
    by (simp add: processFragment_short)
  show ?case
  proof (cases "processFragment host t sub d (length d)")
    case (Inr a)
    obtain sub1 ds1 where a: "a = (sub1, ds1)" by fastforce
    have "receiveLoop host (map (\<lambda>(d, t). Received d t) xs) (sub1, lc) =
        obind (process_all host xs sub1) (\<lambda>(sub, ds). Inr ((sub, lc), ds))"
      using Cons.IH [of sub1] Cons.prems processFragment_flags [OF Inr [unfolded a] order_refl] by simp
    then show ?thesis
      using Cons.prems Inr a s x by (cases "process_all host xs sub1") (auto simp del: receive_step.simps)
  qed (use Cons.prems s x in \<open>simp del: receive_step.simps\<close>)
qed simp

section \<open>Datagrams of different messages do not interfere\<close>

definition same_except :: "u32 \<Rightarrow> 'h HBSubscriber \<Rightarrow> 'h HBSubscriber \<Rightarrow> bool" where
  "same_except k sub sub2 \<longleftrightarrow> sub2 = set_partial sub k (sub_partial sub2 k)"

definition id_of :: "ByteOrder \<Rightarrow> bytes \<Rightarrow> u32 option" where
  "id_of host data = (if 12 \<le> length data then
     (case read_header host data of Inr (k, _) \<Rightarrow> Some k | Inl _ \<Rightarrow> None) else None)"

lemma set_partial_twice:
  "set_partial (set_partial sub k p) k q = set_partial sub k q"
  "k \<noteq> j \<Longrightarrow> set_partial (set_partial sub k p) j q = set_partial (set_partial sub j q) k p"
  by (simp_all add: set_partial_def fun_upd_twist)

lemma same_except_refl [simp]: "same_except k sub sub"
  by (simp add: same_except_def set_partial_def)

lemma same_except_set: "same_except k sub sub2 \<Longrightarrow> same_except k sub (set_partial sub2 k p)"
  unfolding same_except_def by (metis set_partial_twice(1) set_partial_fields(1) fun_upd_same)

lemma set_partial_none: "sub_partial sub k = None \<Longrightarrow> set_partial sub k None = sub"
  by (simp add: set_partial_def fun_upd_idem)

lemma same_except_none: "same_except k sub sub2 \<Longrightarrow> sub_partial sub k = None \<Longrightarrow> set_partial sub2 k None = sub"
  unfolding same_except_def using set_partial_twice(1) [of sub k _ None] by (metis set_partial_none)

lemma same_except_handlers: "same_except k sub sub2 \<Longrightarrow> sub_handlers sub2 = sub_handlers sub"
  unfolding same_except_def by (metis set_partial_fields(2))

lemma delivery_same_except: "same_except k sub sub2 \<Longrightarrow> delivery sub2 m = delivery sub m"
  by (cases m) (auto simp: deliverMessage_def dest: same_except_handlers)

lemma processFragment_other:
  assumes "same_except k sub sub2" and "id_of host data \<noteq> Some k"
    and "processFragment host now sub data (length data) = Inr (sub', ds)"
  shows "\<exists>sub2'. processFragment host now sub2 data (length data) = Inr (sub2', ds) \<and>
    same_except k sub' sub2' \<and> sub_partial sub2' k = sub_partial sub2 k"
proof (cases "length data < 12")
  case False
  then have l: "12 \<le> length data" by simp
  obtain j fn tot tl where h: "read_header host data = Inr (j, fn, tot, tl)"
    using read_header_total [OF l] by blast
  have jk: "j \<noteq> k" using assms(2) l h by (simp add: id_of_def)
  have e: "sub_partial sub2 j = sub_partial sub j"
    using assms(1) jk unfolding same_except_def by (metis set_partial_fields(1) fun_upd_other)
  obtain p m where r: "react now data (length data) fn tot tl (sub_partial sub j) = Inr (p, m)"
    and s: "sub' = set_partial sub j p" "ds = delivery sub m"
    using assms(3) by (auto simp: processFragment_react [OF l h] obind_eq_Inr_iff)
  have "same_except k (set_partial sub j p) (set_partial sub2 j p)"
    using assms(1) jk unfolding same_except_def
    by (metis set_partial_twice(2) set_partial_fields(1) fun_upd_other)
  then show ?thesis
    using r s jk delivery_same_except [OF assms(1)] by (simp add: processFragment_react [OF l h] e)
qed (use assms in \<open>auto simp: processFragment_short\<close>)

section \<open>The fragments of one message\<close>

lemma read_header_fragment:
  "read_header host (fragment_of host M topic serialized messageId n i) =
     Inr (messageId, of_nat i, of_nat n, if i = 0 then of_nat (length topic) else 0)"
proof -
  let ?h = "fragment_header messageId n (length topic) i"
  let ?r = "(if i = 0 then topic else []) @ piece M (length topic) serialized i"
  have d: "drop 4 (fragment_of host M topic serialized messageId n i) =
      i16Bytes host (of_nat i) @ (i16Bytes host (of_nat n) @ i16Bytes host (fh_topicLen ?h) @
        i16Bytes host 0 @ ?r)"
    "drop 6 (fragment_of host M topic serialized messageId n i) =
      i16Bytes host (of_nat n) @ (i16Bytes host (fh_topicLen ?h) @ i16Bytes host 0 @ ?r)"
    "drop 8 (fragment_of host M topic serialized messageId n i) =
      i16Bytes host (fh_topicLen ?h) @ (i16Bytes host 0 @ ?r)"
    by (simp_all add: fragment_of_def header_bytes_def fragment_header_def)
  have w: "fragment_of host M topic serialized messageId n i = wordBytes host messageId @
      (i16Bytes host (of_nat i) @ i16Bytes host (of_nat n) @ i16Bytes host (fh_topicLen ?h) @
        i16Bytes host 0 @ ?r)"
    by (simp add: fragment_of_def header_bytes_def fragment_header_def)
  have "readWord host (fragment_of host M topic serialized messageId n i) = Inr messageId"
    by (subst w) (rule word32.rd_enc)
  then show ?thesis
    by (simp add: read_header_def d word16.rd_enc fragment_header_def)
qed

lemma fragment_body:
  "drop 12 (fragment_of host M topic serialized messageId n i) =
     (if i = 0 then topic else []) @ piece M (length topic) serialized i"
  "12 \<le> length (fragment_of host M topic serialized messageId n i)"
  by (simp_all add: fragment_of_def)

text \<open>The entry of a message of which the fragments \<open>S\<close> have arrived, the first one at \<open>t\<close>.\<close>

definition gathered :: "nat \<Rightarrow> bytes \<Rightarrow> bytes \<Rightarrow> nat \<Rightarrow> nat set \<Rightarrow> int \<Rightarrow> PartialMessage" where
  "gathered M topic serialized n S t =
     \<lparr>pm_topic = (if 0 \<in> S then topic else []),
      pm_fragments = map (\<lambda>i. if i \<in> S then piece M (length topic) serialized i else []) [0..<n],
      pm_received = of_nat ` S, pm_totalFragments = of_nat n, pm_firstFragmentTime = t\<rparr>"

lemma of_nat_u16_eq: "a < 65536 \<Longrightarrow> b < 65536 \<Longrightarrow> (of_nat a :: u16) = of_nat b \<longleftrightarrow> a = b"
  by (simp add: word_unat_eq_iff unat_of_nat take_bit_nat_eq_self)

lemma unat_u16: "a < 65536 \<Longrightarrow> unat (of_nat a :: u16) = a"
  by (simp add: unat_of_nat take_bit_nat_eq_self)

lemma of_nat_u16_image:
  assumes "S \<subseteq> {0..<n}" "n \<le> 65535" "i < n"
  shows "(of_nat i :: u16) \<in> of_nat ` S \<longleftrightarrow> i \<in> S" and "card ((of_nat :: nat \<Rightarrow> u16) ` S) = card S"
proof -
  have b: "x < 65536" if "x \<in> S" for x using that assms(1,2) by (auto dest!: subsetD)
  show "(of_nat i :: u16) \<in> of_nat ` S \<longleftrightarrow> i \<in> S"
  proof
    assume "(of_nat i :: u16) \<in> of_nat ` S"
    then obtain x where "x \<in> S" "(of_nat i :: u16) = of_nat x" by auto
    then show "i \<in> S" using b assms(2,3) of_nat_u16_eq [of i x] by simp
  qed simp
  have "inj_on (of_nat :: nat \<Rightarrow> u16) S"
    by (rule inj_onI) (use b of_nat_u16_eq in blast)
  then show "card ((of_nat :: nat \<Rightarrow> u16) ` S) = card S" by (rule card_image)
qed

lemma met_gathered:
  assumes "0 < n" "n \<le> 65535" "S \<subset> {0..<n}"
    and "entry = (if S = {} then None else Some (gathered M topic serialized n S t))"
  shows "met now (of_nat n) entry = gathered M topic serialized n S (if S = {} then now else t)"
    and "\<forall>p. entry = Some p \<longrightarrow> wf_partial p"
proof -
  have u: "unat (of_nat n :: u16) = n" using assms(2) by (intro unat_u16) simp
  have c: "card ((of_nat :: nat \<Rightarrow> u16) ` S) < n"
  proof -
    have "card S < card {0..<n}" using assms(3) by (intro psubset_card_mono) auto
    moreover have "card ((of_nat :: nat \<Rightarrow> u16) ` S) \<le> card S"
      using assms(3) finite_subset [of S "{0..<n}"] by (intro card_image_le) auto
    ultimately show ?thesis by simp
  qed
  have w: "wf_partial (gathered M topic serialized n S t)"
    unfolding wf_partial_def
  proof (intro conjI ballI)
    fix v assume "v \<in> pm_received (gathered M topic serialized n S t)"
    then obtain x where "x \<in> S" "v = of_nat x" by (auto simp: gathered_def)
    moreover have "x < n" using \<open>x \<in> S\<close> assms(3) by auto
    ultimately show "v < pm_totalFragments (gathered M topic serialized n S t)"
      using assms(2) u by (simp add: gathered_def word_less_nat_alt unat_u16)
  qed (use assms(1) u c in \<open>simp_all add: gathered_def\<close>)
  then show "\<forall>p. entry = Some p \<longrightarrow> wf_partial p" using assms(4) by simp
  show "met now (of_nat n) entry = gathered M topic serialized n S (if S = {} then now else t)"
  proof (cases "S = {}")
    case True
    then show ?thesis
      by (simp add: assms(4) met_None gathered_def u map_replicate_const)
  qed (simp add: assms(4) met_Some [OF w])
qed

lemma update_upt: "i < n \<Longrightarrow> (map f [0..<n])[i := x] = map (f(i := x)) [0..<n]"
  by (rule nth_equalityI) (auto simp: nth_list_update)

lemma store_gathered:
  assumes n: "n \<le> 65535" "i < n" and T: "length topic \<le> 65535" and i: "i \<notin> S"
    and d_def: "d = fragment_of host M topic serialized messageId n i"
  shows "store_fragment d (length d - 12) (of_nat i) (if i = 0 then of_nat (length topic) else 0)
      (gathered M topic serialized n S t) =
    Inr ((gathered M topic serialized n (insert i S) t)\<lparr>pm_received := of_nat ` S\<rparr>)"
proof -
  have u: "unat (of_nat i :: u16) = i" using n by (intro unat_u16) simp
  have z: "(of_nat i :: u16) = 0 \<longleftrightarrow> i = 0" using n by (intro of_nat_u16_zero) simp
  have uT: "unat (of_nat (length topic) :: u16) = length topic" using T by (intro unat_u16) simp
  note b = fragment_body [of host M topic serialized messageId n i, folded d_def]
  have l: "length d = 12 + (if i = 0 then length topic else 0) + length (piece M (length topic) serialized i)"
    by (simp add: d_def fragment_of_def)
  have body: "take (length d - 12 - (if i = 0 then length topic else 0))
      (drop (12 + (if i = 0 then length topic else 0)) d) = piece M (length topic) serialized i"
  proof -
    have "drop (12 + (if i = 0 then length topic else 0)) d = drop (if i = 0 then length topic else 0) (drop 12 d)"
      by (simp add: add.commute)
    also have "\<dots> = piece M (length topic) serialized i" by (simp add: b(1))
    finally show ?thesis by (simp add: l)
  qed
  have t: "take (length topic) (drop 12 d) = topic" if "i = 0" by (simp add: b(1) that)
  have s: "unat (if i = 0 then of_nat (length topic) else 0 :: u16) = (if i = 0 then length topic else 0)"
    by (simp add: uT)
  have len: "length d \<le> length d" "12 \<le> length d" using b(2) by simp_all
  have tl: "(of_nat i :: u16) = 0 \<longrightarrow>
      unat (if i = 0 then of_nat (length topic) else 0 :: u16) \<le> length d - 12"
    by (simp add: uT l)
  have f: "(pm_fragments (gathered M topic serialized n S t))[i := piece M (length topic) serialized i] =
      pm_fragments (gathered M topic serialized n (insert i S) t)"
    using n(2) i by (auto simp: gathered_def update_upt intro!: map_cong)
  show ?thesis
    using store_fragment_safe [OF len tl, of "gathered M topic serialized n S t", unfolded u s z]
      n(2) t body f by (cases "i = 0") (auto simp: gathered_def)
qed

lemma gathered_complete_iff:
  assumes "n \<le> 65535" and "S \<subseteq> {0..<n}" and "i < n"
  shows "card (pm_received (gathered M topic serialized n S t)) = n \<longleftrightarrow> S = {0..<n}"
proof -
  have "card (pm_received (gathered M topic serialized n S t)) = card S"
    using of_nat_u16_image(2) [OF assms(2,1,3)] by (simp add: gathered_def)
  then show ?thesis
    using assms(2) by (metis card_atLeastLessThan card_subset_eq finite_atLeastLessThan minus_nat.diff_0)
qed

lemma react_gathered:
  assumes n: "0 < n" "n \<le> 65535" "i < n" and T: "length topic \<le> 65535" and S: "S \<subset> {0..<n}"
    and e: "entry = (if S = {} then None else Some (gathered M topic serialized n S t))"
    and d_def: "d = fragment_of host M topic serialized messageId n i"
  shows "react now d (length d) (of_nat i) (of_nat n) (if i = 0 then of_nat (length topic) else 0) entry =
    Inr (if i \<in> S then (entry, None)
         else if insert i S = {0..<n}
              then (None, Some (topic, concat (map (piece M (length topic) serialized) [0..<n])))
              else (Some (gathered M topic serialized n (insert i S) (if S = {} then now else t)), None))"
proof -
  let ?t = "if S = {} then now else t"
  let ?tl = "if i = 0 then of_nat (length topic) else 0 :: u16"
  note m = met_gathered(1) [OF n(1,2) S e, of now]
  have un: "unat (of_nat n :: u16) = n" using n(2) by (intro unat_u16) simp
  have tot: "pm_totalFragments (gathered M topic serialized n S ?t) = of_nat n" by (simp add: gathered_def)
  have rec: "(of_nat i \<in> pm_received (gathered M topic serialized n S ?t)) = (i \<in> S)"
    using of_nat_u16_image(1) [OF _ n(2,3), of S] S by (simp add: gathered_def)
  have uT: "unat ?tl = (if i = 0 then length topic else 0)" using T unat_u16 [of "length topic"] by simp
  have ok: "\<not> ((of_nat i :: u16) = 0 \<and> unat ?tl > length d - 12)"
    unfolding uT by (simp add: d_def fragment_of_def)
  show ?thesis
  proof (cases "i \<in> S")
    case True
    then have "S \<noteq> {}" by auto
    then show ?thesis unfolding react_met Let_def m tot rec using True e by simp
  next
    case False
    let ?p = "gathered M topic serialized n (insert i S) ?t"
    have st: "store_fragment d (length d - 12) (of_nat i) ?tl (gathered M topic serialized n S ?t) =
        Inr (?p\<lparr>pm_received := of_nat ` S\<rparr>)"
      using store_gathered [OF n(2,3) T False d_def] .
    have sub: "insert i S \<subseteq> {0..<n}" using S n(3) by auto
    define P where "P = ?p"
    have c: "card (pm_received P) = n \<longleftrightarrow> insert i S = {0..<n}"
      unfolding P_def by (rule gathered_complete_iff [OF n(2) sub n(3)])
    have P: "(?p\<lparr>pm_received := of_nat ` S\<rparr>)\<lparr>pm_received := insert (of_nat i) (pm_received (?p\<lparr>pm_received := of_nat ` S\<rparr>))\<rparr> = P"
      by (simp add: P_def gathered_def)
    have fin: "concat (pm_fragments P) = concat (map (piece M (length topic) serialized) [0..<n])"
      "pm_topic P = topic" if "insert i S = {0..<n}"
      using that n(1) by (auto simp: P_def gathered_def intro!: arg_cong [of _ _ concat] map_cong)
    show ?thesis
      unfolding react_met Let_def m tot rec st obind_Inr P un c
      using False ok fin by (auto simp: P_def [symmetric])
  qed
qed

section \<open>Exactly-once reassembly\<close>

definition holds_fragments ::
  "nat \<Rightarrow> bytes \<Rightarrow> bytes \<Rightarrow> nat \<Rightarrow> u32 \<Rightarrow> nat set \<Rightarrow> 'h HBSubscriber \<Rightarrow> bool" where
  "holds_fragments M topic serialized n messageId S sub \<longleftrightarrow>
     (\<exists>t. sub_partial sub messageId = (if S = {} then None else Some (gathered M topic serialized n S t)))"

lemma processFragment_own:
  assumes n: "0 < n" "n \<le> 65535" "i < n" and T: "length topic \<le> 65535" and S: "S \<subset> {0..<n}"
    and h: "holds_fragments M topic serialized n messageId S sub"
    and d_def: "d = fragment_of host M topic serialized messageId n i"
  shows "\<exists>p. processFragment host now sub d (length d) =
      Inr (set_partial sub messageId p,
        if insert i S = {0..<n}
        then deliverMessage sub topic (concat (map (piece M (length topic) serialized) [0..<n])) else []) \<and>
    (if insert i S = {0..<n} then p = None
     else holds_fragments M topic serialized n messageId (insert i S) (set_partial sub messageId p))"
proof -
  obtain t where e: "sub_partial sub messageId = (if S = {} then None else Some (gathered M topic serialized n S t))"
    using h by (auto simp: holds_fragments_def)
  note r = react_gathered [OF n T S e d_def, of now]
  have p: "processFragment host now sub d (length d) =
    obind (react now d (length d) (of_nat i) (of_nat n) (if i = 0 then of_nat (length topic) else 0)
      (sub_partial sub messageId)) (\<lambda>(p, m). Inr (set_partial sub messageId p, delivery sub m))"
    unfolding d_def by (rule processFragment_react [OF fragment_body(2) read_header_fragment])
  show ?thesis
  proof (cases "i \<in> S")
    case True
    then have "insert i S = S" "S \<noteq> {}" by auto
    then show ?thesis
      using S True unfolding p r by (intro exI [of _ "sub_partial sub messageId"]) (auto simp: e holds_fragments_def)
  next
    case False
    then show ?thesis unfolding p r by (auto simp: holds_fragments_def)
  qed
qed

definition arrived :: "(nat \<Rightarrow> bytes) \<Rightarrow> nat \<Rightarrow> (bytes \<times> int) list \<Rightarrow> nat set" where
  "arrived frag n xs = {i. i < n \<and> frag i \<in> fst ` set xs}"

definition others :: "ByteOrder \<Rightarrow> u32 \<Rightarrow> (bytes \<times> int) list \<Rightarrow> (bytes \<times> int) list" where
  "others host messageId xs = filter (\<lambda>x. id_of host (fst x) \<noteq> Some messageId) xs"

lemma id_of_fragment: "id_of host (fragment_of host M topic serialized messageId n i) = Some messageId"
  using fragment_body(2) [of host M topic serialized messageId n i]
  by (simp add: id_of_def read_header_fragment)

lemma fragment_of_inject:
  assumes "i < n" "j < n" "n \<le> 65535"
    and "fragment_of host M topic serialized messageId n i = fragment_of host M topic serialized messageId n j"
  shows "i = j"
proof -
  have "read_header host (fragment_of host M topic serialized messageId n i) =
      read_header host (fragment_of host M topic serialized messageId n j)" using assms(4) by simp
  then show ?thesis using of_nat_u16_eq [of i j] assms(1-3) by (simp add: read_header_fragment)
qed

lemma arrived_snoc:
  assumes "frag = fragment_of host M topic serialized messageId n" "n \<le> 65535" "i < n"
  shows "arrived frag n (xs @ [(frag i, t)]) = insert i (arrived frag n xs)"
  using assms fragment_of_inject by (auto simp: arrived_def)

lemma arrived_snoc_other:
  assumes "frag = fragment_of host M topic serialized messageId n" "id_of host d \<noteq> Some messageId"
  shows "arrived frag n (xs @ [(d, t)]) = arrived frag n xs"
  using assms id_of_fragment by (auto simp: arrived_def)

lemma process_all_handlers:
  "process_all host xs sub = Inr (sub', ds) \<Longrightarrow> sub_handlers sub' = sub_handlers sub"
proof (induction xs arbitrary: sub ds)
  case (Cons x xs)
  obtain d t where x: "x = (d, t)" by fastforce
  obtain sub1 ds1 ds2 where "processFragment host t sub d (length d) = Inr (sub1, ds1)"
    "process_all host xs sub1 = Inr (sub', ds2)"
    using Cons.prems by (auto simp: x obind_eq_Inr_iff)
  then show ?case using Cons.IH processFragment_flags(3) by (metis order_refl)
qed simp

text \<open>
  While fragments of the message are missing, the run looks to everybody else as if they had not
  come at all.  First one more datagram, of the message and of others.
\<close>

lemma gathers_own:
  assumes n: "0 < n" "n \<le> 65535" and T: "length topic \<le> 65535"
    and frag: "frag = fragment_of host M topic serialized messageId n"
    and run: "process_all host xs sub = Inr (sub1, ds)" "same_except messageId sub2 sub1"
      "holds_fragments M topic serialized n messageId (arrived frag n xs) sub1"
    and i: "i < n" "d = frag i" and miss: "arrived frag n (xs @ [(d, t)]) \<noteq> {0..<n}"
  shows "\<exists>sub1. process_all host (xs @ [(d, t)]) sub = Inr (sub1, ds) \<and> same_except messageId sub2 sub1 \<and>
    holds_fragments M topic serialized n messageId (arrived frag n (xs @ [(d, t)])) sub1"
proof -
  let ?S = "arrived frag n xs"
  have S': "arrived frag n (xs @ [(d, t)]) = insert i ?S" using arrived_snoc [OF frag n(2) i(1)] by (simp add: i(2))
  have "?S \<subseteq> insert i ?S" "insert i ?S \<subseteq> {0..<n}" using i(1) by (auto simp: arrived_def)
  then have S: "?S \<subset> {0..<n}" using miss S' by blast
  obtain p where "processFragment host t sub1 d (length d) = Inr (set_partial sub1 messageId p, [])"
    "holds_fragments M topic serialized n messageId (insert i ?S) (set_partial sub1 messageId p)"
    using processFragment_own [OF n i(1) T S run(3) i(2) [unfolded frag], of t] miss S' by auto
  then show ?thesis
    using run S' same_except_set [OF run(2)] by (simp add: process_all_append)
qed

lemma gathers_other:
  assumes frag: "frag = fragment_of host M topic serialized messageId n"
    and run: "process_all host xs sub = Inr (sub1, ds1)" "same_except messageId sub2a sub1"
      "holds_fragments M topic serialized n messageId (arrived frag n xs) sub1"
    and other: "id_of host d \<noteq> Some messageId" "processFragment host t sub2a d (length d) = Inr (sub2, ds2)"
  shows "\<exists>sub1. process_all host (xs @ [(d, t)]) sub = Inr (sub1, ds1 @ ds2) \<and> same_except messageId sub2 sub1 \<and>
    holds_fragments M topic serialized n messageId (arrived frag n (xs @ [(d, t)])) sub1"
proof -
  from processFragment_other [OF run(2) other] obtain sub1' where
    "processFragment host t sub1 d (length d) = Inr (sub1', ds2)" "same_except messageId sub2 sub1'"
    "sub_partial sub1' messageId = sub_partial sub1 messageId" by blast
  then show ?thesis
    using run arrived_snoc_other [OF frag other(1)]
    by (simp add: process_all_append holds_fragments_def)
qed

lemma run_gathers:
  assumes n: "0 < n" "n \<le> 65535" and T: "length topic \<le> 65535"
    and frag: "frag = fragment_of host M topic serialized messageId n"
    and fresh: "sub_partial sub messageId = None"
    and "\<forall>(d, t) \<in> set xs. id_of host d = Some messageId \<longrightarrow> (\<exists>i < n. d = frag i)"
    and "process_all host (others host messageId xs) sub = Inr (sub2, ds)"
    and "arrived frag n xs \<noteq> {0..<n}"
  shows "\<exists>sub1. process_all host xs sub = Inr (sub1, ds) \<and> same_except messageId sub2 sub1 \<and>
    holds_fragments M topic serialized n messageId (arrived frag n xs) sub1"
  using assms(6-8)
proof (induction xs arbitrary: sub2 ds rule: rev_induct)
  case Nil
  have "arrived frag n [] = {}" by (simp add: arrived_def)
  then show ?case using Nil fresh by (auto simp: others_def holds_fragments_def)
next
  case (snoc x xs)
  obtain d t where x: "x = (d, t)" by fastforce
  have "arrived frag n xs \<subseteq> arrived frag n (xs @ [x])" "arrived frag n (xs @ [x]) \<subseteq> {0..<n}"
    by (auto simp: arrived_def)
  then have miss: "arrived frag n xs \<noteq> {0..<n}" using snoc.prems(3) by blast
  show ?case
  proof (cases "id_of host d = Some messageId")
    case True
    then obtain i where i: "i < n" "d = frag i" using snoc.prems(1) x by auto
    have "process_all host (others host messageId xs) sub = Inr (sub2, ds)"
      using snoc.prems(2) True by (simp add: others_def x)
    then obtain sub1 where 1: "process_all host xs sub = Inr (sub1, ds)" "same_except messageId sub2 sub1"
      "holds_fragments M topic serialized n messageId (arrived frag n xs) sub1"
      using snoc.IH [of sub2 ds] snoc.prems(1) miss by auto
    show ?thesis unfolding x by (rule gathers_own [OF n T frag 1 i]) (use snoc.prems(3) x in simp)
  next
    case False
    have o: "others host messageId (xs @ [x]) = others host messageId xs @ [(d, t)]"
      using False by (simp add: others_def x)
    obtain sub2a ds1 ds2 where 2: "process_all host (others host messageId xs) sub = Inr (sub2a, ds1)"
      "processFragment host t sub2a d (length d) = Inr (sub2, ds2)" "ds = ds1 @ ds2"
      using snoc.prems(2) by (auto simp: o process_all_append obind_eq_Inr_iff)
    then obtain sub1 where 1: "process_all host xs sub = Inr (sub1, ds1)" "same_except messageId sub2a sub1"
      "holds_fragments M topic serialized n messageId (arrived frag n xs) sub1"
      using snoc.IH [of sub2a ds1] snoc.prems(1) miss by auto
    show ?thesis unfolding x 2(3) by (rule gathers_other [OF frag 1 False 2(2)])
  qed
qed

text \<open>An entry changes only by datagrams with its id.\<close>

lemma processFragment_partial_other:
  assumes "processFragment host now sub d (length d) = Inr (sub', ds)" and "id_of host d \<noteq> Some k"
  shows "sub_partial sub' k = sub_partial sub k"
proof (cases "length d < 12")
  case False
  then have l: "12 \<le> length d" by simp
  obtain j fn tf tl where h: "read_header host d = Inr (j, fn, tf, tl)"
    using read_header_total [OF l] by blast
  then show ?thesis using assms l by (auto simp: id_of_def processFragment_react [OF l h] obind_eq_Inr_iff)
qed (use assms in \<open>simp add: processFragment_short\<close>)

lemma process_all_partial_other:
  assumes "process_all host xs sub = Inr (sub', ds)" and "\<forall>(d, t) \<in> set xs. id_of host d \<noteq> Some k"
  shows "sub_partial sub' k = sub_partial sub k"
  using assms
proof (induction xs arbitrary: sub ds)
  case (Cons x xs)
  obtain d t where x: "x = (d, t)" by fastforce
  obtain sub1 ds1 ds2 where s: "processFragment host t sub d (length d) = Inr (sub1, ds1)"
    "process_all host xs sub1 = Inr (sub', ds2)" using Cons.prems(1) by (auto simp: x obind_eq_Inr_iff)
  have "sub_partial sub1 k = sub_partial sub k"
    using processFragment_partial_other [OF s(1)] Cons.prems(2) by (simp add: x)
  then show ?case using Cons.IH [OF s(2)] Cons.prems(2) by simp
qed simp

lemma others_ids: "\<forall>(d, t) \<in> set (others host k xs). id_of host d \<noteq> Some k"
  by (auto simp: others_def)

lemma last_fragment_delivers:
  assumes n: "0 < n" "n \<le> 65535" and T: "length topic \<le> 65535"
    and frag: "frag = fragment_of host M topic serialized messageId n"
    and fresh: "sub_partial sub messageId = None"
    and own: "\<forall>(d, t) \<in> set xs. id_of host d = Some messageId \<longrightarrow> (\<exists>i < n. d = frag i)"
    and rest: "process_all host (others host messageId xs) sub = Inr (sub2, ds)"
    and last: "arrived frag n xs \<noteq> {0..<n}" "j < n" "insert j (arrived frag n xs) = {0..<n}"
    and whole: "concat (map (piece M (length topic) serialized) [0..<n]) = serialized"
  shows "process_all host (xs @ [(frag j, t)]) sub = Inr (sub2, ds @ deliverMessage sub topic serialized)"
proof -
  let ?S = "arrived frag n xs"
  obtain sub1 where 1: "process_all host xs sub = Inr (sub1, ds)" "same_except messageId sub2 sub1"
    "holds_fragments M topic serialized n messageId ?S sub1"
    using run_gathers [OF n T frag fresh own rest last(1)] by blast
  have S: "?S \<subset> {0..<n}" using last(1) by (auto simp: arrived_def)
  have fj: "frag j = fragment_of host M topic serialized messageId n j" by (simp add: frag)
  obtain p where "processFragment host t sub1 (frag j) (length (frag j)) =
      Inr (set_partial sub1 messageId p, deliverMessage sub1 topic serialized)" "p = None"
    using processFragment_own [OF n last(2) T S 1(3) fj, of t] last(3) whole by auto
  moreover have "sub_partial sub2 messageId = None"
    using process_all_partial_other [OF rest others_ids] fresh by simp
  then have "set_partial sub1 messageId None = sub2" using same_except_none [OF 1(2)] by simp
  moreover have "deliverMessage sub1 topic serialized = deliverMessage sub topic serialized"
    using process_all_handlers [OF 1(1)] by (simp add: deliverMessage_def)
  ultimately show ?thesis using 1(1) by (simp add: process_all_append)
qed

section \<open>Properties of the subscriber\<close>

text \<open>
  C30. A datagram makes the subscriber write outside its fragment vector exactly when its fragment
  number is not below its total, the total agrees with what is already known of the message, and
  the datagram is not dropped for a topic that is too long.  Nothing checks the fragment number.
\<close>

theorem processFragment_fault_iff:
  assumes "wf_sub sub" and "12 \<le> len" and "len \<le> length data"
    and "read_header host data = Inr (messageId, fragNum, totalFrags, topicLen)"
  shows "processFragment host now sub data len = Inl e \<longleftrightarrow>
    e = OutOfBounds \<and> totalFrags \<le> fragNum \<and> \<not> (fragNum = 0 \<and> unat topicLen > len - 12) \<and>
    (\<forall>p. sub_partial sub messageId = Some p \<longrightarrow> pm_totalFragments p = totalFrags)"
proof -
  have "\<forall>p. sub_partial sub messageId = Some p \<longrightarrow> wf_partial p" using assms(1) by (simp add: wf_sub_def)
  from react_fault_iff [OF assms(3,2) this] show ?thesis
    by (auto simp: processFragment_react [OF assms(2,4)] obind_eq_Inl_iff)
qed

text \<open>
  C34. Every datagram that is processed keeps the reassembly state well-formed: each entry has as
  many slots as its total, received numbers below the total, and at least one fragment missing.
\<close>

theorem processFragment_invariant:
  assumes "wf_sub sub" and "len \<le> length data" and "processFragment host now sub data len = Inr (sub', ds)"
  shows "wf_sub sub' \<and> sub_handlers sub' = sub_handlers sub"
  using processFragment_wf [OF assms] processFragment_flags(3) [OF assms(3,2)] by simp

text \<open>
  Two messages with the same id and the same number of fragments are mixed: after fragment 0
  of the one and fragment 1 of the other, the subscriber delivers, under the topic of the first,
  the beginning of the first message joined to the end of the second.
\<close>

theorem same_id_mixes:
  assumes "length topic \<le> 65535" and "sub_partial sub messageId = None"
    and "sub_handlers sub topic = Some (Some h)"
  shows "\<exists>sub'. process_all host
      [(fragment_of host M topic serialized messageId 2 0, t),
       (fragment_of host M' topic' serialized' messageId 2 1, t')] sub =
    Inr (sub', [(h, topic, piece M (length topic) serialized 0 @ piece M' (length topic') serialized' 1)])"
proof -
  let ?a = "fragment_of host M topic serialized messageId 2 0"
  let ?b = "fragment_of host M' topic' serialized' messageId 2 1"
  have no: "holds_fragments M topic serialized 2 messageId {} sub"
    using assms(2) by (simp add: holds_fragments_def)
  have "1 \<in> {0..<2 :: nat}" "1 \<notin> {0 :: nat}" by simp_all
  then have two: "({0} = {0..<2 :: nat}) = False" "{} \<subset> {0..<2 :: nat}" by blast+
  have p1: "(0 :: nat) < 2" and p2: "(2 :: nat) \<le> 65535" by simp_all
  obtain p where a: "processFragment host t sub ?a (length ?a) = Inr (set_partial sub messageId p, [])"
    "holds_fragments M topic serialized 2 messageId {0} (set_partial sub messageId p)"
    using processFragment_own [OF p1 p2 p1 assms(1) two(2) no refl, where host = host and now = t]
    unfolding two(1) if_False by blast
  then obtain s where p: "p = Some (gathered M topic serialized 2 {0} s)"
    by (auto simp: holds_fragments_def)
  have wf: "wf_partial (gathered M topic serialized 2 {0} s)"
  proof -
    have "{0} \<subset> {0..<2 :: nat}" using two(1) by auto
    from met_gathered(2) [OF p1 p2 this refl] show ?thesis by simp
  qed
  define G where "G = gathered M topic serialized 2 {0} s"
  let ?pq = "[piece M (length topic) serialized 0, piece M' (length topic') serialized' 1]"
  have u2: "[0..<2] = [0, 1 :: nat]" by (simp add: upt_rec)
  have G: "pm_topic G = topic" "pm_received G = {0}" "pm_totalFragments G = 2"
    "pm_fragments G = [piece M (length topic) serialized 0, []]"
    by (simp_all add: G_def gathered_def u2)
  have l: "length ?b \<le> length ?b" "12 \<le> length ?b" using fragment_body(2) by auto
  have "drop 12 ?b = piece M' (length topic') serialized' 1" "length ?b = 12 + length (piece M' (length topic') serialized' 1)"
    by (simp_all add: fragment_of_def)
  then have st: "store_fragment ?b (length ?b - 12) 1 0 G = Inr (G\<lparr>pm_fragments := ?pq\<rparr>)"
    using store_fragment_safe [OF l, of 1 0 G] G by simp
  have "met t' 2 (Some G) = G" by (rule met_Some) (use wf in \<open>simp add: G_def\<close>)
  then have r: "react t' ?b (length ?b) 1 2 0 (Some G) = Inr (None, Some (topic, concat ?pq))"
    using st G by (simp add: react_met Let_def)
  have hd: "read_header host ?b = Inr (messageId, 1, 2, 0)" by (simp add: read_header_fragment)
  have "processFragment host t' (set_partial sub messageId p) ?b (length ?b) =
      Inr (set_partial (set_partial sub messageId p) messageId None, [(h, topic, concat ?pq)])"
    using processFragment_react [OF l(2) hd, of t' "set_partial sub messageId p"] r assms(3)
    by (simp add: p G_def [symmetric] deliverMessage_def)
  with a(1) show ?thesis by simp
qed

text \<open>
  Stale entries are discarded on a poll timeout only.  However long a run of datagrams lasts,
  the entry of a message of which no datagram comes is never discarded, so under continuous
  traffic incomplete messages accumulate.
\<close>

theorem stale_entry_kept_under_traffic:
  assumes "sub_running sub" "\<not> sub_shouldStop sub"
    and "\<forall>(d, t) \<in> set xs. id_of host d \<noteq> Some messageId"
    and "receiveLoop host (map (\<lambda>(d, t). Received d t) xs) (sub, lc) = Inr ((sub', lc'), ds)"
  shows "sub_partial sub' messageId = sub_partial sub messageId"
proof -
  have run: "process_all host xs sub = Inr (sub', ds)"
    using assms(4) by (auto simp: receiveLoop_process_all [OF assms(1,2)] obind_eq_Inr_iff)
  from run assms(3) show ?thesis
  proof (induction xs arbitrary: sub ds)
    case (Cons x xs)
    obtain d t where x: "x = (d, t)" by fastforce
    obtain sub1 ds1 ds2 where 1: "processFragment host t sub d (length d) = Inr (sub1, ds1)"
      "process_all host xs sub1 = Inr (sub', ds2)"
      using Cons.prems(1) by (auto simp: x obind_eq_Inr_iff)
    have "sub_partial sub1 messageId = sub_partial sub messageId"
      using processFragment_other [OF same_except_refl, of host d messageId t sub sub1 ds1] Cons.prems(2) 1(1) x
      by auto
    then show ?case using Cons.IH [OF 1(2)] Cons.prems(2) by simp
  qed simp
qed

text \<open>
  A clean-up discards exactly the entries whose first fragment is more than the timeout old.
\<close>

theorem cleanup_exact:
  "sub_partial (cleanupStaleMessages now sub) k =
    (case sub_partial sub k of
       Some p \<Rightarrow> if (now - pm_firstFragmentTime p) div 1000000 > sub_timeoutMs sub then None else Some p
     | None \<Rightarrow> None) \<and>
   sub_handlers (cleanupStaleMessages now sub) = sub_handlers sub"
  by (simp add: cleanupStaleMessages_def stale_def split: option.split)

text \<open>One start and stop after the other, with what the system answers each time.\<close>

fun cycles :: "start_env list \<Rightarrow> 'h HBSubscriber \<times> int set \<Rightarrow> ('h HBSubscriber \<times> int set) outcome" where
  "cycles [] s = Inr s"
| "cycles (env # envs) (sub, fds) =
     obind (start env sub fds) (\<lambda>(ok, sub, fds). cycles envs (stop sub, fds))"

definition start_succeeds :: "start_env \<Rightarrow> bool" where
  "start_succeeds env \<longleftrightarrow> 0 \<le> env_socket env \<and> env_bind_ok env \<and> env_group_ok env \<and>
     env_interface_ok env \<and> env_join_ok env"

text \<open>
  Restarting leaks sockets: after any number of successful start and stop cycles every
  descriptor that was opened is still open, and the destructor closes the last one only.
\<close>

theorem restart_leaks_sockets:
  assumes "\<not> sub_running sub" "\<not> sub_threadJoinable sub" and "\<forall>env \<in> set envs. start_succeeds env"
    and "distinct (map env_socket envs)" and "envs \<noteq> []" and "fds \<inter> env_socket ` set envs = {}"
  shows "\<exists>sub' fds'. cycles envs (sub, fds) = Inr (sub', fds') \<and>
    fds' = fds \<union> env_socket ` set envs \<and>
    destroy_subscriber sub' fds' = fds \<union> env_socket ` set (butlast envs)"
proof -
  have one: "\<exists>sub'. start env sub fds = Inr (True, sub', insert (env_socket env) fds) \<and>
      sub_socket (stop sub') = env_socket env \<and> \<not> sub_running (stop sub') \<and> \<not> sub_threadJoinable (stop sub')"
    if "\<not> sub_running sub" "\<not> sub_threadJoinable sub" "start_succeeds env" for env fds and sub :: "'a HBSubscriber"
    using that by (auto simp: start_def start_succeeds_def stop_def Let_def)
  have all: "\<exists>sub'. cycles envs (sub, fds) = Inr (sub', fds \<union> env_socket ` set envs) \<and>
      \<not> sub_running sub' \<and> (envs \<noteq> [] \<longrightarrow> sub_socket sub' = env_socket (last envs))"
    if "\<not> sub_running sub" "\<not> sub_threadJoinable sub" "\<forall>env \<in> set envs. start_succeeds env"
    for envs fds and sub :: "'a HBSubscriber"
    using that
  proof (induction envs arbitrary: sub fds)
    case (Cons env envs)
    obtain sub1 where 1: "start env sub fds = Inr (True, sub1, insert (env_socket env) fds)"
      "sub_socket (stop sub1) = env_socket env" "\<not> sub_running (stop sub1)" "\<not> sub_threadJoinable (stop sub1)"
      using one [OF Cons.prems(1,2), of env fds] Cons.prems(3) by auto
    from Cons.IH [OF 1(3,4), of "insert (env_socket env) fds"] Cons.prems(3)
    obtain sub' where "cycles envs (stop sub1, insert (env_socket env) fds) =
        Inr (sub', insert (env_socket env) fds \<union> env_socket ` set envs)" "\<not> sub_running sub'"
      "envs \<noteq> [] \<longrightarrow> sub_socket sub' = env_socket (last envs)" by auto
    moreover have "sub' = stop sub1" if "envs = []" using that calculation(1) by simp
    ultimately show ?case using 1 by auto
  qed simp
  obtain sub' where s: "cycles envs (sub, fds) = Inr (sub', fds \<union> env_socket ` set envs)"
    "\<not> sub_running sub'" "sub_socket sub' = env_socket (last envs)"
    using all [OF assms(1-3)] assms(5) by blast
  have e: "envs = butlast envs @ [last envs]" using assms(5) by simp
  have "0 \<le> env_socket (last envs)" using assms(3,5) by (simp add: start_succeeds_def)
  moreover have "env_socket (last envs) \<notin> env_socket ` set (butlast envs)"
    using assms(4) by (subst (asm) e) auto
  moreover have "set envs = insert (last envs) (set (butlast envs))" by (subst e) simp
  ultimately show ?thesis
    using s assms(5,6) by (auto simp: destroy_subscriber_def stop_def Let_def)
qed

lemma last_index_completes:
  assumes "j < n" "n \<le> 65535"
    and frag: "frag = fragment_of host M full serialized msg n"
    and sent: "frag ` {0..<n} \<subseteq> insert (frag j) (fst ` set xs)"
  shows "insert j (arrived frag n xs) = {0..<n}"
proof
  show "{0..<n} \<subseteq> insert j (arrived frag n xs)"
  proof
    fix i
    assume "i \<in> {0..<n}"
    then have "i < n" by simp
    moreover have "frag i \<in> insert (frag j) (fst ` set xs)" using sent \<open>i \<in> {0..<n}\<close> by blast
    ultimately show "i \<in> insert j (arrived frag n xs)"
      using fragment_of_inject [of i n j] assms(1,2) by (auto simp: arrived_def frag)
  qed
  show "insert j (arrived frag n xs) \<subseteq> {0..<n}" using assms(1) by (auto simp: arrived_def)
qed

text \<open>What the fragments of a published message are.\<close>

lemma published_fragments:
  assumes "publishable pub topic serialized" and "0 \<le> pub_socket pub" and "pub_running pub"
    and "publish host (\<lambda>_. True) pub topic (Some serialized) = Inr (True, pub', sent)"
    and full: "full = pub_name pub @ [0x2F] @ topic"
  obtains M n frag where "frag = fragment_of host M full serialized (pub_messageId pub) n" "0 < n" "n \<le> 65535"
    "length full \<le> 65535" "sent = map frag [0..<n]" "concat (map (piece M (length full) serialized) [0..<n]) = serialized"
proof -
  define M where "M = unat (pub_mtu pub) - 12"
  define n where "n = fragment_count M (length full) (length serialized)"
  define frag where "frag = fragment_of host M full serialized (pub_messageId pub) n"
  have M: "0 < M" "length full \<le> 65535"
    using assms(1) by (auto simp: M_def full publishable_def)
  have n: "0 < n" by (simp add: n_def fragment_count_pos)
  have n2: "n \<le> 65535" and sent: "sent = map frag [0..<n]"
    using publish_eq [OF assms(1-3), of host "\<lambda>_. True"] assms(4)
    by (auto simp: Let_def frag_def n_def full M_def list_all_iff takeWhile_eq_all_conv [THEN iffD2]
        split: if_splits)
  have whole: "concat (map (piece M (length full) serialized) [0..<n]) = serialized"
    unfolding n_def by (rule pieces_join [OF M(1)])
  show thesis by (rule that [OF frag_def n n2 M(2) sent whole])
qed

lemma process_all_flags:
  "process_all host xs sub = Inr (sub', ds) \<Longrightarrow> sub_running sub' = sub_running sub \<and> sub_shouldStop sub' = sub_shouldStop sub"
proof (induction xs arbitrary: sub ds)
  case (Cons x xs)
  obtain d t where x: "x = (d, t)" by fastforce
  obtain sub1 ds1 ds2 where s: "processFragment host t sub d (length d) = Inr (sub1, ds1)"
    "process_all host xs sub1 = Inr (sub', ds2)" using Cons.prems(1) by (auto simp: x obind_eq_Inr_iff)
  then show ?case using Cons.IH [OF s(2)] processFragment_flags [OF s(1) order_refl] by simp
qed simp

text \<open>After a message, some of its datagrams come again.\<close>

lemma repeated_gathers:
  assumes n: "0 < n" "n \<le> 65535" and T: "length topic \<le> 65535"
    and frag: "frag = fragment_of host M topic serialized messageId n"
    and fresh: "sub_partial sub messageId = None"
    and own: "\<forall>(d, t) \<in> set zs. id_of host d = Some messageId \<longrightarrow> (\<exists>i < n. d = frag i)"
    and rest: "process_all host (others host messageId zs) sub = Inr (sub3, ds)"
    and miss: "arrived frag n zs \<noteq> {0..<n}"
  shows "\<exists>sub'. process_all host zs sub = Inr (sub', ds) \<and> (\<forall>k. k \<noteq> messageId \<longrightarrow> sub_partial sub' k = sub_partial sub3 k) \<and>
    (sub_partial sub' messageId = None \<longleftrightarrow> (\<forall>(d, t) \<in> set zs. id_of host d \<noteq> Some messageId))"
proof -
  obtain sub' where r: "process_all host zs sub = Inr (sub', ds)" "same_except messageId sub3 sub'"
    "holds_fragments M topic serialized n messageId (arrived frag n zs) sub'"
    using run_gathers [OF n T frag fresh own rest miss] by blast
  have "arrived frag n zs = {} \<longleftrightarrow> (\<forall>(d, t) \<in> set zs. id_of host d \<noteq> Some messageId)"
  proof
    assume "arrived frag n zs = {}"
    then have no: "frag i \<notin> fst ` set zs" if "i < n" for i using that by (auto simp: arrived_def)
    show "\<forall>(d, t) \<in> set zs. id_of host d \<noteq> Some messageId"
    proof (clarify)
      fix d t
      assume zs: "(d, t) \<in> set zs" and "id_of host d = Some messageId"
      then obtain i where "i < n" "d = frag i" using own by blast
      then show False using no [of i] zs by (force simp: image_iff)
    qed
  next
    assume "\<forall>(d, t) \<in> set zs. id_of host d \<noteq> Some messageId"
    then show "arrived frag n zs = {}" using id_of_fragment by (fastforce simp: arrived_def frag)
  qed
  moreover have "sub_partial sub' k = sub_partial sub3 k" if "k \<noteq> messageId" for k
    using r(2) that unfolding same_except_def by (metis set_partial_fields(1) fun_upd_other)
  moreover have "sub_partial sub' messageId = None \<longleftrightarrow> arrived frag n zs = {}"
    using r(3) by (cases "arrived frag n zs = {}") (auto simp: holds_fragments_def)
  ultimately show ?thesis using r(1) by (intro exI [of _ sub']) blast
qed

text \<open>
  C2. A published message reaches the handler unchanged, and once for every complete set of its datagrams.
  Let the datagrams of one \<open>publish\<close> arrive in any order, any number of times, interleaved with any other
  traffic that uses other message ids, while the poll of the receive thread does not time out (it could then
  discard the message as stale).  When the last missing one arrives, the handler of the topic is
  called with the message; before that, and afterwards as long as not all of them have come once more,
  everything else happens as if none of them had come.  After the delivery no trace of the message is
  left until one of its datagrams is repeated.
\<close>

theorem published_message_delivered:
  assumes "publishable pub topic serialized" and "0 \<le> pub_socket pub" and "pub_running pub"
    and "publish host (\<lambda>_. True) pub topic (Some serialized) = Inr (True, pub', sent)"
    and "sub_running sub" and "\<not> sub_shouldStop sub"
    and "sub_handlers sub (pub_name pub @ [0x2F] @ topic) = Some (Some h)"
    and "sub_partial sub (pub_messageId pub) = None"
    and "\<forall>(d, t) \<in> set (xs @ zs). id_of host d = Some (pub_messageId pub) \<longrightarrow> d \<in> set sent"
    and "receiveLoop host (map (\<lambda>(d, t). Received d t) (others host (pub_messageId pub) xs)) (sub, lc) =
      Inr ((sub2, lc), ds)"
    and "receiveLoop host (map (\<lambda>(d, t). Received d t) (others host (pub_messageId pub) zs)) (sub2, lc) =
      Inr ((sub3, lc), ds')"
    and "\<not> set sent \<subseteq> fst ` set xs" and "d \<in> set sent" and "set sent \<subseteq> insert d (fst ` set xs)"
    and "\<not> set sent \<subseteq> fst ` set zs"
  shows "\<exists>sub'. receiveLoop host (map (\<lambda>(d, t). Received d t) (xs @ [(d, t)] @ zs)) (sub, lc) =
      Inr ((sub', lc), ds @ [(h, pub_name pub @ [0x2F] @ topic, serialized)] @ ds') \<and>
    (\<forall>k. k \<noteq> pub_messageId pub \<longrightarrow> sub_partial sub' k = sub_partial sub3 k) \<and>
    (sub_partial sub' (pub_messageId pub) = None \<longleftrightarrow> (\<forall>(d, t) \<in> set zs. id_of host d \<noteq> Some (pub_messageId pub)))"
proof -
  define full where "full = pub_name pub @ [0x2F] @ topic"
  let ?id = "pub_messageId pub"
  obtain M n frag where frag: "frag = fragment_of host M full serialized ?id n" and n: "0 < n" "n \<le> 65535"
    and full: "length full \<le> 65535" and sent: "sent = map frag [0..<n]"
    and whole: "concat (map (piece M (length full) serialized) [0..<n]) = serialized"
    by (rule published_fragments [OF assms(1-4) full_def])
  obtain j where j: "j < n" "d = frag j" using assms(13) by (auto simp: sent)
  have run: "process_all host (others host ?id xs) sub = Inr (sub2, ds)"
    using assms(10) by (auto simp: receiveLoop_process_all [OF assms(5,6)] obind_eq_Inr_iff)
  note flags = process_all_flags [OF run]
  have run': "process_all host (others host ?id zs) sub2 = Inr (sub3, ds')"
    using assms(11) flags assms(5,6) by (auto simp: receiveLoop_process_all obind_eq_Inr_iff)
  have own: "\<forall>(d, t) \<in> set xs. id_of host d = Some ?id \<longrightarrow> (\<exists>i < n. d = frag i)"
    "\<forall>(d, t) \<in> set zs. id_of host d = Some ?id \<longrightarrow> (\<exists>i < n. d = frag i)"
    using assms(9) by (fastforce simp: sent)+
  have miss: "arrived frag n xs \<noteq> {0..<n}" "arrived frag n zs \<noteq> {0..<n}"
    using assms(12,15) by (auto simp: sent arrived_def)
  have all: "insert j (arrived frag n xs) = {0..<n}"
    using assms(14) by (intro last_index_completes [OF j(1) n(2) frag]) (simp add: sent j(2))
  have first: "process_all host (xs @ [(frag j, t)]) sub = Inr (sub2, ds @ [(h, full, serialized)])"
    using last_fragment_delivers [OF n full frag assms(8) own(1) run miss(1) j(1) all whole, of t] assms(7)
    by (simp add: deliverMessage_def full_def)
  have "sub_partial sub2 ?id = None" using process_all_partial_other [OF run others_ids] assms(8) by simp
  from repeated_gathers [OF n full frag this own(2) run' miss(2)] obtain sub' where
    last: "process_all host zs sub2 = Inr (sub', ds')" "\<forall>k. k \<noteq> ?id \<longrightarrow> sub_partial sub' k = sub_partial sub3 k"
    "sub_partial sub' ?id = None \<longleftrightarrow> (\<forall>(d, t) \<in> set zs. id_of host d \<noteq> Some ?id)" by (elim exE conjE) (rule that)
  have "process_all host ((xs @ [(frag j, t)]) @ zs) sub = Inr (sub', ds @ [(h, full, serialized)] @ ds')"
    unfolding process_all_append [of host "xs @ [(frag j, t)]"] first by (simp add: last(1))
  then show ?thesis
    unfolding receiveLoop_process_all [OF assms(5,6)] j(2) full_def [symmetric]
    using last(2,3) by (intro exI [of _ sub']) simp
qed

text \<open>A message whose datagrams arrive in order and undisturbed leaves no trace but its delivery.\<close>

text \<open>All fragments in order: before the last one the message is not complete, and nothing else arrives.\<close>

lemma in_order_fragments:
  assumes frag: "frag = fragment_of host M full serialized messageId (Suc m)" and n: "Suc m \<le> 65535"
    and ys: "map fst ys = map frag [0..<m]"
  shows "\<forall>(d, t) \<in> set ys. id_of host d = Some messageId \<and> (\<exists>i < Suc m. d = frag i)"
    "others host messageId ys = []" "arrived frag (Suc m) ys \<noteq> {0..<Suc m}"
    "insert m (arrived frag (Suc m) ys) = {0..<Suc m}"
proof -
  have set: "fst ` set ys = frag ` {0..<m}" using arg_cong [OF ys, of set] by simp
  show own: "\<forall>(d, t) \<in> set ys. id_of host d = Some messageId \<and> (\<exists>i < Suc m. d = frag i)"
  proof (clarify)
    fix d t
    assume "(d, t) \<in> set ys"
    then have "d \<in> fst ` set ys" by (rule image_eqI [rotated]) simp
    then obtain i where "i < m" "d = frag i" unfolding set by auto
    then show "id_of host d = Some messageId \<and> (\<exists>i < Suc m. d = frag i)"
      by (auto simp: frag id_of_fragment intro!: exI [of _ i])
  qed
  show "others host messageId ys = []" using own by (auto simp: others_def filter_empty_conv)
  have "frag m \<noteq> frag j" if "j < m" for j
    using fragment_of_inject [of m "Suc m" j host M full serialized messageId] n that by (auto simp: frag)
  then have "frag m \<notin> frag ` {0..<m}" unfolding image_iff by simp
  then have "m \<notin> arrived frag (Suc m) ys" by (simp add: arrived_def set)
  then show "arrived frag (Suc m) ys \<noteq> {0..<Suc m}" by auto
  show "insert m (arrived frag (Suc m) ys) = {0..<Suc m}"
    by (rule last_index_completes [OF _ n frag]) (auto simp: set less_Suc_eq)
qed

lemma undisturbed_delivery:
  assumes "publishable pub topic serialized" and "0 \<le> pub_socket pub" and "pub_running pub"
    and "publish host (\<lambda>_. True) pub topic (Some serialized) = Inr (True, pub', sent)"
    and "sub_partial sub = Map.empty" and "map fst xs = sent"
  shows "process_all host xs sub = Inr (sub, deliverMessage sub (pub_name pub @ [0x2F] @ topic) serialized)"
proof -
  define full where "full = pub_name pub @ [0x2F] @ topic"
  let ?id = "pub_messageId pub"
  obtain M n frag where frag: "frag = fragment_of host M full serialized ?id n" and n: "0 < n" "n \<le> 65535"
    and full: "length full \<le> 65535" and sent: "sent = map frag [0..<n]"
    and whole: "concat (map (piece M (length full) serialized) [0..<n]) = serialized"
    by (rule published_fragments [OF assms(1-4) full_def])
  obtain m where m: "n = Suc m" using n by (cases n) auto
  have "map fst xs = map frag [0..<m] @ [frag m]" using assms(6) sent m by simp
  then obtain ys t where split: "xs = ys @ [(frag m, t)]" and ys: "map fst ys = map frag [0..<m]"
    by (cases xs rule: rev_cases) auto
  note order = in_order_fragments [OF frag [unfolded m] n(2) [unfolded m] ys, folded m]
  have own: "\<forall>(d, t) \<in> set ys. id_of host d = Some ?id \<longrightarrow> (\<exists>i < n. d = frag i)" using order(1) by blast
  have fresh: "sub_partial sub ?id = None" using assms(5) by simp
  have rest: "process_all host (others host ?id ys) sub = Inr (sub, [])" by (simp add: order(2))
  have "process_all host xs sub = Inr (sub, [] @ deliverMessage sub full serialized)"
    unfolding split using m by (intro last_fragment_delivers [OF n full frag fresh own rest order(3) _ order(4) whole]) simp
  then show ?thesis by (simp add: full_def)
qed

text \<open>
  No id is remembered after the delivery: a message whose datagrams all come once more, as a network may
  duplicate them, is delivered once more.
\<close>

lemma repeated_message_delivered_again:
  assumes "publishable pub topic serialized" and "0 \<le> pub_socket pub" and "pub_running pub"
    and "publish host (\<lambda>_. True) pub topic (Some serialized) = Inr (True, pub', sent)"
    and "sub_partial sub = Map.empty" and "map fst xs = sent" "map fst ys = sent"
    and "sub_handlers sub (pub_name pub @ [0x2F] @ topic) = Some (Some h)"
  shows "process_all host (xs @ ys) sub =
    Inr (sub, [(h, pub_name pub @ [0x2F] @ topic, serialized), (h, pub_name pub @ [0x2F] @ topic, serialized)])"
  using undisturbed_delivery [OF assms(1-5,6)] undisturbed_delivery [OF assms(1-5,7)] assms(8)
  by (simp add: process_all_append deliverMessage_def)

section \<open>Instances\<close>

text \<open>A running subscriber of the topic \<open>n/t\<close>; its handler is the unit token.\<close>

definition example_subscriber :: "unit HBSubscriber" where
  "example_subscriber =
     (subscribe (make_subscriber [0x6E] 5670 1000 []) [0x74] (Some ()))
       \<lparr>sub_socket := 4, sub_running := True, sub_threadJoinable := True\<rparr>"

lemma example_subscriber_fields [simp]:
  "sub_running example_subscriber" "\<not> sub_shouldStop example_subscriber"
  "sub_partial example_subscriber = Map.empty"
  "sub_handlers example_subscriber = [[0x6E, 0x2F, 0x74] \<mapsto> Some ()]"
  by (simp_all add: example_subscriber_def subscribe_def make_subscriber_def)

text \<open>
  A message of three datagrams: the last one comes first, the first one twice, a foreign runt in
  between; after the delivery the first one is repeated.
\<close>

theorem published_message_delivered_witness:
  "\<exists>pub' a b c. publish BigEndian (\<lambda>_. True) small_publisher [0x74] (Some [1, 2, 3, 4, 5, 6]) =
      Inr (True, pub', [a, b, c]) \<and>
    (\<exists>sub'. receiveLoop BigEndian
      [Received c 1, Received a 2, Received [9] 3, Received a 4, Received b 5, Received a 6] (example_subscriber, 0) =
      Inr ((sub', 0), [((), [0x6E, 0x2F, 0x74], [1, 2, 3, 4, 5, 6])]) \<and> sub_partial sub' 0 \<noteq> None)"
proof -
  let ?ser = "[1, 2, 3, 4, 5, 6] :: bytes"
  let ?f = "fragment_of BigEndian 4 [0x6E, 0x2F, 0x74] ?ser 0 3"
  have p: "publishable small_publisher [0x74] ?ser" by (rule small_publishable) simp_all
  have n: "fragment_count 4 (Suc (Suc (Suc 0))) (Suc (Suc (Suc (Suc (Suc (Suc 0)))))) = 3"
    by (simp add: fragment_count_def)
  have u: "[0..<3] = [0, 1, 2 :: nat]" by (simp add: upt_rec)
  define a b c where "a = ?f 0" and "b = ?f 1" and "c = ?f 2"
  have pub: "publish BigEndian (\<lambda>_. True) small_publisher [0x74] (Some ?ser) =
      Inr (True, small_publisher\<lparr>pub_messageId := 1\<rparr>, [a, b, c])"
    using publish_eq [OF p, of BigEndian "\<lambda>_. True"] by (simp add: Let_def n u a_def b_def c_def)
  have ne: "a \<noteq> b" "b \<noteq> c" "a \<noteq> c"
    using fragment_of_inject [of 0 3 1] fragment_of_inject [of 1 3 2] fragment_of_inject [of 0 3 2]
    unfolding a_def b_def c_def by fastforce+
  have ids: "id_of BigEndian a = Some 0" "id_of BigEndian c = Some 0" "id_of BigEndian [9] = None"
    by (simp_all add: a_def c_def id_of_fragment) (simp add: id_of_def)
  let ?xs = "[(c, 1), (a, 2), ([9], 3), (a, 4)] :: (bytes \<times> int) list"
  have "length a = 16" "length b = 16" by (simp_all add: a_def b_def fragment_of_def piece_def piece_start_def)
  then have ne9: "b \<noteq> [9]" by auto
  let ?zs = "[(a, 6)] :: (bytes \<times> int) list"
  have "\<exists>sub'. receiveLoop BigEndian (map (\<lambda>(d, t). Received d t) (?xs @ [(b, 5)] @ ?zs)) (example_subscriber, 0) =
      Inr ((sub', 0), [] @ [((), pub_name small_publisher @ [0x2F] @ [0x74], ?ser)] @ []) \<and>
      (\<forall>k. k \<noteq> pub_messageId small_publisher \<longrightarrow> sub_partial sub' k = sub_partial example_subscriber k) \<and>
      (sub_partial sub' (pub_messageId small_publisher) = None \<longleftrightarrow>
        (\<forall>(d, t) \<in> set ?zs. id_of BigEndian d \<noteq> Some (pub_messageId small_publisher)))"
  proof (rule published_message_delivered [OF p _ _ pub])
    show "receiveLoop BigEndian (map (\<lambda>(d, t). Received d t)
        (others BigEndian (pub_messageId small_publisher) ?xs)) (example_subscriber, 0) =
        Inr ((example_subscriber, 0), [])"
      by (simp add: others_def ids)
    show "receiveLoop BigEndian (map (\<lambda>(d, t). Received d t)
        (others BigEndian (pub_messageId small_publisher) ?zs)) (example_subscriber, 0) =
        Inr ((example_subscriber, 0), [])"
      by (simp add: others_def ids)
  qed (use ids ne ne9 in auto)
  then show ?thesis using pub ids by (auto simp del: receiveLoop.simps)
qed

text \<open>Fragment number 5 of 2, and fragment number 0 of none.\<close>

theorem processFragment_fault_iff_witness:
  "processFragment BigEndian 0 example_subscriber [0, 0, 0, 7, 0, 5, 0, 2, 0, 0, 0, 0] 12 = Inl OutOfBounds \<and>
   processFragment BigEndian 0 example_subscriber [0, 0, 0, 7, 0, 0, 0, 0, 0, 0, 0, 0] 12 = Inl OutOfBounds"
proof -
  have wf: "wf_sub example_subscriber" by (simp add: wf_sub_def)
  have h: "read_header BigEndian [0, 0, 0, 7, 0, 5, 0, 2, 0, 0, 0, 0] = Inr (7, 5, 2, 0)"
    "read_header BigEndian [0, 0, 0, 7, 0, 0, 0, 0, 0, 0, 0, 0] = Inr (7, 0, 0, 0)"
    by (simp_all add: read_header_def readWord_def readI16_def readI16BE_def read16_Cons read32_Cons
        join16_def join32_def)
  show ?thesis
    using processFragment_fault_iff [OF wf _ _ h(1), of 12 0] processFragment_fault_iff [OF wf _ _ h(2), of 12 0]
    by simp
qed

theorem processFragment_invariant_witness:
  "\<exists>sub' ds. processFragment BigEndian 0 example_subscriber [1, 2, 3] 3 = Inr (sub', ds) \<and> wf_sub sub' \<and>
     sub_handlers sub' = sub_handlers example_subscriber"
proof -
  have wf: "wf_sub example_subscriber" by (simp add: wf_sub_def)
  have p: "processFragment BigEndian 0 example_subscriber [1, 2, 3] 3 = Inr (example_subscriber, [])"
    by (simp add: processFragment_short)
  show ?thesis using processFragment_invariant [OF wf _ p] p by simp
qed

theorem same_id_mixes_witness:
  "\<exists>sub'. process_all LittleEndian
      [(fragment_of LittleEndian 4 [0x6E, 0x2F, 0x74] [1, 2, 3] 0 2 0, 1),
       (fragment_of LittleEndian 4 [0x6D, 0x2F, 0x75] [7, 8, 9] 0 2 1, 2)] example_subscriber =
    Inr (sub', [((), [0x6E, 0x2F, 0x74], [1, 8, 9])])"
  using same_id_mixes [of "[0x6E, 0x2F, 0x74]" example_subscriber 0 "()" LittleEndian 4 "[1, 2, 3]" 1 4
      "[0x6D, 0x2F, 0x75]" "[7, 8, 9]" 2]
  by (simp add: piece_def piece_start_def)

text \<open>An entry from time 0, and a datagram of another message an hour later.\<close>

theorem stale_entry_kept_under_traffic_witness:
  "\<exists>sub'. receiveLoop BigEndian (map (\<lambda>(d, t). Received d t) [([9], 3600000000000)])
      (set_partial example_subscriber 3 (Some empty_partial), 0) = Inr ((sub', 0), []) \<and>
    sub_partial sub' 3 = Some empty_partial"
proof -
  let ?s = "set_partial example_subscriber 3 (Some empty_partial)"
  have r: "receiveLoop BigEndian (map (\<lambda>(d, t). Received d t) [([9], 3600000000000)]) (?s, 0) =
      Inr ((?s, 0), [])" by simp
  show ?thesis
    using stale_entry_kept_under_traffic [OF _ _ _ r, of 3] r by (simp add: id_of_def)
qed

theorem restart_leaks_sockets_witness:
  "\<exists>sub' fds'. cycles [\<lparr>env_socket = 3, env_bind_ok = True, env_group_ok = True, env_interface_ok = True, env_join_ok = True\<rparr>,
       \<lparr>env_socket = 4, env_bind_ok = True, env_group_ok = True, env_interface_ok = True, env_join_ok = True\<rparr>]
       (make_subscriber [0x6E] 5670 1000 [] :: unit HBSubscriber, {0, 1, 2}) = Inr (sub', fds') \<and>
     fds' = {0, 1, 2, 3, 4} \<and> destroy_subscriber sub' fds' = {0, 1, 2, 3}"
  using restart_leaks_sockets [of "make_subscriber [0x6E] 5670 1000 [] :: unit HBSubscriber"
      "[\<lparr>env_socket = 3, env_bind_ok = True, env_group_ok = True, env_interface_ok = True, env_join_ok = True\<rparr>,
       \<lparr>env_socket = 4, env_bind_ok = True, env_group_ok = True, env_interface_ok = True, env_join_ok = True\<rparr>]"
      "{0, 1, 2}"]
  by (simp add: make_subscriber_def start_succeeds_def insert_commute)

end
