(* ===== verification/DataHandler.thy ===== *)
theory DataHandler
  imports Prelude
begin

text \<open>
  \<open>src/libs/CommonUtils/DataHandler.h\<close>: a queue whose data a worker thread hands to listeners.

  \<^item> A listener is a token of type \<open>'l\<close>; calling it is an event.  What it does (return, throw a
    \<open>std::exception\<close> or throw anything else) does not matter: both \<open>catch\<close> clauses only print, and
    the loop goes on.
  \<^item> Threads interleave.  A step of \<open>dh_step\<close> is a call of a client, one step of the worker, or one
    step of the destructor; the worker's program counter says which mutex it holds, and a client
    that needs it waits.  The test of the stop flag at the head of a member function and its body
    are one step: no other thread may call a member function while the destructor runs, and a
    listener that calls one does so on the worker thread.
  \<^item> \<open>std::condition_variable\<close>: the predicate is tested under the mutex, and falling asleep
    releases it; a notification wakes a worker that is asleep and is lost otherwise; a spurious
    wake-up may happen at any time.
  \<^item> \<open>_nextListenerId++\<close> at \<open>INT_MAX\<close> is a fault.

  The lemmas show that the handler refines an abstract first-in first-out queue with a list of
  listeners, and exactly when the worker exits once the destructor has set the flag.
\<close>

datatype ('d, 'l) worker =
    LoopTest                            \<comment> \<open>at \<open>while (!_stopFlag)\<close>\<close>
  | WaitTest                            \<comment> \<open>about to lock \<open>_cvMutex\<close> and test the predicate\<close>
  | FallingAsleep                       \<comment> \<open>predicate false, \<open>_cvMutex\<close> held, not yet waiting\<close>
  | Asleep                              \<comment> \<open>waiting for a notification\<close>
  | Popped 'd                           \<comment> \<open>about to lock \<open>_listenersMutex\<close>\<close>
  | Calling 'd "(int \<times> 'l) list"        \<comment> \<open>\<open>_listenersMutex\<close> held, listeners still to call\<close>
  | WorkerExited

datatype destroyer = Alive | FlagSet | Joining | Destroyed

record ('d, 'l) DataHandler =
  dh_listeners :: "(int \<times> 'l) list"
  dh_nextListenerId :: int
  dh_dataQueue :: "'d list"
  dh_stopFlag :: bool
  dh_worker :: "('d, 'l) worker"
  dh_destroyer :: destroyer

text \<open>\<open>DataHandler()\<close>: the worker thread starts.\<close>

definition make_DataHandler :: "('d, 'l) DataHandler" where
  "make_DataHandler =
     \<lparr>dh_listeners = [], dh_nextListenerId = 123, dh_dataQueue = [], dh_stopFlag = False,
      dh_worker = LoopTest, dh_destroyer = Alive\<rparr>"

section \<open>The operations of the clients\<close>

fun wake :: "('d, 'l) worker \<Rightarrow> ('d, 'l) worker" where
  "wake Asleep = WaitTest"
| "wake w = w"

definition signalData :: "('d, 'l) DataHandler \<Rightarrow> 'd \<Rightarrow> ('d, 'l) DataHandler" where
  "signalData s d =
     (if dh_stopFlag s then s
      else s\<lparr>dh_dataQueue := dh_dataQueue s @ [d], dh_worker := wake (dh_worker s)\<rparr>)"

text \<open>\<open>std::map\<close> with integer keys: an association list in the order of the keys.\<close>

fun map_assign :: "int \<Rightarrow> 'l \<Rightarrow> (int \<times> 'l) list \<Rightarrow> (int \<times> 'l) list" where
  "map_assign k v [] = [(k, v)]"
| "map_assign k v ((k', v') # m) =
     (if k < k' then (k, v) # (k', v') # m
      else if k = k' then (k, v) # m
      else (k', v') # map_assign k v m)"

fun map_erase :: "int \<Rightarrow> (int \<times> 'l) list \<Rightarrow> (int \<times> 'l) list" where
  "map_erase k [] = []"
| "map_erase k ((k', v') # m) = (if k = k' then m else (k', v') # map_erase k m)"

definition registerListener ::
  "('d, 'l) DataHandler \<Rightarrow> 'l \<Rightarrow> (int \<times> ('d, 'l) DataHandler) outcome" where
  "registerListener s l =
     (if dh_stopFlag s then Inr (-1, s)
      else if dh_nextListenerId s = 2147483647 then Inl SignedOverflow
      else
        let k = dh_nextListenerId s + 1
        in Inr (k, s\<lparr>dh_nextListenerId := k, dh_listeners := map_assign k l (dh_listeners s)\<rparr>))"

definition unregisterListener :: "('d, 'l) DataHandler \<Rightarrow> int \<Rightarrow> ('d, 'l) DataHandler" where
  "unregisterListener s k =
     (if dh_stopFlag s then s else s\<lparr>dh_listeners := map_erase k (dh_listeners s)\<rparr>)"

definition watermarkInfo :: "('d, 'l) DataHandler \<Rightarrow> nat \<times> nat" where
  "watermarkInfo s =
     (if dh_stopFlag s then (0, 0) else (length (dh_listeners s), length (dh_dataQueue s)))"

section \<open>The worker and the destructor\<close>

datatype ('d, 'l) event =
    Signal 'd
  | Register int 'l
  | Unregister int
  | Begin                     \<comment> \<open>\<open>notifyListeners\<close> takes \<open>_listenersMutex\<close>\<close>
  | Call int 'l 'd
  | Spurious                  \<comment> \<open>a wake-up without a notification\<close>
  | Clear                     \<comment> \<open>the destructor empties listeners and queue\<close>
  | Internal

definition worker_step ::
  "('d, 'l) DataHandler \<Rightarrow> (('d, 'l) event \<times> ('d, 'l) DataHandler) option" where
  "worker_step s =
    (case dh_worker s of
       LoopTest \<Rightarrow>
         Some (Internal, s\<lparr>dh_worker := (if dh_stopFlag s then WorkerExited else WaitTest)\<rparr>)
     | WaitTest \<Rightarrow>
         (case dh_dataQueue s of
            d # q \<Rightarrow> Some (Internal, s\<lparr>dh_dataQueue := q, dh_worker := Popped d\<rparr>)
          | [] \<Rightarrow> Some (Internal, s\<lparr>dh_worker := (if dh_stopFlag s then WorkerExited else FallingAsleep)\<rparr>))
     | FallingAsleep \<Rightarrow> Some (Internal, s\<lparr>dh_worker := Asleep\<rparr>)
     | Asleep \<Rightarrow> None
     | Popped d \<Rightarrow> Some (Begin, s\<lparr>dh_worker := Calling d (dh_listeners s)\<rparr>)
     | Calling d [] \<Rightarrow> Some (Internal, s\<lparr>dh_worker := LoopTest\<rparr>)
     | Calling d ((k, l) # ls) \<Rightarrow> Some (Call k l d, s\<lparr>dh_worker := Calling d ls\<rparr>)
     | WorkerExited \<Rightarrow> None)"

text \<open>
  The destructor: the flag (without \<open>_cvMutex\<close>), the notification, the join, the clean-up.
\<close>

definition destroyer_step ::
  "('d, 'l) DataHandler \<Rightarrow> (('d, 'l) event \<times> ('d, 'l) DataHandler) option" where
  "destroyer_step s =
    (case dh_destroyer s of
       Alive \<Rightarrow> Some (Internal, s\<lparr>dh_stopFlag := True, dh_destroyer := FlagSet\<rparr>)
     | FlagSet \<Rightarrow> Some (Internal, s\<lparr>dh_worker := wake (dh_worker s), dh_destroyer := Joining\<rparr>)
     | Joining \<Rightarrow>
         (case dh_worker s of
            WorkerExited \<Rightarrow> Some (Clear, s\<lparr>dh_listeners := [], dh_dataQueue := [], dh_destroyer := Destroyed\<rparr>)
          | _ \<Rightarrow> None)
     | Destroyed \<Rightarrow> None)"

fun holds_cvMutex :: "('d, 'l) worker \<Rightarrow> bool" where
  "holds_cvMutex FallingAsleep = True"
| "holds_cvMutex _ = False"

fun holds_listenersMutex :: "('d, 'l) worker \<Rightarrow> bool" where
  "holds_listenersMutex (Calling _ _) = True"
| "holds_listenersMutex _ = False"

text \<open>One step of any thread; a client waits while the worker holds the mutex it needs.\<close>

inductive dh_step ::
  "('d, 'l) DataHandler \<Rightarrow> ('d, 'l) event \<Rightarrow> ('d, 'l) DataHandler \<Rightarrow> bool"
where
  signal: "dh_step s (Signal d) (signalData s d)"
    if "\<not> dh_stopFlag s" "\<not> holds_cvMutex (dh_worker s)"
| signal_stopped: "dh_step s Internal (signalData s d)" if "dh_stopFlag s"
| register: "dh_step s (Register k l) s'"
    if "\<not> dh_stopFlag s" "\<not> holds_listenersMutex (dh_worker s)" "registerListener s l = Inr (k, s')"
| register_stopped: "dh_step s Internal s'" if "dh_stopFlag s" "registerListener s l = Inr (k, s')"
| unregister: "dh_step s (Unregister k) (unregisterListener s k)"
    if "\<not> dh_stopFlag s" "\<not> holds_listenersMutex (dh_worker s)"
| unregister_stopped: "dh_step s Internal (unregisterListener s k)" if "dh_stopFlag s"
| work: "dh_step s e s'" if "worker_step s = Some (e, s')"
| spurious: "dh_step s Spurious (s\<lparr>dh_worker := WaitTest\<rparr>)" if "dh_worker s = Asleep"
| destroy: "dh_step s e s'" if "destroyer_step s = Some (e, s')"

inductive dh_run ::
  "('d, 'l) DataHandler \<Rightarrow> ('d, 'l) event list \<Rightarrow> ('d, 'l) DataHandler \<Rightarrow> bool"
where
  nil: "dh_run s [] s"
| cons: "dh_run s (e # es) s''" if "dh_step s e s'" "dh_run s' es s''"

inductive_cases dh_stepE: "dh_step s e s'"
inductive_cases dh_run_NilE: "dh_run s [] s'"
inductive_cases dh_run_ConsE: "dh_run s (e # es) s'"

section \<open>The abstract handler\<close>

text \<open>
  What a handler promises, in terms of the events only: a first-in first-out queue of the data
  signalled, and every datum that is taken goes to all listeners then registered, in the order
  of their registration.
\<close>

fun expected_calls :: "(int \<times> 'l) list \<Rightarrow> 'd list \<Rightarrow> ('d, 'l) event list \<Rightarrow> (int \<times> 'l \<times> 'd) list" where
  "expected_calls ls q [] = []"
| "expected_calls ls q (Signal d # es) = expected_calls ls (q @ [d]) es"
| "expected_calls ls q (Register k l # es) = expected_calls (ls @ [(k, l)]) q es"
| "expected_calls ls q (Unregister k # es) = expected_calls (filter (\<lambda>(k', _). k' \<noteq> k) ls) q es"
| "expected_calls ls q (Begin # es) =
     map (\<lambda>(k, l). (k, l, hd q)) ls @ expected_calls ls (tl q) es"
| "expected_calls ls q (Clear # es) = expected_calls [] [] es"
| "expected_calls ls q (_ # es) = expected_calls ls q es"

fun calls :: "('d, 'l) event list \<Rightarrow> (int \<times> 'l \<times> 'd) list" where
  "calls [] = []"
| "calls (Call k l d # es) = (k, l, d) # calls es"
| "calls (_ # es) = calls es"

text \<open>The calls of the current datum that are still to come, and the data not yet taken.\<close>

fun calls_left :: "('d, 'l) worker \<Rightarrow> (int \<times> 'l \<times> 'd) list" where
  "calls_left (Calling d ls) = map (\<lambda>(k, l). (k, l, d)) ls"
| "calls_left _ = []"

fun popped :: "('d, 'l) worker \<Rightarrow> 'd list" where
  "popped (Popped d) = [d]"
| "popped _ = []"

definition pending :: "('d, 'l) DataHandler \<Rightarrow> 'd list" where
  "pending s = popped (dh_worker s) @ dh_dataQueue s"

definition wf_listeners :: "(int \<times> 'l) list \<Rightarrow> int \<Rightarrow> bool" where
  "wf_listeners ls n \<longleftrightarrow> sorted_wrt (<) (map fst ls) \<and> (\<forall>k \<in> fst ` set ls. 123 < k \<and> k \<le> n) \<and>
     123 \<le> n \<and> n \<le> 2147483647"

definition wf_handler :: "('d, 'l) DataHandler \<Rightarrow> bool" where
  "wf_handler s \<longleftrightarrow> wf_listeners (dh_listeners s) (dh_nextListenerId s) \<and>
     (dh_destroyer s \<noteq> Alive \<longleftrightarrow> dh_stopFlag s) \<and>
     (dh_worker s = WorkerExited \<longrightarrow> dh_stopFlag s)"

lemma wf_make [simp]: "wf_handler make_DataHandler"
  by (simp add: wf_handler_def wf_listeners_def make_DataHandler_def)

lemma wf_listeners_Nil: "wf_listeners ls n \<Longrightarrow> wf_listeners [] n"
  by (simp add: wf_listeners_def)

lemma wf_listeners_append:
  "wf_listeners ls n \<Longrightarrow> n \<noteq> 2147483647 \<Longrightarrow> wf_listeners (ls @ [(n + 1, l)]) (n + 1)"
  by (force simp: wf_listeners_def sorted_wrt_append)

lemma wf_listeners_filter: "wf_listeners ls n \<Longrightarrow> wf_listeners (filter (\<lambda>(k', _). k' \<noteq> k) ls) n"
proof -
  have "map fst (filter (\<lambda>(k', _). k' \<noteq> k) ls) = filter (\<lambda>k'. k' \<noteq> k) (map fst ls)"
    by (induction ls) auto
  then show "wf_listeners ls n \<Longrightarrow> ?thesis" by (auto simp: wf_listeners_def sorted_wrt_filter)
qed

lemma map_assign_last: "(\<forall>k' \<in> set (map fst m). k' < k) \<Longrightarrow> map_assign k v m = m @ [(k, v)]"
  by (induction m) auto

lemma map_erase_filter: "sorted_wrt (<) (map fst m) \<Longrightarrow> map_erase k m = filter (\<lambda>(k', _). k' \<noteq> k) m"
proof (induction m)
  case (Cons a m)
  then show ?case by (cases a) (fastforce intro!: filter_True [symmetric])
qed simp

lemma popped_wake [simp]: "popped (wake w) = popped w" "calls_left (wake w) = calls_left w"
  by (cases w; simp)+

lemma wake_exited [simp]: "wake w = WorkerExited \<longleftrightarrow> w = WorkerExited"
  by (cases w) auto

lemma registerListener_wf:
  assumes "wf_handler s" "registerListener s l = Inr (k, s')" "\<not> dh_stopFlag s"
  shows "s' = s\<lparr>dh_nextListenerId := k, dh_listeners := dh_listeners s @ [(k, l)]\<rparr>"
    and "k = dh_nextListenerId s + 1" and "wf_handler s'"
proof -
  have "map_assign k l (dh_listeners s) = dh_listeners s @ [(k, l)]" if "k = dh_nextListenerId s + 1"
    using assms(1) that by (intro map_assign_last) (fastforce simp: wf_handler_def wf_listeners_def)
  then show s': "s' = s\<lparr>dh_nextListenerId := k, dh_listeners := dh_listeners s @ [(k, l)]\<rparr>"
    and k: "k = dh_nextListenerId s + 1"
    using assms(2,3) by (auto simp: registerListener_def Let_def split: if_splits)
  have "dh_nextListenerId s \<noteq> 2147483647" using assms(2,3) by (auto simp: registerListener_def)
  then show "wf_handler s'"
    using assms(1) k by (simp add: s' wf_handler_def wf_listeners_append)
qed

lemma unregisterListener_wf:
  assumes "wf_handler s" "\<not> dh_stopFlag s"
  shows "unregisterListener s k = s\<lparr>dh_listeners := filter (\<lambda>(k', _). k' \<noteq> k) (dh_listeners s)\<rparr>"
    and "wf_handler (unregisterListener s k)"
proof -
  show e: "unregisterListener s k = s\<lparr>dh_listeners := filter (\<lambda>(k', _). k' \<noteq> k) (dh_listeners s)\<rparr>"
    using assms by (simp add: unregisterListener_def map_erase_filter wf_handler_def wf_listeners_def)
  show "wf_handler (unregisterListener s k)"
    using assms(1) unfolding e by (simp add: wf_handler_def wf_listeners_filter)
qed

text \<open>One step against the abstract handler.\<close>

lemma step_wf:
  assumes "wf_handler s" "dh_step s e s'"
  shows "wf_handler s'"
  using assms(2)
proof cases
  case (register l k)
  then show ?thesis using registerListener_wf(3) [OF assms(1)] by blast
next
  case (unregister k)
  then show ?thesis using unregisterListener_wf(2) [OF assms(1)] by blast
next
  case work
  then show ?thesis using assms(1)
    by (auto simp: worker_step_def wf_handler_def split: worker.splits list.splits if_splits)
next
  case destroy
  then show ?thesis using assms(1)
    by (auto simp: destroyer_step_def wf_handler_def wf_listeners_Nil split: destroyer.splits worker.splits)
qed (use assms(1) in \<open>auto simp: signalData_def unregisterListener_def registerListener_def wf_handler_def\<close>)

lemma step_expected:
  assumes "wf_handler s" "dh_step s e s'"
  shows "calls_left (dh_worker s) @ expected_calls (dh_listeners s) (pending s) (e # es) =
    calls [e] @ calls_left (dh_worker s') @ expected_calls (dh_listeners s') (pending s') es"
  using assms(2)
proof cases
  case (register l k)
  then show ?thesis using registerListener_wf(1) [OF assms(1) register(4,2)]
    by (cases "dh_worker s") (auto simp: pending_def)
next
  case (unregister k)
  then show ?thesis using unregisterListener_wf(1) [OF assms(1)]
    by (cases "dh_worker s") (auto simp: pending_def)
next
  case signal
  then show ?thesis by (auto simp: signalData_def pending_def)
next
  case work
  then show ?thesis
    by (auto simp: worker_step_def pending_def split: worker.splits list.splits if_splits)
next
  case destroy
  then show ?thesis
    by (auto simp: destroyer_step_def pending_def split: destroyer.splits worker.splits)
qed (auto simp: signalData_def unregisterListener_def registerListener_def pending_def)

lemma run_expected:
  "dh_run s es s' \<Longrightarrow> wf_handler s \<Longrightarrow>
    wf_handler s' \<and>
    calls_left (dh_worker s) @ expected_calls (dh_listeners s) (pending s) es =
    calls es @ calls_left (dh_worker s')"
proof (induction rule: dh_run.induct)
  case (cons s e s' es s'')
  have one: "calls (e # es) = calls [e] @ calls es" by (cases e) auto
  from cons step_wf [OF cons.prems cons.hyps(1)] step_expected [OF cons.prems cons.hyps(1), of es]
  show ?case by (simp only: one append_assoc)
qed simp

section \<open>Properties\<close>

fun signals :: "('d, 'l) event list \<Rightarrow> 'd list" where
  "signals [] = []"
| "signals (Signal d # es) = d # signals es"
| "signals (_ # es) = signals es"

fun begins :: "('d, 'l) event list \<Rightarrow> nat" where
  "begins [] = 0"
| "begins (Begin # es) = Suc (begins es)"
| "begins (_ # es) = begins es"

fun new_ids :: "('d, 'l) event list \<Rightarrow> int list" where
  "new_ids [] = []"
| "new_ids (Register k l # es) = k # new_ids es"
| "new_ids (_ # es) = new_ids es"

lemma step_pending:
  assumes "dh_step s e s'" "e \<noteq> Clear"
  shows "pending s @ signals [e] = (if e = Begin then [hd (pending s)] else []) @ pending s' \<and>
    (e = Begin \<longrightarrow> pending s \<noteq> [])"
  using assms
proof cases
  case work
  then show ?thesis
    by (auto simp: worker_step_def pending_def split: worker.splits list.splits if_splits)
next
  case destroy
  then show ?thesis using assms(2)
    by (auto simp: destroyer_step_def pending_def split: destroyer.splits worker.splits)
qed (auto simp: signalData_def unregisterListener_def registerListener_def pending_def Let_def split: if_splits)

lemma run_pending:
  "dh_run s es s' \<Longrightarrow> Clear \<notin> set es \<Longrightarrow> pending s' = drop (begins es) (pending s @ signals es)"
proof (induction rule: dh_run.induct)
  case (cons s e s' es s'')
  have one: "signals (e # es) = signals [e] @ signals es" by (cases e) auto
  have ne: "e \<noteq> Clear" using cons.prems by auto
  have IH: "pending s'' = drop (begins es) (pending s' @ signals es)" using cons.IH cons.prems by simp
  have st: "pending s @ signals (e # es) = (if e = Begin then [hd (pending s)] else []) @ pending s' @ signals es"
    using step_pending [OF cons.hyps(1) ne] unfolding one by (metis append_assoc)
  have b: "begins (e # es) = (if e = Begin then Suc (begins es) else begins es)" by (cases e) auto
  show ?case unfolding st b IH by simp
qed (simp add: pending_def)

lemma step_next_id:
  assumes "wf_handler s" "dh_step s e s'"
  shows "new_ids [e] = [] \<and> dh_nextListenerId s' = dh_nextListenerId s \<or>
    new_ids [e] = [dh_nextListenerId s + 1] \<and> dh_nextListenerId s' = dh_nextListenerId s + 1"
  using assms(2)
proof cases
  case (register l k)
  have "dh_nextListenerId s' = k" using registerListener_wf(1) [OF assms(1) register(4,2)] by simp
  then show ?thesis using registerListener_wf(2) [OF assms(1) register(4,2)] by (simp add: register(1))
next
  case work
  then show ?thesis
    by (auto simp: worker_step_def split: worker.splits list.splits if_splits)
next
  case destroy
  then show ?thesis
    by (auto simp: destroyer_step_def split: destroyer.splits worker.splits)
next
  case (register_stopped l k)
  then show ?thesis by (simp add: registerListener_def)
qed (simp_all add: signalData_def unregisterListener_def)

lemma run_new_ids:
  "dh_run s es s' \<Longrightarrow> wf_handler s \<Longrightarrow>
    new_ids es = map (\<lambda>i. dh_nextListenerId s + 1 + int i) [0..<length (new_ids es)]"
proof (induction rule: dh_run.induct)
  case (cons s e s' es s'')
  have ids: "new_ids es = map (\<lambda>i. dh_nextListenerId s' + 1 + int i) [0..<length (new_ids es)]"
    using cons.IH step_wf [OF cons.prems cons.hyps(1)] by blast
  note n = step_next_id [OF cons.prems cons.hyps(1)]
  show ?case
  proof (cases "\<exists>k l. e = Register k l")
    case True
    then obtain k l where e: "e = Register k l" by blast
    have "new_ids (e # es) = (dh_nextListenerId s + 1) # map (\<lambda>i. 2 + dh_nextListenerId s + int i) [0..<length (new_ids es)]"
      using n ids by (simp add: e)
    also have "\<dots> = map (\<lambda>i. dh_nextListenerId s + 1 + int i) (0 # map Suc [0..<length (new_ids es)])"
      by simp
    also have "0 # map Suc [0..<length (new_ids es)] = [0..<length (new_ids (e # es))]"
      by (simp add: e map_Suc_upt upt_conv_Cons del: upt_Suc)
    finally show ?thesis .
  next
    case False
    then have "new_ids (e # es) = new_ids es" "new_ids [e] = []" by (cases e; simp)+
    then show ?thesis using ids n by simp
  qed
qed simp

text \<open>
  C10. A data handler implements the abstract one, whatever the interleaving of clients, worker and
  destructor: the listener calls that were made, and those still due for the current datum, are
  exactly the calls that the events demand, so every datum goes once, in the order in which it
  was signalled, to all listeners registered when it was taken.  Until the destructor clears it the
  queue holds what was signalled and not taken, and the listener ids handed out are 124, 125, ...
\<close>

theorem handler_refines_queue:
  assumes "dh_run make_DataHandler es s"
  shows "expected_calls [] [] es = calls es @ calls_left (dh_worker s) \<and>
    (Clear \<notin> set es \<longrightarrow> pending s = drop (begins es) (signals es)) \<and>
    new_ids es = map (\<lambda>i. 124 + int i) [0..<length (new_ids es)]"
proof -
  have "dh_worker (make_DataHandler :: ('a, 'b) DataHandler) = LoopTest"
    "dh_listeners (make_DataHandler :: ('a, 'b) DataHandler) = []" "pending (make_DataHandler :: ('a, 'b) DataHandler) = []"
    "dh_nextListenerId (make_DataHandler :: ('a, 'b) DataHandler) = 123"
    by (simp_all add: make_DataHandler_def pending_def)
  then show ?thesis
    using run_expected [OF assms wf_make] run_pending [OF assms] run_new_ids [OF assms wf_make] by simp
qed

section \<open>The destructor\<close>

fun worker_run :: "nat \<Rightarrow> ('d, 'l) DataHandler \<Rightarrow> ('d, 'l) DataHandler" where
  "worker_run 0 s = s"
| "worker_run (Suc n) s = (case worker_step s of None \<Rightarrow> s | Some (e, s') \<Rightarrow> worker_run n s')"

declare worker_run.simps(2) [simp del]

lemma worker_run_step: "worker_step s = Some (e, s') \<Longrightarrow> worker_run (Suc n) s = worker_run n s'"
  by (simp add: worker_run.simps(2))

lemma worker_run_stuck: "worker_step s = None \<Longrightarrow> worker_run n s = s"
  by (cases n) (simp_all add: worker_run.simps(2))

lemma exit_from_calling:
  "dh_stopFlag s \<Longrightarrow> dh_worker s = Calling d ls \<Longrightarrow>
    dh_worker (worker_run (Suc (Suc (length ls))) s) = WorkerExited"
proof (induction ls arbitrary: s)
  case Nil
  then show ?case by (simp add: worker_step_def worker_run.simps(2))
next
  case (Cons a ls)
  obtain k l where "a = (k, l)" by fastforce
  with Cons.prems have "worker_step s = Some (Call k l d, s\<lparr>dh_worker := Calling d ls\<rparr>)"
    by (simp add: worker_step_def)
  from worker_run_step [OF this] Cons.IH [of "s\<lparr>dh_worker := Calling d ls\<rparr>"] Cons.prems(1)
  show ?case by simp
qed

lemma exit_from_popped:
  assumes "dh_stopFlag s" "dh_worker s = Popped d"
  shows "\<exists>n. dh_worker (worker_run n s) = WorkerExited"
proof -
  have "worker_step s = Some (Begin, s\<lparr>dh_worker := Calling d (dh_listeners s)\<rparr>)"
    using assms(2) by (simp add: worker_step_def)
  from worker_run_step [OF this] exit_from_calling [of "s\<lparr>dh_worker := Calling d (dh_listeners s)\<rparr>"] assms(1)
  have "dh_worker (worker_run (Suc (Suc (Suc (length (dh_listeners s))))) s) = WorkerExited" by simp
  then show ?thesis by blast
qed

lemma exit_from_test:
  assumes "dh_stopFlag s" "dh_worker s = WaitTest" "dh_dataQueue s = d # q"
  shows "\<exists>n. dh_worker (worker_run n s) = WorkerExited"
proof -
  let ?s' = "s\<lparr>dh_dataQueue := q, dh_worker := Popped d\<rparr>"
  have "worker_step s = Some (Internal, ?s')" using assms(2,3) by (simp add: worker_step_def)
  moreover obtain n where "dh_worker (worker_run n ?s') = WorkerExited"
    using exit_from_popped [of ?s' d] assms(1) by auto
  ultimately have "dh_worker (worker_run (Suc n) s) = WorkerExited" by (simp add: worker_run_step)
  then show ?thesis by blast
qed

lemma asleep_stays: "dh_worker s = Asleep \<Longrightarrow> worker_run n s = s"
  by (rule worker_run_stuck) (simp add: worker_step_def)

lemma falling_stays: "dh_worker s = FallingAsleep \<Longrightarrow> dh_worker (worker_run n s) \<in> {FallingAsleep, Asleep}"
  by (cases n) (simp_all add: worker_step_def asleep_stays worker_run.simps(2))

text \<open>
  Once the stop flag is set the worker, left to itself, exits exactly when it is not between
  its test of the flag and its wait, or already waiting.
\<close>

theorem worker_exits_iff:
  assumes "dh_stopFlag s"
  shows "(\<exists>n. dh_worker (worker_run n s) = WorkerExited) \<longleftrightarrow> dh_worker s \<notin> {FallingAsleep, Asleep}"
proof (cases "dh_worker s")
  case LoopTest
  then show ?thesis using assms by (auto simp: worker_step_def worker_run.simps(2) intro!: exI [of _ 1])
next
  case WaitTest
  show ?thesis
  proof (cases "dh_dataQueue s")
    case Nil
    then show ?thesis using assms WaitTest by (auto simp: worker_step_def worker_run.simps(2) intro!: exI [of _ 1])
  next
    case (Cons d q)
    then show ?thesis using exit_from_test [OF assms WaitTest] WaitTest by auto
  qed
next
  case FallingAsleep
  have "dh_worker (worker_run n s) \<noteq> WorkerExited" for n using falling_stays [OF FallingAsleep, of n] by auto
  then show ?thesis using FallingAsleep by simp
next
  case Asleep
  then show ?thesis using asleep_stays [OF Asleep] by auto
next
  case (Popped d)
  then show ?thesis using exit_from_popped [OF assms Popped] by auto
next
  case (Calling d ls)
  then show ?thesis using exit_from_calling [OF assms Calling] by auto
next
  case WorkerExited
  then show ?thesis by (auto intro: exI [of _ 0])
qed

definition hung :: "('d, 'l) DataHandler \<Rightarrow> bool" where
  "hung s \<longleftrightarrow> dh_destroyer s = Joining \<and> dh_worker s = Asleep \<and> dh_stopFlag s"

text \<open>
  C38. The destructor can wait for ever.  It stores the flag and notifies without the mutex, so both
  can fall between the worker's test and its wait: in the state reached, the destructor is at its
  join, the worker waits, and nothing but a spurious wake-up ever happens.
\<close>

theorem destructor_can_hang:
  "\<exists>es s. dh_run make_DataHandler es s \<and> hung s \<and> {s'. \<exists>e. e \<noteq> Spurious \<and> dh_step s e s'} \<subseteq> {s}"
proof -
  let ?a = "make_DataHandler\<lparr>dh_worker := WaitTest\<rparr> :: ('a, 'b) DataHandler"
  let ?b = "?a\<lparr>dh_worker := FallingAsleep\<rparr>"
  let ?c = "?b\<lparr>dh_stopFlag := True, dh_destroyer := FlagSet\<rparr>"
  let ?d = "?c\<lparr>dh_worker := wake FallingAsleep, dh_destroyer := Joining\<rparr>"
  let ?e = "?d\<lparr>dh_worker := Asleep\<rparr>"
  have "dh_step make_DataHandler Internal ?a"
    by (rule dh_step.work) (simp add: worker_step_def make_DataHandler_def)
  moreover have "dh_step ?a Internal ?b"
    by (rule dh_step.work) (simp add: worker_step_def make_DataHandler_def)
  moreover have "dh_step ?b Internal ?c"
    by (rule dh_step.destroy) (simp add: destroyer_step_def make_DataHandler_def)
  moreover have "dh_step ?c Internal ?d"
    by (rule dh_step.destroy) (simp add: destroyer_step_def make_DataHandler_def)
  moreover have "dh_step ?d Internal ?e"
    by (rule dh_step.work) (simp add: worker_step_def make_DataHandler_def)
  ultimately have "dh_run make_DataHandler [Internal, Internal, Internal, Internal, Internal] ?e"
    by (meson dh_run.intros)
  moreover have hung: "hung ?e" by (simp add: hung_def)
  moreover have "e = Spurious \<or> s' = ?e" if "dh_step ?e e s'" for e s'
    using that
    by cases (auto simp: hung_def signalData_def registerListener_def unregisterListener_def
        worker_step_def destroyer_step_def)
  ultimately show ?thesis by blast
qed

section \<open>Instances\<close>

text \<open>A listener is registered, a datum signalled, and the worker delivers it.\<close>

definition example_events :: "(nat, unit) event list" where
  "example_events = [Register 124 (), Signal 7, Internal, Internal, Begin, Call 124 () 7, Internal]"

definition example_handler :: "(nat, unit) DataHandler" where
  "example_handler = make_DataHandler\<lparr>dh_nextListenerId := 124, dh_listeners := [(124, ())]\<rparr>"

lemma example_run: "dh_run make_DataHandler example_events example_handler"
proof -
  let ?w = "\<lambda>q w. example_handler\<lparr>dh_dataQueue := q, dh_worker := w\<rparr>"
  have 1: "dh_step make_DataHandler (Register 124 ()) (?w [] LoopTest)"
    by (rule dh_step.register) (simp_all add: make_DataHandler_def registerListener_def example_handler_def)
  have "dh_step (?w [] LoopTest) (Signal 7) (signalData (?w [] LoopTest) 7)"
    by (rule dh_step.signal) (simp_all add: make_DataHandler_def example_handler_def)
  then have 2: "dh_step (?w [] LoopTest) (Signal 7) (?w [7] LoopTest)"
    by (simp add: signalData_def example_handler_def make_DataHandler_def)
  note defs = worker_step_def example_handler_def make_DataHandler_def
  have 3: "dh_step (?w [7] LoopTest) Internal (?w [7] WaitTest)" by (rule dh_step.work) (simp add: defs)
  have 4: "dh_step (?w [7] WaitTest) Internal (?w [] (Popped 7))" by (rule dh_step.work) (simp add: defs)
  have 5: "dh_step (?w [] (Popped 7)) Begin (?w [] (Calling 7 [(124, ())]))" by (rule dh_step.work) (simp add: defs)
  have 6: "dh_step (?w [] (Calling 7 [(124, ())])) (Call 124 () 7) (?w [] (Calling 7 []))"
    by (rule dh_step.work) (simp add: defs)
  have "dh_step (?w [] (Calling 7 [])) Internal (?w [] LoopTest)" by (rule dh_step.work) (simp add: defs)
  then have 7: "dh_step (?w [] (Calling 7 [])) Internal example_handler" by (simp add: example_handler_def make_DataHandler_def)
  from 1 2 3 4 5 6 7 show ?thesis unfolding example_events_def by (meson dh_run.intros)
qed

theorem handler_refines_queue_witness:
  "\<exists>s :: (nat, unit) DataHandler. dh_run make_DataHandler example_events s \<and>
    calls example_events = [(124, (), 7)] \<and> calls_left (dh_worker s) = [] \<and> pending s = []"
proof -
  have "expected_calls [] [] example_events = [(124, (), 7)]" by (simp add: example_events_def)
  moreover have "calls_left (dh_worker example_handler) = []" by (simp add: example_handler_def make_DataHandler_def)
  moreover have "pending example_handler = []"
    using handler_refines_queue [OF example_run] by (simp add: example_events_def)
  ultimately show ?thesis using handler_refines_queue [OF example_run] example_run by auto
qed

text \<open>The flag is set while the worker is about to take a datum.\<close>

theorem worker_exits_iff_witness:
  "\<exists>n. dh_worker (worker_run n
     (example_handler\<lparr>dh_stopFlag := True, dh_dataQueue := [1], dh_worker := WaitTest\<rparr>)) = WorkerExited"
  by (rule worker_exits_iff [THEN iffD2]) simp_all

end
