(* ===== verification/Timers.thy ===== *)
theory Timers
  imports Prelude
begin

text \<open>
  \<open>src/libs/CommonUtils/Timer.cpp\<close> and \<open>SnoozableTimer.cpp\<close>: a callback once, periodically, or when
  nobody has snoozed for a while.

  \<^item> Time is a number of milliseconds, an argument of the operations; an interval of \<open>Timer\<close> is an
    unsigned 32-bit integer.  The callback is a token of type \<open>'f\<close>, and calls are returned.
  \<^item> The thread of a timer is a part of its state.  The scheduler runs it at arbitrary times: a wake-up
    is an operation like the others, and a run is a list of operations with their times.  Both
    classes change the flag that the waiting thread tests under its mutex, so a step is atomic; the
    callback of \<open>SnoozableTimer\<close> runs with the mutex released and takes two steps.
  \<^item> Assigning to a \<open>std::thread\<close> that was not joined is the fault \<open>ThreadTerminate\<close>.
  \<^item> Member functions are not called from the callback (both would join or lock themselves).

  The lemmas show when callbacks happen, that none happens after \<open>stop\<close>, and which starts terminate
  the program.
\<close>

section \<open>Timer\<close>

datatype timer_kind = OneShot | Periodic

text \<open>
  The \<open>std::thread\<close> member: no thread, a lambda that waits since a time, or one that has returned
  and has not been joined.
\<close>

datatype 'f timer_thread = NoThread | Waiting timer_kind 'f u32 int | Returned

record 'f Timer =
  tm_isRunning :: bool
  tm_thread :: "'f timer_thread"

definition make_Timer :: "'f Timer" where
  "make_Timer = \<lparr>tm_isRunning = False, tm_thread = NoThread\<rparr>"

text \<open>
  \<open>stop\<close>: the flag is cleared under the mutex, so the waiting lambda sees it, returns and is joined.
\<close>

definition timer_stop :: "'f Timer \<Rightarrow> 'f Timer" where
  "timer_stop tm =
    (let tm = tm\<lparr>tm_isRunning := False\<rparr>
     in if tm_thread tm \<noteq> NoThread then tm\<lparr>tm_thread := NoThread\<rparr> else tm)"

definition timer_spawn :: "timer_kind \<Rightarrow> 'f \<Rightarrow> u32 \<Rightarrow> int \<Rightarrow> 'f Timer \<Rightarrow> 'f Timer outcome" where
  "timer_spawn kind func interval now tm =
    (if tm_thread tm \<noteq> NoThread then Inl ThreadTerminate
     else Inr (tm\<lparr>tm_thread := Waiting kind func interval now\<rparr>))"

definition startOneShot :: "'f \<Rightarrow> u32 \<Rightarrow> int \<Rightarrow> 'f Timer \<Rightarrow> 'f Timer outcome" where
  "startOneShot func interval now tm =
    (let tm = (if tm_isRunning tm then timer_stop tm else tm)
     in timer_spawn OneShot func interval now (tm\<lparr>tm_isRunning := True\<rparr>))"

definition startPeriodic :: "'f \<Rightarrow> u32 \<Rightarrow> int \<Rightarrow> 'f Timer \<Rightarrow> 'f Timer outcome" where
  "startPeriodic func interval now tm =
    (let tm = (if tm_isRunning tm then timer_stop tm else tm)
     in timer_spawn Periodic func interval now (tm\<lparr>tm_isRunning := True\<rparr>))"

text \<open>
  The scheduler runs the lambda at a time \<open>now\<close>.  It goes on when its wait has timed out; the call
  is made with the mutex held.
\<close>

definition timer_wake :: "int \<Rightarrow> 'f Timer \<Rightarrow> 'f Timer \<times> 'f list" where
  "timer_wake now tm =
    (case tm_thread tm of
       Waiting kind func interval since \<Rightarrow>
         if \<not> tm_isRunning tm then (tm\<lparr>tm_thread := Returned\<rparr>, [])
         else if now - since < uint interval then (tm, [])
         else (case kind of
                 OneShot \<Rightarrow> (tm\<lparr>tm_isRunning := False, tm_thread := Returned\<rparr>, [func])
               | Periodic \<Rightarrow> (tm\<lparr>tm_thread := Waiting Periodic func interval now\<rparr>, [func]))
     | _ \<Rightarrow> (tm, []))"

datatype 'f timer_op = OpOneShot 'f u32 | OpPeriodic 'f u32 | OpStop | OpWake

fun timer_step :: "'f timer_op \<Rightarrow> int \<Rightarrow> 'f Timer \<Rightarrow> ('f Timer \<times> 'f list) outcome" where
  "timer_step (OpOneShot f i) now tm = obind (startOneShot f i now tm) (\<lambda>tm. Inr (tm, []))"
| "timer_step (OpPeriodic f i) now tm = obind (startPeriodic f i now tm) (\<lambda>tm. Inr (tm, []))"
| "timer_step OpStop now tm = Inr (timer_stop tm, [])"
| "timer_step OpWake now tm = Inr (timer_wake now tm)"

fun timer_run :: "('f timer_op \<times> int) list \<Rightarrow> 'f Timer \<Rightarrow> ('f Timer \<times> (int \<times> 'f) list) outcome" where
  "timer_run [] tm = Inr (tm, [])"
| "timer_run ((a, now) # ops) tm =
     obind (timer_step a now tm) (\<lambda>(tm, fs).
     obind (timer_run ops tm) (\<lambda>(tm, cs). Inr (tm, map (Pair now) fs @ cs)))"

text \<open>A running timer has a waiting lambda.\<close>

definition wf_timer :: "'f Timer \<Rightarrow> bool" where
  "wf_timer tm \<longleftrightarrow>
     (if tm_isRunning tm then (\<exists>k f i t. tm_thread tm = Waiting k f i t)
      else tm_thread tm = NoThread \<or> tm_thread tm = Returned)"

lemma wf_timerE:
  assumes "wf_timer tm"
  obtains (idle) "\<not> tm_isRunning tm" "tm_thread tm = NoThread"
  | (spent) "\<not> tm_isRunning tm" "tm_thread tm = Returned"
  | (armed) k f i t where "tm_isRunning tm" "tm_thread tm = Waiting k f i t"
  using assms by (auto simp: wf_timer_def split: if_splits)

lemmas timer_defs = startOneShot_def startPeriodic_def timer_spawn_def timer_stop_def timer_wake_def

lemma timer_step_wf: "wf_timer tm \<Longrightarrow> timer_step a now tm = Inr (tm', fs) \<Longrightarrow> wf_timer tm'"
  by (cases a; erule wf_timerE)
    (auto simp: timer_defs Let_def wf_timer_def obind_eq_Inr_iff split: if_splits timer_kind.splits)

lemma timer_run_wf: "timer_run ops tm = Inr (tm', cs) \<Longrightarrow> wf_timer tm \<Longrightarrow> wf_timer tm'"
proof (induction ops arbitrary: tm cs)
  case (Cons x ops)
  obtain a now where "x = (a, now)" by fastforce
  then show ?case using Cons timer_step_wf by (fastforce simp: obind_eq_Inr_iff)
qed simp

lemma wf_make_Timer [simp]: "wf_timer make_Timer"
  by (simp add: wf_timer_def make_Timer_def)

lemma timer_run_append:
  "timer_run (xs @ ys) tm = obind (timer_run xs tm) (\<lambda>(tm, cs).
     obind (timer_run ys tm) (\<lambda>(tm, cs'). Inr (tm, cs @ cs')))"
proof (induction xs arbitrary: tm)
  case Nil
  then show ?case by (cases "timer_run ys tm") auto
next
  case (Cons x xs)
  obtain a now where x: "x = (a, now)" by fastforce
  show ?case
  proof (cases "timer_step a now tm")
    case (Inr p)
    obtain tm1 fs where p: "p = (tm1, fs)" by fastforce
    show ?thesis
      by (cases "timer_run xs tm1"; cases "timer_run ys (fst (projr (timer_run xs tm1)))")
        (auto simp: x Inr p Cons)
  qed (simp add: x)
qed

section \<open>Properties of the timer\<close>

definition is_start :: "'f timer_op \<Rightarrow> bool" where
  "is_start a \<longleftrightarrow> (case a of OpOneShot _ _ \<Rightarrow> True | OpPeriodic _ _ \<Rightarrow> True | _ \<Rightarrow> False)"

lemma start_terminates: "wf_timer tm \<Longrightarrow> timer_step a now tm = Inl e \<longleftrightarrow>
    is_start a \<and> tm_thread tm = Returned \<and> e = ThreadTerminate"
  by (cases a; erule wf_timerE)
    (auto simp: timer_defs Let_def is_start_def obind_eq_Inl_iff split: if_splits timer_kind.splits)

lemma timer_step_start:
  assumes "wf_timer tm" "is_start a" "timer_step a now tm = Inr (tm', fs)"
  shows "fs = [] \<and> tm_isRunning tm' \<and>
    (\<forall>f i. a = OpOneShot f i \<longrightarrow> tm_thread tm' = Waiting OneShot f i now) \<and>
    (\<forall>f i. a = OpPeriodic f i \<longrightarrow> tm_thread tm' = Waiting Periodic f i now)"
  using assms
  by (cases a) (auto simp: timer_defs Let_def is_start_def obind_eq_Inr_iff split: if_splits)

text \<open>
  C39. A one-shot timer that has fired cannot be started again.  The flag is down, so the start does
  not call \<open>stop\<close>, and the assignment to the thread that was never joined terminates the program.
  With a \<open>stop\<close> in between, or before it fires, the start succeeds.
\<close>

theorem fired_one_shot_restart:
  assumes "timer_run ops make_Timer = Inr (tm, cs)" and "timer_step (OpOneShot f i) t0 tm = Inr (tm1, [])"
    and "is_start a"
  shows "(timer_run [(OpWake, t1), (a, t2)] tm1 = Inl ThreadTerminate \<longleftrightarrow> uint i \<le> t1 - t0) \<and>
    safe (timer_run [(OpWake, t1), (OpStop, t2), (a, t2)] tm1)"
proof -
  have wf: "wf_timer tm" using timer_run_wf [OF assms(1)] by simp
  have tm1: "tm_isRunning tm1" "tm_thread tm1 = Waiting OneShot f i t0"
    using timer_step_start [OF wf _ assms(2)] by (simp_all add: is_start_def)
  have start: "\<exists>tm'. timer_step a t2 tm = Inr (tm', [])" if "wf_timer tm" "tm_thread tm \<noteq> Returned" for tm :: "'a Timer"
    using start_terminates [OF that(1), of a t2] timer_step_start [OF that(1) assms(3)] that(2)
    by (cases "timer_step a t2 tm") auto
  have spent: "timer_step a t2 tm = Inl ThreadTerminate" if "\<not> tm_isRunning tm" "tm_thread tm = Returned" for tm :: "'a Timer"
    using start_terminates [of tm a t2 ThreadTerminate] that assms(3) by (simp add: wf_timer_def)
  have stopped: "wf_timer (timer_stop tm2)" "tm_thread (timer_stop tm2) \<noteq> Returned" for tm2 :: "'a Timer"
    by (auto simp: timer_stop_def wf_timer_def Let_def)
  have fired: "timer_run [(OpWake, t1), (a, t2)] tm1 = Inl ThreadTerminate" if "uint i \<le> t1 - t0"
    using tm1 that by (simp add: timer_wake_def spent)
  have early: "safe (timer_run [(OpWake, t1), (a, t2)] tm1)" if "t1 - t0 < uint i"
  proof -
    obtain tm' where "timer_step a t2 tm1 = Inr (tm', [])" using start [of tm1] tm1 by (auto simp: wf_timer_def)
    then show ?thesis using tm1 that by (simp add: timer_wake_def)
  qed
  have "safe (timer_run [(OpWake, t1), (OpStop, t2), (a, t2)] tm1)"
  proof -
    obtain tm2 fs where w: "timer_wake t1 tm1 = (tm2, fs)" by fastforce
    obtain tm' where "timer_step a t2 (timer_stop tm2) = Inr (tm', [])" using start [OF stopped] by blast
    then show ?thesis by (simp add: w)
  qed
  then show ?thesis using fired early by (cases "uint i \<le> t1 - t0") auto
qed

text \<open>The wake-ups that come at least the interval after the one before that did.\<close>

fun due_times :: "int \<Rightarrow> int \<Rightarrow> int list \<Rightarrow> int list" where
  "due_times iv since [] = []"
| "due_times iv since (t # ts) = (if t - since < iv then due_times iv since ts else t # due_times iv t ts)"

lemma due_times_apart:
  "sorted_wrt (\<lambda>a b. iv \<le> b - a) (since # due_times iv since ts)" if "0 \<le> iv"
proof (induction ts arbitrary: since)
  case (Cons t ts)
  have "sorted_wrt (\<lambda>a b. iv \<le> b - a) (since # t # due_times iv t ts)" if "iv \<le> t - since"
    using Cons.IH [of t] that \<open>0 \<le> iv\<close> by fastforce
  then show ?case using Cons.IH [of since] by simp
qed simp

lemma due_times_rate:
  "0 \<le> iv \<Longrightarrow> \<forall>t \<in> set ts. t \<le> u \<Longrightarrow> since \<le> u \<Longrightarrow> int (length (due_times iv since ts)) * iv \<le> u - since"
proof (induction ts arbitrary: since)
  case (Cons t ts)
  from Cons.IH [of since] Cons.IH [of t] Cons.prems
  have "int (length (due_times iv since ts)) * iv \<le> u - since" "int (length (due_times iv t ts)) * iv \<le> u - t"
    by simp_all
  then show ?case by (simp add: distrib_right)
qed simp

lemma periodic_wakes:
  "tm_isRunning tm \<Longrightarrow> tm_thread tm = Waiting Periodic f i since \<Longrightarrow>
    \<exists>tm'. timer_run (map (Pair OpWake) ts) tm = Inr (tm', map (\<lambda>t. (t, f)) (due_times (uint i) since ts)) \<and>
      tm_isRunning tm' \<and> (\<exists>since'. tm_thread tm' = Waiting Periodic f i since')"
proof (induction ts arbitrary: tm since)
  case (Cons t ts)
  let ?tm = "if t - since < uint i then tm else tm\<lparr>tm_thread := Waiting Periodic f i t\<rparr>"
  let ?since = "if t - since < uint i then since else t"
  have "timer_wake t tm = (?tm, if t - since < uint i then [] else [f])"
    using Cons.prems by (simp add: timer_wake_def)
  moreover obtain tm' where
    "timer_run (map (Pair OpWake) ts) ?tm = Inr (tm', map (\<lambda>t. (t, f)) (due_times (uint i) ?since ts))"
    "tm_isRunning tm'" "\<exists>since'. tm_thread tm' = Waiting Periodic f i since'"
    using Cons.IH [of ?tm ?since] Cons.prems by (cases "t - since < uint i") auto
  ultimately show ?case by (cases "t - since < uint i") auto
qed auto

lemma idle_wakes:
  "\<not> tm_isRunning tm \<Longrightarrow> tm_thread tm = NoThread \<Longrightarrow> timer_run (map (Pair OpWake) ts) tm = Inr (tm, [])"
  by (induction ts) (auto simp: timer_wake_def)

text \<open>
  A periodic timer calls its function once per wake-up that comes at least the interval after
  the start or the call before, and only then: the calls are at least the interval apart, and
  \<open>n\<close> calls take at least \<open>n\<close> intervals.  After \<open>stop\<close> no wake-up makes a call.
\<close>

theorem periodic_rate:
  assumes "timer_step (OpPeriodic f i) t0 make_Timer = Inr (tm, [])"
    and "\<forall>t \<in> set ts. t \<le> u" and "t0 \<le> u"
  shows "\<exists>tm' times. timer_run (map (Pair OpWake) ts @ [(OpStop, u)] @ map (Pair OpWake) us) tm =
      Inr (tm', map (\<lambda>t. (t, f)) times) \<and>
    times = due_times (uint i) t0 ts \<and>
    sorted_wrt (\<lambda>a b. uint i \<le> b - a) (t0 # times) \<and>
    int (length times) * uint i \<le> u - t0"
proof -
  have "tm_isRunning tm" "tm_thread tm = Waiting Periodic f i t0"
    using timer_step_start [OF wf_make_Timer _ assms(1)] by (simp_all add: is_start_def)
  then obtain tm1 where tm1: "timer_run (map (Pair OpWake) ts) tm =
      Inr (tm1, map (\<lambda>t. (t, f)) (due_times (uint i) t0 ts))" "tm_thread tm1 \<noteq> NoThread"
    using periodic_wakes by fastforce
  have "timer_run (map (Pair OpWake) us) (timer_stop tm1) = Inr (timer_stop tm1, [])"
    by (rule idle_wakes) (simp_all add: timer_stop_def Let_def)
  then have "timer_run (map (Pair OpWake) ts @ [(OpStop, u)] @ map (Pair OpWake) us) tm =
      Inr (timer_stop tm1, map (\<lambda>t. (t, f)) (due_times (uint i) t0 ts))"
    by (simp add: timer_run_append tm1(1))
  moreover have "sorted_wrt (\<lambda>a b. uint i \<le> b - a) (t0 # due_times (uint i) t0 ts)"
    by (rule due_times_apart) simp
  moreover have "int (length (due_times (uint i) t0 ts)) * uint i \<le> u - t0"
    using assms(2,3) by (intro due_times_rate) simp_all
  ultimately show ?thesis by blast
qed

theorem fired_one_shot_restart_witness:
  "timer_run [(OpOneShot () 10, 0), (OpWake, 10), (OpOneShot () 10, 20)] make_Timer = Inl ThreadTerminate"
proof -
  let ?tm = "make_Timer\<lparr>tm_isRunning := True, tm_thread := Waiting OneShot () 10 0\<rparr>"
  have s: "timer_step (OpOneShot () 10) 0 make_Timer = Inr (?tm, [])"
    by (simp add: startOneShot_def timer_spawn_def make_Timer_def)
  have "timer_run [(OpWake, 10), (OpOneShot () 10, 20)] ?tm = Inl ThreadTerminate"
    using fired_one_shot_restart [OF _ s, of "[]" "[]" "OpOneShot () 10" 10 20] by (simp add: is_start_def)
  then show ?thesis using s by simp
qed

theorem periodic_rate_witness:
  "\<exists>tm'. timer_run [(OpPeriodic () 10, 0), (OpWake, 3), (OpWake, 12), (OpWake, 21), (OpWake, 22), (OpStop, 30), (OpWake, 50)]
    make_Timer = Inr (tm', [(12, ()), (22, ())])"
proof -
  let ?tm = "make_Timer\<lparr>tm_isRunning := True, tm_thread := Waiting Periodic () 10 0\<rparr>"
  have s: "timer_step (OpPeriodic () 10) 0 make_Timer = Inr (?tm, [])"
    by (simp add: startPeriodic_def timer_spawn_def make_Timer_def)
  show ?thesis using periodic_rate [OF s, of "[3, 12, 21, 22]" 30 "[50]"] s by auto
qed

section \<open>SnoozableTimer\<close>

text \<open>
  The thread waits until the execution time, or is inside the function with the mutex released.
  Times are milliseconds.
\<close>

datatype snooze_thread = NotStarted | AwaitingTime | InFunction

record SnoozableTimer =
  sn_executionTime :: int
  sn_snoozePeriodMs :: int
  sn_isRunning :: bool
  sn_thread :: snooze_thread

definition make_SnoozableTimer :: "int \<Rightarrow> SnoozableTimer" where
  "make_SnoozableTimer period =
     \<lparr>sn_executionTime = 0, sn_snoozePeriodMs = period, sn_isRunning = False, sn_thread = NotStarted\<rparr>"

definition snooze_start :: "int \<Rightarrow> SnoozableTimer \<Rightarrow> SnoozableTimer outcome" where
  "snooze_start now s =
    (if sn_isRunning s then Inr s
     else
       let s = s\<lparr>sn_executionTime := now + sn_snoozePeriodMs s, sn_isRunning := True\<rparr>
       in if sn_thread s \<noteq> NotStarted then Inl ThreadTerminate
          else Inr (s\<lparr>sn_thread := AwaitingTime\<rparr>))"

text \<open>\<open>now + std::chrono::hours(87600)\<close>.\<close>

definition ten_years :: int where
  "ten_years = 87600 * 3600000"

text \<open>The function returns: the execution time is overwritten and the loop tests the flag again.\<close>

definition snooze_return :: "int \<Rightarrow> SnoozableTimer \<Rightarrow> SnoozableTimer" where
  "snooze_return now s =
    (if sn_thread s = InFunction
     then s\<lparr>sn_executionTime := now + ten_years, sn_thread := AwaitingTime\<rparr> else s)"

text \<open>\<open>stop\<close>, which returns at \<open>now\<close>: a function under way returns first.\<close>

definition snooze_stop :: "int \<Rightarrow> SnoozableTimer \<Rightarrow> SnoozableTimer" where
  "snooze_stop now s =
    (let s = snooze_return now (s\<lparr>sn_isRunning := False\<rparr>)
     in s\<lparr>sn_thread := NotStarted\<rparr>)"

definition snooze :: "int \<Rightarrow> SnoozableTimer \<Rightarrow> SnoozableTimer" where
  "snooze now s = s\<lparr>sn_executionTime := now + sn_snoozePeriodMs s\<rparr>"

definition updateSnoozePeriod :: "int \<Rightarrow> int \<Rightarrow> SnoozableTimer \<Rightarrow> SnoozableTimer" where
  "updateSnoozePeriod period now s = snooze now (s\<lparr>sn_snoozePeriodMs := period\<rparr>)"

text \<open>The thread is woken at \<open>now\<close>; the result says whether it enters the function.\<close>

definition snooze_wake :: "int \<Rightarrow> SnoozableTimer \<Rightarrow> SnoozableTimer \<times> bool" where
  "snooze_wake now s =
    (if sn_thread s = AwaitingTime \<and> sn_executionTime s \<le> now \<and> sn_isRunning s
     then (s\<lparr>sn_thread := InFunction\<rparr>, True) else (s, False))"

datatype snooze_op = SnStart | SnStop | SnSnooze | SnUpdate int | SnWake | SnReturn

fun snooze_step :: "snooze_op \<Rightarrow> int \<Rightarrow> SnoozableTimer \<Rightarrow> (SnoozableTimer \<times> bool) outcome" where
  "snooze_step SnStart now s = obind (snooze_start now s) (\<lambda>s. Inr (s, False))"
| "snooze_step SnStop now s = Inr (snooze_stop now s, False)"
| "snooze_step SnSnooze now s = Inr (snooze now s, False)"
| "snooze_step (SnUpdate p) now s = Inr (updateSnoozePeriod p now s, False)"
| "snooze_step SnWake now s = Inr (snooze_wake now s)"
| "snooze_step SnReturn now s = Inr (snooze_return now s, False)"

text \<open>The times at which the function is entered.\<close>

fun snooze_run :: "(snooze_op \<times> int) list \<Rightarrow> SnoozableTimer \<Rightarrow> (SnoozableTimer \<times> int list) outcome" where
  "snooze_run [] s = Inr (s, [])"
| "snooze_run ((a, now) # ops) s =
     obind (snooze_step a now s) (\<lambda>(s, called).
     obind (snooze_run ops s) (\<lambda>(s, ts). Inr (s, (if called then [now] else []) @ ts)))"

definition wf_snooze :: "SnoozableTimer \<Rightarrow> bool" where
  "wf_snooze s \<longleftrightarrow> (sn_isRunning s \<longleftrightarrow> sn_thread s \<noteq> NotStarted)"

lemmas snooze_defs = snooze_start_def snooze_stop_def snooze_def updateSnoozePeriod_def
  snooze_wake_def snooze_return_def

lemma snooze_step_safe:
  "wf_snooze s \<Longrightarrow> \<exists>s' c. snooze_step a now s = Inr (s', c) \<and> wf_snooze s'"
  by (cases a) (auto simp: snooze_defs wf_snooze_def Let_def)

lemma snooze_run_safe: "wf_snooze s \<Longrightarrow> \<exists>s' ts. snooze_run ops s = Inr (s', ts) \<and> wf_snooze s'"
proof (induction ops arbitrary: s)
  case (Cons x ops)
  obtain a now where x: "x = (a, now)" by fastforce
  obtain s1 c where 1: "snooze_step a now s = Inr (s1, c)" "wf_snooze s1"
    using snooze_step_safe [OF Cons.prems] by blast
  from Cons.IH [OF 1(2)] 1(1) show ?case by (auto simp: x)
qed simp

lemma wf_make_SnoozableTimer [simp]: "wf_snooze (make_SnoozableTimer period)"
  by (simp add: wf_snooze_def make_SnoozableTimer_def)

lemma snooze_run_append:
  "snooze_run xs s = Inr (s1, ts) \<Longrightarrow>
    snooze_run (xs @ ys) s = obind (snooze_run ys s1) (\<lambda>(s2, ts'). Inr (s2, ts @ ts'))"
proof (induction xs arbitrary: s ts)
  case Nil
  then show ?case by (cases "snooze_run ys s1") auto
next
  case (Cons x xs)
  obtain a now where x: "x = (a, now)" by fastforce
  obtain s' c ts1 where 1: "snooze_step a now s = Inr (s', c)" "snooze_run xs s' = Inr (s1, ts1)"
    "ts = (if c then [now] else []) @ ts1"
    using Cons.prems by (auto simp: x obind_eq_Inr_iff)
  show ?case by (cases "snooze_run ys s1") (auto simp: x 1 Cons.IH [OF 1(2)])
qed

lemma in_function_wakes:
  "sn_thread s = InFunction \<Longrightarrow> snooze_run (map (Pair SnWake) ws) s = Inr (s, [])"
  by (induction ws) (auto simp: snooze_wake_def)

lemma awaiting_wakes:
  assumes "sn_thread s = AwaitingTime" "sn_isRunning s"
  shows "snooze_run (map (Pair SnWake) ws) s =
    Inr (if filter (\<lambda>t. sn_executionTime s \<le> t) ws = [] then s else s\<lparr>sn_thread := InFunction\<rparr>,
      take 1 (filter (\<lambda>t. sn_executionTime s \<le> t) ws))"
proof (induction ws)
  case (Cons w ws)
  show ?case
  proof (cases "sn_executionTime s \<le> w")
    case True
    then have "snooze_wake w s = (s\<lparr>sn_thread := InFunction\<rparr>, True)" using assms by (simp add: snooze_wake_def)
    then show ?thesis using True in_function_wakes [of "s\<lparr>sn_thread := InFunction\<rparr>" ws] by simp
  next
    case False
    then have "snooze_wake w s = (s, False)" by (simp add: snooze_wake_def)
    then show ?thesis using Cons False by simp
  qed
qed simp

text \<open>Snoozes and period updates while the thread stays where it is.\<close>

fun last_deadline :: "int \<Rightarrow> int \<Rightarrow> (snooze_op \<times> int) list \<Rightarrow> int" where
  "last_deadline period dl [] = dl"
| "last_deadline period dl ((SnUpdate p, t) # ops) = last_deadline p (t + p) ops"
| "last_deadline period dl ((_, t) # ops) = last_deadline period (t + period) ops"

definition is_snooze :: "snooze_op \<Rightarrow> bool" where
  "is_snooze a \<longleftrightarrow> (case a of SnSnooze \<Rightarrow> True | SnUpdate _ \<Rightarrow> True | _ \<Rightarrow> False)"

lemma snoozes_run:
  "\<forall>(a, t) \<in> set ops. is_snooze a \<Longrightarrow>
    \<exists>s'. snooze_run ops s = Inr (s', []) \<and> sn_thread s' = sn_thread s \<and> sn_isRunning s' = sn_isRunning s \<and>
      sn_executionTime s' = last_deadline (sn_snoozePeriodMs s) (sn_executionTime s) ops"
proof (induction ops arbitrary: s)
  case (Cons x ops)
  obtain a t where x: "x = (a, t)" by fastforce
  have a: "is_snooze a" using Cons.prems x by auto
  have rest: "\<forall>(a, t) \<in> set ops. is_snooze a" using Cons.prems by simp
  show ?case
  proof (cases a)
    case SnSnooze
    then show ?thesis using Cons.IH [OF rest, of "snooze t s"] by (auto simp: x snooze_def)
  next
    case (SnUpdate p)
    then show ?thesis using Cons.IH [OF rest, of "updateSnoozePeriod p t s"]
      by (auto simp: x updateSnoozePeriod_def snooze_def)
  qed (use a in \<open>simp_all add: is_snooze_def\<close>)
qed simp

text \<open>The function returns: no wake-up of the next ten years enters it again.\<close>

lemma returned_wakes:
  assumes "sn_thread s = InFunction" "sn_isRunning s" "\<forall>w \<in> set ws. w < r + ten_years"
  shows "snooze_run ((SnReturn, r) # map (Pair SnWake) ws) s = Inr (snooze_return r s, [])"
proof -
  let ?s = "snooze_return r s"
  have s: "sn_thread ?s = AwaitingTime" "sn_isRunning ?s" "sn_executionTime ?s = r + ten_years"
    using assms(1,2) by (simp_all add: snooze_return_def)
  have "filter (\<lambda>t. r + ten_years \<le> t) ws = []" using assms(3) by (auto simp: filter_empty_conv)
  then have "snooze_run (map (Pair SnWake) ws) ?s = Inr (?s, [])" using awaiting_wakes [OF s(1,2), of ws] by (simp add: s(3))
  then show ?thesis by simp
qed

text \<open>
  C40. Snoozing postpones the call, and it happens once.  In a timer whose thread waits, whatever snoozes and
  period updates come first, the function is entered at the first wake-up that is at or after the last
  of them plus the period then valid.  It is not entered a second time: not while it runs, and not at a
  wake-up of the next ten years after it has returned, at \<open>r\<close>, unless the timer is snoozed again; then the
  thread waits as before.
\<close>

theorem snooze_postpones:
  assumes "sn_isRunning s" "sn_thread s = AwaitingTime"
    and "\<forall>(a, t) \<in> set ops. is_snooze a" and "\<forall>w \<in> set ws'. w < r + ten_years"
    and "due = filter (\<lambda>t. last_deadline (sn_snoozePeriodMs s) (sn_executionTime s) ops \<le> t)"
  shows "(\<exists>s'. snooze_run (ops @ map (Pair SnWake) ws) s = Inr (s', take 1 (due ws)) \<and>
      sn_isRunning s' \<and> sn_thread s' = (if due ws = [] then AwaitingTime else InFunction)) \<and>
    (due ws \<noteq> [] \<longrightarrow>
      (\<exists>s'. snooze_run (ops @ map (Pair SnWake) ws @ (SnReturn, r) # map (Pair SnWake) ws') s = Inr (s', [hd (due ws)]) \<and>
        sn_isRunning s' \<and> sn_thread s' = AwaitingTime \<and> sn_executionTime s' = r + ten_years))"
proof (intro conjI impI)
  obtain s1 where 1: "snooze_run ops s = Inr (s1, [])" "sn_thread s1 = AwaitingTime" "sn_isRunning s1"
    "sn_executionTime s1 = last_deadline (sn_snoozePeriodMs s) (sn_executionTime s) ops"
    using snoozes_run [OF assms(3), of s] assms(1,2) by auto
  let ?s2 = "if due ws = [] then s1 else s1\<lparr>sn_thread := InFunction\<rparr>"
  have run: "snooze_run (ops @ map (Pair SnWake) ws) s = Inr (?s2, take 1 (due ws))"
    using awaiting_wakes [OF 1(2,3), of ws] by (simp add: snooze_run_append [OF 1(1)] 1(4) assms(5))
  then show "\<exists>s'. snooze_run (ops @ map (Pair SnWake) ws) s = Inr (s', take 1 (due ws)) \<and>
      sn_isRunning s' \<and> sn_thread s' = (if due ws = [] then AwaitingTime else InFunction)"
    using 1(2,3) by (intro exI [of _ ?s2]) simp
  assume entered: "due ws \<noteq> []"
  then have one: "take 1 (due ws) = [hd (due ws)]" by (cases "due ws") simp_all
  have "snooze_run ((SnReturn, r) # map (Pair SnWake) ws') ?s2 = Inr (snooze_return r ?s2, [])"
    using 1(3) entered by (intro returned_wakes [OF _ _ assms(4)]) simp_all
  then have "snooze_run ((ops @ map (Pair SnWake) ws) @ (SnReturn, r) # map (Pair SnWake) ws') s =
      Inr (snooze_return r ?s2, [hd (due ws)])"
    unfolding snooze_run_append [OF run] one by simp
  then show "\<exists>s'. snooze_run (ops @ map (Pair SnWake) ws @ (SnReturn, r) # map (Pair SnWake) ws') s = Inr (s', [hd (due ws)]) \<and>
      sn_isRunning s' \<and> sn_thread s' = AwaitingTime \<and> sn_executionTime s' = r + ten_years"
    using 1(3) entered by (intro exI [of _ "snooze_return r ?s2"]) (simp add: snooze_return_def)
qed

text \<open>
  A snooze during the function is lost.  Whatever snoozes and period updates come while the
  function runs, its return overwrites the execution time, and the function is not entered again
  for ten years.
\<close>

theorem snooze_during_function_lost:
  assumes "sn_isRunning s" "sn_thread s = InFunction"
    and "\<forall>(a, t) \<in> set ops. is_snooze a" and "\<forall>w \<in> set ws. w < r + ten_years"
  shows "\<exists>s'. snooze_run (ops @ [(SnReturn, r)] @ map (Pair SnWake) ws) s = Inr (s', []) \<and>
    sn_executionTime s' = r + ten_years"
proof -
  obtain s1 where 1: "snooze_run ops s = Inr (s1, [])" "sn_thread s1 = InFunction" "sn_isRunning s1"
    using snoozes_run [OF assms(3), of s] assms(1,2) by auto
  have "snooze_run (ops @ [(SnReturn, r)] @ map (Pair SnWake) ws) s = Inr (snooze_return r s1, [])"
    using returned_wakes [OF 1(2,3) assms(4)] by (simp add: snooze_run_append [OF 1(1)])
  then show ?thesis using 1(2) by (simp add: snooze_return_def)
qed

theorem snooze_postpones_witness:
  "\<exists>s'. snooze_run [(SnStart, 0), (SnSnooze, 50), (SnUpdate 30, 60), (SnWake, 80), (SnWake, 95), (SnWake, 200),
      (SnReturn, 210), (SnWake, 300), (SnWake, 100000)] (make_SnoozableTimer 100) = Inr (s', [95])"
proof -
  let ?s = "make_SnoozableTimer 100\<lparr>sn_executionTime := 100, sn_isRunning := True, sn_thread := AwaitingTime\<rparr>"
  have "snooze_start 0 (make_SnoozableTimer 100) = Inr ?s" by (simp add: snooze_start_def make_SnoozableTimer_def)
  moreover have "\<exists>s'. snooze_run ([(SnSnooze, 50), (SnUpdate 30, 60)] @ map (Pair SnWake) [80, 95, 200] @
      (SnReturn, 210) # map (Pair SnWake) [300, 100000]) ?s = Inr (s', [95])"
    using snooze_postpones [of ?s "[(SnSnooze, 50), (SnUpdate 30, 60)]" "[300, 100000]" 210 _ "[80, 95, 200]", OF _ _ _ _ refl]
    by (auto simp: is_snooze_def ten_years_def)
  ultimately show ?thesis by auto
qed

theorem snooze_during_function_lost_witness:
  "\<exists>s'. snooze_run [(SnStart, 0), (SnWake, 100), (SnSnooze, 105), (SnReturn, 110), (SnWake, 205), (SnWake, 100000)]
    (make_SnoozableTimer 100) = Inr (s', [100])"
proof -
  let ?s = "make_SnoozableTimer 100\<lparr>sn_executionTime := 100, sn_isRunning := True, sn_thread := AwaitingTime\<rparr>"
  let ?f = "?s\<lparr>sn_thread := InFunction\<rparr>"
  have "snooze_start 0 (make_SnoozableTimer 100) = Inr ?s" by (simp add: snooze_start_def make_SnoozableTimer_def)
  moreover have "snooze_wake 100 ?s = (?f, True)" by (simp add: snooze_wake_def)
  moreover have "\<exists>s'. snooze_run ([(SnSnooze, 105)] @ [(SnReturn, 110)] @ map (Pair SnWake) [205, 100000]) ?f = Inr (s', [])"
    using snooze_during_function_lost [of ?f "[(SnSnooze, 105)]" "[205, 100000]" 110]
    by (auto simp: is_snooze_def ten_years_def)
  ultimately show ?thesis by auto
qed

text \<open>The destructor returns at \<open>now\<close>.\<close>

definition destroy_SnoozableTimer :: "int \<Rightarrow> SnoozableTimer \<Rightarrow> SnoozableTimer" where
  "destroy_SnoozableTimer now s = snooze_stop now s"

lemma destroyed_timer_silent: "snooze_wake later (destroy_SnoozableTimer now s) = (destroy_SnoozableTimer now s, False)"
  by (simp add: destroy_SnoozableTimer_def snooze_wake_def snooze_stop_def Let_def)

end
