(* ===== verification/ProtoTopics.thy ===== *)
theory ProtoTopics
  imports Prelude
begin

text \<open>
  \<open>src/libs/proto/ProtoTopicConfig.h\<close> and \<open>ProtoJsonDispatch.h\<close>: the protobuf topics and the
  conversion of their messages from and to JSON.

  \<^item> A \<open>std::string_view\<close> is a string; the loops over the registry are \<open>find\<close>.
  \<^item> The protobuf library is not part of the repository.  Its four functions that the code calls are
    the fields of the record \<open>protobuf\<close>, which the conversions take as an argument: parsing and
    serialising a message of a type, and reading and printing it as JSON.  \<open>None\<close> is a failure.

  The lemmas show that the registry is a bijection between topic ids and names, and that the
  conversions succeed on each other's results.
\<close>

section \<open>The topic registry\<close>

datatype TopicId =
    SensorReading | SensorDataBatch | Command | CommandResponse | ApplicationConfig
  | TopicId_COUNT

definition TOPIC_REGISTRY :: "(TopicId \<times> string) list" where
  "TOPIC_REGISTRY =
     [(SensorReading, ''SensorReading''), (SensorDataBatch, ''SensorDataBatch''), (Command, ''Command''),
      (CommandResponse, ''CommandResponse''), (ApplicationConfig, ''ApplicationConfig'')]"

definition topicName :: "TopicId \<Rightarrow> string" where
  "topicName i = (case find (\<lambda>entry. fst entry = i) TOPIC_REGISTRY of
     Some entry \<Rightarrow> snd entry | None \<Rightarrow> '''')"

definition topicId :: "string \<Rightarrow> TopicId option" where
  "topicId name = (case find (\<lambda>entry. snd entry = name) TOPIC_REGISTRY of
     Some entry \<Rightarrow> Some (fst entry) | None \<Rightarrow> None)"

definition allTopicNames :: "string list" where
  "allTopicNames = map snd TOPIC_REGISTRY"

lemma topicId_eq_Some_iff: "topicId name = Some i \<longleftrightarrow> i \<noteq> TopicId_COUNT \<and> name = topicName i"
  by (cases i) (auto simp: topicId_def topicName_def TOPIC_REGISTRY_def)

lemma topicId_topicName [simp]: "i \<noteq> TopicId_COUNT \<Longrightarrow> topicId (topicName i) = Some i"
  by (simp add: topicId_eq_Some_iff)

lemma topicId_known: "topicId name \<noteq> None \<longleftrightarrow> name \<in> set allTopicNames"
  by (auto simp: topicId_def allTopicNames_def TOPIC_REGISTRY_def)

lemma topicId_None_iff: "topicId name = None \<longleftrightarrow> name \<notin> set allTopicNames"
  using topicId_known by blast

lemma distinct_allTopicNames [simp]: "distinct allTopicNames"
  by (simp add: allTopicNames_def TOPIC_REGISTRY_def)

section \<open>Conversion to and from JSON\<close>

datatype message_type =
    SensorReadingMsg | SensorDataBatchMsg | CommandMsg | CommandResponseMsg | ApplicationConfigMsg

record 'm protobuf =
  ParseFromString :: "message_type \<Rightarrow> bytes \<Rightarrow> 'm option"
  SerializeToString :: "'m \<Rightarrow> bytes option"
  MessageToJsonString :: "'m \<Rightarrow> string option"
  JsonStringToMessage :: "string \<Rightarrow> message_type \<Rightarrow> 'm option"

text \<open>The factory; an empty message is named by its type.\<close>

definition createMessage :: "TopicId \<Rightarrow> message_type option" where
  "createMessage i =
    (case i of
       SensorReading \<Rightarrow> Some SensorReadingMsg
     | SensorDataBatch \<Rightarrow> Some SensorDataBatchMsg
     | Command \<Rightarrow> Some CommandMsg
     | CommandResponse \<Rightarrow> Some CommandResponseMsg
     | ApplicationConfig \<Rightarrow> Some ApplicationConfigMsg
     | TopicId_COUNT \<Rightarrow> None)"

text \<open>\<open>toJson\<close> returns false (\<open>None\<close>) or true with the output parameter.\<close>

definition toJson :: "'m protobuf \<Rightarrow> TopicId \<Rightarrow> bytes \<Rightarrow> string option" where
  "toJson pb i binary =
    (case createMessage i of
       None \<Rightarrow> None
     | Some ty \<Rightarrow>
         (case ParseFromString pb ty binary of
            None \<Rightarrow> None
          | Some msg \<Rightarrow> MessageToJsonString pb msg))"

definition fromJsonToMessage :: "'m protobuf \<Rightarrow> TopicId \<Rightarrow> string \<Rightarrow> 'm option" where
  "fromJsonToMessage pb i json =
    (case createMessage i of
       None \<Rightarrow> None
     | Some ty \<Rightarrow> JsonStringToMessage pb json ty)"

definition fromJson :: "'m protobuf \<Rightarrow> TopicId \<Rightarrow> string \<Rightarrow> bytes option" where
  "fromJson pb i json =
    (case fromJsonToMessage pb i json of
       None \<Rightarrow> None
     | Some msg \<Rightarrow> SerializeToString pb msg)"

lemma createMessage_None_iff [simp]: "createMessage i = None \<longleftrightarrow> i = TopicId_COUNT"
  by (cases i) (auto simp: createMessage_def)

lemma createMessage_inject: "createMessage i = createMessage j \<longleftrightarrow> i = j"
  by (cases i; cases j) (auto simp: createMessage_def)

text \<open>
  What the library documents of a message \<open>m\<close> of type \<open>ty\<close> with its serialisation and its JSON: each
  of the two is read back as \<open>m\<close>.
\<close>

definition faithful :: "'m protobuf \<Rightarrow> message_type \<Rightarrow> 'm \<Rightarrow> bytes \<Rightarrow> string \<Rightarrow> bool" where
  "faithful pb ty m binary json \<longleftrightarrow>
     SerializeToString pb m = Some binary \<and> ParseFromString pb ty binary = Some m \<and>
     MessageToJsonString pb m = Some json \<and> JsonStringToMessage pb json ty = Some m"

text \<open>
  A message of a registered topic goes from binary to JSON and back to the same bytes.
\<close>

lemma json_roundtrip:
  assumes "createMessage i = Some ty" and "faithful pb ty m binary json"
  shows "toJson pb i binary = Some json \<and> fromJson pb i json = Some binary"
  using assms by (simp add: toJson_def fromJson_def fromJsonToMessage_def faithful_def)

end
