(* ===== verification/ZyrePubSub.thy ===== *)
theory ZyrePubSub
  imports Prelude
begin

text \<open>
  \<open>src/libs/PubSub/ZyreNode.cpp\<close>, \<open>ZyrePublisher.cpp\<close> and \<open>ZyreSubscriber.cpp\<close>: publishing and
  receiving messages over a Zyre network.

  \<^item> The Zyre library is not part of the repository.  Its node is the record \<open>zyre\<close> of what the code has
    told it (started, interface, groups joined); what it answers (\<open>zyre_new\<close>, \<open>zyre_start\<close>,
    \<open>zyre_shout\<close>) and the events it produces are arguments.
  \<^item> A handler is a token of type \<open>'h\<close> (\<open>None\<close> for an empty \<open>std::function\<close>); its calls are returned.
  \<^item> The network interfaces of the machine are the list that \<open>getifaddrs\<close> returns.

  The lemmas show when a shout reaches a handler, and when two namespaced topics are the same.
\<close>

section \<open>ZyreNode\<close>

record ifaddr =
  ifa_name :: "string option"
  ifa_inet_addr :: "string option option"   \<comment> \<open>no address; another family or unprintable; IPv4 text\<close>

text \<open>The loop over the interfaces; \<open>None\<close> when \<open>getifaddrs\<close> fails or no address matches.\<close>

fun resolve_loop :: "string \<Rightarrow> ifaddr list \<Rightarrow> string option" where
  "resolve_loop ip [] = None"
| "resolve_loop ip (ifa # ifas) =
    (case (ifa_inet_addr ifa, ifa_name ifa) of
       (Some (Some a), Some n) \<Rightarrow> if ip = a then Some n else resolve_loop ip ifas
     | _ \<Rightarrow> resolve_loop ip ifas)"

definition resolveInterfaceNameFromIp :: "ifaddr list option \<Rightarrow> string \<Rightarrow> string option" where
  "resolveInterfaceNameFromIp ifaddrs ip =
    (case ifaddrs of None \<Rightarrow> None | Some ifas \<Rightarrow> resolve_loop ip ifas)"

record zyre =
  z_interface :: "string option"
  z_started :: bool
  z_groups :: "string set"

record ZyreNode =
  zn_node :: "zyre option"
  zn_nodeName :: string
  zn_isRunning :: bool
  zn_stopRequested :: bool

text \<open>\<open>created\<close> is whether \<open>zyre_new\<close> returns a node.\<close>

definition make_ZyreNode :: "bool \<Rightarrow> ifaddr list option \<Rightarrow> string \<Rightarrow> string \<Rightarrow> ZyreNode" where
  "make_ZyreNode created ifaddrs name interfaceAddr =
    (let node = (if created then Some \<lparr>z_interface = None, z_started = False, z_groups = {}\<rparr> else None);
         node = (case node of
                   None \<Rightarrow> None
                 | Some z \<Rightarrow>
                     if interfaceAddr = '''' then Some z
                     else
                       let interfaceName = (case resolveInterfaceNameFromIp ifaddrs interfaceAddr of
                                              Some r \<Rightarrow> r | None \<Rightarrow> interfaceAddr)
                       in Some (z\<lparr>z_interface := Some interfaceName\<rparr>))
     in \<lparr>zn_node = node, zn_nodeName = name, zn_isRunning = True, zn_stopRequested = False\<rparr>)"

definition node_start :: "bool \<Rightarrow> ZyreNode \<Rightarrow> bool \<times> ZyreNode" where
  "node_start started n =
    (case zn_node n of
       None \<Rightarrow> (False, n)
     | Some z \<Rightarrow>
         (started, n\<lparr>zn_stopRequested := False, zn_isRunning := True,
                     zn_node := Some (if started then z\<lparr>z_started := True\<rparr> else z)\<rparr>))"

definition node_stop :: "ZyreNode \<Rightarrow> ZyreNode" where
  "node_stop n =
    (if zn_stopRequested n then n
     else n\<lparr>zn_stopRequested := True, zn_isRunning := False,
            zn_node := map_option (\<lambda>z. z\<lparr>z_started := False\<rparr>) (zn_node n)\<rparr>)"

definition destroy_ZyreNode :: "ZyreNode \<Rightarrow> ZyreNode" where
  "destroy_ZyreNode n = (node_stop n)\<lparr>zn_node := None\<rparr>"

definition namespaced :: "string \<Rightarrow> string \<Rightarrow> string" where
  "namespaced name topic = name @ ''/'' @ topic"

section \<open>ZyrePublisher\<close>

text \<open>
  \<open>publish\<close>: the result and the shout (group and frame) when one is made.  \<open>message\<close> is the
  serialisation, \<open>None\<close> if it fails; \<open>shouted\<close> is whether \<open>zyre_shout\<close> succeeds.
\<close>

definition zyre_publish :: "bool \<Rightarrow> ZyreNode \<Rightarrow> string \<Rightarrow> bytes option \<Rightarrow> bool \<times> (string \<times> bytes) option" where
  "zyre_publish shouted n topic message =
    (if zn_node n = None \<or> \<not> zn_isRunning n then (False, None)
     else case message of
       None \<Rightarrow> (False, None)
     | Some serialized \<Rightarrow>
         let namespacedTopic = namespaced (zn_nodeName n) topic
         in if \<not> shouted then (False, None) else (True, Some (namespacedTopic, serialized)))"

definition make_ZyrePublisher :: "bool \<Rightarrow> ifaddr list option \<Rightarrow> string \<Rightarrow> string \<Rightarrow> ZyreNode" where
  "make_ZyrePublisher created ifaddrs name interfaceAddr = make_ZyreNode created ifaddrs name interfaceAddr"

definition destroy_ZyrePublisher :: "ZyreNode \<Rightarrow> ZyreNode" where
  "destroy_ZyrePublisher n = destroy_ZyreNode (node_stop (n\<lparr>zn_isRunning := False\<rparr>))"

section \<open>ZyreSubscriber\<close>

record 'h ZyreSubscriber =
  zs_base :: ZyreNode
  zs_handlers :: "string \<rightharpoonup> 'h option"
  zs_receiving :: bool     \<comment> \<open>the receive thread is in its loop\<close>

definition make_ZyreSubscriber :: "bool \<Rightarrow> bool \<Rightarrow> ifaddr list option \<Rightarrow> string \<Rightarrow> string \<Rightarrow> 'h ZyreSubscriber" where
  "make_ZyreSubscriber created started ifaddrs name interfaceAddr =
    (let (ok, n) = node_start started (make_ZyreNode created ifaddrs name interfaceAddr)
     in \<lparr>zs_base = n, zs_handlers = Map.empty, zs_receiving = ok\<rparr>)"

definition zyre_subscribe :: "'h ZyreSubscriber \<Rightarrow> string \<Rightarrow> 'h option \<Rightarrow> 'h ZyreSubscriber" where
  "zyre_subscribe s topic handler =
    (let namespacedTopic = namespaced (zn_nodeName (zs_base s)) topic;
         s = s\<lparr>zs_handlers := (zs_handlers s)(namespacedTopic \<mapsto> handler)\<rparr>
     in s\<lparr>zs_base := (zs_base s)\<lparr>zn_node :=
           map_option (\<lambda>z. z\<lparr>z_groups := insert namespacedTopic (z_groups z)\<rparr>) (zn_node (zs_base s))\<rparr>\<rparr>)"

text \<open>
  The events: none (\<open>zyre_event_new\<close> returns null), STOP, a SHOUT with its group (null or not) and the
  first frame of its message (no message, no frame, or a frame), and the others, which are only
  logged or ignored.
\<close>

datatype zyre_event =
    NullEvent
  | StopEvent
  | Shout "string option" "bytes option option"
  | OtherEvent

fun handle_shout :: "'h ZyreSubscriber \<Rightarrow> zyre_event \<Rightarrow> ('h \<times> string \<times> bytes) list" where
  "handle_shout s (Shout (Some topic) (Some (Some data))) =
    (case zs_handlers s topic of
       Some (Some handler) \<Rightarrow> [(handler, topic, data)]
     | _ \<Rightarrow> [])"
| "handle_shout s _ = []"

text \<open>One event; handlers may be subscribed between events.\<close>

definition zyre_receive :: "'h ZyreSubscriber \<Rightarrow> zyre_event \<Rightarrow> 'h ZyreSubscriber \<times> ('h \<times> string \<times> bytes) list" where
  "zyre_receive s e =
    (if \<not> zs_receiving s then (s, [])
     else if e = NullEvent \<or> e = StopEvent then (s\<lparr>zs_receiving := False\<rparr>, [])
     else (s, handle_shout s e))"

definition destroy_ZyreSubscriber :: "'h ZyreSubscriber \<Rightarrow> 'h ZyreSubscriber" where
  "destroy_ZyreSubscriber s =
    (let s = s\<lparr>zs_base := node_stop (zs_base s)\<rparr>;
         s = fst (zyre_receive s StopEvent)
     in s\<lparr>zs_base := destroy_ZyreNode (zs_base s)\<rparr>)"

lemma destroyed_publisher_silent: "zyre_publish shouted (destroy_ZyrePublisher n) topic message = (False, None)"
  by (simp add: zyre_publish_def destroy_ZyrePublisher_def destroy_ZyreNode_def)

lemma destroyed_subscriber_silent: "zyre_receive (destroy_ZyreSubscriber s) e = (destroy_ZyreSubscriber s, [])"
  by (simp add: zyre_receive_def destroy_ZyreSubscriber_def Let_def)

section \<open>Properties\<close>

lemma namespaced_inject:
  assumes "CHR ''/'' \<notin> set a" "CHR ''/'' \<notin> set b"
  shows "namespaced a t = namespaced b u \<longleftrightarrow> a = b \<and> t = u"
proof
  assume eq: "namespaced a t = namespaced b u"
  have tw: "takeWhile (\<lambda>c. c \<noteq> CHR ''/'') (namespaced a t) = a" if "CHR ''/'' \<notin> set a" for a t
    using that by (induction a) (auto simp: namespaced_def)
  have "a = b" using tw [OF assms(1), of t] tw [OF assms(2), of u] eq by simp
  then show "a = b \<and> t = u" using eq by (simp add: namespaced_def)
qed simp

lemma namespaced_same [simp]: "namespaced a t = namespaced a u \<longleftrightarrow> t = u"
  by (simp add: namespaced_def)

text \<open>Two namespaces that are not isolated.\<close>

lemma namespaced_collision: "namespaced ''a/b'' ''c'' = namespaced ''a'' ''b/c''"
  by (simp add: namespaced_def)

lemma shout_reaches_handler:
  assumes "zs_receiving s" and "zs_handlers s (namespaced name topic) = Some (Some h)"
    and "zyre_publish True n topic (Some data) = (True, Some (grp, payload))" and "zn_nodeName n = name"
  shows "zyre_receive s (Shout (Some grp) (Some (Some payload))) = (s, [(h, namespaced name topic, data)])"
  using assms by (auto simp: zyre_publish_def zyre_receive_def Let_def split: if_splits)

text \<open>
  A publisher publishes although it was never started: the running flag is up from the beginning.
\<close>

lemma publish_before_start:
  "zyre_publish shouted (make_ZyreNode True ifaddrs name addr) topic (Some data) =
     (shouted, if shouted then Some (namespaced name topic, data) else None)"
  by (simp add: zyre_publish_def make_ZyreNode_def Let_def)

lemma restart_publishes:
  assumes "zn_node n = Some z"
  shows "fst (zyre_publish True (node_stop (snd (node_start True n))) topic (Some data)) = False"
    and "fst (zyre_publish True (snd (node_start True (node_stop n))) topic (Some data)) = True"
  using assms by (auto simp: node_stop_def node_start_def zyre_publish_def Let_def)

end
