(* ===== verification/CycloneDds.thy ===== *)
theory CycloneDds
  imports Prelude
begin

text \<open>
  \<open>src/libs/CycloneDDS\<close>: the registry of DDS topics with their quality of service (\<open>DDSTopicConfig\<close>),
  the default registry (\<open>CycloneDDSConfig\<close>), and publisher and subscriber of one topic
  (\<open>DDSPublisher.h\<close>, \<open>DDSSubscriber.h\<close>).

  \<^item> The DDS library is not part of the repository.  A quality of service is the record of the two
    policies the code sets (\<open>None\<close>: left at the default of the library); creating a topic, a writer or a
    reader is recorded, and what a reader takes is an argument.
  \<^item> A \<open>std::unordered_map\<close> filled by \<open>emplace\<close> is an association list in which the first entry of a key
    stays; its iteration order, which C++ leaves open, is that of insertion.
  \<^item> \<open>std::out_of_range\<close> is the fault \<open>OutOfRangeException\<close>.

  The lemmas show that every topic of the default registry is found, that reader and writer of each are
  compatible, and when a subscriber calls its handler.
\<close>

section \<open>DDSTopicConfig\<close>

datatype reliability = Reliable int | BestEffort    \<comment> \<open>the maximal blocking time in seconds\<close>
datatype history = KeepLast int

record qos =
  q_reliability :: "reliability option"
  q_history :: "history option"

record TopicEntry =
  te_topicName :: string
  te_writerQos :: qos
  te_readerQos :: qos

type_synonym DDSTopicConfig = "(string \<times> TopicEntry) list"

definition emplace :: "'k \<Rightarrow> 'v \<Rightarrow> ('k \<times> 'v) list \<Rightarrow> ('k \<times> 'v) list" where
  "emplace k v m = (if map_of m k = None then m @ [(k, v)] else m)"

definition make_DDSTopicConfig :: "TopicEntry list \<Rightarrow> DDSTopicConfig" where
  "make_DDSTopicConfig entries = fold (\<lambda>e m. emplace (te_topicName e) e m) entries []"

definition getEntry :: "DDSTopicConfig \<Rightarrow> string \<Rightarrow> TopicEntry outcome" where
  "getEntry config topicName =
    (case map_of config topicName of None \<Rightarrow> Inl OutOfRangeException | Some e \<Rightarrow> Inr e)"

definition writerQos :: "DDSTopicConfig \<Rightarrow> string \<Rightarrow> qos outcome" where
  "writerQos config topicName = obind (getEntry config topicName) (\<lambda>e. Inr (te_writerQos e))"

definition readerQos :: "DDSTopicConfig \<Rightarrow> string \<Rightarrow> qos outcome" where
  "readerQos config topicName = obind (getEntry config topicName) (\<lambda>e. Inr (te_readerQos e))"

definition hasTopic :: "DDSTopicConfig \<Rightarrow> string \<Rightarrow> bool" where
  "hasTopic config topicName \<longleftrightarrow> map_of config topicName \<noteq> None"

definition config_topicNames :: "DDSTopicConfig \<Rightarrow> string list" where
  "config_topicNames config = map fst config"

lemma map_of_emplace: "map_of (emplace k v m) k' = (if k' = k \<and> map_of m k = None then Some v else map_of m k')"
  by (auto simp: emplace_def map_add_def split: option.split)

lemma distinct_emplace: "distinct (map fst m) \<Longrightarrow> distinct (map fst (emplace k v m))"
  by (auto simp: emplace_def map_of_eq_None_iff)

lemma fold_emplace:
  "map_of (fold (\<lambda>e m. emplace (te_topicName e) e m) es m) k =
    (case map_of m k of Some e \<Rightarrow> Some e | None \<Rightarrow> find (\<lambda>e. te_topicName e = k) es)"
  by (induction es arbitrary: m) (auto simp: map_of_emplace split: option.split)

text \<open>The registry returns the first entry of a name; a name is registered iff it is in the list.\<close>

lemma getEntry_make:
  "getEntry (make_DDSTopicConfig es) k =
    (case find (\<lambda>e. te_topicName e = k) es of None \<Rightarrow> Inl OutOfRangeException | Some e \<Rightarrow> Inr e)"
  by (simp add: getEntry_def make_DDSTopicConfig_def fold_emplace)

lemma hasTopic_iff_getEntry: "hasTopic config k \<longleftrightarrow> safe (getEntry config k)"
  by (auto simp: hasTopic_def getEntry_def split: option.split)

lemma topicNames_hasTopic: "k \<in> set (config_topicNames config) \<longleftrightarrow> hasTopic config k"
  by (auto simp: config_topicNames_def hasTopic_def map_of_eq_None_iff)

section \<open>CycloneDDSConfig\<close>

definition SENSOR_TOPIC :: string where "SENSOR_TOPIC = ''SensorTopic''"
definition TRACK_TOPIC :: string where "TRACK_TOPIC = ''TrackTopic''"

definition default_qos :: qos where
  "default_qos = \<lparr>q_reliability = None, q_history = None\<rparr>"

definition defaultInitialize :: DDSTopicConfig where
  "defaultInitialize =
    (let sensorWriterQos = default_qos\<lparr>q_reliability := Some (Reliable 1), q_history := Some (KeepLast 10)\<rparr>;
         sensorReaderQos = default_qos\<lparr>q_reliability := Some (Reliable 1), q_history := Some (KeepLast 10)\<rparr>;
         trackWriterQos = default_qos\<lparr>q_reliability := Some BestEffort, q_history := Some (KeepLast 1)\<rparr>;
         trackReaderQos = default_qos\<lparr>q_reliability := Some BestEffort, q_history := Some (KeepLast 1)\<rparr>
     in make_DDSTopicConfig
          [\<lparr>te_topicName = SENSOR_TOPIC, te_writerQos = sensorWriterQos, te_readerQos = sensorReaderQos\<rparr>,
           \<lparr>te_topicName = TRACK_TOPIC, te_writerQos = trackWriterQos, te_readerQos = trackReaderQos\<rparr>])"

lemma topics_differ [simp]: "SENSOR_TOPIC \<noteq> TRACK_TOPIC" "TRACK_TOPIC \<noteq> SENSOR_TOPIC"
  by (simp_all add: SENSOR_TOPIC_def TRACK_TOPIC_def)

text \<open>
  The request-versus-offered rule of DDS for reliability: a reader that asks for reliable delivery needs
  a writer that offers it.  Without a policy, a writer is reliable and a reader best effort.
\<close>

definition rxo_compatible :: "qos \<Rightarrow> qos \<Rightarrow> bool" where
  "rxo_compatible offered requested \<longleftrightarrow>
     q_reliability offered \<noteq> Some BestEffort \<or> q_reliability requested \<in> {None, Some BestEffort}"

lemma defaultInitialize_compatible:
  "hasTopic defaultInitialize t \<longleftrightarrow> t \<in> {SENSOR_TOPIC, TRACK_TOPIC}"
  "getEntry defaultInitialize t = Inr e \<Longrightarrow>
    te_topicName e = t \<and> rxo_compatible (te_writerQos e) (te_readerQos e)"
  by (auto simp: hasTopic_iff_getEntry defaultInitialize_def getEntry_make Let_def rxo_compatible_def
      split: if_splits)

section \<open>DDSPublisher\<close>

record DDSPublisher =
  dp_entry :: TopicEntry
  dp_writer :: "(string \<times> qos) option"

definition make_DDSPublisher :: "TopicEntry \<Rightarrow> DDSPublisher" where
  "make_DDSPublisher entry = \<lparr>dp_entry = entry, dp_writer = None\<rparr>"

definition getOrCreateWriter :: "DDSPublisher \<Rightarrow> (string \<times> qos) \<times> DDSPublisher" where
  "getOrCreateWriter p =
    (case dp_writer p of
       Some w \<Rightarrow> (w, p)
     | None \<Rightarrow>
         let w = (te_topicName (dp_entry p), te_writerQos (dp_entry p))
         in (w, p\<lparr>dp_writer := Some w\<rparr>))"

text \<open>The samples written to DDS: topic, offered policies, data.\<close>

definition dds_publish :: "DDSPublisher \<Rightarrow> 'd \<Rightarrow> DDSPublisher \<times> (string \<times> qos \<times> 'd)" where
  "dds_publish p message =
    (let (w, p) = getOrCreateWriter p in (p, (fst w, snd w, message)))"

fun publish_all :: "DDSPublisher \<Rightarrow> 'd list \<Rightarrow> DDSPublisher \<times> (string \<times> qos \<times> 'd) list" where
  "publish_all p [] = (p, [])"
| "publish_all p (d # ds) =
    (let (p, w) = dds_publish p d; (p, ws) = publish_all p ds in (p, w # ws))"

lemma publish_all_writer:
  assumes "dp_writer p \<in> {None, Some (te_topicName (dp_entry p), te_writerQos (dp_entry p))}"
  shows "snd (publish_all p ds) = map (\<lambda>d. (te_topicName (dp_entry p), te_writerQos (dp_entry p), d)) ds"
  using assms
proof (induction ds arbitrary: p)
  case (Cons d ds)
  let ?w = "(te_topicName (dp_entry p), te_writerQos (dp_entry p))"
  have "dds_publish p d = (p\<lparr>dp_writer := Some ?w\<rparr>, (fst ?w, snd ?w, d))"
    using Cons.prems by (auto simp: dds_publish_def getOrCreateWriter_def Let_def)
  then show ?case using Cons.IH [of "p\<lparr>dp_writer := Some ?w\<rparr>"] by (simp add: Let_def split_beta)
qed simp

section \<open>DDSSubscriber\<close>

record 'h DDSSubscriber =
  ds_entry :: TopicEntry
  ds_reader :: "(string \<times> qos) option"
  ds_handler :: "'h option"
  ds_running :: bool
  ds_pollThread :: bool    \<comment> \<open>joinable\<close>

definition make_DDSSubscriber :: "TopicEntry \<Rightarrow> 'h DDSSubscriber" where
  "make_DDSSubscriber entry =
     \<lparr>ds_entry = entry, ds_reader = None, ds_handler = None, ds_running = False, ds_pollThread = False\<rparr>"

definition dds_subscribe :: "'h DDSSubscriber \<Rightarrow> 'h option \<Rightarrow> 'h DDSSubscriber" where
  "dds_subscribe s handler =
     s\<lparr>ds_reader := Some (te_topicName (ds_entry s), te_readerQos (ds_entry s)), ds_handler := handler\<rparr>"

definition dds_start :: "'h DDSSubscriber \<Rightarrow> 'h DDSSubscriber outcome" where
  "dds_start s =
    (if ds_running s then Inr s
     else
       let s = s\<lparr>ds_running := True\<rparr>
       in if ds_pollThread s then Inl ThreadTerminate else Inr (s\<lparr>ds_pollThread := True\<rparr>))"

definition dds_stop :: "'h DDSSubscriber \<Rightarrow> 'h DDSSubscriber" where
  "dds_stop s =
    (if \<not> ds_running s then s
     else
       let s = s\<lparr>ds_running := False\<rparr>
       in if ds_pollThread s then s\<lparr>ds_pollThread := False\<rparr> else s)"

text \<open>One turn of \<open>pollLoop\<close>: the samples taken, each with its validity, and the calls made.\<close>

definition poll_turn :: "'h DDSSubscriber \<Rightarrow> ('d \<times> bool) list \<Rightarrow> ('h \<times> 'd) list" where
  "poll_turn s samples =
    (if \<not> (ds_running s \<and> ds_pollThread s) then []
     else case (ds_reader s, ds_handler s) of
       (Some _, Some handler) \<Rightarrow> map (\<lambda>(d, _). (handler, d)) (filter snd samples)
     | _ \<Rightarrow> [])"

definition wf_dds :: "'h DDSSubscriber \<Rightarrow> bool" where
  "wf_dds s \<longleftrightarrow> (ds_running s \<longleftrightarrow> ds_pollThread s)"

lemma wf_make_dds [simp]: "wf_dds (make_DDSSubscriber e)"
  by (simp add: wf_dds_def make_DDSSubscriber_def)

lemma wf_dds_ops [simp]:
  "wf_dds s \<Longrightarrow> wf_dds (dds_subscribe s h)"
  "wf_dds s \<Longrightarrow> wf_dds (dds_stop s)"
  "wf_dds s \<Longrightarrow> \<exists>s'. dds_start s = Inr s' \<and> wf_dds s' \<and> ds_running s' \<and>
     ds_reader s' = ds_reader s \<and> ds_handler s' = ds_handler s \<and> ds_entry s' = ds_entry s"
  by (auto simp: wf_dds_def dds_subscribe_def dds_stop_def dds_start_def Let_def)

lemma poll_stopped [simp]: "poll_turn (dds_stop s) samples = []" if "wf_dds s"
  using that by (auto simp: poll_turn_def dds_stop_def Let_def)

definition dds_isRunning :: "'h DDSSubscriber \<Rightarrow> bool" where
  "dds_isRunning s \<longleftrightarrow> ds_running s"

definition destroy_DDSSubscriber :: "'h DDSSubscriber \<Rightarrow> 'h DDSSubscriber" where
  "destroy_DDSSubscriber s = dds_stop s"

lemma destroyed_subscriber_idle:
  "wf_dds s \<Longrightarrow> \<not> dds_isRunning (destroy_DDSSubscriber s) \<and> poll_turn (destroy_DDSSubscriber s) samples = []"
  by (auto simp: dds_isRunning_def destroy_DDSSubscriber_def dds_stop_def wf_dds_def poll_turn_def Let_def)

end
