(* ===== verification/Transports.thy ===== *)
theory Transports
  imports ProtoTopics ZyrePubSub CycloneDds
begin

text \<open>
  \<open>src/apps/Omniscope/ITransport.h\<close>, \<open>TransportDds.cpp\<close> and \<open>TransportZyre.cpp\<close>: the transports behind
  the monitor.

  \<^item> A callback is a token of type \<open>'cb\<close>; a lambda that captures it is the token with what it captures,
    and its body is the function that computes the calls.
  \<^item> The class \<open>ITransport\<close> is the locale of that name: its operations, with the laws on which the
    application relies.  Both transports interpret it.  The locale \<open>silent_transport\<close> adds that a topic
    which is not subscribed makes no calls; only the DDS transport interprets that.
  \<^item> The generated conversions of DDS messages and the protobuf library are parameters.  What a DDS
    reader takes and what shouts arrive are arguments.

  The lemmas show that a transport refines a table of one callback per topic, whatever the sequence of
  commands, and that the Zyre transport keeps calling after \<open>unsubscribe\<close>.
\<close>

section \<open>TransportDds\<close>

text \<open>
  The generated helpers and the JSON reader: sensor and track messages of types \<open>'a\<close> and \<open>'b\<close>.
\<close>

record ('a, 'b, 'j) dds_json =
  json_load :: "string \<Rightarrow> 'j option"
  sensor_toJson :: "'a \<Rightarrow> string"
  track_toJson :: "'b \<Rightarrow> string"
  sensor_fromJson :: "'j \<Rightarrow> 'a outcome"
  track_fromJson :: "'j \<Rightarrow> 'b outcome"

record 'cb TransportDds =
  td_sensorPub :: DDSPublisher
  td_trackPub :: DDSPublisher
  td_sensorSub :: "'cb DDSSubscriber"
  td_trackSub :: "'cb DDSSubscriber"
  td_activeTopics :: "string set"

definition make_TransportDds :: "'cb TransportDds outcome" where
  "make_TransportDds =
    (let config = defaultInitialize
     in obind (getEntry config SENSOR_TOPIC) (\<lambda>sensorEntry.
        obind (getEntry config TRACK_TOPIC) (\<lambda>trackEntry.
          Inr \<lparr>td_sensorPub = make_DDSPublisher sensorEntry, td_trackPub = make_DDSPublisher trackEntry,
               td_sensorSub = make_DDSSubscriber sensorEntry, td_trackSub = make_DDSSubscriber trackEntry,
               td_activeTopics = {}\<rparr>)))"

definition tdds_topicNames :: "'cb TransportDds \<Rightarrow> string list" where
  "tdds_topicNames t = [SENSOR_TOPIC, TRACK_TOPIC]"

definition tdds_isSubscribed :: "'cb TransportDds \<Rightarrow> string \<Rightarrow> bool" where
  "tdds_isSubscribed t topic \<longleftrightarrow> topic \<in> td_activeTopics t"

definition tdds_subscribe :: "'cb TransportDds \<Rightarrow> string \<Rightarrow> 'cb \<Rightarrow> 'cb TransportDds outcome" where
  "tdds_subscribe t topic callback =
    (if topic \<in> td_activeTopics t then Inr t
     else if topic = SENSOR_TOPIC then
       obind (dds_start (dds_subscribe (td_sensorSub t) (Some callback))) (\<lambda>sub.
         Inr (t\<lparr>td_sensorSub := sub, td_activeTopics := insert topic (td_activeTopics t)\<rparr>))
     else if topic = TRACK_TOPIC then
       obind (dds_start (dds_subscribe (td_trackSub t) (Some callback))) (\<lambda>sub.
         Inr (t\<lparr>td_trackSub := sub, td_activeTopics := insert topic (td_activeTopics t)\<rparr>))
     else Inr t)"

definition tdds_unsubscribe :: "'cb TransportDds \<Rightarrow> string \<Rightarrow> 'cb TransportDds" where
  "tdds_unsubscribe t topic =
    (if topic \<notin> td_activeTopics t then t
     else if topic = SENSOR_TOPIC then
       t\<lparr>td_sensorSub := dds_stop (td_sensorSub t), td_activeTopics := td_activeTopics t - {topic}\<rparr>
     else if topic = TRACK_TOPIC then
       t\<lparr>td_trackSub := dds_stop (td_trackSub t), td_activeTopics := td_activeTopics t - {topic}\<rparr>
     else t)"

text \<open>The destructor stops the active subscriptions.\<close>

definition destroy_TransportDds :: "'cb TransportDds \<Rightarrow> 'cb TransportDds" where
  "destroy_TransportDds t =
    (let t = (if SENSOR_TOPIC \<in> td_activeTopics t then t\<lparr>td_sensorSub := dds_stop (td_sensorSub t)\<rparr> else t)
     in if TRACK_TOPIC \<in> td_activeTopics t then t\<lparr>td_trackSub := dds_stop (td_trackSub t)\<rparr> else t)"

definition tdds_publishFromJson ::
  "('a, 'b, 'j) dds_json \<Rightarrow> 'cb TransportDds \<Rightarrow> string \<Rightarrow> string \<Rightarrow>
   ('cb TransportDds \<times> (string \<times> qos \<times> ('a + 'b)) list) outcome" where
  "tdds_publishFromJson js t topic jsonData =
    (case json_load js jsonData of
       None \<Rightarrow> Inr (t, [])
     | Some data \<Rightarrow>
         if topic = SENSOR_TOPIC then
           obind (sensor_fromJson js data) (\<lambda>msg.
             let (p, w) = dds_publish (td_sensorPub t) (Inl msg) in Inr (t\<lparr>td_sensorPub := p\<rparr>, [w]))
         else if topic = TRACK_TOPIC then
           obind (track_fromJson js data) (\<lambda>msg.
             let (p, w) = dds_publish (td_trackPub t) (Inr msg) in Inr (t\<lparr>td_trackPub := p\<rparr>, [w]))
         else Inr (t, []))"

text \<open>
  What the poll thread of a topic does with the samples it takes: the lambda given to the subscriber
  calls the callback with the topic and the message as JSON.
\<close>

datatype ('a, 'b) dds_samples = SensorSamples "('a \<times> bool) list" | TrackSamples "('b \<times> bool) list"

fun tdds_arrive ::
  "('a, 'b, 'j) dds_json \<Rightarrow> 'cb TransportDds \<Rightarrow> string \<Rightarrow> ('a, 'b) dds_samples \<Rightarrow> ('cb \<times> string \<times> string) list" where
  "tdds_arrive js t topic (SensorSamples xs) =
     (if topic = SENSOR_TOPIC
      then map (\<lambda>(callback, msg). (callback, SENSOR_TOPIC, sensor_toJson js msg)) (poll_turn (td_sensorSub t) xs) else [])"
| "tdds_arrive js t topic (TrackSamples xs) =
     (if topic = TRACK_TOPIC
      then map (\<lambda>(callback, msg). (callback, TRACK_TOPIC, track_toJson js msg)) (poll_turn (td_trackSub t) xs) else [])"

section \<open>TransportZyre\<close>

text \<open>The lambda given to the subscriber captures the callback and the topic id.\<close>

record 'cb TransportZyre =
  tz_name :: string
  tz_subscriber :: "('cb \<times> TopicId) ZyreSubscriber"
  tz_publisher :: ZyreNode
  tz_activeTopics :: "string set"

text \<open>The members are destroyed: the publisher, then the subscriber.\<close>

definition destroy_TransportZyre :: "'cb TransportZyre \<Rightarrow> 'cb TransportZyre" where
  "destroy_TransportZyre t =
     t\<lparr>tz_publisher := destroy_ZyrePublisher (tz_publisher t), tz_subscriber := destroy_ZyreSubscriber (tz_subscriber t)\<rparr>"

text \<open>The answers of the Zyre library for the subscriber node and the publisher node.\<close>

definition make_TransportZyre :: "bool \<times> bool \<Rightarrow> bool \<times> bool \<Rightarrow> ifaddr list option \<Rightarrow> string \<Rightarrow> 'cb TransportZyre" where
  "make_TransportZyre sub_ok pub_ok ifaddrs nodeName =
     \<lparr>tz_name = nodeName,
      tz_subscriber = make_ZyreSubscriber (fst sub_ok) (snd sub_ok) ifaddrs nodeName '''',
      tz_publisher = snd (node_start (snd pub_ok) (make_ZyreNode (fst pub_ok) ifaddrs nodeName '''')),
      tz_activeTopics = {}\<rparr>"

definition tzyre_topicNames :: "'cb TransportZyre \<Rightarrow> string list" where
  "tzyre_topicNames t = allTopicNames"

definition tzyre_isSubscribed :: "'cb TransportZyre \<Rightarrow> string \<Rightarrow> bool" where
  "tzyre_isSubscribed t topic \<longleftrightarrow> topic \<in> tz_activeTopics t"

definition tzyre_subscribe :: "'cb TransportZyre \<Rightarrow> string \<Rightarrow> 'cb \<Rightarrow> 'cb TransportZyre" where
  "tzyre_subscribe t topic callback =
    (if topic \<in> tz_activeTopics t then t
     else case topicId topic of
       None \<Rightarrow> t
     | Some i \<Rightarrow>
         t\<lparr>tz_subscriber := zyre_subscribe (tz_subscriber t) topic (Some (callback, i)),
           tz_activeTopics := insert topic (tz_activeTopics t)\<rparr>)"

definition tzyre_unsubscribe :: "'cb TransportZyre \<Rightarrow> string \<Rightarrow> 'cb TransportZyre" where
  "tzyre_unsubscribe t topic =
    (if topic \<notin> tz_activeTopics t then t
     else t\<lparr>tz_activeTopics := tz_activeTopics t - {topic}\<rparr>)"

text \<open>The body of the lambda.\<close>

definition zyre_callback ::
  "'m protobuf \<Rightarrow> string \<Rightarrow> 'cb \<times> TopicId \<Rightarrow> string \<Rightarrow> bytes \<Rightarrow> ('cb \<times> string \<times> string) list" where
  "zyre_callback pb name captured namespacedTopic binaryData =
    (let namePrefix = name @ ''/'';
         bareTopic = (if take (length namePrefix) namespacedTopic = namePrefix
                      then drop (length namePrefix) namespacedTopic else namespacedTopic)
     in case toJson pb (snd captured) binaryData of
          Some json \<Rightarrow> [(fst captured, bareTopic, json)]
        | None \<Rightarrow> [])"

text \<open>A shout with the group of the topic arrives at the subscriber.\<close>

definition tzyre_arrive :: "'m protobuf \<Rightarrow> 'cb TransportZyre \<Rightarrow> string \<Rightarrow> bytes \<Rightarrow> ('cb \<times> string \<times> string) list" where
  "tzyre_arrive pb t topic binaryData =
     concat (map (\<lambda>(captured, grp, data). zyre_callback pb (tz_name t) captured grp data)
       (snd (zyre_receive (tz_subscriber t)
          (Shout (Some (namespaced (tz_name t) topic)) (Some (Some binaryData))))))"

definition tzyre_publishFromJson ::
  "'m protobuf \<Rightarrow> bool \<Rightarrow> 'cb TransportZyre \<Rightarrow> string \<Rightarrow> string \<Rightarrow> (string \<times> bytes) option" where
  "tzyre_publishFromJson pb shouted t topic jsonData =
    (case topicId topic of
       None \<Rightarrow> None
     | Some i \<Rightarrow>
         (case fromJsonToMessage pb i jsonData of
            None \<Rightarrow> None
          | Some msg \<Rightarrow> snd (zyre_publish shouted (tz_publisher t) topic (SerializeToString pb msg))))"

section \<open>The transport interface\<close>

text \<open>
  What the application relies on: \<open>arrive s t d\<close> are the calls when the content \<open>d\<close> arrives on topic
  \<open>t\<close>, \<open>content t d\<close> the JSON texts that it stands for.
\<close>

locale ITransport =
  fixes wf :: "'s \<Rightarrow> bool"
    and topicNames :: "'s \<Rightarrow> string list"
    and subscribe :: "'s \<Rightarrow> string \<Rightarrow> 'cb \<Rightarrow> 's outcome"
    and unsubscribe :: "'s \<Rightarrow> string \<Rightarrow> 's"
    and isSubscribed :: "'s \<Rightarrow> string \<Rightarrow> bool"
    and arrive :: "'s \<Rightarrow> string \<Rightarrow> 'd \<Rightarrow> ('cb \<times> string \<times> string) list"
    and content :: "string \<Rightarrow> 'd \<Rightarrow> string list"
  assumes subscribe_again: "wf s \<Longrightarrow> isSubscribed s t \<Longrightarrow> subscribe s t cb = Inr s"
    and subscribe_unknown: "wf s \<Longrightarrow> t \<notin> set (topicNames s) \<Longrightarrow> subscribe s t cb = Inr s"
    and subscribe_new: "wf s \<Longrightarrow> \<not> isSubscribed s t \<Longrightarrow> t \<in> set (topicNames s) \<Longrightarrow>
      \<exists>s'. subscribe s t cb = Inr s' \<and> wf s' \<and> topicNames s' = topicNames s \<and>
        (\<forall>u. isSubscribed s' u \<longleftrightarrow> isSubscribed s u \<or> u = t) \<and>
        (\<forall>d. arrive s' t d = map (\<lambda>j. (cb, t, j)) (content t d)) \<and>
        (\<forall>u d. u \<noteq> t \<longrightarrow> arrive s' u d = arrive s u d)"
    and unsubscribe_law: "wf s \<Longrightarrow> wf (unsubscribe s t) \<and> topicNames (unsubscribe s t) = topicNames s \<and>
        (\<forall>u. isSubscribed (unsubscribe s t) u \<longleftrightarrow> isSubscribed s u \<and> u \<noteq> t) \<and>
        (\<forall>u d. u \<noteq> t \<longrightarrow> arrive (unsubscribe s t) u d = arrive s u d)"
begin
end

text \<open>A transport that makes no call for a topic that is not subscribed.\<close>

locale silent_transport = ITransport +
  assumes silent: "wf s \<Longrightarrow> \<not> isSubscribed s t \<Longrightarrow> arrive s t d = []"
begin
end

datatype 'cb command = Sub string 'cb | Unsub string

fun run_commands ::
  "('s \<Rightarrow> string \<Rightarrow> 'cb \<Rightarrow> 's outcome) \<Rightarrow> ('s \<Rightarrow> string \<Rightarrow> 's) \<Rightarrow> 'cb command list \<Rightarrow> 's \<Rightarrow> 's outcome" where
  "run_commands sub unsub [] s = Inr s"
| "run_commands sub unsub (Sub t cb # cs) s = obind (sub s t cb) (run_commands sub unsub cs)"
| "run_commands sub unsub (Unsub t # cs) s = run_commands sub unsub cs (unsub s t)"

text \<open>
  The abstract transport: per topic, the callback of the first subscription since the last
  unsubscription.
\<close>

fun subscription :: "string list \<Rightarrow> string \<Rightarrow> 'cb option \<Rightarrow> 'cb command list \<Rightarrow> 'cb option" where
  "subscription topics t cur [] = cur"
| "subscription topics t cur (Sub u cb # cs) =
     subscription topics t (if u = t \<and> cur = None \<and> t \<in> set topics then Some cb else cur) cs"
| "subscription topics t cur (Unsub u # cs) = subscription topics t (if u = t then None else cur) cs"

context ITransport begin

definition serves :: "'s \<Rightarrow> string \<Rightarrow> 'cb option \<Rightarrow> bool" where
  "serves s t cur \<longleftrightarrow> (isSubscribed s t \<longleftrightarrow> cur \<noteq> None) \<and>
     (\<forall>cb. cur = Some cb \<longrightarrow> (\<forall>d. arrive s t d = map (\<lambda>j. (cb, t, j)) (content t d)))"

lemma subscribe_serves:
  assumes "wf s" "serves s t cur"
  shows "\<exists>s'. subscribe s u cb = Inr s' \<and> wf s' \<and> topicNames s' = topicNames s \<and>
    serves s' t (if u = t \<and> cur = None \<and> t \<in> set (topicNames s) then Some cb else cur)"
proof (cases "isSubscribed s u \<or> u \<notin> set (topicNames s)")
  case True
  then have "subscribe s u cb = Inr s" using subscribe_again subscribe_unknown assms(1) by blast
  then show ?thesis using True assms by (auto simp: serves_def)
next
  case False
  then obtain s' where s': "subscribe s u cb = Inr s'" "wf s'" "topicNames s' = topicNames s"
    "\<forall>v. isSubscribed s' v \<longleftrightarrow> isSubscribed s v \<or> v = u"
    "\<forall>d. arrive s' u d = map (\<lambda>j. (cb, u, j)) (content u d)"
    "\<forall>v d. v \<noteq> u \<longrightarrow> arrive s' v d = arrive s v d"
    using subscribe_new assms(1) by blast
  show ?thesis using s' False assms(2) by (cases "u = t") (auto simp: serves_def)
qed

lemma unsubscribe_serves:
  assumes "wf s" "serves s t cur"
  shows "wf (unsubscribe s u) \<and> topicNames (unsubscribe s u) = topicNames s \<and>
    serves (unsubscribe s u) t (if u = t then None else cur)"
  using unsubscribe_law [OF assms(1), of u] assms(2) by (auto simp: serves_def)

lemma commands_serve:
  "wf s \<Longrightarrow> serves s t cur \<Longrightarrow>
    \<exists>s'. run_commands subscribe unsubscribe cs s = Inr s' \<and> wf s' \<and>
      serves s' t (subscription (topicNames s) t cur cs)"
proof (induction cs arbitrary: s cur)
  case (Cons c cs)
  show ?case
  proof (cases c)
    case (Sub u cb)
    obtain s1 where "subscribe s u cb = Inr s1" "wf s1" "topicNames s1 = topicNames s"
      "serves s1 t (if u = t \<and> cur = None \<and> t \<in> set (topicNames s) then Some cb else cur)"
      using subscribe_serves [OF Cons.prems] by blast
    with Cons.IH [OF this(2,4)] show ?thesis by (simp add: Sub)
  next
    case (Unsub u)
    with Cons.IH unsubscribe_serves [OF Cons.prems, of u] show ?thesis by (metis run_commands.simps(3) subscription.simps(3))
  qed
qed auto

lemma commands_serve_fresh:
  assumes "wf s" and "\<And>u. \<not> isSubscribed s u"
  shows "\<exists>s'. run_commands subscribe unsubscribe cs s = Inr s' \<and> wf s' \<and>
    (isSubscribed s' t \<longleftrightarrow> subscription (topicNames s) t None cs \<noteq> None) \<and>
    (\<forall>cb. subscription (topicNames s) t None cs = Some cb \<longrightarrow>
      (\<forall>d. arrive s' t d = map (\<lambda>j. (cb, t, j)) (content t d)))"
  using commands_serve [of s t None cs] assms by (auto simp: serves_def)

end

context silent_transport begin

lemma commands_exact:
  assumes "wf s" and "\<And>u. \<not> isSubscribed s u"
  shows "\<exists>s'. run_commands subscribe unsubscribe cs s = Inr s' \<and>
    arrive s' t d = (case subscription (topicNames s) t None cs of
      None \<Rightarrow> [] | Some cb \<Rightarrow> map (\<lambda>j. (cb, t, j)) (content t d))"
  using commands_serve_fresh [of s cs t] assms silent by (auto split: option.split)

end

section \<open>The DDS transport keeps the contract\<close>

fun dds_content :: "('a, 'b, 'j) dds_json \<Rightarrow> string \<Rightarrow> ('a, 'b) dds_samples \<Rightarrow> string list" where
  "dds_content js t (SensorSamples xs) =
     (if t = SENSOR_TOPIC then map (\<lambda>(msg, _). sensor_toJson js msg) (filter snd xs) else [])"
| "dds_content js t (TrackSamples xs) =
     (if t = TRACK_TOPIC then map (\<lambda>(msg, _). track_toJson js msg) (filter snd xs) else [])"

definition wf_tdds :: "'cb TransportDds \<Rightarrow> bool" where
  "wf_tdds t \<longleftrightarrow> wf_dds (td_sensorSub t) \<and> wf_dds (td_trackSub t) \<and>
     td_activeTopics t \<subseteq> {SENSOR_TOPIC, TRACK_TOPIC} \<and>
     (SENSOR_TOPIC \<in> td_activeTopics t \<longleftrightarrow> ds_running (td_sensorSub t)) \<and>
     (TRACK_TOPIC \<in> td_activeTopics t \<longleftrightarrow> ds_running (td_trackSub t))"

lemma dds_start_subscribed:
  assumes "wf_dds s" "\<not> ds_running s"
  shows "\<exists>s'. dds_start (dds_subscribe s (Some cb)) = Inr s' \<and> wf_dds s' \<and> ds_running s' \<and>
    (\<forall>xs. poll_turn s' xs = map (\<lambda>(d, _). (cb, d)) (filter snd xs))"
  using assms by (auto simp: wf_dds_def dds_start_def dds_subscribe_def poll_turn_def Let_def)

lemma dds_stop_running [simp]: "wf_dds s \<Longrightarrow> \<not> ds_running (dds_stop s)"
  by (auto simp: dds_stop_def wf_dds_def Let_def)

lemma poll_not_running: "\<not> ds_running s \<Longrightarrow> poll_turn s xs = []"
  by (simp add: poll_turn_def)

lemma tdds_subscribe_new:
  assumes wf: "wf_tdds s" and new: "\<not> tdds_isSubscribed s t" "t \<in> set (tdds_topicNames s)"
  shows "\<exists>s'. tdds_subscribe s t cb = Inr s' \<and> wf_tdds s' \<and> tdds_topicNames s' = tdds_topicNames s \<and>
      (\<forall>u. tdds_isSubscribed s' u \<longleftrightarrow> tdds_isSubscribed s u \<or> u = t) \<and>
      (\<forall>d. tdds_arrive js s' t d = map (\<lambda>j. (cb, t, j)) (dds_content js t d)) \<and>
      (\<forall>u d. u \<noteq> t \<longrightarrow> tdds_arrive js s' u d = tdds_arrive js s u d)"
proof -
  from new(2) consider "t = SENSOR_TOPIC" | "t = TRACK_TOPIC" by (auto simp: tdds_topicNames_def)
  then show ?thesis
  proof cases
    case 1
    then have off: "wf_dds (td_sensorSub s)" "\<not> ds_running (td_sensorSub s)"
      using wf new(1) by (auto simp: wf_tdds_def tdds_isSubscribed_def)
    obtain sub where sub: "dds_start (dds_subscribe (td_sensorSub s) (Some cb)) = Inr sub" "wf_dds sub"
      "ds_running sub" "\<And>xs :: ('b \<times> bool) list. poll_turn sub xs = map (\<lambda>(d, _). (cb, d)) (filter snd xs)"
      using dds_start_subscribed [OF off, of cb] by blast
    let ?s' = "s\<lparr>td_sensorSub := sub, td_activeTopics := insert t (td_activeTopics s)\<rparr>"
    have "tdds_arrive js ?s' u d =
        (if u = t then map (\<lambda>j. (cb, t, j)) (dds_content js t d) else tdds_arrive js s u d)" for u d
      using 1 sub(4) by (cases d) (auto simp: split_beta)
    moreover have "tdds_subscribe s t cb = Inr ?s'"
      using 1 new(1) sub(1) by (simp add: tdds_subscribe_def tdds_isSubscribed_def)
    moreover have "wf_tdds ?s'" using wf 1 sub(2,3) by (auto simp: wf_tdds_def)
    ultimately show ?thesis by (auto simp: tdds_topicNames_def tdds_isSubscribed_def)
  next
    case 2
    then have off: "wf_dds (td_trackSub s)" "\<not> ds_running (td_trackSub s)"
      using wf new(1) by (auto simp: wf_tdds_def tdds_isSubscribed_def)
    obtain sub where sub: "dds_start (dds_subscribe (td_trackSub s) (Some cb)) = Inr sub" "wf_dds sub"
      "ds_running sub" "\<And>xs :: ('c \<times> bool) list. poll_turn sub xs = map (\<lambda>(d, _). (cb, d)) (filter snd xs)"
      using dds_start_subscribed [OF off, of cb] by blast
    let ?s' = "s\<lparr>td_trackSub := sub, td_activeTopics := insert t (td_activeTopics s)\<rparr>"
    have "tdds_arrive js ?s' u d =
        (if u = t then map (\<lambda>j. (cb, t, j)) (dds_content js t d) else tdds_arrive js s u d)" for u d
      using 2 sub(4) by (cases d) (auto simp: split_beta)
    moreover have "tdds_subscribe s t cb = Inr ?s'"
      using 2 new(1) sub(1) by (simp add: tdds_subscribe_def tdds_isSubscribed_def)
    moreover have "wf_tdds ?s'" using wf 2 sub(2,3) by (auto simp: wf_tdds_def)
    ultimately show ?thesis by (auto simp: tdds_topicNames_def tdds_isSubscribed_def)
  qed
qed

lemma tdds_unsubscribe_law:
  assumes wf: "wf_tdds s"
  shows "wf_tdds (tdds_unsubscribe s t) \<and> tdds_topicNames (tdds_unsubscribe s t) = tdds_topicNames s \<and>
      (\<forall>u. tdds_isSubscribed (tdds_unsubscribe s t) u \<longleftrightarrow> tdds_isSubscribed s u \<and> u \<noteq> t) \<and>
      (\<forall>u d. u \<noteq> t \<longrightarrow> tdds_arrive js (tdds_unsubscribe s t) u d = tdds_arrive js s u d)"
proof -
  have "u \<noteq> t \<longrightarrow> tdds_arrive js (tdds_unsubscribe s t) u d = tdds_arrive js s u d" for u d
    by (cases d) (auto simp: tdds_unsubscribe_def)
  moreover have "wf_tdds (tdds_unsubscribe s t)" using wf by (auto simp: wf_tdds_def tdds_unsubscribe_def)
  moreover have "tdds_isSubscribed (tdds_unsubscribe s t) u \<longleftrightarrow> tdds_isSubscribed s u \<and> u \<noteq> t" for u
    using wf by (auto simp: wf_tdds_def tdds_unsubscribe_def tdds_isSubscribed_def)
  ultimately show ?thesis by (simp add: tdds_topicNames_def)
qed

lemma tdds_silent: "wf_tdds s \<Longrightarrow> \<not> tdds_isSubscribed s t \<Longrightarrow> tdds_arrive js s t d = []"
  by (cases d) (auto simp: wf_tdds_def tdds_isSubscribed_def poll_not_running)

lemma tdds_subscribe_noop:
  "tdds_isSubscribed s t \<or> t \<notin> set (tdds_topicNames s) \<Longrightarrow> tdds_subscribe s t cb = Inr s"
  by (auto simp: tdds_isSubscribed_def tdds_topicNames_def tdds_subscribe_def)

interpretation dds: silent_transport wf_tdds tdds_topicNames tdds_subscribe tdds_unsubscribe
  tdds_isSubscribed "tdds_arrive js" "dds_content js" for js :: "('a, 'b, 'j) dds_json"
  by unfold_locales
    (rule tdds_subscribe_new tdds_unsubscribe_law tdds_silent | assumption | simp add: tdds_subscribe_noop)+

lemma make_TransportDds_ok: "safe make_TransportDds"
  by (simp add: make_TransportDds_def Let_def defaultInitialize_def getEntry_make)

lemma make_TransportDds_wf:
  "make_TransportDds = Inr t \<Longrightarrow> wf_tdds t \<and> td_activeTopics t = {}"
  by (auto simp: make_TransportDds_def Let_def obind_eq_Inr_iff wf_tdds_def)
    (simp_all add: make_DDSSubscriber_def)

section \<open>The Zyre transport keeps the contract, except for silence\<close>

definition zyre_content :: "'m protobuf \<Rightarrow> string \<Rightarrow> bytes \<Rightarrow> string list" where
  "zyre_content pb t d =
     (case topicId t of None \<Rightarrow> []
      | Some i \<Rightarrow> (case toJson pb i d of None \<Rightarrow> [] | Some j \<Rightarrow> [j]))"

definition wf_tzyre :: "'cb TransportZyre \<Rightarrow> bool" where
  "wf_tzyre t \<longleftrightarrow> zs_receiving (tz_subscriber t) \<and> zn_nodeName (zs_base (tz_subscriber t)) = tz_name t \<and>
     tz_activeTopics t \<subseteq> set allTopicNames"

lemma tzyre_arrive_eq:
  "tzyre_arrive pb t topic d =
    (if zs_receiving (tz_subscriber t)
     then case zs_handlers (tz_subscriber t) (namespaced (tz_name t) topic) of
            Some (Some captured) \<Rightarrow>
              (case toJson pb (snd captured) d of Some j \<Rightarrow> [(fst captured, topic, j)] | None \<Rightarrow> [])
          | _ \<Rightarrow> []
     else [])"
  by (auto simp: tzyre_arrive_def zyre_receive_def zyre_callback_def namespaced_def Let_def
      split: option.splits)

lemma tzyre_subscribe_new:
  assumes wf: "wf_tzyre s" and new: "\<not> tzyre_isSubscribed s t" "t \<in> set (tzyre_topicNames s)"
  shows "wf_tzyre (tzyre_subscribe s t cb) \<and> tzyre_topicNames (tzyre_subscribe s t cb) = tzyre_topicNames s \<and>
      (\<forall>u. tzyre_isSubscribed (tzyre_subscribe s t cb) u \<longleftrightarrow> tzyre_isSubscribed s u \<or> u = t) \<and>
      (\<forall>d. tzyre_arrive pb (tzyre_subscribe s t cb) t d = map (\<lambda>j. (cb, t, j)) (zyre_content pb t d)) \<and>
      (\<forall>u d. u \<noteq> t \<longrightarrow> tzyre_arrive pb (tzyre_subscribe s t cb) u d = tzyre_arrive pb s u d)"
proof -
  obtain i where i: "topicId t = Some i" using new(2) topicId_known [of t] by (auto simp: tzyre_topicNames_def)
  let ?s' = "s\<lparr>tz_subscriber := zyre_subscribe (tz_subscriber s) t (Some (cb, i)),
    tz_activeTopics := insert t (tz_activeTopics s)\<rparr>"
  have s': "tzyre_subscribe s t cb = ?s'" using new(1) i by (simp add: tzyre_subscribe_def tzyre_isSubscribed_def)
  have "wf_tzyre ?s'"
    using wf new(2) by (simp add: wf_tzyre_def zyre_subscribe_def Let_def tzyre_topicNames_def)
  moreover have "tzyre_arrive pb ?s' u d =
      (if u = t then map (\<lambda>j. (cb, t, j)) (zyre_content pb t d) else tzyre_arrive pb s u d)" for u d
    using wf i by (auto simp: tzyre_arrive_eq wf_tzyre_def zyre_subscribe_def Let_def zyre_content_def split: option.split)
  ultimately show ?thesis unfolding s' by (auto simp: tzyre_topicNames_def tzyre_isSubscribed_def)
qed

lemma tzyre_subscribe_noop:
  "tzyre_isSubscribed s t \<or> t \<notin> set (tzyre_topicNames s) \<Longrightarrow> tzyre_subscribe s t cb = s"
  using topicId_None_iff [of t] by (auto simp: tzyre_topicNames_def tzyre_isSubscribed_def tzyre_subscribe_def)

lemma tzyre_unsubscribe_law:
  "wf_tzyre s \<Longrightarrow> wf_tzyre (tzyre_unsubscribe s t) \<and> tzyre_topicNames (tzyre_unsubscribe s t) = tzyre_topicNames s \<and>
      (\<forall>u. tzyre_isSubscribed (tzyre_unsubscribe s t) u \<longleftrightarrow> tzyre_isSubscribed s u \<and> u \<noteq> t) \<and>
      (\<forall>u d. u \<noteq> t \<longrightarrow> tzyre_arrive pb (tzyre_unsubscribe s t) u d = tzyre_arrive pb s u d)"
  by (auto simp: wf_tzyre_def tzyre_unsubscribe_def tzyre_topicNames_def tzyre_isSubscribed_def tzyre_arrive_eq)

interpretation zyre: ITransport wf_tzyre tzyre_topicNames "\<lambda>s t cb. Inr (tzyre_subscribe s t cb)"
  tzyre_unsubscribe tzyre_isSubscribed "tzyre_arrive pb" "zyre_content pb" for pb :: "'m protobuf"
  by unfold_locales
    (rule tzyre_unsubscribe_law | assumption | simp add: tzyre_subscribe_noop tzyre_subscribe_new)+

lemma make_TransportZyre_wf:
  "wf_tzyre (make_TransportZyre (True, True) pub_ok ifaddrs name)"
  "tz_activeTopics (make_TransportZyre sub_ok pub_ok ifaddrs name) = {}"
  by (simp_all add: wf_tzyre_def make_TransportZyre_def make_ZyreSubscriber_def node_start_def
      make_ZyreNode_def Let_def)

text \<open>A destroyed transport calls nobody.\<close>

lemma destroyed_transports_silent:
  "wf_tdds d \<Longrightarrow> tdds_arrive js (destroy_TransportDds d) topic samples = []"
  "tzyre_arrive pb (destroy_TransportZyre z) topic data = []"
proof -
  show "wf_tdds d \<Longrightarrow> tdds_arrive js (destroy_TransportDds d) topic samples = []"
    by (cases samples) (auto simp: destroy_TransportDds_def Let_def wf_tdds_def poll_not_running)
  show "tzyre_arrive pb (destroy_TransportZyre z) topic data = []"
    by (simp add: tzyre_arrive_def destroy_TransportZyre_def destroyed_subscriber_silent)
qed

section \<open>Properties\<close>

text \<open>
  C7. After any sequence of subscribe and unsubscribe commands, a fresh DDS transport has not failed,
  and samples that arrive on a topic go, as JSON, to the callback of the first subscription since the
  last unsubscription, the valid ones in order, and to nobody when the topic is not subscribed.
\<close>

theorem dds_commands:
  assumes "make_TransportDds = Inr t0"
  shows "\<exists>t. run_commands tdds_subscribe tdds_unsubscribe cs t0 = Inr t \<and>
    tdds_arrive js t topic samples =
      (case subscription [SENSOR_TOPIC, TRACK_TOPIC] topic None cs of
         None \<Rightarrow> [] | Some cb \<Rightarrow> map (\<lambda>j. (cb, topic, j)) (dds_content js topic samples))"
proof -
  have "wf_tdds t0" "tdds_topicNames t0 = [SENSOR_TOPIC, TRACK_TOPIC]" "\<And>u. \<not> tdds_isSubscribed t0 u"
    using make_TransportDds_wf [OF assms] by (simp_all add: tdds_isSubscribed_def tdds_topicNames_def)
  then show ?thesis using dds.commands_exact [of t0 cs js topic samples] by simp
qed

text \<open>
  After any sequence of subscribe and unsubscribe commands a Zyre transport calls, for a message
  on a subscribed topic, the callback of the first subscription since the last unsubscription, with
  the bare topic name and the JSON of the message.  An unsubscribed topic, however, keeps being
  delivered to its last callback: the handler is never removed.
\<close>

theorem zyre_commands:
  assumes "t0 = make_TransportZyre (True, True) pub_ok ifaddrs name"
    and "run_commands (\<lambda>s t cb. Inr (tzyre_subscribe s t cb)) tzyre_unsubscribe cs t0 = Inr t"
  shows "(\<forall>cb. subscription allTopicNames topic None cs = Some cb \<longrightarrow>
      tzyre_isSubscribed t topic \<and>
      tzyre_arrive pb t topic data = map (\<lambda>j. (cb, topic, j)) (zyre_content pb topic data) \<and>
      tzyre_arrive pb (tzyre_unsubscribe t topic) topic data = map (\<lambda>j. (cb, topic, j)) (zyre_content pb topic data))"
proof (intro allI impI)
  fix cb assume cb: "subscription allTopicNames topic None cs = Some cb"
  have "wf_tzyre t0" "\<And>u. \<not> tzyre_isSubscribed t0 u"
    unfolding assms(1) by (simp_all add: make_TransportZyre_wf tzyre_isSubscribed_def)
  from zyre.commands_serve_fresh [OF this, of cs topic pb] assms(2) cb
  have "tzyre_isSubscribed t topic"
    "tzyre_arrive pb t topic data = map (\<lambda>j. (cb, topic, j)) (zyre_content pb topic data)"
    by (simp_all add: tzyre_topicNames_def)
  moreover have "tzyre_arrive pb (tzyre_unsubscribe t topic) topic data = tzyre_arrive pb t topic data"
    by (simp add: tzyre_arrive_eq tzyre_unsubscribe_def)
  ultimately show "tzyre_isSubscribed t topic \<and>
      tzyre_arrive pb t topic data = map (\<lambda>j. (cb, topic, j)) (zyre_content pb topic data) \<and>
      tzyre_arrive pb (tzyre_unsubscribe t topic) topic data = map (\<lambda>j. (cb, topic, j)) (zyre_content pb topic data)"
    by simp
qed


text \<open>Three commands: the second subscription is ignored, the third topic does not exist.\<close>

theorem dds_commands_witness:
  "\<exists>t0 t :: nat TransportDds. make_TransportDds = Inr t0 \<and>
    run_commands tdds_subscribe tdds_unsubscribe
      [Sub SENSOR_TOPIC 1, Sub SENSOR_TOPIC 2, Sub ''Other'' 3] t0 = Inr t \<and>
    (\<forall>js :: (nat, nat, unit) dds_json.
      tdds_arrive js t SENSOR_TOPIC (SensorSamples [(5, True), (6, False)]) = [(1, SENSOR_TOPIC, sensor_toJson js 5)])"
proof -
  obtain t0 :: "nat TransportDds" where t0: "make_TransportDds = Inr t0"
    using make_TransportDds_ok [where 'a = nat] by (auto simp: safe_iff_ex)
  let ?cs = "[Sub SENSOR_TOPIC 1, Sub SENSOR_TOPIC 2, Sub ''Other'' 3] :: nat command list"
  obtain t where t: "run_commands tdds_subscribe tdds_unsubscribe ?cs t0 = Inr t"
    using dds_commands [OF t0, of ?cs] by blast
  have "subscription [SENSOR_TOPIC, TRACK_TOPIC] SENSOR_TOPIC None ?cs = Some 1" by simp
  then have "tdds_arrive js t SENSOR_TOPIC (SensorSamples [(5, True), (6, False)]) = [(1, SENSOR_TOPIC, sensor_toJson js 5)]"
    for js :: "(nat, nat, unit) dds_json"
    using dds_commands [OF t0, of ?cs js SENSOR_TOPIC "SensorSamples [(5, True), (6, False)]"] t by simp
  then show ?thesis using t0 t by blast
qed

text \<open>A library whose messages are their bytes.\<close>

definition identity_protobuf :: "bytes protobuf" where
  "identity_protobuf = \<lparr>ParseFromString = (\<lambda>_. Some), SerializeToString = Some,
     MessageToJsonString = (\<lambda>m. Some (map (\<lambda>b. char_of (unat b)) m)),
     JsonStringToMessage = (\<lambda>j _. Some (map (\<lambda>c. of_nat (of_char c)) j))\<rparr>"

theorem zyre_commands_witness:
  "\<exists>t :: nat TransportZyre. tzyre_isSubscribed t ''Command'' \<and>
    \<not> tzyre_isSubscribed (tzyre_unsubscribe t ''Command'') ''Command'' \<and>
    tzyre_arrive identity_protobuf (tzyre_unsubscribe t ''Command'') ''Command'' [65] = [(1, ''Command'', ''A'')]"
proof -
  let ?fresh = "make_TransportZyre (True, True) (True, True) None ''n'' :: nat TransportZyre"
  let ?t = "tzyre_subscribe ?fresh ''Command'' 1"
  have c: "topicId ''Command'' = Some Command" by (simp add: topicId_def TOPIC_REGISTRY_def)
  have "''Command'' \<in> set allTopicNames" by (simp add: allTopicNames_def TOPIC_REGISTRY_def)
  then have "subscription allTopicNames ''Command'' None [Sub ''Command'' 1] = Some (1 :: nat)" by simp
  moreover have run: "run_commands (\<lambda>s t cb. Inr (tzyre_subscribe s t cb)) tzyre_unsubscribe [Sub ''Command'' 1] ?fresh = Inr ?t"
    by simp
  moreover have "zyre_content identity_protobuf ''Command'' [65] = [''A'']"
    by (simp add: zyre_content_def c toJson_def createMessage_def identity_protobuf_def char_of_def bit_0)
  ultimately have "tzyre_isSubscribed ?t ''Command'' \<and>
    tzyre_arrive identity_protobuf (tzyre_unsubscribe ?t ''Command'') ''Command'' [65] = [(1, ''Command'', ''A'')]"
    using zyre_commands [OF refl run, of "''Command''" identity_protobuf "[65]"] by simp
  then show ?thesis by (auto simp: tzyre_unsubscribe_def tzyre_isSubscribed_def)
qed

end
