(* ===== verification/PlaybackEngine.thy ===== *)
theory PlaybackEngine
  imports Prelude
begin

text \<open>
  \<open>src/apps/Omniscope/PlaybackEngine.cpp\<close>: loading a recording and replaying it.

  \<^item> The JSON library (Crow) is not part of the repository.  The record \<open>crow_json\<close> holds what the code
    calls: loading a text, reading a string or an integer member, and dumping a member.  \<open>None\<close> is a text
    that does not load, or the exception of a member that is absent or of another type.  An exception
    leaves the playback thread, which terminates the program: the fault \<open>BadJson\<close>.
  \<^item> The playback thread is a function from the lines of the snapshot to its effects.  The stop flag is
    set by another thread, so what the thread sees of it is an argument: \<open>flag n\<close> is the value of the
    n-th read.
  \<^item> A wait is recorded with its length, which a notification can cut short.
  \<^item> \<open>int64_t\<close> differences that overflow are faults.

  The lemmas show that a playback produces exactly the messages of the recording, in order, or a
  beginning of them when it is stopped.
\<close>

record 'j crow_json =
  cj_load :: "string \<Rightarrow> 'j option"
  cj_s :: "'j \<Rightarrow> string \<Rightarrow> string option"
  cj_i :: "'j \<Rightarrow> string \<Rightarrow> int option"
  cj_dump :: "'j \<Rightarrow> string \<Rightarrow> string option"

record PlaybackEngine =
  pe_lines :: "string list"
  pe_thread :: bool            \<comment> \<open>joinable\<close>
  pe_stopFlag :: bool
  pe_playing :: bool

definition make_PlaybackEngine :: PlaybackEngine where
  "make_PlaybackEngine = \<lparr>pe_lines = [], pe_thread = False, pe_stopFlag = False, pe_playing = False\<rparr>"

section \<open>Loading\<close>

definition newline :: char where "newline = CHR 0x0A"

text \<open>\<open>while (std::getline(stream, line)) if (!line.empty()) lines.push_back(line)\<close>.\<close>

function getline_loop :: "string \<Rightarrow> string list \<Rightarrow> string list" where
  "getline_loop stream lines =
    (if stream = [] then lines
     else
       let line = takeWhile (\<lambda>c. c \<noteq> newline) stream;
           rest = drop 1 (dropWhile (\<lambda>c. c \<noteq> newline) stream)
       in getline_loop rest (if line \<noteq> [] then lines @ [line] else lines))"
  by pat_completeness auto
termination
proof (relation "measure (\<lambda>(stream, lines). length stream)")
  fix stream line rest and lines :: "string list"
  assume "stream \<noteq> []" "rest = drop 1 (dropWhile (\<lambda>c. c \<noteq> newline) stream)"
  moreover have "length (dropWhile (\<lambda>c. c \<noteq> newline) stream) \<le> length stream" by (rule length_dropWhile_le)
  moreover have "0 < length stream" using calculation(1) by simp
  ultimately have "length rest < length stream" by (cases "dropWhile (\<lambda>c. c \<noteq> newline) stream") auto
  then show "((rest, if line \<noteq> [] then lines @ [line] else lines), (stream, lines)) \<in>
      measure (\<lambda>(stream, lines). length stream)" by simp
qed simp

declare getline_loop.simps [simp del]

definition engine_stop :: "PlaybackEngine \<Rightarrow> PlaybackEngine" where
  "engine_stop e =
    (let e = e\<lparr>pe_stopFlag := True\<rparr>;
         e = (if pe_thread e then e\<lparr>pe_thread := False\<rparr> else e)
     in e\<lparr>pe_playing := False\<rparr>)"

definition loadRecording :: "PlaybackEngine \<Rightarrow> string \<Rightarrow> nat \<times> PlaybackEngine" where
  "loadRecording e body =
    (let e = engine_stop e; e = e\<lparr>pe_lines := getline_loop body []\<rparr>
     in (length (pe_lines e), e))"

definition hasRecording :: "PlaybackEngine \<Rightarrow> bool" where
  "hasRecording e \<longleftrightarrow> pe_lines e \<noteq> []"

definition messageCount :: "PlaybackEngine \<Rightarrow> nat" where
  "messageCount e = length (pe_lines e)"

section \<open>Playing\<close>

datatype effect =
    Sleep int
  | PublishJson string string
  | Progress nat nat
  | Complete bool

definition sub64 :: "int \<Rightarrow> int \<Rightarrow> int outcome" where
  "sub64 a b = (if - (2 ^ 63) \<le> a - b \<and> a - b < 2 ^ 63 then Inr (a - b) else Inl SignedOverflow)"

text \<open>\<open>None\<close> is an uncaught exception.\<close>

definition json_member :: "'a option \<Rightarrow> 'a outcome" where
  "json_member v = (case v of None \<Rightarrow> Inl BadJson | Some x \<Rightarrow> Inr x)"

text \<open>The loop from line \<open>i\<close> on; \<open>n\<close> reads of the flag have been made.\<close>

fun play_loop ::
  "'j crow_json \<Rightarrow> (nat \<Rightarrow> bool) \<Rightarrow> int \<Rightarrow> nat \<Rightarrow> string list \<Rightarrow> nat \<Rightarrow> nat \<Rightarrow> int \<Rightarrow> (effect list \<times> nat) outcome"
where
  "play_loop js flag baseTime tot [] i n prevOffset = Inr ([], n)"
| "play_loop js flag baseTime tot (line # lines) i n prevOffset =
    (if flag n then Inr ([], n + 1)
     else case cj_load js line of
       None \<Rightarrow> play_loop js flag baseTime tot lines (i + 1) (n + 1) prevOffset
     | Some rec \<Rightarrow>
         obind (json_member (cj_s js rec ''topic'')) (\<lambda>topic.
         obind (json_member (cj_i js rec ''timestamp_ms'')) (\<lambda>ts.
         obind (sub64 ts baseTime) (\<lambda>offset.
         obind (sub64 offset prevOffset) (\<lambda>delta.
           let sleeps = (if delta > 0 then [Sleep (min delta 5000)] else [])
           in if flag (n + 1) then Inr (sleeps, n + 2)
              else
                obind (json_member (cj_dump js rec ''data'')) (\<lambda>jsonData.
                obind (play_loop js flag baseTime tot lines (i + 1) (n + 2) offset) (\<lambda>(es, n).
                  Inr (sleeps @ [PublishJson topic jsonData, Progress (i + 1) tot] @ es, n))))))))"

definition playback_thread :: "'j crow_json \<Rightarrow> (nat \<Rightarrow> bool) \<Rightarrow> string list \<Rightarrow> effect list outcome" where
  "playback_thread js flag lines =
     obind (load lines 0) (\<lambda>first.
     obind (case cj_load js first of
              None \<Rightarrow> Inr 0
            | Some firstRec \<Rightarrow> json_member (cj_i js firstRec ''timestamp_ms'')) (\<lambda>baseTime.
     obind (play_loop js flag baseTime (length lines) lines 0 0 0) (\<lambda>(es, n).
       Inr (es @ [Complete (flag n)]))))"

text \<open>\<open>start\<close>: the effects in the calling thread, and the lines that the new thread plays, if any.\<close>

definition engine_start :: "PlaybackEngine \<Rightarrow> PlaybackEngine \<times> effect list \<times> string list option" where
  "engine_start e =
    (let e = engine_stop e; snapshot = pe_lines e
     in if snapshot = [] then (e, [Complete False], None)
        else (e\<lparr>pe_stopFlag := False, pe_playing := True, pe_thread := True\<rparr>, [], Some snapshot))"

section \<open>The messages of a recording\<close>

text \<open>What a line says: nothing, or a topic, a time and the dumped data.\<close>

definition says :: "'j crow_json \<Rightarrow> string \<Rightarrow> (string \<times> int \<times> string) option \<Rightarrow> bool" where
  "says js line r \<longleftrightarrow>
    (case r of
       None \<Rightarrow> cj_load js line = None
     | Some (topic, ts, data) \<Rightarrow> 0 \<le> ts \<and> ts < 2 ^ 62 \<and>
         (\<exists>j. cj_load js line = Some j \<and> cj_s js j ''topic'' = Some topic \<and>
           cj_i js j ''timestamp_ms'' = Some ts \<and> cj_dump js j ''data'' = Some data))"

text \<open>The complete playback of a recording whose message before had the time \<open>prev\<close>.\<close>

fun replay :: "nat \<Rightarrow> nat \<Rightarrow> int \<Rightarrow> (string \<times> int \<times> string) option list \<Rightarrow> effect list" where
  "replay tot i prev [] = []"
| "replay tot i prev (None # rs) = replay tot (i + 1) prev rs"
| "replay tot i prev (Some (topic, ts, data) # rs) =
     (if prev < ts then [Sleep (min (ts - prev) 5000)] else []) @
     [PublishJson topic data, Progress (i + 1) tot] @ replay tot (i + 1) ts rs"

fun first_time :: "(string \<times> int \<times> string) option list \<Rightarrow> int" where
  "first_time (Some (_, ts, _) # _) = ts"
| "first_time _ = 0"

text \<open>
  A playback that is stopped.  It reads the flag at each line, and once more between the wait and the message;
  \<open>reads\<close> counts this.  Of the first message that is not published it may still make the wait.
\<close>

fun reads :: "(string \<times> int \<times> string) option list \<Rightarrow> nat" where
  "reads [] = 0"
| "reads (None # rs) = 1 + reads rs"
| "reads (Some _ # rs) = 2 + reads rs"

fun last_time :: "int \<Rightarrow> (string \<times> int \<times> string) option list \<Rightarrow> int" where
  "last_time prev [] = prev"
| "last_time prev (None # rs) = last_time prev rs"
| "last_time prev (Some (_, ts, _) # rs) = last_time ts rs"

definition cut_short :: "bool \<Rightarrow> int \<Rightarrow> (string \<times> int \<times> string) option list \<Rightarrow> effect list" where
  "cut_short stopped prev rs =
    (case rs of
       Some (_, ts, _) # _ \<Rightarrow> if \<not> stopped \<and> prev < ts then [Sleep (min (ts - prev) 5000)] else []
     | _ \<Rightarrow> [])"

text \<open>The part of the recording that is played when the reads from the \<open>n\<close>th on go as \<open>flag\<close> says.\<close>

definition plays :: "(nat \<Rightarrow> bool) \<Rightarrow> nat \<Rightarrow> (string \<times> int \<times> string) option list \<Rightarrow> (string \<times> int \<times> string) option list \<Rightarrow> bool" where
  "plays flag n played rest \<longleftrightarrow>
     (\<forall>k. n \<le> k \<longrightarrow> k < n + reads played \<longrightarrow> \<not> flag k) \<and>
     (rest \<noteq> [] \<longrightarrow> (\<exists>k. n \<le> k \<and> k < n + reads played + reads [hd rest] \<and> flag k))"

lemma plays_intros:
  "flag n \<Longrightarrow> plays flag n [] (r # rs)" "flag (n + 1) \<Longrightarrow> plays flag n [] (Some x # rs)" "plays flag n [] []"
  "\<not> flag n \<Longrightarrow> plays flag (n + 1) p q \<Longrightarrow> plays flag n (None # p) q"
  "\<not> flag n \<Longrightarrow> \<not> flag (n + 1) \<Longrightarrow> plays flag (n + 2) p q \<Longrightarrow> plays flag n (Some x # p) q"
proof -
  show "flag n \<Longrightarrow> plays flag n [] (r # rs)" by (cases r) (auto simp: plays_def)
  show "flag (n + 1) \<Longrightarrow> plays flag n [] (Some x # rs)" by (auto simp: plays_def intro!: exI [of _ "n + 1"])
  show "plays flag n [] []" by (simp add: plays_def)
  show "plays flag n (None # p) q" if "\<not> flag n" "plays flag (n + 1) p q"
  proof -
    have "\<not> flag k" if "n \<le> k" "k < n + reads (None # p)" for k
      using that \<open>\<not> flag n\<close> \<open>plays flag (n + 1) p q\<close> by (cases "k = n") (auto simp: plays_def)
    moreover have "\<exists>k. n \<le> k \<and> k < n + reads (None # p) + reads [hd q] \<and> flag k" if ne: "q \<noteq> []"
    proof -
      obtain k where "n + 1 \<le> k" "k < n + 1 + reads p + reads [hd q]" "flag k"
        using ne \<open>plays flag (n + 1) p q\<close> by (auto simp: plays_def)
      then show ?thesis by (intro exI [of _ k]) simp
    qed
    ultimately show ?thesis by (simp add: plays_def)
  qed
  show "plays flag n (Some x # p) q" if "\<not> flag n" "\<not> flag (n + 1)" "plays flag (n + 2) p q"
  proof -
    have "\<not> flag k" if "n \<le> k" "k < n + reads (Some x # p)" for k
      using that \<open>\<not> flag n\<close> \<open>\<not> flag (n + 1)\<close> \<open>plays flag (n + 2) p q\<close>
      by (cases "k = n \<or> k = n + 1") (auto simp: plays_def)
    moreover have "\<exists>k. n \<le> k \<and> k < n + reads (Some x # p) + reads [hd q] \<and> flag k" if ne: "q \<noteq> []"
    proof -
      obtain k where "n + 2 \<le> k" "k < n + 2 + reads p + reads [hd q]" "flag k"
        using ne \<open>plays flag (n + 2) p q\<close> by (auto simp: plays_def)
      then show ?thesis by (intro exI [of _ k]) simp
    qed
    ultimately show ?thesis by (simp add: plays_def)
  qed
qed

text \<open>The loop at a complete record, the one before having the time \<open>base + prev\<close>.\<close>

lemma play_loop_record:
  assumes "says js line (Some (topic, ts, data))" "\<not> flag n"
    and "0 \<le> base" "base < 2 ^ 62" "- (2 ^ 62) \<le> prev" "prev < 2 ^ 62"
  shows "play_loop js flag base tot (line # lines) i n prev =
    (let sleeps = (if base + prev < ts then [Sleep (min (ts - (base + prev)) 5000)] else [])
     in if flag (n + 1) then Inr (sleeps, n + 2)
        else obind (play_loop js flag base tot lines (i + 1) (n + 2) (ts - base)) (\<lambda>(es, m).
          Inr (sleeps @ [PublishJson topic data, Progress (i + 1) tot] @ es, m)))"
    "0 \<le> ts" "ts < 2 ^ 62"
proof -
  obtain j where j: "0 \<le> ts" "ts < 2 ^ 62" "cj_load js line = Some j" "cj_s js j ''topic'' = Some topic"
    "cj_i js j ''timestamp_ms'' = Some ts" "cj_dump js j ''data'' = Some data"
    using assms(1) by (auto simp: says_def)
  have subs: "sub64 ts base = Inr (ts - base)" "sub64 (ts - base) prev = Inr (ts - base - prev)"
    using j(1,2) assms(3-6) by (simp_all add: sub64_def)
  have "(if 0 < ts - base - prev then [Sleep (min (ts - base - prev) 5000)] else []) =
      (if base + prev < ts then [Sleep (min (ts - (base + prev)) 5000)] else [])"
    by (simp add: diff_diff_eq)
  then show "play_loop js flag base tot (line # lines) i n prev =
    (let sleeps = (if base + prev < ts then [Sleep (min (ts - (base + prev)) 5000)] else [])
     in if flag (n + 1) then Inr (sleeps, n + 2)
        else obind (play_loop js flag base tot lines (i + 1) (n + 2) (ts - base)) (\<lambda>(es, m).
          Inr (sleeps @ [PublishJson topic data, Progress (i + 1) tot] @ es, m)))"
    using assms(2) by (simp add: j json_member_def subs Let_def)
  show "0 \<le> ts" "ts < 2 ^ 62" using j(1,2) .
qed

lemma play_loop_replay:
  assumes "list_all2 (says js) lines rs" and "\<And>a b. a \<le> b \<Longrightarrow> flag a \<Longrightarrow> flag b"
    and "0 \<le> base" "base < 2 ^ 62" and "- (2 ^ 62) \<le> prev" "prev < 2 ^ 62"
  shows "\<exists>p q m. rs = p @ q \<and> plays flag n p q \<and>
    play_loop js flag base tot lines i n prev =
      Inr (replay tot i (base + prev) p @ cut_short (flag (n + reads p)) (last_time (base + prev) p) q, m) \<and>
    (if q = [] then m = n + reads p else flag m)"
  using assms(1,5,6)
proof (induction lines arbitrary: rs i n prev)
  case Nil
  then show ?case by (simp add: plays_intros cut_short_def)
next
  case (Cons line lines)
  obtain r rs' where rs: "rs = r # rs'" "says js line r" "list_all2 (says js) lines rs'"
    using Cons.prems(1) by (auto simp: list_all2_Cons1)
  consider "flag n" | "\<not> flag n" "r = None" | topic ts data where "\<not> flag n" "r = Some (topic, ts, data)" by (cases r) auto
  then show ?case
  proof cases
    case 1
    then have "plays flag n [] rs" "flag (n + 1)" using assms(2) [of n "n + 1"] by (simp_all add: rs(1) plays_intros)
    then show ?thesis using 1
      by (intro exI [of _ "[]"] exI [of _ rs] exI [of _ "n + 1"]) (auto simp: rs(1) cut_short_def split: option.splits)
  next
    case 2
    then have none: "cj_load js line = None" using rs(2) by (simp add: says_def)
    obtain p q m where "rs' = p @ q" "plays flag (n + 1) p q" "play_loop js flag base tot lines (i + 1) (n + 1) prev =
        Inr (replay tot (i + 1) (base + prev) p @ cut_short (flag (n + 1 + reads p)) (last_time (base + prev) p) q, m)"
      "if q = [] then m = n + 1 + reads p else flag m"
      using Cons.IH [OF rs(3) Cons.prems(2,3), of "n + 1" "i + 1"] by blast
    then show ?thesis using 2 none plays_intros(4) [of flag n p q]
      by (intro exI [of _ "None # p"] exI [of _ q] exI [of _ m]) (simp add: rs(1))
  next
    case 3
    note step = play_loop_record [where flag = flag and n = n, OF rs(2) [unfolded 3(2)] 3(1) assms(3,4) Cons.prems(2,3)]
    have prev: "- (2 ^ 62) \<le> ts - base" "ts - base < 2 ^ 62" using step(2,3) assms(3,4) by simp_all
    show ?thesis
    proof (cases "flag (n + 1)")
      case True
      then have "plays flag n [] rs" "flag (n + 2)" using assms(2) [of "n + 1" "n + 2"] by (simp_all add: rs(1) 3(2) plays_intros)
      then show ?thesis using True 3 unfolding step(1)
        by (intro exI [of _ "[]"] exI [of _ rs] exI [of _ "n + 2"]) (simp add: rs(1) cut_short_def Let_def)
    next
      case False
      obtain p q m where "rs' = p @ q" "plays flag (n + 2) p q" "play_loop js flag base tot lines (i + 1) (n + 2) (ts - base) =
          Inr (replay tot (i + 1) ts p @ cut_short (flag (n + 2 + reads p)) (last_time ts p) q, m)"
        "if q = [] then m = n + 2 + reads p else flag m"
        using Cons.IH [OF rs(3) prev, of "n + 2" "i + 1"] by auto
      then show ?thesis using False 3 plays_intros(5) [of flag n p q "(topic, ts, data)"] unfolding step(1)
        by (intro exI [of _ "r # p"] exI [of _ q] exI [of _ m]) (simp add: rs(1) Let_def)
    qed
  qed
qed

lemma replay_published:
  "[(t, d). PublishJson t d \<leftarrow> replay tot i prev rs] = [(t, d). Some (t, _, d) \<leftarrow> rs]"
  by (induction tot i prev rs rule: replay.induct) auto

lemma cut_short_published: "[(t, d). PublishJson t d \<leftarrow> cut_short stopped prev q] = []"
  by (auto simp: cut_short_def split: list.split option.split)

lemma playback_prefix:
  assumes "list_all2 (says js) lines rs" and "lines \<noteq> []"
    and "\<forall>a b. a \<le> b \<longrightarrow> flag a \<longrightarrow> flag b"
  shows "\<exists>p q es stopped. rs = p @ q \<and> plays flag 0 p q \<and>
    playback_thread js flag lines = Inr (es @ [Complete stopped]) \<and>
    es = replay (length lines) 0 (first_time rs) p @ cut_short (flag (reads p)) (last_time (first_time rs) p) q \<and>
    [(t, d). PublishJson t d \<leftarrow> es] = [(t, d). Some (t, _, d) \<leftarrow> p] \<and>
    stopped = (q \<noteq> [] \<or> flag (reads rs))"
proof -
  obtain line lines' r rs' where l: "lines = line # lines'" "rs = r # rs'" "says js line r"
    using assms(1,2) by (cases lines) (auto simp: list_all2_Cons1)
  have base: "0 \<le> first_time rs" "first_time rs < 2 ^ 62"
    using l(3) by (cases r; auto simp: l(2) says_def)+
  have first: "(case cj_load js line of None \<Rightarrow> Inr 0
      | Some firstRec \<Rightarrow> json_member (cj_i js firstRec ''timestamp_ms'')) = Inr (first_time rs)"
    using l(3) by (cases r) (auto simp: l(2) says_def json_member_def)
  obtain p q m where loop: "rs = p @ q" "plays flag 0 p q" "play_loop js flag (first_time rs) (length lines) lines 0 0 0 =
      Inr (replay (length lines) 0 (first_time rs) p @ cut_short (flag (reads p)) (last_time (first_time rs) p) q, m)"
    "if q = [] then m = reads p else flag m"
    using play_loop_replay [OF assms(1), of flag "first_time rs" 0 0 "length lines" 0] assms(3) base by auto
  let ?es = "replay (length lines) 0 (first_time rs) p @ cut_short (flag (reads p)) (last_time (first_time rs) p) q"
  have "playback_thread js flag lines = Inr (?es @ [Complete (flag m)])"
    using loop(3) first by (simp add: playback_thread_def l(1) load_def)
  moreover have "[(t, d). PublishJson t d \<leftarrow> ?es] = [(t, d). Some (t, _, d) \<leftarrow> p]"
    using replay_published [of "length lines" 0 "first_time rs" p] cut_short_published by simp
  moreover have "flag m = (q \<noteq> [] \<or> flag (reads rs))" using loop(1,4) by (cases "q = []") simp_all
  ultimately show ?thesis using loop(1,2) by blast
qed

text \<open>
  C26. A playback replays the recording as far as the stop flag lets it.  Let every line be either no JSON or a
  complete record with a time below 2 to the 62, and let the flag stay set once it is.  The thread plays
  the longest beginning of the recording during whose reads of the flag it was not set: before each
  message a wait of the time since the one before, at most five seconds, then the message and its
  progress.  Of the next message it makes the wait only, and only if the flag was not yet set when it came to the
  line.  At the end it reports whether it was stopped; if it was not, the whole recording has been
  published, in order and once each.
\<close>

theorem playback_replays:
  assumes "list_all2 (says js) lines rs" and "lines \<noteq> []"
    and "\<forall>a b. a \<le> b \<longrightarrow> flag a \<longrightarrow> flag b"
  shows "\<exists>p q es stopped. rs = p @ q \<and> plays flag 0 p q \<and>
    playback_thread js flag lines = Inr (es @ [Complete stopped]) \<and>
    es = replay (length lines) 0 (first_time rs) p @ cut_short (flag (reads p)) (last_time (first_time rs) p) q \<and>
    [(t, d). PublishJson t d \<leftarrow> es] = [(t, d). Some (t, _, d) \<leftarrow> p] \<and>
    stopped = (q \<noteq> [] \<or> flag (reads rs))"
  using assms by (rule playback_prefix)

text \<open>No playback follows another before the first has ended: \<open>start\<close> joins the old thread first.\<close>

lemma start_after_stop:
  "engine_start e = (e', es, Some lines) \<Longrightarrow> lines = pe_lines e \<and> lines \<noteq> [] \<and> pe_playing e' \<and> \<not> pe_stopFlag e' \<and> es = []"
  by (auto simp: engine_start_def engine_stop_def Let_def split: if_splits)

lemma engine_stop_idle [simp]:
  "\<not> pe_playing (engine_stop e)" "\<not> pe_thread (engine_stop e)" "pe_lines (engine_stop e) = pe_lines e"
  by (cases "pe_thread e"; simp add: engine_stop_def Let_def)+

lemma loadRecording_stops:
  "loadRecording e body = (n, e') \<Longrightarrow> n = length (pe_lines e') \<and> \<not> pe_playing e' \<and> \<not> pe_thread e' \<and> messageCount e' = n"
  by (auto simp: loadRecording_def Let_def messageCount_def)

section \<open>Lines\<close>

text \<open>A file of lines is read back as those lines.\<close>

lemma getline_loop_lines:
  "\<forall>l \<in> set ls. l \<noteq> [] \<and> newline \<notin> set l \<Longrightarrow>
    getline_loop (concat (map (\<lambda>l. l @ [newline]) ls)) lines = lines @ ls"
proof (induction ls arbitrary: lines)
  case (Cons l ls)
  let ?rest = "concat (map (\<lambda>l. l @ [newline]) ls)"
  have l: "\<forall>c \<in> set l. c \<noteq> newline" using Cons.prems by auto
  have "takeWhile (\<lambda>c. c \<noteq> newline) (l @ newline # ?rest) = l"
    "dropWhile (\<lambda>c. c \<noteq> newline) (l @ newline # ?rest) = newline # ?rest"
    using l by (simp_all add: takeWhile_append2 dropWhile_append2)
  then show ?case using Cons by (subst getline_loop.simps) (simp add: Let_def)
qed (simp add: getline_loop.simps)

section \<open>Instances\<close>

text \<open>
  A library whose texts are \<open>topic=data\<close>, for records at the time 1000, and which does not load a text
  without \<open>=\<close>.
\<close>

definition example_json :: "string crow_json" where
  "example_json =
     \<lparr>cj_load = (\<lambda>t. if CHR ''='' \<in> set t then Some t else None),
      cj_s = (\<lambda>j k. Some (takeWhile (\<lambda>c. c \<noteq> CHR ''='') j)), cj_i = (\<lambda>j k. Some 1000),
      cj_dump = (\<lambda>j k. Some (drop 1 (dropWhile (\<lambda>c. c \<noteq> CHR ''='') j)))\<rparr>"

text \<open>A recording with a line that is no JSON; the flag is raised after the first message.\<close>

theorem playback_replays_witness:
  "playback_thread example_json (\<lambda>n. 2 < n) [''a=1'', ''x'', ''b=2''] =
    Inr [PublishJson ''a'' ''1'', Progress 1 3, Complete True]"
proof -
  let ?rs = "[Some (''a'', 1000, ''1''), None, Some (''b'', 1000, ''2'')]"
  have "list_all2 (says example_json) [''a=1'', ''x'', ''b=2''] ?rs"
    by (simp add: says_def example_json_def)
  moreover have "\<forall>a b :: nat. a \<le> b \<longrightarrow> 2 < a \<longrightarrow> 2 < b" by simp
  ultimately have "\<exists>p q es stopped. ?rs = p @ q \<and> plays (\<lambda>n. 2 < n) 0 p q \<and>
    playback_thread example_json (\<lambda>n. 2 < n) [''a=1'', ''x'', ''b=2''] = Inr (es @ [Complete stopped]) \<and>
    es = replay 3 0 1000 p @ cut_short (2 < reads p) (last_time 1000 p) q \<and>
    [(t, d). PublishJson t d \<leftarrow> es] = [(t, d). Some (t, _, d) \<leftarrow> p] \<and> stopped = (q \<noteq> [] \<or> 2 < reads ?rs)"
    using playback_replays [of example_json "[''a=1'', ''x'', ''b=2'']" ?rs "\<lambda>n. 2 < n"] by (simp add: numeral_3_eq_3)
  then obtain p q es stopped where r: "?rs = p @ q" "plays (\<lambda>n. 2 < n) 0 p q"
    "playback_thread example_json (\<lambda>n. 2 < n) [''a=1'', ''x'', ''b=2''] = Inr (es @ [Complete stopped])"
    "es = replay 3 0 1000 p @ cut_short (2 < reads p) (last_time 1000 p) q" "stopped = (q \<noteq> [] \<or> 2 < reads ?rs)"
    by (elim exE conjE) (rule that)
  have "\<not> (\<forall>k < 5. \<not> 2 < (k :: nat))" by (intro notI) (drule spec [of _ 3], simp)
  with r(1,2) have "p = [Some (''a'', 1000, ''1''), None]" "q = [Some (''b'', 1000, ''2'')]"
    by (auto simp: plays_def Cons_eq_append_conv)
  then show ?thesis using r(3-5) by (simp add: cut_short_def)
qed

end
