(* ===== verification/OmniscopeApp.thy ===== *)
theory OmniscopeApp
  imports Transports PlaybackEngine
begin

text \<open>
  \<open>src/apps/Omniscope/OmniscopeApp.cpp\<close>: the monitor application.

  \<^item> The vector of \<open>ITransport\<close> pointers is a list of the two transports; a virtual call is a case
    distinction.  All subscriptions have the one callback \<open>onTransportMessage\<close>, the unit token.
  \<^item> A message to a browser is a value of \<open>ws_payload\<close>, the JSON object before it is dumped, and an
    operation returns the list of what it sends to which connection.  A connection is a number.
  \<^item> The file system is a map from names to contents; whether \<open>open\<close> succeeds is an argument, as are
    the time and its ISO text.
  \<^item> The JSON library is the record \<open>crow_json\<close> of the theory \<open>PlaybackEngine\<close> with the dump of a recorded
    message; an exception that it throws is the fault \<open>BadJson\<close>.
  \<^item> The HTTP server is not modelled; the bodies of its routes are.

  The lemmas show that a recording, loaded and played back, publishes the recorded messages, and that
  subscribing reaches exactly the transport that lists the topic.
\<close>

section \<open>Transports\<close>

datatype transport = Dds "unit TransportDds" | Zyre "unit TransportZyre"

fun tr_name :: "transport \<Rightarrow> string" where
  "tr_name (Dds t) = ''DDS''"
| "tr_name (Zyre t) = ''Zyre''"

fun tr_topicNames :: "transport \<Rightarrow> string list" where
  "tr_topicNames (Dds t) = tdds_topicNames t"
| "tr_topicNames (Zyre t) = tzyre_topicNames t"

fun tr_isSubscribed :: "transport \<Rightarrow> string \<Rightarrow> bool" where
  "tr_isSubscribed (Dds t) topic = tdds_isSubscribed t topic"
| "tr_isSubscribed (Zyre t) topic = tzyre_isSubscribed t topic"

fun tr_subscribe :: "transport \<Rightarrow> string \<Rightarrow> transport outcome" where
  "tr_subscribe (Dds t) topic = obind (tdds_subscribe t topic ()) (\<lambda>t. Inr (Dds t))"
| "tr_subscribe (Zyre t) topic = Inr (Zyre (tzyre_subscribe t topic ()))"

fun tr_unsubscribe :: "transport \<Rightarrow> string \<Rightarrow> transport" where
  "tr_unsubscribe (Dds t) topic = Dds (tdds_unsubscribe t topic)"
| "tr_unsubscribe (Zyre t) topic = Zyre (tzyre_unsubscribe t topic)"

section \<open>State\<close>

datatype ws_payload =
    WsMessage string string string              \<comment> \<open>topic, timestamp, data\<close>
  | WsTopics "(string \<times> bool \<times> string) list"    \<comment> \<open>name, subscribed, transport\<close>
  | WsRecordingStarted
  | WsRecordingStopped string
  | WsPlaybackProgress nat nat
  | WsPlaybackStopped
  | WsPlaybackFinished
  | WsPlaybackStarted nat
  | WsRecordingLoaded nat

type_synonym sends = "(nat \<times> ws_payload) list"

record OmniscopeApp =
  app_transports :: "transport list"
  app_wsConnections :: "nat list"
  app_recording :: bool
  app_recFile :: "string option"       \<comment> \<open>the name of the open file\<close>
  app_recFilename :: string
  app_playback :: "PlaybackEngine option"
  app_disk :: "string \<rightharpoonup> string"

definition make_OmniscopeApp :: "(string \<rightharpoonup> string) \<Rightarrow> OmniscopeApp" where
  "make_OmniscopeApp disk =
     \<lparr>app_transports = [], app_wsConnections = [], app_recording = False, app_recFile = None,
      app_recFilename = '''', app_playback = None, app_disk = disk\<rparr>"

definition addTransport :: "OmniscopeApp \<Rightarrow> transport \<Rightarrow> OmniscopeApp" where
  "addTransport app t = app\<lparr>app_transports := app_transports app @ [t]\<rparr>"

text \<open>The part of \<open>run\<close> before the server: the playback engine is created.\<close>

definition run_setup :: "OmniscopeApp \<Rightarrow> OmniscopeApp" where
  "run_setup app = app\<lparr>app_playback := Some make_PlaybackEngine\<rparr>"

fun find_loop :: "string \<Rightarrow> nat \<Rightarrow> transport list \<Rightarrow> nat option" where
  "find_loop topic k [] = None"
| "find_loop topic k (t # ts) =
     (if list_ex (\<lambda>tn. tn = topic) (tr_topicNames t) then Some k else find_loop topic (k + 1) ts)"

definition findTransport :: "OmniscopeApp \<Rightarrow> string \<Rightarrow> nat option" where
  "findTransport app topic = find_loop topic 0 (app_transports app)"

definition broadcastWs :: "OmniscopeApp \<Rightarrow> ws_payload \<Rightarrow> sends" where
  "broadcastWs app payload = map (\<lambda>conn. (conn, payload)) (app_wsConnections app)"

definition topic_list :: "OmniscopeApp \<Rightarrow> (string \<times> bool \<times> string) list" where
  "topic_list app =
     concat (map (\<lambda>t. map (\<lambda>tn. (tn, tr_isSubscribed t tn, tr_name t)) (tr_topicNames t)) (app_transports app))"

definition sendTopicList :: "OmniscopeApp \<Rightarrow> nat \<Rightarrow> sends" where
  "sendTopicList app conn = [(conn, WsTopics (topic_list app))]"

section \<open>Messages and recording\<close>

text \<open>\<open>dump\<close> is the text of the recorded object: topic, timestamp, time, data.\<close>

definition onTransportMessage ::
  "(string \<Rightarrow> string \<Rightarrow> int \<Rightarrow> string \<Rightarrow> string) \<Rightarrow> (int \<Rightarrow> string) \<Rightarrow> int \<Rightarrow> OmniscopeApp \<Rightarrow> string \<Rightarrow> string \<Rightarrow>
   OmniscopeApp \<times> sends" where
  "onTransportMessage dump isoText epochMs app topic jsonData =
    (let timestamp = isoText epochMs;
         payload = WsMessage topic timestamp jsonData;
         app = (if app_recording app then
                  (case app_recFile app of
                     None \<Rightarrow> app
                   | Some f \<Rightarrow>
                       let old = (case app_disk app f of None \<Rightarrow> '''' | Some c \<Rightarrow> c);
                           line = dump topic timestamp epochMs jsonData @ [newline]
                       in app\<lparr>app_disk := (app_disk app)(f \<mapsto> old @ line)\<rparr>)
                else app)
     in (app, broadcastWs app payload))"

fun digits :: "nat \<Rightarrow> string" where
  "digits n = (if n < 10 then [char_of (48 + n)] else digits (n div 10) @ [char_of (48 + n mod 10)])"

declare digits.simps [simp del]

definition to_string :: "int \<Rightarrow> string" where
  "to_string n = (if n < 0 then CHR ''-'' # digits (nat (- n)) else digits (nat n))"

definition startRecording :: "bool \<Rightarrow> int \<Rightarrow> OmniscopeApp \<Rightarrow> OmniscopeApp" where
  "startRecording opens epochSec app =
    (if app_recording app then app
     else
       let app = app\<lparr>app_recFilename := ''omni_'' @ to_string epochSec @ ''.dat''\<rparr>;
           app = (if opens
                  then app\<lparr>app_recFile := Some (app_recFilename app),
                           app_disk := (app_disk app)(app_recFilename app \<mapsto> '''')\<rparr>
                  else app)
       in app\<lparr>app_recording := True\<rparr>)"

definition stopRecording :: "OmniscopeApp \<Rightarrow> string \<times> OmniscopeApp" where
  "stopRecording app =
    (if \<not> app_recording app then ('''', app)
     else
       let app = app\<lparr>app_recording := False, app_recFile := None\<rparr>
       in (app_recFilename app, app))"

section \<open>Commands and routes\<close>

definition with_playback :: "OmniscopeApp \<Rightarrow> (PlaybackEngine \<Rightarrow> 'a) \<Rightarrow> 'a outcome" where
  "with_playback app f = (case app_playback app of None \<Rightarrow> Inl EmptyOptional | Some e \<Rightarrow> Inr (f e))"

text \<open>What the callbacks of the playback send, and the message that an effect publishes.\<close>

definition playback_send :: "OmniscopeApp \<Rightarrow> effect \<Rightarrow> sends" where
  "playback_send app e =
    (case e of
       Progress current tot \<Rightarrow> broadcastWs app (WsPlaybackProgress current tot)
     | Complete wasStopped \<Rightarrow> broadcastWs app (if wasStopped then WsPlaybackStopped else WsPlaybackFinished)
     | _ \<Rightarrow> [])"

text \<open>
  The result: the application, what is sent, and the lines of a playback thread that is started.  The
  arguments \<open>opens\<close> and \<open>now\<close> are the answers of the file system and the clock.
\<close>

definition handleWsMessage ::
  "'j crow_json \<Rightarrow> bool \<Rightarrow> int \<Rightarrow> OmniscopeApp \<Rightarrow> nat \<Rightarrow> string \<Rightarrow> (OmniscopeApp \<times> sends \<times> string list option) outcome" where
  "handleWsMessage js opens now app conn msg =
    (case cj_load js msg of
       None \<Rightarrow> Inr (app, [], None)
     | Some j \<Rightarrow>
         obind (json_member (cj_s js j ''type'')) (\<lambda>type.
         if type = ''subscribe'' then
           obind (json_member (cj_s js j ''topic'')) (\<lambda>topic.
           obind (case findTransport app topic of
                    None \<Rightarrow> Inr app
                  | Some k \<Rightarrow> obind (tr_subscribe (app_transports app ! k) topic) (\<lambda>t.
                      Inr (app\<lparr>app_transports := (app_transports app)[k := t]\<rparr>))) (\<lambda>app.
             Inr (app, sendTopicList app conn, None)))
         else if type = ''unsubscribe'' then
           obind (json_member (cj_s js j ''topic'')) (\<lambda>topic.
             let app = (case findTransport app topic of
                          None \<Rightarrow> app
                        | Some k \<Rightarrow> app\<lparr>app_transports :=
                            (app_transports app)[k := tr_unsubscribe (app_transports app ! k) topic]\<rparr>)
             in Inr (app, sendTopicList app conn, None))
         else if type = ''record_start'' then
           Inr (startRecording opens now app, [(conn, WsRecordingStarted)], None)
         else if type = ''record_stop'' then
           let (filename, app) = stopRecording app
           in Inr (app, [(conn, WsRecordingStopped filename)], None)
         else if type = ''playback_start'' then
           obind (with_playback app engine_start) (\<lambda>(e, es, thread).
             let app = app\<lparr>app_playback := Some e\<rparr>
             in Inr (app, concat (map (playback_send app) es) @
                          broadcastWs app (WsPlaybackStarted (messageCount e)), thread))
         else if type = ''playback_stop'' then
           obind (with_playback app engine_stop) (\<lambda>e. Inr (app\<lparr>app_playback := Some e\<rparr>, [], None))
         else Inr (app, [], None)))"

text \<open>\<open>POST /playback/load\<close>: the status, the number of lines, and what is sent.\<close>

definition playback_load :: "OmniscopeApp \<Rightarrow> string \<Rightarrow> (nat \<times> nat \<times> OmniscopeApp \<times> sends) outcome" where
  "playback_load app body =
    (if body = '''' then Inr (400, 0, app, [])
     else obind (with_playback app (\<lambda>e. loadRecording e body)) (\<lambda>(count, e).
       let app = app\<lparr>app_playback := Some e\<rparr>
       in Inr (200, count, app, broadcastWs app (WsRecordingLoaded count))))"

definition ws_open :: "OmniscopeApp \<Rightarrow> nat \<Rightarrow> OmniscopeApp \<times> sends" where
  "ws_open app conn =
    (let app = app\<lparr>app_wsConnections := List.insert conn (app_wsConnections app)\<rparr>
     in (app, sendTopicList app conn))"

definition ws_close :: "OmniscopeApp \<Rightarrow> nat \<Rightarrow> OmniscopeApp" where
  "ws_close app conn = app\<lparr>app_wsConnections := remove1 conn (app_wsConnections app)\<rparr>"

text \<open>The publish callback of the playback: the transport to which a message is routed.\<close>

definition publish_route :: "OmniscopeApp \<Rightarrow> string \<Rightarrow> transport option" where
  "publish_route app topic = map_option (\<lambda>k. app_transports app ! k) (findTransport app topic)"

section \<open>A recording, played back\<close>

text \<open>The messages that arrive: time, topic, JSON data.\<close>

fun receive_all ::
  "(string \<Rightarrow> string \<Rightarrow> int \<Rightarrow> string \<Rightarrow> string) \<Rightarrow> (int \<Rightarrow> string) \<Rightarrow> (int \<times> string \<times> string) list \<Rightarrow> OmniscopeApp \<Rightarrow> OmniscopeApp" where
  "receive_all dump isoText [] app = app"
| "receive_all dump isoText ((now, topic, data) # ms) app =
     receive_all dump isoText ms (fst (onTransportMessage dump isoText now app topic data))"

lemma receive_all_recorded:
  "app_recording app \<Longrightarrow> app_recFile app = Some f \<Longrightarrow> app_disk app f = Some c \<Longrightarrow>
    receive_all dump isoText ms app = app\<lparr>app_disk := (app_disk app)(f \<mapsto>
      c @ concat (map (\<lambda>l. l @ [newline]) (map (\<lambda>(now, topic, data). dump topic (isoText now) now data) ms)))\<rparr>"
proof (induction ms arbitrary: app c)
  case Nil
  then show ?case by (simp add: fun_upd_idem)
next
  case (Cons m ms)
  obtain now topic data where m: "m = (now, topic, data)" by (cases m)
  show ?case using Cons.prems Cons.IH [of "app\<lparr>app_disk := (app_disk app)(f \<mapsto>
      c @ dump topic (isoText now) now data @ [newline])\<rparr>" "c @ dump topic (isoText now) now data @ [newline]"]
    by (simp add: m onTransportMessage_def Let_def cong: if_cong)
qed

lemma receive_all_idle: "\<not> app_recording app \<Longrightarrow> receive_all dump isoText ms app = app"
  by (induction ms) (auto simp: onTransportMessage_def Let_def)

lemma startRecording_True:
  "\<not> app_recording app \<Longrightarrow> startRecording True sec app =
    app\<lparr>app_recFilename := ''omni_'' @ to_string sec @ ''.dat'', app_recFile := Some (''omni_'' @ to_string sec @ ''.dat''),
      app_disk := (app_disk app)(''omni_'' @ to_string sec @ ''.dat'' \<mapsto> ''''), app_recording := True\<rparr>"
  by (simp add: startRecording_def Let_def)

text \<open>A recorded line is one line, and the JSON library reads back what was dumped.\<close>

definition recordable ::
  "'j crow_json \<Rightarrow> (string \<Rightarrow> string \<Rightarrow> int \<Rightarrow> string \<Rightarrow> string) \<Rightarrow> (int \<Rightarrow> string) \<Rightarrow> (string \<Rightarrow> string) \<Rightarrow> int \<times> string \<times> string \<Rightarrow> bool" where
  "recordable js dump isoText redump m \<longleftrightarrow>
    (case m of (now, topic, data) \<Rightarrow>
      let l = dump topic (isoText now) now data
      in l \<noteq> [] \<and> newline \<notin> set l \<and> says js l (Some (topic, now, redump data)))"

text \<open>
  C6. Recording and playback are inverse.  When recording starts and the file opens, messages arrive,
  and recording stops, the file that \<open>stopRecording\<close> names, loaded into any playback engine, has one
  line per message, and its playback, if not stopped, publishes the messages to their topics with
  their data, in order and once each.
\<close>

theorem recording_roundtrip:
  assumes "\<not> app_recording app" and "list_all (recordable js dump isoText redump) ms" and "ms \<noteq> []"
    and "stopRecording (receive_all dump isoText ms (startRecording True sec app)) = (name, app')"
  shows "\<exists>body e' e'' lines es. app_disk app' name = Some body \<and>
    loadRecording e body = (length ms, e') \<and> engine_start e' = (e'', [], Some lines) \<and>
    playback_thread js (\<lambda>_. False) lines = Inr (es @ [Complete False]) \<and>
    [(t, d). PublishJson t d \<leftarrow> es] = map (\<lambda>(now, topic, data). (topic, redump data)) ms"
proof -
  let ?f = "''omni_'' @ to_string sec @ ''.dat''"
  let ?ls = "map (\<lambda>(now, topic, data). dump topic (isoText now) now data) ms"
  let ?rs = "map (\<lambda>(now, topic, data). Some (topic, now, redump data)) ms"
  let ?body = "concat (map (\<lambda>l. l @ [newline]) ?ls)"
  have "receive_all dump isoText ms (startRecording True sec app) =
      (startRecording True sec app)\<lparr>app_disk := (app_disk (startRecording True sec app))(?f \<mapsto> ?body)\<rparr>"
    using receive_all_recorded [of "startRecording True sec app" ?f "''''" dump isoText ms] assms(1)
    by (simp add: startRecording_True)
  then have body: "app_disk app' name = Some ?body"
    using assms(4) by (auto simp: stopRecording_def Let_def startRecording_True [OF assms(1)])
  have "\<forall>l \<in> set ?ls. l \<noteq> [] \<and> newline \<notin> set l"
    using assms(2) by (auto simp: list_all_iff recordable_def Let_def)
  then have lines: "getline_loop ?body [] = ?ls" using getline_loop_lines [of ?ls "[]"] by simp
  define e' where "e' = (engine_stop e)\<lparr>pe_lines := ?ls\<rparr>"
  have load: "loadRecording e ?body = (length ms, e')" unfolding loadRecording_def Let_def e'_def by (simp add: lines del: map_map)
  obtain e'' where start: "engine_start e' = (e'', [], Some ?ls)"
    using assms(3) by (simp add: engine_start_def Let_def e'_def)
  have says: "list_all2 (says js) ?ls ?rs"
    using assms(2) by (auto simp: list_all2_map1 list_all2_map2 list_all2_same list_all_iff recordable_def Let_def)
  obtain p q es stopped where play: "?rs = p @ q" "plays (\<lambda>_. False) 0 p q"
    "playback_thread js (\<lambda>_. False) ?ls = Inr (es @ [Complete stopped])"
    "[(t, d). PublishJson t d \<leftarrow> es] = [(t, d). Some (t, _, d) \<leftarrow> p]" "stopped = (q \<noteq> [])"
    using playback_prefix [OF says, of "\<lambda>_. False"] assms(3) by auto
  have q: "q = []" using play(2) by (auto simp: plays_def)
  have "\<not> stopped" "p = ?rs" using play(1,5) by (simp_all add: q)
  moreover have "[(t, d). Some (t, _, d) \<leftarrow> ?rs] = map (\<lambda>(now, topic, data). (topic, redump data)) ms"
    by (induction ms) auto
  ultimately show ?thesis using body load start play by fastforce
qed

section \<open>Topic commands\<close>

fun wf_transport :: "transport \<Rightarrow> bool" where
  "wf_transport (Dds t) = wf_tdds t"
| "wf_transport (Zyre t) = wf_tzyre t"

lemma tr_subscribe_law:
  assumes "wf_transport t" "topic \<in> set (tr_topicNames t)"
  shows "\<exists>t'. tr_subscribe t topic = Inr t' \<and> wf_transport t' \<and> tr_topicNames t' = tr_topicNames t \<and>
    tr_name t' = tr_name t \<and> (\<forall>u. tr_isSubscribed t' u \<longleftrightarrow> tr_isSubscribed t u \<or> u = topic)"
proof (cases "tr_isSubscribed t topic")
  case True
  then have "tr_subscribe t topic = Inr t"
    by (cases t) (simp_all add: tdds_subscribe_noop tzyre_subscribe_noop)
  then show ?thesis using True assms by auto
next
  case False
  show ?thesis
  proof (cases t)
    case (Dds d)
    then show ?thesis using False assms tdds_subscribe_new [of d topic "()" "undefined :: (unit, unit, unit) dds_json"]
      by (auto simp: obind_eq_Inr_iff)
  next
    case (Zyre z)
    then show ?thesis using False assms tzyre_subscribe_new [of z topic "()" identity_protobuf] by auto
  qed
qed

lemma tr_unsubscribe_law:
  assumes "wf_transport t"
  shows "wf_transport (tr_unsubscribe t topic) \<and> tr_topicNames (tr_unsubscribe t topic) = tr_topicNames t \<and>
    tr_name (tr_unsubscribe t topic) = tr_name t \<and>
    (\<forall>u. tr_isSubscribed (tr_unsubscribe t topic) u \<longleftrightarrow> tr_isSubscribed t u \<and> u \<noteq> topic)"
proof (cases t)
  case (Dds d)
  then show ?thesis using assms tdds_unsubscribe_law [of d topic "undefined :: (unit, unit, unit) dds_json"] by simp
next
  case (Zyre z)
  then show ?thesis using assms tzyre_unsubscribe_law [of z topic identity_protobuf] by simp
qed

definition entries :: "transport \<Rightarrow> (string \<times> bool \<times> string) list" where
  "entries t = map (\<lambda>tn. (tn, tr_isSubscribed t tn, tr_name t)) (tr_topicNames t)"

lemma topic_list_entries: "topic_list app = concat (map entries (app_transports app))"
  by (simp add: topic_list_def entries_def [abs_def])

lemma find_loop_cases:
  obtains (none) "find_loop topic n ts = None" "\<forall>t \<in> set ts. topic \<notin> set (tr_topicNames t)"
  | (found) xs t ys where "ts = xs @ t # ys" "find_loop topic n ts = Some (n + length xs)"
      "topic \<in> set (tr_topicNames t)" "\<forall>t \<in> set xs. topic \<notin> set (tr_topicNames t)"
proof -
  have "(find_loop topic n ts = None \<and> (\<forall>t \<in> set ts. topic \<notin> set (tr_topicNames t))) \<or>
    (\<exists>xs t ys. ts = xs @ t # ys \<and> find_loop topic n ts = Some (n + length xs) \<and>
      topic \<in> set (tr_topicNames t) \<and> (\<forall>t \<in> set xs. topic \<notin> set (tr_topicNames t)))"
  proof (induction ts arbitrary: n)
    case (Cons t ts)
    show ?case
    proof (cases "topic \<in> set (tr_topicNames t)")
      case True
      then have "find_loop topic n (t # ts) = Some (n + length [])" by (simp add: list_ex_iff)
      then show ?thesis using True by (metis append_Nil empty_iff list.set(1))
    next
      case False
      then have step: "find_loop topic n (t # ts) = find_loop topic (n + 1) ts" by (auto simp: list_ex_iff)
      from Cons.IH [of "n + 1"] show ?thesis
      proof
        assume "\<exists>xs t ys. ts = xs @ t # ys \<and> find_loop topic (n + 1) ts = Some (n + 1 + length xs) \<and>
          topic \<in> set (tr_topicNames t) \<and> (\<forall>t \<in> set xs. topic \<notin> set (tr_topicNames t))"
        then obtain xs t' ys where "ts = xs @ t' # ys" "find_loop topic (n + 1) ts = Some (n + 1 + length xs)"
          "topic \<in> set (tr_topicNames t')" "\<forall>t \<in> set xs. topic \<notin> set (tr_topicNames t)" by blast
        then have "t # ts = (t # xs) @ t' # ys \<and> find_loop topic n (t # ts) = Some (n + length (t # xs)) \<and>
            topic \<in> set (tr_topicNames t') \<and> (\<forall>t \<in> set (t # xs). topic \<notin> set (tr_topicNames t))"
          using False step by auto
        then show ?thesis by blast
      qed (use False step in auto)
    qed
  qed simp
  then show thesis using none found by blast
qed

text \<open>What a command does to the list of topics: the entry of its topic is switched.\<close>

definition switched :: "bool \<Rightarrow> string \<Rightarrow> (string \<times> bool \<times> string) list \<Rightarrow> (string \<times> bool \<times> string) list" where
  "switched on topic = map (\<lambda>(tn, s, tr). (tn, if tn = topic then on else s, tr))"

lemma switched_other: "topic \<notin> fst ` set es \<Longrightarrow> switched on topic es = es"
  by (induction es) (auto simp: switched_def)

lemma fst_entries: "fst ` set (entries t) = set (tr_topicNames t)"
  by (auto simp: entries_def image_image)

lemma entries_switched:
  assumes "tr_topicNames t' = tr_topicNames t" "tr_name t' = tr_name t"
    and "\<forall>u. tr_isSubscribed t' u \<longleftrightarrow> (if u = topic then on else tr_isSubscribed t u)"
  shows "entries t' = switched on topic (entries t)"
  using assms by (auto simp: entries_def switched_def)

lemma update_switched:
  assumes "distinct (map fst (concat (map entries (xs @ t # ys))))" "topic \<in> set (tr_topicNames t)"
    and "entries t' = switched on topic (entries t)"
  shows "concat (map entries (xs @ t' # ys)) = switched on topic (concat (map entries (xs @ t # ys)))"
proof -
  have "topic \<in> set (map fst (entries t))" using assms(2) by (simp add: fst_entries)
  moreover have "distinct (map fst (concat (map entries xs)) @ map fst (entries t) @ map fst (concat (map entries ys)))"
    using assms(1) by (simp only: map_append list.map concat_append concat.simps)
  ultimately have "topic \<notin> set (map fst (concat (map entries xs)))" "topic \<notin> set (map fst (concat (map entries ys)))"
    unfolding distinct_append set_append by blast+
  then have "topic \<notin> fst ` set (concat (map entries xs))" "topic \<notin> fst ` set (concat (map entries ys))"
    by (simp_all only: set_map not_False_eq_True)
  then have "switched on topic (concat (map entries xs)) = concat (map entries xs)"
    "switched on topic (concat (map entries ys)) = concat (map entries ys)" by (simp_all add: switched_other)
  then show ?thesis using assms(3) by (simp add: switched_def)
qed

text \<open>
  C27. A subscribe or unsubscribe command of a browser switches exactly its topic.  When the transports
  are sound and no two list the same topic, the command does not fail, the browser is sent the old
  list of topics with the entry of the named topic switched on or off, and nothing else changes; a
  topic that no transport lists changes nothing.
\<close>

theorem topic_commands:
  assumes "list_all wf_transport (app_transports app)" and "distinct (map fst (topic_list app))"
    and "cj_load js msg = Some j" and "cj_s js j ''topic'' = Some topic"
    and "cj_s js j ''type'' = Some (if on then ''subscribe'' else ''unsubscribe'')"
  shows "\<exists>ts. handleWsMessage js opens now app conn msg =
      Inr (app\<lparr>app_transports := ts\<rparr>, [(conn, WsTopics (switched on topic (topic_list app)))], None) \<and>
    list_all wf_transport ts \<and> topic_list (app\<lparr>app_transports := ts\<rparr>) = switched on topic (topic_list app)"
proof -
  have goal: ?thesis if "handleWsMessage js opens now app conn msg =
      Inr (app\<lparr>app_transports := ts\<rparr>, [(conn, WsTopics (topic_list (app\<lparr>app_transports := ts\<rparr>)))], None)"
    "list_all wf_transport ts" "topic_list (app\<lparr>app_transports := ts\<rparr>) = switched on topic (topic_list app)" for ts
    using that by auto
  note cmd = assms(3-5) json_member_def handleWsMessage_def sendTopicList_def findTransport_def
  show ?thesis
  proof (rule find_loop_cases [of topic 0 "app_transports app"])
    assume none: "find_loop topic 0 (app_transports app) = None"
      "\<forall>t \<in> set (app_transports app). topic \<notin> set (tr_topicNames t)"
    have "topic \<notin> fst ` set (topic_list app)" using none(2) fst_entries by (auto simp: topic_list_entries image_iff)
    then have "switched on topic (topic_list app) = topic_list app" by (rule switched_other)
    then show ?thesis using none(1) assms(1) by (intro goal [of "app_transports app"]) (simp_all add: cmd Let_def)
  next
    fix xs t ys
    assume found: "app_transports app = xs @ t # ys" "find_loop topic 0 (app_transports app) = Some (0 + length xs)"
      "topic \<in> set (tr_topicNames t)"
    have wf: "wf_transport t" using assms(1) by (simp add: found(1))
    obtain t' where t': "on \<longrightarrow> tr_subscribe t topic = Inr t'" "\<not> on \<longrightarrow> tr_unsubscribe t topic = t'"
      "wf_transport t'" "tr_topicNames t' = tr_topicNames t" "tr_name t' = tr_name t"
      "\<forall>u. tr_isSubscribed t' u \<longleftrightarrow> (if u = topic then on else tr_isSubscribed t u)"
      using tr_subscribe_law [OF wf found(3)] tr_unsubscribe_law [OF wf, of topic] by (cases on) auto
    show ?thesis
    proof (rule goal [of "xs @ t' # ys"])
      show "handleWsMessage js opens now app conn msg = Inr (app\<lparr>app_transports := xs @ t' # ys\<rparr>,
          [(conn, WsTopics (topic_list (app\<lparr>app_transports := xs @ t' # ys\<rparr>)))], None)"
        using t'(1,2) found by (cases on) (simp_all add: cmd Let_def)
      show "list_all wf_transport (xs @ t' # ys)" using assms(1) t'(3) by (simp add: found(1))
      show "topic_list (app\<lparr>app_transports := xs @ t' # ys\<rparr>) = switched on topic (topic_list app)"
        using update_switched [OF _ found(3) entries_switched [OF t'(4-6)], of xs ys] assms(2)
        by (simp add: topic_list_entries found(1))
    qed
  qed
qed

text \<open>
  Two recordings that start in the same second have the same file name, and the second truncates the
  first.
\<close>

lemma same_second_truncates:
  assumes "\<not> app_recording app" and "stopRecording (receive_all dump isoText ms (startRecording True sec app)) = (name, app')"
    and "app'' = startRecording True sec app'"
  shows "app_disk app'' name = Some ''''"
proof -
  have "name = ''omni_'' @ to_string sec @ ''.dat''" "\<not> app_recording app'"
    using assms(2) receive_all_recorded [of "startRecording True sec app" _ "''''" dump isoText ms]
    by (auto simp: startRecording_True [OF assms(1)] stopRecording_def Let_def)
  then show ?thesis by (simp add: assms(3) startRecording_True)
qed

section \<open>Instances\<close>

text \<open>The application as \<open>main\<close> sets it up.\<close>

definition main_app :: "OmniscopeApp outcome" where
  "main_app = obind make_TransportDds (\<lambda>d.
     Inr (run_setup (addTransport (addTransport (make_OmniscopeApp Map.empty) (Dds d))
       (Zyre (make_TransportZyre (True, True) (True, True) None ''TestZyre'')))))"

lemma main_app_sound:
  assumes "main_app = Inr app"
  shows "list_all wf_transport (app_transports app)" "distinct (map fst (topic_list app))" "\<not> app_recording app"
proof -
  obtain d where d: "make_TransportDds = Inr d" and app: "app = run_setup (addTransport (addTransport (make_OmniscopeApp Map.empty) (Dds d))
       (Zyre (make_TransportZyre (True, True) (True, True) None ''TestZyre'')))"
    using assms by (auto simp: main_app_def obind_eq_Inr_iff)
  show "list_all wf_transport (app_transports app)"
    using make_TransportDds_wf [OF d] make_TransportZyre_wf
    by (simp add: app run_setup_def addTransport_def make_OmniscopeApp_def)
  show "distinct (map fst (topic_list app))"
    by (simp add: app run_setup_def addTransport_def make_OmniscopeApp_def topic_list_def tdds_topicNames_def
        tzyre_topicNames_def allTopicNames_def TOPIC_REGISTRY_def SENSOR_TOPIC_def TRACK_TOPIC_def)
  show "\<not> app_recording app" by (simp add: app run_setup_def addTransport_def make_OmniscopeApp_def)
qed

theorem topic_commands_witness:
  "\<exists>app app' ts. main_app = Inr app \<and>
    handleWsMessage (example_json\<lparr>cj_s := (\<lambda>j k. Some (if k = ''type'' then ''subscribe'' else ''Command''))\<rparr>)
      True 0 app 3 ''='' = Inr (app', [(3, WsTopics ts)], None) \<and> (''Command'', True, ''Zyre'') \<in> set ts"
proof -
  let ?js = "example_json\<lparr>cj_s := (\<lambda>j k. Some (if k = ''type'' then ''subscribe'' else ''Command''))\<rparr>"
  obtain app where app: "main_app = Inr app"
  proof -
    obtain d :: "unit TransportDds" where d: "make_TransportDds = Inr d"
      using make_TransportDds_ok [where 'a = unit] by (auto simp: safe_iff_ex)
    show thesis by (rule that) (simp only: main_app_def d obind_Inr)
  qed
  have "(''Command'', False, ''Zyre'') \<in> set (topic_list app)"
    using app by (auto simp: main_app_def obind_eq_Inr_iff run_setup_def addTransport_def make_OmniscopeApp_def topic_list_def
        tzyre_topicNames_def allTopicNames_def TOPIC_REGISTRY_def tzyre_isSubscribed_def make_TransportZyre_wf)
  then have "(''Command'', True, ''Zyre'') \<in> set (switched True ''Command'' (topic_list app))"
    by (force simp: switched_def)
  moreover obtain ts where "handleWsMessage ?js True 0 app 3 ''='' =
      Inr (app\<lparr>app_transports := ts\<rparr>, [(3, WsTopics (switched True ''Command'' (topic_list app)))], None)"
    using topic_commands [OF main_app_sound(1,2) [OF app], of ?js "''=''" "''=''" "''Command''" True True 0 3]
    by (auto simp: example_json_def)
  ultimately show ?thesis using app by blast
qed

theorem recording_roundtrip_witness:
  "\<exists>app app' body e' e'' lines es.
    stopRecording (receive_all (\<lambda>topic _ _ data. topic @ ''='' @ data) (\<lambda>_. '''')
      [(1000, ''a'', ''1''), (1000, ''b'', ''2'')] (startRecording True 7 app)) = (''omni_7.dat'', app') \<and>
    app_disk app' ''omni_7.dat'' = Some body \<and>
    loadRecording make_PlaybackEngine body = (2, e') \<and> engine_start e' = (e'', [], Some lines) \<and>
    playback_thread example_json (\<lambda>_. False) lines = Inr (es @ [Complete False]) \<and>
    [(t, d). PublishJson t d \<leftarrow> es] = [(''a'', ''1''), (''b'', ''2'')]"
proof -
  let ?app = "make_OmniscopeApp Map.empty" and ?ms = "[(1000, ''a'', ''1''), (1000, ''b'', ''2'')] :: (int \<times> string \<times> string) list"
  let ?dump = "\<lambda>topic _ _ data. topic @ ''='' @ data"
  have off: "\<not> app_recording ?app" by (simp add: make_OmniscopeApp_def)
  have ok: "list_all (recordable example_json ?dump (\<lambda>_. '''') (\<lambda>d. d)) ?ms"
    by (simp add: recordable_def says_def example_json_def newline_def)
  have "''omni_'' @ to_string 7 @ ''.dat'' = ''omni_7.dat''"
    by (simp add: to_string_def digits.simps char_of_def bit_0)
  then obtain app' where stop: "stopRecording (receive_all ?dump (\<lambda>_. '''') ?ms (startRecording True 7 ?app)) = (''omni_7.dat'', app')"
    using receive_all_recorded [of "startRecording True 7 ?app" "''omni_7.dat''" "''''" ?dump "\<lambda>_. ''''" ?ms] off
    by (simp add: startRecording_True stopRecording_def Let_def)
  show ?thesis using recording_roundtrip [OF off ok _ stop, of make_PlaybackEngine] stop by fastforce
qed

end
