(* ===== verification/GrpcClient.thy ===== *)
theory GrpcClient
  imports GrpcServer "HOL-Library.State_Monad"
begin

text \<open>
  \<open>src/apps/TestApps/GrpcClientTest.cpp\<close>: the client that exercises the three services in rounds,
  until a signal stops it.

  \<^item> What the program uses of the gRPC library, the clock, the random numbers and the signal flag is a
    record of functions on a state of the outside, \<open>network\<close>; the program is a state monad
    over that state and the lines it has logged.
  \<^item> A failed call is a status whose code is not 0.  The counters of readings and of rounds, which
    count what has been logged, are natural numbers.
  \<^item> The two loops without a bound of their own, \<open>waitForReady\<close> and the loop of \<open>main\<close>, have fuel;
    \<open>None\<close> is a loop that has not ended.
  \<^item> The locale \<open>grpc_service\<close> says what a server that works promises; it is interpreted on the server
    of \<open>GrpcServer\<close>, connected by \<open>server_network\<close>.

  The lemmas show what a round reports when the calls succeed, that it leaves no reading behind, and
  that the program ends as soon as the flag is cleared.
\<close>

section \<open>The outside\<close>

record rpc_status =
  error_code :: int
  error_message :: string

definition ok :: "rpc_status \<Rightarrow> bool" where
  "ok status \<longleftrightarrow> error_code status = 0"

datatype channel_state = ChannelIdle | ChannelConnecting | ChannelReady | ChannelTransientFailure | ChannelShutdown

record 'w network =
  net_running :: "'w \<Rightarrow> bool \<times> 'w"
  net_now :: "'w \<Rightarrow> int \<times> 'w"
  net_sleep :: "int \<Rightarrow> 'w \<Rightarrow> unit \<times> 'w"
  net_uniform :: "rat \<Rightarrow> rat \<Rightarrow> 'w \<Rightarrow> fp \<times> 'w"
  net_SubmitReading :: "SensorReading_msg \<Rightarrow> 'w \<Rightarrow> (SubmitReadingResponse \<times> rpc_status) \<times> 'w"
  net_StreamReadings :: "StreamReadingsRequest \<Rightarrow> 'w \<Rightarrow> (SensorReading_msg list \<times> rpc_status) \<times> 'w"
  net_ClearReadings :: "'w \<Rightarrow> rpc_status \<times> 'w"
  net_ExecuteCommand :: "CommandRequest \<Rightarrow> 'w \<Rightarrow> (CommandResponse_msg \<times> rpc_status) \<times> 'w"
  net_FireCommand :: "CommandRequest \<Rightarrow> 'w \<Rightarrow> rpc_status \<times> 'w"
  net_CheckHealth :: "string \<Rightarrow> 'w \<Rightarrow> (HealthCheckResponse \<times> rpc_status) \<times> 'w"
  net_IngestLogs :: "'w \<Rightarrow> unit \<times> 'w"
  net_Write :: "LogEntry \<Rightarrow> 'w \<Rightarrow> bool \<times> 'w"
  net_Finish :: "'w \<Rightarrow> (LogSummary \<times> rpc_status) \<times> 'w"
  net_ResetCounters :: "'w \<Rightarrow> rpc_status \<times> 'w"
  net_GetState :: "'w \<Rightarrow> channel_state \<times> 'w"
  net_WaitForStateChange :: "channel_state \<Rightarrow> int \<Rightarrow> 'w \<Rightarrow> unit \<times> 'w"

text \<open>The lines the program logs, with their arguments.\<close>

datatype client_log =
    Connecting string
  | SubmitAnswered nat bool string
  | SubmitFailed nat int string
  | StreamRequested
  | Streamed string fp string
  | StreamFinished nat
  | StreamFailed int string
  | ClearCalled
  | ClearSucceeded
  | ClearFailed string
  | Executed string bool string
  | ExecuteFailed string
  | FireSent
  | FireFailed string
  | Health HealthStatus string int
  | HealthFailed string
  | IngestStarted
  | WriteFailed
  | IngestSummary int int int
  | IngestFailed string
  | ResetCalled
  | ResetSucceeded
  | ResetFailed string
  | ShutdownEntered
  | WaitingForServer channel_state string
  | RoundStarted nat
  | RoundComplete nat
  | ClientShutDown nat

type_synonym ('w, 'a) client = "('w \<times> client_log list, 'a) state"

definition use :: "('w \<Rightarrow> 'a \<times> 'w) \<Rightarrow> ('w, 'a) client" where
  "use f = State (\<lambda>(w, log). let (a, w') = f w in (a, w', log))"

definition say :: "client_log \<Rightarrow> ('w, unit) client" where
  "say l = State (\<lambda>(w, log). ((), w, log @ [l]))"

section \<open>SensorService\<close>

definition makeReading :: "'w network \<Rightarrow> string \<Rightarrow> string \<Rightarrow> fp \<Rightarrow> string \<Rightarrow> ('w, SensorReading_msg) client" where
  "makeReading net sensorId name val unit_name = do {
     now \<leftarrow> use (net_now net);
     State_Monad.return \<lparr>sr_sensor_id = sensorId, sr_sensor_name = name, sr_value = val, sr_unit = unit_name,
       sr_timestamp_ns = now\<rparr>
   }"

definition NUM_READINGS :: nat where
  "NUM_READINGS = 5"

definition milliseconds :: "int \<Rightarrow> int" where
  "milliseconds n = n * 1000000"

definition submit_one :: "'w network \<Rightarrow> nat \<Rightarrow> ('w, unit) client" where
  "submit_one net i = do {
     reading \<leftarrow>
       (if i mod 2 = 0
        then do {
          v \<leftarrow> use (net_uniform net 18 32);
          makeReading net ''temp-001'' ''Temperature Sensor'' v ''celsius''
        }
        else do {
          v \<leftarrow> use (net_uniform net 980 1040);
          makeReading net ''press-002'' ''Pressure Sensor'' v ''hPa''
        });
     (response, status) \<leftarrow> use (net_SubmitReading net reading);
     (if ok status then say (SubmitAnswered i (srr_accepted response) (srr_detail response))
      else say (SubmitFailed i (error_code status) (error_message status)));
     use (net_sleep net (milliseconds 200))
   }"

function submit_loop :: "'w network \<Rightarrow> nat \<Rightarrow> ('w, unit) client" where
  "submit_loop net i =
    (if i < NUM_READINGS then do {
       running \<leftarrow> use (net_running net);
       if running then do { submit_one net i; submit_loop net (i + 1) } else State_Monad.return ()
     } else State_Monad.return ())"
  by pat_completeness auto

termination
  by (relation "measure (\<lambda>(net, i). NUM_READINGS - i)") auto

declare submit_loop.simps [simp del]

fun log_streamed :: "SensorReading_msg list \<Rightarrow> nat \<Rightarrow> ('w, nat) client" where
  "log_streamed [] count = State_Monad.return count"
| "log_streamed (r # rs) count = do {
     say (Streamed (sr_sensor_id r) (sr_value r) (sr_unit r));
     log_streamed rs (count + 1)
   }"

definition stream_stored :: "'w network \<Rightarrow> ('w, unit) client" where
  "stream_stored net = do {
     say StreamRequested;
     (received, status) \<leftarrow> use (net_StreamReadings net \<lparr>srq_sensor_id_filter = '''', srq_max_count = 10\<rparr>);
     count \<leftarrow> log_streamed received 0;
     if ok status then say (StreamFinished count) else say (StreamFailed (error_code status) (error_message status))
   }"

definition clear_stored :: "'w network \<Rightarrow> ('w, unit) client" where
  "clear_stored net = do {
     say ClearCalled;
     status \<leftarrow> use (net_ClearReadings net);
     if ok status then say ClearSucceeded else say (ClearFailed (error_message status))
   }"

definition testSensorService :: "'w network \<Rightarrow> ('w, unit) client" where
  "testSensorService net = do { submit_loop net 0; stream_stored net; clear_stored net }"

section \<open>CommandService\<close>

definition testCommandService :: "'w network \<Rightarrow> ('w, unit) client" where
  "testCommandService net = do {
     (response, status) \<leftarrow> use (net_ExecuteCommand net
       \<lparr>cr_command_id = ''cmd-1001'', cr_type = COMMAND_START, cr_target_id = ''sensor-cluster-A'',
        cr_payload = ''initial-config''\<rparr>);
     (if ok status then say (Executed (cp_command_id response) (cp_success response) (cp_message response))
      else say (ExecuteFailed (error_message status)));
     status \<leftarrow> use (net_FireCommand net
       \<lparr>cr_command_id = ''cmd-1002'', cr_type = COMMAND_RESET, cr_target_id = ''sensor-cluster-B'', cr_payload = ''''\<rparr>);
     if ok status then say FireSent else say (FireFailed (error_message status))
   }"

section \<open>DiagnosticsService\<close>

definition log_samples :: "(Severity \<times> string \<times> string) list" where
  "log_samples =
    [(SEVERITY_INFO, ''sensor-001'', ''Sensor started''),
     (SEVERITY_WARNING, ''sensor-002'', ''Battery low''),
     (SEVERITY_ERROR, ''sensor-003'', ''Connection lost''),
     (SEVERITY_INFO, ''sensor-001'', ''Reading captured''),
     (SEVERITY_ERROR, ''sensor-004'', ''Checksum mismatch'')]"

fun write_logs :: "'w network \<Rightarrow> (Severity \<times> string \<times> string) list \<Rightarrow> ('w, unit) client" where
  "write_logs net [] = State_Monad.return ()"
| "write_logs net ((severity, source, message) # logs) = do {
     now \<leftarrow> use (net_now net);
     written \<leftarrow> use (net_Write net
       \<lparr>le_source = source, le_severity = severity, le_message = message, le_timestamp_ns = now\<rparr>);
     if written then do { use (net_sleep net (milliseconds 100)); write_logs net logs } else say WriteFailed
   }"

definition ingest_logs :: "'w network \<Rightarrow> ('w, unit) client" where
  "ingest_logs net = do {
     say IngestStarted;
     use (net_IngestLogs net);
     write_logs net log_samples;
     (summary, status) \<leftarrow> use (net_Finish net);
     if ok status then say (IngestSummary (ls_entries_received summary) (ls_errors summary) (ls_warnings summary))
     else say (IngestFailed (error_message status))
   }"

definition testDiagnosticsService :: "'w network \<Rightarrow> ('w, unit) client" where
  "testDiagnosticsService net = do {
     (response, status) \<leftarrow> use (net_CheckHealth net ''SensorService'');
     (if ok status then say (Health (hc_status response) (hc_details response) (hc_uptime_ms response))
      else say (HealthFailed (error_message status)));
     ingest_logs net;
     say ResetCalled;
     status \<leftarrow> use (net_ResetCounters net);
     if ok status then say ResetSucceeded else say (ResetFailed (error_message status))
   }"

section \<open>Waiting and main\<close>

fun waitForReady :: "nat \<Rightarrow> 'w network \<Rightarrow> string \<Rightarrow> ('w, bool option) client" where
  "waitForReady 0 net serverAddr = State_Monad.return None"
| "waitForReady (Suc fuel) net serverAddr = do {
     running \<leftarrow> use (net_running net);
     if running then do {
       state \<leftarrow> use (net_GetState net);
       if state = ChannelReady then State_Monad.return (Some True)
       else if state = ChannelShutdown then do { say ShutdownEntered; State_Monad.return (Some False) }
       else do {
         say (WaitingForServer state serverAddr);
         now \<leftarrow> use (net_now net);
         use (net_WaitForStateChange net state (now + milliseconds 1000));
         waitForReady fuel net serverAddr
       }
     } else State_Monad.return (Some False)
   }"

function pace_loop :: "'w network \<Rightarrow> nat \<Rightarrow> ('w, unit) client" where
  "pace_loop net i =
    (if i < 10 then do {
       running \<leftarrow> use (net_running net);
       if running then do { use (net_sleep net (milliseconds 200)); pace_loop net (i + 1) } else State_Monad.return ()
     } else State_Monad.return ())"
  by pat_completeness auto

termination
  by (relation "measure (\<lambda>(net, i). 10 - i)") auto

declare pace_loop.simps [simp del]

fun client_rounds :: "nat \<Rightarrow> 'w network \<Rightarrow> string \<Rightarrow> nat \<Rightarrow> ('w, nat option) client" where
  "client_rounds 0 net serverAddr round_no = State_Monad.return None"
| "client_rounds (Suc fuel) net serverAddr round_no = do {
     running \<leftarrow> use (net_running net);
     if running then do {
       ready \<leftarrow> waitForReady fuel net serverAddr;
       case ready of
         None \<Rightarrow> State_Monad.return None
       | Some False \<Rightarrow> State_Monad.return (Some round_no)
       | Some True \<Rightarrow> do {
           say (RoundStarted (round_no + 1));
           testSensorService net;
           testCommandService net;
           testDiagnosticsService net;
           say (RoundComplete (round_no + 1));
           pace_loop net 0;
           client_rounds fuel net serverAddr (round_no + 1)
         }
     } else State_Monad.return (Some round_no)
   }"

definition client_main :: "nat \<Rightarrow> 'w network \<Rightarrow> string list \<Rightarrow> ('w, int option) client" where
  "client_main fuel net argv = do {
     let serverAddr = (if length argv > 1 then argv ! 1 else ''localhost:50051'');
     say (Connecting serverAddr);
     rounds \<leftarrow> client_rounds fuel net serverAddr 0;
     case rounds of
       None \<Rightarrow> State_Monad.return None
     | Some n \<Rightarrow> do { say (ClientShutDown n); State_Monad.return (Some 0) }
   }"

section \<open>What a working server promises\<close>

definition rpc_ok :: rpc_status where
  "rpc_ok = \<lparr>error_code = 0, error_message = ''''\<rparr>"

text \<open>A call that the readings of the server and the answers of the flag do not depend on.\<close>

definition unobserved :: "('w \<Rightarrow> 'a) \<Rightarrow> ('w \<Rightarrow> 'b) \<Rightarrow> ('w \<Rightarrow> 'r \<times> 'w) \<Rightarrow> bool" where
  "unobserved stored loads f \<longleftrightarrow> (\<forall>w. stored (snd (f w)) = stored w \<and> loads (snd (f w)) = loads w)"

definition summary_of :: "LogEntry list \<Rightarrow> LogSummary" where
  "summary_of es =
    \<lparr>ls_entries_received = int (length es),
     ls_errors = int (length (filter (\<lambda>e. le_severity e = SEVERITY_ERROR) es)),
     ls_warnings = int (length (filter (\<lambda>e. le_severity e = SEVERITY_WARNING) es))\<rparr>"

text \<open>What a round reports when the calls succeed.\<close>

definition client_reading :: "nat \<Rightarrow> SensorReading_msg \<Rightarrow> bool" where
  "client_reading i r \<longleftrightarrow>
    (if even i then sr_sensor_id r = ''temp-001'' \<and> sr_sensor_name r = ''Temperature Sensor'' \<and> sr_unit r = ''celsius''
     else sr_sensor_id r = ''press-002'' \<and> sr_sensor_name r = ''Pressure Sensor'' \<and> sr_unit r = ''hPa'')"

fun submit_lines :: "nat \<Rightarrow> SensorReading_msg list \<Rightarrow> client_log list" where
  "submit_lines i [] = []"
| "submit_lines i (r # rs) = SubmitAnswered i True (''Stored reading for '' @ sr_sensor_id r) # submit_lines (Suc i) rs"

definition sensor_log :: "SensorReading_msg list \<Rightarrow> SensorReading_msg list \<Rightarrow> client_log list" where
  "sensor_log held sent =
    (let delivered = take 10 (held @ sent)
     in submit_lines 0 sent @ [StreamRequested] @
        map (\<lambda>r. Streamed (sr_sensor_id r) (sr_value r) (sr_unit r)) delivered @
        [StreamFinished (length delivered), ClearCalled, ClearSucceeded])"

definition command_log :: "client_log list" where
  "command_log = [Executed ''cmd-1001'' True ''Executed COMMAND_START on sensor-cluster-A'', FireSent]"

definition diagnostics_log :: "int \<Rightarrow> client_log list" where
  "diagnostics_log uptime =
    [Health Serving ''All systems nominal'' uptime, IngestStarted, IngestSummary 5 2 1, ResetCalled, ResetSucceeded]"

lemma run_use [simp]: "run_state (use f) (w, out) = (fst (f w), snd (f w), out)"
  by (simp add: use_def split_beta)

lemma run_say [simp]: "run_state (say l) (w, out) = ((), w, out @ [l])"
  by (simp add: say_def)

lemma run_log_streamed [simp]:
  "run_state (log_streamed rs n) (w, out) =
    (n + length rs, w, out @ map (\<lambda>r. Streamed (sr_sensor_id r) (sr_value r) (sr_unit r)) rs)"
  by (induction rs n arbitrary: out rule: log_streamed.induct) simp_all

lemma ok_rpc_ok [simp]: "ok rpc_ok"
  by (simp add: ok_def rpc_ok_def)

text \<open>The rounds that a log reports as started and as complete.\<close>

definition started :: "client_log list \<Rightarrow> nat list" where
  "started out = [n. RoundStarted n \<leftarrow> out]"

definition completed :: "client_log list \<Rightarrow> nat list" where
  "completed out = [n. RoundComplete n \<leftarrow> out]"

lemma rounds_append [simp]:
  "started (a @ b) = started a @ started b" "completed (a @ b) = completed a @ completed b"
  by (simp_all add: started_def completed_def)

lemma rounds_Cons [simp]:
  "started [] = []" "completed [] = []"
  "started (l # out) = (case l of RoundStarted n \<Rightarrow> [n] | _ \<Rightarrow> []) @ started out"
  "completed (l # out) = (case l of RoundComplete n \<Rightarrow> [n] | _ \<Rightarrow> []) @ completed out"
  by (simp_all add: started_def completed_def)

lemma no_rounds_in [simp]:
  "started (submit_lines i rs) = []" "completed (submit_lines i rs) = []"
  "started (sensor_log held rs) = []" "completed (sensor_log held rs) = []"
  "started command_log = []" "completed command_log = []"
  "started (diagnostics_log u) = []" "completed (diagnostics_log u) = []"
proof -
  show s: "started (submit_lines i rs) = []" "completed (submit_lines i rs) = []" for i
    by (induction i rs rule: submit_lines.induct) simp_all
  have "started (map (\<lambda>r. Streamed (f r) (g r) (h r)) xs) = []" "completed (map (\<lambda>r. Streamed (f r) (g r) (h r)) xs) = []"
    for f g h and xs :: "SensorReading_msg list" by (induction xs) simp_all
  then show "started (sensor_log held rs) = []" "completed (sensor_log held rs) = []"
    using s [of 0] by (simp_all add: sensor_log_def Let_def)
qed (simp_all add: command_log_def diagnostics_log_def)

text \<open>
  \<open>stored w\<close> are the readings the server holds, \<open>pending w\<close> the entries written to the open log
  stream, and \<open>loads w\<close> is how often the flag will still be found set.
\<close>

locale grpc_service =
  fixes net :: "'w network" and stored :: "'w \<Rightarrow> SensorReading_msg list"
    and pending :: "'w \<Rightarrow> LogEntry list" and loads :: "'w \<Rightarrow> nat"
  assumes running:
      "fst (net_running net w) = (0 < loads w)"
      "loads (snd (net_running net w)) = loads w - 1"
      "stored (snd (net_running net w)) = stored w"
    and quiet:
      "unobserved stored loads (net_now net)"
      "unobserved stored loads (net_sleep net d)"
      "unobserved stored loads (net_uniform net a b)"
      "unobserved stored loads (net_StreamReadings net q)"
      "unobserved stored loads (net_ExecuteCommand net c)"
      "unobserved stored loads (net_FireCommand net c)"
      "unobserved stored loads (net_CheckHealth net s)"
      "unobserved stored loads (net_IngestLogs net)"
      "unobserved stored loads (net_Write net e)"
      "unobserved stored loads (net_Finish net)"
      "unobserved stored loads (net_ResetCounters net)"
      "unobserved stored loads (net_GetState net)"
      "unobserved stored loads (net_WaitForStateChange net st d)"
    and submitted:
      "fst (net_SubmitReading net r w) =
        (\<lparr>srr_accepted = True, srr_detail = ''Stored reading for '' @ sr_sensor_id r\<rparr>, rpc_ok)"
      "stored (snd (net_SubmitReading net r w)) = stored w @ [r]"
      "loads (snd (net_SubmitReading net r w)) = loads w"
    and streamed:
      "fst (net_StreamReadings net \<lparr>srq_sensor_id_filter = '''', srq_max_count = 10\<rparr> w) = (take 10 (stored w), rpc_ok)"
    and cleared:
      "fst (net_ClearReadings net w) = rpc_ok"
      "stored (snd (net_ClearReadings net w)) = []"
      "loads (snd (net_ClearReadings net w)) = loads w"
    and commanded:
      "fst (net_ExecuteCommand net c w) =
        (\<lparr>cp_command_id = cr_command_id c, cp_success = True,
          cp_message = ''Executed '' @ CommandType_Name (cr_type c) @ '' on '' @ cr_target_id c\<rparr>, rpc_ok)"
      "fst (net_FireCommand net c w) = rpc_ok"
    and healthy:
      "\<exists>uptime. fst (net_CheckHealth net s w) =
        (\<lparr>hc_status = Serving, hc_details = ''All systems nominal'', hc_uptime_ms = uptime\<rparr>, rpc_ok)"
    and ingested:
      "pending (snd (net_IngestLogs net w)) = []"
      "pending (snd (net_now net w)) = pending w"
      "pending (snd (net_sleep net d w)) = pending w"
      "fst (net_Write net e w)"
      "pending (snd (net_Write net e w)) = pending w @ [e]"
      "length (pending w) < 2 ^ 31 \<Longrightarrow> fst (net_Finish net w) = (summary_of (pending w), rpc_ok)"
    and counters_reset:
      "fst (net_ResetCounters net w) = rpc_ok"
begin

lemma same [simp]:
  "unobserved stored loads f \<Longrightarrow> stored (snd (f w)) = stored w"
  "unobserved stored loads f \<Longrightarrow> loads (snd (f w)) = loads w"
  by (simp_all add: unobserved_def)

lemmas laws = running quiet submitted streamed cleared commanded ingested counters_reset

lemma submit_one_run:
  "\<exists>r w'. client_reading i r \<and> run_state (submit_one net i) (w, out) = ((), w', out @ submit_lines i [r]) \<and>
     stored w' = stored w @ [r] \<and> loads w' = loads w"
  by (cases "even i") (auto simp: submit_one_def makeReading_def client_reading_def even_iff_mod_2_eq_zero laws)

lemma submit_loop_run:
  "\<exists>sent w'. run_state (submit_loop net i) (w, out) = ((), w', out @ submit_lines i sent) \<and>
     length sent = min (NUM_READINGS - i) (loads w) \<and> (\<forall>j < length sent. client_reading (i + j) (sent ! j)) \<and>
     stored w' = stored w @ sent \<and> loads w' = loads w - (NUM_READINGS - i)"
proof (induction "NUM_READINGS - i" arbitrary: i w out)
  case 0
  then show ?case by (intro exI [of _ "[]"] exI [of _ w]) (simp add: submit_loop.simps [of net i])
next
  case (Suc n)
  then have i: "i < NUM_READINGS" "n = NUM_READINGS - Suc i" by simp_all
  let ?w = "snd (net_running net w)"
  show ?case
  proof (cases "0 < loads w")
    case True
    obtain r w1 where r: "client_reading i r" "run_state (submit_one net i) (?w, out) = ((), w1, out @ submit_lines i [r])"
      "stored w1 = stored w @ [r]" "loads w1 = loads w - 1"
      using submit_one_run [of i ?w out] by (auto simp: laws)
    obtain sent w2 where s: "run_state (submit_loop net (Suc i)) (w1, out @ submit_lines i [r]) =
        ((), w2, (out @ submit_lines i [r]) @ submit_lines (Suc i) sent)"
      "length sent = min (NUM_READINGS - Suc i) (loads w1)" "\<forall>j < length sent. client_reading (Suc i + j) (sent ! j)"
      "stored w2 = stored w1 @ sent" "loads w2 = loads w1 - (NUM_READINGS - Suc i)"
      using Suc.hyps(1) [OF i(2), of w1 "out @ submit_lines i [r]"] by auto
    have "run_state (submit_loop net i) (w, out) = ((), w2, out @ submit_lines i (r # sent))"
      using i True r(2) s(1) by (simp add: submit_loop.simps [of net i] laws)
    moreover have "\<forall>j < length (r # sent). client_reading (i + j) ((r # sent) ! j)"
      using r(1) s(3) by (auto simp: less_Suc_eq_0_disj)
    moreover have "length (r # sent) = min (NUM_READINGS - i) (loads w)"
      using s(2) r(4) i True by (simp add: min_def) linarith
    ultimately show ?thesis using r s i True
      by (intro exI [of _ "r # sent"] exI [of _ w2]) auto
  next
    case False
    then show ?thesis using i
      by (intro exI [of _ "[]"] exI [of _ ?w]) (simp add: submit_loop.simps [of net i] laws)
  qed
qed

lemma sensor_run:
  "\<exists>sent w'. run_state (testSensorService net) (w, out) = ((), w', out @ sensor_log (stored w) sent) \<and>
     length sent = min NUM_READINGS (loads w) \<and> (\<forall>j < length sent. client_reading j (sent ! j)) \<and>
     stored w' = [] \<and> loads w' = loads w - NUM_READINGS"
proof -
  obtain sent w1 where s: "run_state (submit_loop net 0) (w, out) = ((), w1, out @ submit_lines 0 sent)"
    "length sent = min NUM_READINGS (loads w)" "\<forall>j < length sent. client_reading j (sent ! j)"
    "stored w1 = stored w @ sent" "loads w1 = loads w - NUM_READINGS"
    using submit_loop_run [of 0 w out] by auto
  show ?thesis
    using s by (intro exI [of _ sent])
      (simp add: testSensorService_def stream_stored_def clear_stored_def sensor_log_def Let_def laws del: take_append)
qed

lemma command_run:
  "\<exists>w'. run_state (testCommandService net) (w, out) = ((), w', out @ command_log) \<and>
     stored w' = stored w \<and> loads w' = loads w"
  by (simp add: testCommandService_def command_log_def laws)

lemma write_logs_run:
  "\<exists>es w'. run_state (write_logs net logs) (w, out) = ((), w', out) \<and> pending w' = pending w @ es \<and>
     map le_severity es = map fst logs \<and> stored w' = stored w \<and> loads w' = loads w"
proof (induction logs arbitrary: w)
  case (Cons l logs)
  obtain severity source message where l: "l = (severity, source, message)" by (cases l)
  let ?e = "\<lparr>le_source = source, le_severity = severity, le_message = message, le_timestamp_ns = fst (net_now net w)\<rparr>"
  let ?w = "snd (net_sleep net (milliseconds 100) (snd (net_Write net ?e (snd (net_now net w)))))"
  obtain es w' where "run_state (write_logs net logs) (?w, out) = ((), w', out)" "pending w' = pending ?w @ es"
     "map le_severity es = map fst logs" "stored w' = stored ?w" "loads w' = loads ?w"
    using Cons.IH [of ?w] by auto
  then show ?case by (intro exI [of _ "?e # es"] exI [of _ w']) (simp add: l laws)
qed simp

lemma severities_count: "length (filter (\<lambda>e. le_severity e = s) es) = length (filter ((=) s) (map le_severity es))"
  by (simp add: filter_map comp_def eq_commute)

lemma diagnostics_run:
  "\<exists>uptime w'. run_state (testDiagnosticsService net) (w, out) = ((), w', out @ diagnostics_log uptime) \<and>
     stored w' = stored w \<and> loads w' = loads w"
proof -
  obtain uptime where u: "fst (net_CheckHealth net ''SensorService'' w) =
      (\<lparr>hc_status = Serving, hc_details = ''All systems nominal'', hc_uptime_ms = uptime\<rparr>, rpc_ok)"
    using healthy by blast
  let ?w = "snd (net_IngestLogs net (snd (net_CheckHealth net ''SensorService'' w)))"
    and ?out = "out @ [Health Serving ''All systems nominal'' uptime, IngestStarted]"
  obtain es w' where e: "run_state (write_logs net log_samples) (?w, ?out) = ((), w', ?out)" "pending w' = pending ?w @ es"
     "map le_severity es = map fst log_samples" "stored w' = stored ?w" "loads w' = loads ?w"
    using write_logs_run [of log_samples ?w ?out] by auto
  have "length es = 5" using arg_cong [OF e(3), of length] by (simp add: log_samples_def)
  then have "fst (net_Finish net w') =
      (\<lparr>ls_entries_received = 5, ls_errors = 2, ls_warnings = 1\<rparr>, rpc_ok)"
    using ingested(6) [of w'] e(2) by (simp add: laws summary_of_def severities_count e(3) log_samples_def)
  then show ?thesis using e u
    by (intro exI [of _ uptime])
      (simp add: testDiagnosticsService_def ingest_logs_def diagnostics_log_def laws)
qed

lemma pace_run:
  "\<exists>w'. run_state (pace_loop net i) (w, out) = ((), w', out) \<and> stored w' = stored w \<and> loads w' = loads w - (10 - i)"
proof (induction "10 - i" arbitrary: i w)
  case 0
  then show ?case by (simp add: pace_loop.simps [of net i])
next
  case (Suc n)
  then have i: "i < 10" "n = 10 - Suc i" by simp_all
  let ?w = "snd (net_running net w)"
  show ?case
  proof (cases "0 < loads w")
    case True
    then show ?thesis
      using Suc.hyps(1) [OF i(2), of "snd (net_sleep net (milliseconds 200) ?w)"] i(1)
      by (auto simp: pace_loop.simps [of net i] laws)
  next
    case False
    then show ?thesis using i(1) by (simp add: pace_loop.simps [of net i] laws)
  qed
qed

lemma wait_ends:
  "loads w < fuel \<Longrightarrow> \<exists>b w' lines. run_state (waitForReady fuel net addr) (w, out) = (Some b, w', out @ lines) \<and>
     started lines = [] \<and> completed lines = [] \<and> stored w' = stored w \<and> loads w' \<le> loads w"
proof (induction fuel arbitrary: w out)
  case (Suc fuel)
  let ?w = "snd (net_running net w)"
  let ?s = "fst (net_GetState net ?w)" and ?w1 = "snd (net_GetState net ?w)"
  consider "loads w = 0" | "0 < loads w" "?s = ChannelReady" | "0 < loads w" "?s = ChannelShutdown"
    | "0 < loads w" "?s \<noteq> ChannelReady" "?s \<noteq> ChannelShutdown" by blast
  then show ?case
  proof cases
    case 4
    let ?t = "fst (net_now net ?w1) + milliseconds 1000"
    let ?w2 = "snd (net_WaitForStateChange net ?s ?t (snd (net_now net ?w1)))"
    have w2: "loads ?w2 = loads w - 1" "stored ?w2 = stored w" by (simp_all add: laws)
    then have "loads ?w2 < fuel" using Suc.prems 4(1) by linarith
    from Suc.IH [OF this, of "out @ [WaitingForServer ?s addr]"]
    obtain b w' lines where "run_state (waitForReady fuel net addr) (?w2, out @ [WaitingForServer ?s addr]) =
        (Some b, w', (out @ [WaitingForServer ?s addr]) @ lines)"
      "started lines = []" "completed lines = []" "stored w' = stored w" "loads w' \<le> loads w - 1"
      unfolding w2 by blast
    then show ?thesis using 4
      by (intro exI [of _ b] exI [of _ w'] exI [of _ "WaitingForServer ?s addr # lines"])
        (simp add: laws)
  qed (auto simp: laws)
qed simp

text \<open>One round leaves no reading behind, and the flag is read at least once per round.\<close>

lemma round_run:
  "\<exists>sent uptime w'. run_state (do { testSensorService net; testCommandService net; testDiagnosticsService net }) (w, out) =
      ((), w', out @ sensor_log (stored w) sent @ command_log @ diagnostics_log uptime) \<and>
     length sent = min NUM_READINGS (loads w) \<and> (\<forall>j < length sent. client_reading j (sent ! j)) \<and>
     stored w' = [] \<and> loads w' = loads w - NUM_READINGS"
proof -
  obtain sent w1 where s: "run_state (testSensorService net) (w, out) = ((), w1, out @ sensor_log (stored w) sent)"
    "length sent = min NUM_READINGS (loads w)" "\<forall>j < length sent. client_reading j (sent ! j)"
    "stored w1 = []" "loads w1 = loads w - NUM_READINGS" using sensor_run by blast
  obtain w2 where c: "run_state (testCommandService net) (w1, out @ sensor_log (stored w) sent) =
      ((), w2, (out @ sensor_log (stored w) sent) @ command_log)" "stored w2 = stored w1" "loads w2 = loads w1"
    using command_run by blast
  obtain uptime w3 where "run_state (testDiagnosticsService net) (w2, (out @ sensor_log (stored w) sent) @ command_log) =
      ((), w3, ((out @ sensor_log (stored w) sent) @ command_log) @ diagnostics_log uptime)"
    "stored w3 = stored w2" "loads w3 = loads w2"
    using diagnostics_run by blast
  then show ?thesis using s c by (intro exI [of _ sent] exI [of _ uptime] exI [of _ w3]) simp
qed

lemma round_then:
  "run_state (do { testSensorService net; testCommandService net; testDiagnosticsService net }) s = ((), s') \<Longrightarrow>
    run_state (do { testSensorService net; testCommandService net; testDiagnosticsService net; m }) s = run_state m s'"
  by (auto split: prod.splits)

lemma rounds_end:
  "loads w < fuel \<Longrightarrow> stored w = [] \<Longrightarrow>
    \<exists>n w' lines. run_state (client_rounds fuel net addr k) (w, out) = (Some n, w', out @ lines) \<and> k \<le> n \<and>
     started lines = [Suc k..<Suc n] \<and> completed lines = [Suc k..<Suc n] \<and> stored w' = []"
proof (induction fuel arbitrary: w out k)
  case (Suc fuel)
  let ?w = "snd (net_running net w)"
  show ?case
  proof (cases "0 < loads w")
    case True
    then have "loads ?w < fuel" using Suc.prems by (simp add: laws)
    then obtain b w1 l1 where w1: "run_state (waitForReady fuel net addr) (?w, out) = (Some b, w1, out @ l1)"
      "started l1 = []" "completed l1 = []" "stored w1 = []" "loads w1 < fuel"
      using wait_ends [of ?w fuel addr out] Suc.prems(2) by (auto simp: laws)
    show ?thesis
    proof (cases b)
      case True
      let ?o1 = "out @ l1 @ [RoundStarted (k + 1)]"
      obtain sent uptime w2 where w2: "run_state (do { testSensorService net; testCommandService net; testDiagnosticsService net }) (w1, ?o1) =
          ((), w2, ?o1 @ sensor_log [] sent @ command_log @ diagnostics_log uptime)" "stored w2 = []" "loads w2 \<le> loads w1"
        using round_run [of w1 ?o1] w1(4) by auto
      let ?o2 = "?o1 @ sensor_log [] sent @ command_log @ diagnostics_log uptime @ [RoundComplete (k + 1)]"
      obtain w3 where w3: "run_state (pace_loop net 0) (w2, ?o2) = ((), w3, ?o2)" "stored w3 = []" "loads w3 < fuel"
        using pace_run [of 0 w2 ?o2] w2(2,3) w1(5) by auto
      obtain n w' l3 where r: "run_state (client_rounds fuel net addr (k + 1)) (w3, ?o2) = (Some n, w', ?o2 @ l3)" "k + 1 \<le> n"
        "started l3 = [Suc (k + 1)..<Suc n]" "completed l3 = [Suc (k + 1)..<Suc n]" "stored w' = []"
        using Suc.IH [OF w3(3) w3(2), of "k + 1" ?o2] by blast
      let ?l = "l1 @ RoundStarted (k + 1) # sensor_log [] sent @ command_log @ diagnostics_log uptime @ RoundComplete (k + 1) # l3"
      have "run_state (client_rounds (Suc fuel) net addr k) (w, out) = (Some n, w', out @ ?l)"
        using \<open>0 < loads w\<close> True w1(1) w3(1) r(1) round_then [OF w2(1),
            of "do { say (RoundComplete (k + 1)); pace_loop net 0; client_rounds fuel net addr (k + 1) }"]
        by (simp add: laws)
      then show ?thesis using r(2-5) w1(2-3)
        by (intro exI [of _ n] exI [of _ w'] exI [of _ ?l]) (simp add: upt_conv_Cons del: client_rounds.simps)
    next
      case False
      then show ?thesis using w1 \<open>0 < loads w\<close> by (intro exI [of _ k] exI [of _ w1] exI [of _ l1]) (simp add: laws)
    qed
  next
    case False
    then show ?thesis using Suc.prems by (intro exI [of _ k] exI [of _ ?w] exI [of _ "[]"]) (simp add: laws)
  qed
qed simp

lemma main_ends:
  assumes "loads w < fuel" and "stored w = []"
  shows "\<exists>n w' lines. run_state (client_main fuel net argv) (w, []) = (Some 0, w', lines @ [ClientShutDown n]) \<and>
     started lines = [1..<Suc n] \<and> completed lines = [1..<Suc n] \<and> stored w' = []"
proof -
  let ?addr = "if length argv > 1 then argv ! 1 else ''localhost:50051''"
  obtain n w' lines where "run_state (client_rounds fuel net ?addr 0) (w, [Connecting ?addr]) =
      (Some n, w', [Connecting ?addr] @ lines)"
    "started lines = [Suc 0..<Suc n]" "completed lines = [Suc 0..<Suc n]" "stored w' = []"
    using rounds_end [OF assms, of ?addr 0 "[Connecting ?addr]"] by blast
  then show ?thesis
    by (intro exI [of _ n] exI [of _ w'] exI [of _ "Connecting ?addr # lines"])
      (simp add: client_main_def Let_def del: upt_Suc)
qed

end

section \<open>The server of the repository\<close>

text \<open>
  The client connected to the handlers of \<open>GrpcServer\<close> on one machine without failures in between: the
  remaining channel states (afterwards ready), the number of times the flag is still found set, and
  a clock that a sleep advances.
\<close>

record server_world =
  sw_sensor :: SensorServiceImpl
  sw_diagnostics :: DiagnosticsServiceImpl
  sw_pending :: "LogEntry list"
  sw_loads :: nat
  sw_clock :: int
  sw_draws :: nat
  sw_states :: "channel_state list"

fun rpc_of :: "grpc_status \<Rightarrow> rpc_status" where
  "rpc_of StatusOK = rpc_ok"
| "rpc_of (Cancelled message) = \<lparr>error_code = 1, error_message = message\<rparr>"

definition finish_ingest :: "server_world \<Rightarrow> (LogSummary \<times> rpc_status) \<times> server_world" where
  "finish_ingest w =
    (case IngestLogs (sw_pending w) of
       Inl _ \<Rightarrow> ((summary_of [], \<lparr>error_code = 14, error_message = ''Socket closed''\<rparr>), w)
     | Inr (summary, status) \<Rightarrow> ((summary, rpc_of status), w))"

definition server_network :: "(rat \<Rightarrow> rat \<Rightarrow> nat \<Rightarrow> fp) \<Rightarrow> server_world network" where
  "server_network draw = \<lparr>
     net_running = (\<lambda>w. (0 < sw_loads w, w\<lparr>sw_loads := sw_loads w - 1\<rparr>)),
     net_now = (\<lambda>w. (sw_clock w, w)),
     net_sleep = (\<lambda>d w. ((), w\<lparr>sw_clock := sw_clock w + d\<rparr>)),
     net_uniform = (\<lambda>a b w. (draw a b (sw_draws w), w\<lparr>sw_draws := sw_draws w + 1\<rparr>)),
     net_SubmitReading = (\<lambda>r w. let (svc, response, status) = SubmitReading (sw_sensor w) r
       in ((response, rpc_of status), w\<lparr>sw_sensor := svc\<rparr>)),
     net_StreamReadings = (\<lambda>q w. let (written, status) = StreamReadings (sw_sensor w) (\<lambda>_. False) q
       in ((written, rpc_of status), w)),
     net_ClearReadings = (\<lambda>w. let (svc, status) = ClearReadings (sw_sensor w) in (rpc_of status, w\<lparr>sw_sensor := svc\<rparr>)),
     net_ExecuteCommand = (\<lambda>c w. let (response, status) = ExecuteCommand c in ((response, rpc_of status), w)),
     net_FireCommand = (\<lambda>c w. (rpc_of (FireCommand c), w)),
     net_CheckHealth = (\<lambda>s w. let (response, status) = CheckHealth (sw_diagnostics w) (sw_clock w)
       in ((response, rpc_of status), w)),
     net_IngestLogs = (\<lambda>w. ((), w\<lparr>sw_pending := []\<rparr>)),
     net_Write = (\<lambda>e w. (True, w\<lparr>sw_pending := sw_pending w @ [e]\<rparr>)),
     net_Finish = finish_ingest,
     net_ResetCounters = (\<lambda>w. let (svc, status) = ResetCounters (sw_diagnostics w) (sw_clock w)
       in (rpc_of status, w\<lparr>sw_diagnostics := svc\<rparr>)),
     net_GetState = (\<lambda>w. case sw_states w of [] \<Rightarrow> (ChannelReady, w) | s # ss \<Rightarrow> (s, w\<lparr>sw_states := ss\<rparr>)),
     net_WaitForStateChange = (\<lambda>s deadline w. ((), w\<lparr>sw_clock := max (sw_clock w) deadline\<rparr>))\<rparr>"

lemma stream_all: "stream_loop (\<lambda>_. False) '''' n i sent rs = (take (nat (max 1 (n - sent))) rs, StatusOK)"
proof (induction rs arbitrary: i sent)
  case (Cons r rs)
  show ?case
  proof (cases "sent + 1 \<ge> n")
    case False
    then have "nat (max 1 (n - sent)) = Suc (nat (max 1 (n - (sent + 1))))" by simp
    then show ?thesis using Cons.IH [of "i + 1" "sent + 1"] False by (simp add: Let_def)
  qed simp
qed simp

interpretation served: grpc_service "server_network draw" "\<lambda>w. readings (sw_sensor w)" sw_pending sw_loads
proof unfold_locales
  fix q :: StreamReadingsRequest
  show "unobserved (\<lambda>w. readings (sw_sensor w)) sw_loads (net_StreamReadings (server_network draw) q)"
    by (simp add: unobserved_def server_network_def split_beta)
next
  fix w :: server_world
  show "fst (net_StreamReadings (server_network draw) \<lparr>srq_sensor_id_filter = '''', srq_max_count = 10\<rparr> w) =
      (take 10 (readings (sw_sensor w)), rpc_ok)"
    by (simp add: server_network_def StreamReadings_def Let_def stream_all)
next
  fix w :: server_world
  assume "length (sw_pending w) < 2 ^ 31"
  then show "fst (net_Finish (server_network draw) w) = (summary_of (sw_pending w), rpc_ok)"
    by (simp add: server_network_def finish_ingest_def log_summary summary_of_def)
qed (auto simp: server_network_def unobserved_def SubmitReading_def ClearReadings_def ExecuteCommand_def FireCommand_def
    CheckHealth_def ResetCounters_def finish_ingest_def Let_def split: list.splits sum.splits prod.splits)

section \<open>Rounds against the server\<close>

text \<open>
  C13. A round of the client against the modelled server: the readings it submits are answered, the
  stream delivers the first ten of those the server held and those just submitted, the log summary
  counts five entries with two errors and one warning, and no reading is left.  A signal only
  shortens the submissions: their number is how often the flag is still found set, at most five.
\<close>

theorem client_round:
  "\<exists>sent uptime w'.
     run_state (do { testSensorService (server_network draw); testCommandService (server_network draw);
       testDiagnosticsService (server_network draw) }) (w, out) =
       ((), w', out @ sensor_log (readings (sw_sensor w)) sent @ command_log @ diagnostics_log uptime) \<and>
     length sent = min 5 (sw_loads w) \<and> list_all2 client_reading [0..<length sent] sent \<and>
     readings (sw_sensor w') = []"
proof -
  obtain sent uptime w' where "run_state (do { testSensorService (server_network draw); testCommandService (server_network draw);
       testDiagnosticsService (server_network draw) }) (w, out) =
       ((), w', out @ sensor_log (readings (sw_sensor w)) sent @ command_log @ diagnostics_log uptime)"
    "length sent = min NUM_READINGS (sw_loads w)" "\<forall>j < length sent. client_reading j (sent ! j)"
    "readings (sw_sensor w') = []"
    using served.round_run [of draw w out] by blast
  then show ?thesis
    by (intro exI [of _ sent] exI [of _ uptime] exI [of _ w']) (simp add: NUM_READINGS_def list_all2_conv_all_nth)
qed

text \<open>
  C33. Once a signal has cleared the flag, the client ends with exit code 0, whatever state the channel
  is in: with as many iterations as the flag is still found set, and one more, neither of its loops
  runs out.  Every round that was started has been completed, they are numbered from 1 without a
  gap, the last line says how many there were, and the server holds no reading.
\<close>

theorem client_terminates:
  "\<exists>n w' lines.
     run_state (client_main (Suc (sw_loads w)) (server_network draw) argv) (w\<lparr>sw_sensor := make_SensorService\<rparr>, []) =
       (Some 0, w', lines @ [ClientShutDown n]) \<and>
     started lines = [1..<Suc n] \<and> completed lines = [1..<Suc n] \<and> readings (sw_sensor w') = []"
  using served.main_ends [of "w\<lparr>sw_sensor := make_SensorService\<rparr>" "Suc (sw_loads w)" draw argv]
  by (simp add: make_SensorService_def del: upt_Suc)

end
