(* ===== verification/RoundTripTest.thy ===== *)
theory RoundTripTest
  imports FileCodec
begin

text \<open>
  \<open>src/apps/TestApps/Vita49RoundTripTest.cpp\<close>: the program that sends known waveforms and a context
  packet through the codec and measures what comes back.

  \<^item> The platform of \<open>FileCodec\<close> is extended by the logarithm, by \<open>std::stof\<close> (\<open>None\<close> is its exception)
    and by the numbers that a normal distribution draws.
  \<^item> Log output is left out, except for the metrics, which \<open>runRoundTrip\<close> returns with its verdict.
  \<^item> A sample count whose vector cannot be allocated is an uncaught exception.  The chirp of no samples divides by
    a duration of zero; the quotient is not used.

  The lemmas show that the verdict compares every sample with its quantised value, how large the error
  can be at the default scale, and that the context part of the test passes, so that the exit code
  depends on the waveforms alone.
\<close>

section \<open>Waveform generators\<close>

record test_platform = platform +
  log10_64 :: "fp \<Rightarrow> fp"
  stof :: "string \<Rightarrow> fp option"
  normals :: "u32 \<Rightarrow> fp \<Rightarrow> nat \<Rightarrow> fp"

text \<open>\<open>IQSamples samples(count)\<close>, then one assignment per index.\<close>

definition samples_of :: "test_platform \<Rightarrow> u64 \<Rightarrow> (nat \<Rightarrow> IQSample) \<Rightarrow> IQSample list outcome" where
  "samples_of plat count f =
    (if max_samples plat < unat count then Inl BadAlloc else Inr (map f [0..<unat count]))"

definition tone_phase :: "fp \<Rightarrow> fp \<Rightarrow> nat \<Rightarrow> fp" where
  "tone_phase freqHz sampleRateHz i =
    (let t = double_div (double_of_int (int i)) sampleRateHz
     in float_of_double (double_mul (double_mul (double_mul (Finite 2) pi64) freqHz) t))"

definition generateTone :: "test_platform \<Rightarrow> u64 \<Rightarrow> fp \<Rightarrow> fp \<Rightarrow> IQSample list outcome" where
  "generateTone plat count freqHz sampleRateHz =
    samples_of plat count (\<lambda>i.
      let phase = tone_phase freqHz sampleRateHz i in (cosf plat phase, sinf plat phase))"

definition generateChirp :: "test_platform \<Rightarrow> u64 \<Rightarrow> fp \<Rightarrow> fp \<Rightarrow> fp \<Rightarrow> IQSample list outcome" where
  "generateChirp plat count f0 f1 sampleRateHz =
    (let duration = double_div (double_of_int (uint count)) sampleRateHz;
         rate = double_div (double_add f1 (fp_neg f0)) duration
     in samples_of plat count (\<lambda>i.
          let t = double_div (double_of_int (int i)) sampleRateHz;
              phase = float_of_double (double_mul (double_mul (Finite 2) pi64)
                (double_add (double_mul f0 t) (double_mul (double_mul (double_mul (Finite (1 / 2)) rate) t) t)))
          in (cosf plat phase, sinf plat phase)))"

definition generateNoise :: "test_platform \<Rightarrow> u64 \<Rightarrow> fp \<Rightarrow> u32 \<Rightarrow> IQSample list outcome" where
  "generateNoise plat count stddev seed =
    samples_of plat count (\<lambda>i. (normals plat seed stddev (2 * i), normals plat seed stddev (2 * i + 1)))"

definition generateScaledTone :: "test_platform \<Rightarrow> u64 \<Rightarrow> fp \<Rightarrow> fp \<Rightarrow> fp \<Rightarrow> IQSample list outcome" where
  "generateScaledTone plat count freqHz sampleRateHz amp =
    samples_of plat count (\<lambda>i.
      let phase = tone_phase freqHz sampleRateHz i in (float_mul amp (cosf plat phase), float_mul amp (sinf plat phase)))"

section \<open>Error metrics\<close>

record ErrorMetrics =
  maxAbsError :: fp
  rmsError :: fp
  snrDb :: fp
  sampleCount :: nat

text \<open>The loop over the samples that both lists have.\<close>

fun metrics_loop :: "IQSample list \<Rightarrow> IQSample list \<Rightarrow> fp \<times> fp \<times> fp \<Rightarrow> fp \<times> fp \<times> fp" where
  "metrics_loop ((i1, q1) # original) ((i2, q2) # decoded) (maxErr, sumSqError, sumSqSignal) =
    (let errI = float_sub i1 i2;
         errQ = float_sub q1 q2;
         maxErr = fp_max (fp_max maxErr (fp_abs errI)) (fp_abs errQ);
         sumSqError = double_add sumSqError (float_add (float_mul errI errI) (float_mul errQ errQ));
         sumSqSignal = double_add sumSqSignal (float_add (float_mul i1 i1) (float_mul q1 q1))
     in metrics_loop original decoded (maxErr, sumSqError, sumSqSignal))"
| "metrics_loop _ _ acc = acc"

definition computeMetrics :: "test_platform \<Rightarrow> IQSample list \<Rightarrow> IQSample list \<Rightarrow> ErrorMetrics" where
  "computeMetrics plat original decoded =
    (let count = (if length original \<noteq> length decoded then min (length original) (length decoded) else length original);
         (maxErr, sumSqError, sumSqSignal) = metrics_loop original decoded (Finite 0, Finite 0, Finite 0);
         n = double_mul (double_of_int (int count)) (Finite 2)
     in \<lparr>maxAbsError = maxErr,
         rmsError = float_of_double (sqrt64 plat (double_div sumSqError n)),
         snrDb = (if fp_less (Finite 0) sumSqError
                  then float_of_double (double_mul (Finite 10) (log10_64 plat (double_div sumSqSignal sumSqError)))
                  else PlusInf),
         sampleCount = count\<rparr>)"

section \<open>One waveform\<close>

datatype verdict = EncodeEmpty | DecodeEmpty | Measured ErrorMetrics bool

fun passed :: "verdict \<Rightarrow> bool" where
  "passed (Measured m ok) \<longleftrightarrow> ok"
| "passed v \<longleftrightarrow> False"

text \<open>The samples of the signal packets, in order.\<close>

fun reassemble :: "ParsedPacket list \<Rightarrow> IQSample list \<Rightarrow> IQSample list" where
  "reassemble [] decoded = decoded"
| "reassemble (pkt # pkts) decoded =
    (if pp_type pkt = SignalData then reassemble pkts (decoded @ pp_samples pkt) else reassemble pkts decoded)"

definition runRoundTrip :: "test_platform \<Rightarrow> IQSample list \<Rightarrow> Vita49Codec \<Rightarrow> u32 \<Rightarrow> fp \<Rightarrow> verdict outcome" where
  "runRoundTrip plat original codec sid snrThresholdDb =
    obind (encodeSignalData codec sid original 0 TSI_None TSF_None 0 0 False) (\<lambda>encoded.
    if encoded = [] \<and> original \<noteq> [] then Inr EncodeEmpty
    else obind (parseStream codec (if encoded = [] then None else Some encoded) (length encoded)) (\<lambda>packets.
      if packets = [] \<and> original \<noteq> [] then Inr DecodeEmpty
      else let metrics = computeMetrics plat original (reassemble packets [])
           in Inr (Measured metrics (\<not> fp_less (snrDb metrics) snrThresholdDb))))"

section \<open>The context packet\<close>

definition test_context :: ContextFields where
  "test_context = default_ContextFields\<lparr>
     changeIndicator := True, referencePointId := Some 0x00ABCDEF, bandwidth := Some (Finite 20000000),
     ifRefFrequency := Some (Finite 70000000), rfFrequency := Some (Finite 2400000000),
     rfFreqOffset := Some (Finite 100000), ifBandOffset := Some (Finite (- 5000)),
     referenceLevel := Some (Finite (- 61 / 2)), gain := Some (Finite (61 / 4)), overRangeCount := Some 42,
     sampleRate := Some (Finite 1000000)\<rparr>"

text \<open>The literals \<open>1.0e-6\<close> and \<open>0.01\<close> are the nearest numbers of type \<open>double\<close>.\<close>

definition freq_epsilon :: fp where "freq_epsilon = round64 (1 / 1000000)"
definition gain_tolerance :: fp where "gain_tolerance = round64 (1 / 100)"

definition double_sub :: "fp \<Rightarrow> fp \<Rightarrow> fp" where
  "double_sub a b = double_add a (fp_neg b)"

definition checkFreq :: "fp option \<Rightarrow> fp option \<Rightarrow> bool" where
  "checkFreq orig dec =
    (case orig of
       None \<Rightarrow> dec = None
     | Some o1 \<Rightarrow>
         (case dec of
            None \<Rightarrow> False
          | Some d \<Rightarrow>
              let err = fp_abs (double_sub o1 d);
                  tol = double_add (double_div (fp_abs o1) FREQ_RADIX) freq_epsilon
              in \<not> fp_less tol err))"

definition checkGain :: "fp option \<Rightarrow> fp option \<Rightarrow> bool" where
  "checkGain orig dec =
    (case orig of
       None \<Rightarrow> dec = None
     | Some o1 \<Rightarrow> (case dec of None \<Rightarrow> False | Some d \<Rightarrow> \<not> fp_less gain_tolerance (fp_abs (double_sub o1 d))))"

definition context_passes :: "ContextFields \<Rightarrow> ContextFields \<Rightarrow> bool" where
  "context_passes original f \<longleftrightarrow>
    checkFreq (bandwidth original) (bandwidth f) \<and> checkFreq (ifRefFrequency original) (ifRefFrequency f) \<and>
    checkFreq (rfFrequency original) (rfFrequency f) \<and> checkFreq (rfFreqOffset original) (rfFreqOffset f) \<and>
    checkFreq (ifBandOffset original) (ifBandOffset f) \<and> checkFreq (sampleRate original) (sampleRate f) \<and>
    checkGain (referenceLevel original) (referenceLevel f) \<and> checkGain (gain original) (gain f) \<and>
    changeIndicator f = changeIndicator original \<and> referencePointId f = referencePointId original \<and>
    overRangeCount f = overRangeCount original"

definition context_test :: "fp \<Rightarrow> bool outcome" where
  "context_test scale =
    (let codec = make_codec BigEndian scale
     in obind (encodeContext codec STREAM_ID test_context 0 TSI_None TSF_None 0 0) (\<lambda>encoded.
        obind (parseStream codec (Some encoded) (length encoded)) (\<lambda>packets.
          if length packets \<noteq> 1 \<or> pp_type (packets ! 0) \<noteq> Context then Inr False
          else Inr (context_passes test_context (pp_contextFields (packets ! 0))))))"

section \<open>main\<close>

definition test_arguments :: "test_platform \<Rightarrow> string list \<Rightarrow> (u64 \<times> fp) outcome" where
  "test_arguments plat args =
    obind (case args of [] \<Rightarrow> Inr 10000 | a # _ \<Rightarrow> std_atol a) (\<lambda>n.
    obind (case args of _ # a # _ \<Rightarrow> (case stof plat a of None \<Rightarrow> Inl BadNumber | Some v \<Rightarrow> Inr v)
           | _ \<Rightarrow> Inr DEFAULT_SCALE_FACTOR) (\<lambda>scale.
    Inr (word_of_int n, scale)))"

text \<open>The literals \<open>0.9f\<close> and \<open>0.3f\<close> are the nearest numbers of type \<open>float\<close>.\<close>

definition waveform_tests :: "test_platform \<Rightarrow> u64 \<Rightarrow> fp \<Rightarrow> (Vita49Codec \<times> fp \<times> IQSample list outcome) list" where
  "waveform_tests plat n scale =
    (let big = make_codec BigEndian scale;
         little = make_codec LittleEndian scale;
         snr_threshold = Finite 80
     in [(big, snr_threshold, generateScaledTone plat n (Finite 1000) SAMPLE_RATE (round32 (9 / 10))),
         (big, snr_threshold, generateScaledTone plat n (Finite 100000) SAMPLE_RATE (Finite (1 / 2))),
         (big, snr_threshold, generateChirp plat n (Finite 1000) (Finite 100000) SAMPLE_RATE),
         (big, Finite 40, generateNoise plat n (round32 (3 / 10)) 42),
         (big, Finite 70, generateTone plat n (Finite 10000) SAMPLE_RATE),
         (little, snr_threshold, generateScaledTone plat n (Finite 1000) SAMPLE_RATE (round32 (9 / 10))),
         (little, snr_threshold, generateChirp plat n (Finite 1000) (Finite 100000) SAMPLE_RATE)])"

definition run_waveform :: "test_platform \<Rightarrow> Vita49Codec \<times> fp \<times> IQSample list outcome \<Rightarrow> verdict outcome" where
  "run_waveform plat t =
    (case t of (codec, threshold, gen) \<Rightarrow> obind gen (\<lambda>samples. runRoundTrip plat samples codec STREAM_ID threshold))"

fun run_tests :: "test_platform \<Rightarrow> (Vita49Codec \<times> fp \<times> IQSample list outcome) list \<Rightarrow> nat \<Rightarrow> nat outcome" where
  "run_tests plat [] failures = Inr failures"
| "run_tests plat (t # ts) failures =
    obind (run_waveform plat t) (\<lambda>v. run_tests plat ts (if passed v then failures else failures + 1))"

definition round_trip_main :: "test_platform \<Rightarrow> string list \<Rightarrow> int outcome" where
  "round_trip_main plat args =
    obind (test_arguments plat args) (\<lambda>(numSamples, scale).
    obind (run_tests plat (waveform_tests plat numSamples scale) 0) (\<lambda>failures.
    obind (context_test scale) (\<lambda>pass.
      let failures = (if pass then failures else failures + 1)
      in Inr (if failures = 0 then 0 else 1))))"

section \<open>What comes back\<close>

lemma reassemble_eq: "reassemble pkts xs = xs @ signal_samples pkts"
  by (induction pkts arbitrary: xs) (simp_all add: signal_samples_def)

text \<open>What encoding produces, with what it parses to, for any codec.\<close>

lemma encode_frames:
  assumes "scaleFactor codec \<noteq> Finite 0" and "omap (quantise_pair (scaleFactor codec)) samples = Inr ps"
  shows "\<exists>zs. encodeSignalData codec sid samples start tsi tsf it ft tr = Inr (concat (map fst zs)) \<and> concat (map fst zs) \<noteq> [] \<and>
    zs \<noteq> [] \<and> (\<forall>(w, p) \<in> set zs. codec_stream.frames codec w p) \<and>
    signal_samples (map snd zs) = map (dequantise_pair (float_div (Finite 1) (scaleFactor codec))) ps"
proof (cases "samples = []")
  case True
  let ?w = "signal_wire sid [] start (byteOrder codec) tsi tsf it ft tr" and ?p = "parsed_signal codec sid [] start tsi tsf it ft tr"
  have "encode_loop codec sid [] tsi tsf it ft tr [] 0 start = Inr []" by (subst encode_loop.simps) simp
  moreover have f: "codec_stream.frames codec ?w ?p" using signal_frames [of "[]"] assms(1) by simp
  moreover have "4 \<le> length ?w" using f by (simp add: codec_stream.frames_def)
  ultimately show ?thesis using True assms(2) maxSamplesPerPacket_pos [of tsi tsf tr]
    by (intro exI [of _ "[(?w, ?p)]"])
      (auto simp: encodeSignalData_def signal_encode_eq signal_samples_def parsed_signal_def)
next
  case False
  let ?zs = "split_packets codec sid ps start tsi tsf it ft tr"
  have ps: "ps \<noteq> []" using omap_length [OF assms(2)] False by auto
  have frames: "\<forall>(w, p) \<in> set ?zs. codec_stream.frames codec w p" using split_packets_frames [OF assms(1)] by blast
  have "list_all (\<lambda>p. pp_type p = SignalData) (map snd ?zs)"
    by (simp add: parsed_signal_def split_packets_def list_all_iff case_prod_unfold)
  then have s: "signal_samples (map snd ?zs) = map (dequantise_pair (float_div (Finite 1) (scaleFactor codec))) ps"
    by (simp only: signal_samples_signal split_packets_samples)
  then have z: "?zs \<noteq> []" using ps by (auto simp: signal_samples_def)
  then obtain w p r where zs: "?zs = (w, p) # r" by (cases ?zs) auto
  then have "4 \<le> length w" using frames by (simp add: codec_stream.frames_def)
  then have "concat (map fst ?zs) \<noteq> []" by (auto simp: zs)
  then show ?thesis using encodeSignalData_eq [OF False assms(2)] frames s z by blast
qed

lemma runRoundTrip_eq:
  fixes plat :: test_platform
  assumes "scaleFactor codec \<noteq> Finite 0" and "omap (quantise_pair (scaleFactor codec)) samples = Inr ps"
  defines "m \<equiv> computeMetrics plat samples (map (dequantise_pair (float_div (Finite 1) (scaleFactor codec))) ps)"
  shows "runRoundTrip plat samples codec sid threshold = Inr (Measured m (\<not> fp_less (snrDb m) threshold))"
proof -
  obtain zs where zs: "encodeSignalData codec sid samples 0 TSI_None TSF_None 0 0 False = Inr (concat (map fst zs))"
    "concat (map fst zs) \<noteq> []" "zs \<noteq> []" "\<forall>(w, p) \<in> set zs. codec_stream.frames codec w p"
    "signal_samples (map snd zs) = map (dequantise_pair (float_div (Finite 1) (scaleFactor codec))) ps"
    using encode_frames [OF assms(1,2)] by blast
  show ?thesis
    unfolding runRoundTrip_def zs(1) using zs(2,3) parse_frames [OF zs(4)]
    by (simp only: obind_Inr if_False simp_thms map_is_Nil_conv reassemble_eq append_Nil zs(5) Let_def m_def)
qed

section \<open>The context part\<close>

definition test_raw :: RawContext where
  "test_raw = \<lparr>rc_change = True, rc_refPoint = Some 0x00ABCDEF, rc_bandwidth = Some 20971520000000,
     rc_ifRef = Some 73400320000000, rc_rf = Some 2516582400000000, rc_rfOffset = Some 104857600000,
     rc_ifBand = Some (- 5242880000), rc_refLevel = Some 0xF0C00000, rc_gain = Some 0x7A0,
     rc_overRange = Some 42, rc_rate = Some 1048576000000\<rparr>"

lemma test_raw_exact: "raw_exact test_raw"
  by (simp add: raw_exact_def test_raw_def)

lemma from_raw_test: "from_raw test_raw = test_context"
proof -
  have "freqFromFixed 20971520000000 = Finite 20000000" "freqFromFixed 73400320000000 = Finite 70000000"
    "freqFromFixed 2516582400000000 = Finite 2400000000" "freqFromFixed 104857600000 = Finite 100000"
    "freqFromFixed (- 5242880000) = Finite (- 5000)" "freqFromFixed 1048576000000 = Finite 1000000"
    using freqFromFixed_exact [of 20971520000000] freqFromFixed_exact [of 73400320000000]
      freqFromFixed_exact [of 2516582400000000] freqFromFixed_exact [of 104857600000]
      freqFromFixed_exact [of "- 5242880000"] freqFromFixed_exact [of 1048576000000]
    by simp_all
  moreover have "gainFromFixed 0x7A0 = Finite (61 / 4)" "refLevelFromFixed 0xF0C00000 = Finite (- 61 / 2)"
    using fixed_quotient [of 1952 7] fixed_quotient [of "-3904" 7]
    by (simp_all add: gainFromFixed_def refLevelFromFixed_def GAIN_RADIX_def)
  ultimately show ?thesis
    by (simp add: from_raw_def test_raw_def test_context_def default_ContextFields_def)
qed

text \<open>A value that is not below zero.\<close>

definition nonneg :: "fp \<Rightarrow> bool" where
  "nonneg v \<longleftrightarrow> \<not> fp_less v (Finite 0) \<and> v \<noteq> NotANumber"

lemma nonneg_simps [simp]: "nonneg (Finite x) \<longleftrightarrow> 0 \<le> x" "nonneg PlusInf" "\<not> nonneg MinusInf" "\<not> nonneg NotANumber"
  by (simp_all add: nonneg_def not_less)

lemma nonneg_cases: "nonneg v \<longleftrightarrow> v = PlusInf \<or> (\<exists>x. v = Finite x \<and> 0 \<le> x)"
  by (cases v) auto

lemma round_half_even_mono: "of_int k \<le> x \<Longrightarrow> k \<le> round_half_even x"
  by (simp add: round_half_even_def Let_def) linarith

lemma round_half_even_upper: "x \<le> of_int k \<Longrightarrow> round_half_even x \<le> k"
  using round_half_even_error [of x] by (simp add: round_half_even_def Let_def) linarith

lemma round_to_nonneg: "0 \<le> x \<Longrightarrow> 0 \<le> round_to p qmin x"
  using round_half_even_mono [of 0] by (simp add: round_to_def Let_def)

lemma nonneg_round64: "0 \<le> x \<Longrightarrow> nonneg (round64 x)"
  using round_to_nonneg [of x] by (auto simp: round64_def fp_round_def Let_def fp_inf_def)

lemma nonneg_double_add: "nonneg u \<Longrightarrow> nonneg v \<Longrightarrow> nonneg (double_add u v)"
  using nonneg_round64 by (auto simp: nonneg_cases [of u] nonneg_cases [of v] double_add_def)

lemma round64_zero [simp]: "round64 0 = Finite 0"
  by (simp add: round64_def fp_round_def round_to_def)

lemma round32_zero [simp]: "round32 0 = Finite 0"
  by (simp add: round32_def fp_round_def round_to_def)

lemma double_sub_self [simp]: "double_sub (Finite x) (Finite x) = Finite 0"
  by (simp add: double_sub_def double_add_def)

lemma checkFreq_same: "checkFreq (Some (Finite x)) (Some (Finite x))"
proof -
  have "nonneg (double_add (double_div (Finite \<bar>x\<bar>) FREQ_RADIX) freq_epsilon)"
    by (intro nonneg_double_add) (simp_all add: double_div_def radix_powers freq_epsilon_def nonneg_round64)
  then show ?thesis by (simp add: checkFreq_def nonneg_def)
qed

lemma checkGain_same: "checkGain (Some (Finite x)) (Some (Finite x))"
proof -
  have "nonneg gain_tolerance" by (simp add: gain_tolerance_def nonneg_round64)
  then show ?thesis by (simp add: checkGain_def nonneg_def)
qed

lemma context_test_eq: "context_test scale = Inr True"
proof -
  let ?codec = "make_codec BigEndian scale"
  let ?w = "context_wire STREAM_ID test_raw 0 BigEndian TSI_None TSF_None 0 0"
    and ?p = "parsed_context STREAM_ID test_raw 0 TSI_None TSF_None 0 0"
  have o1: "byteOrder ?codec = BigEndian" by (simp add: make_codec_def)
  have "to_raw test_context = Inr test_raw" using to_raw_from_raw [OF test_raw_exact] by (simp only: from_raw_test)
  then have "encodeContext ?codec STREAM_ID test_context 0 TSI_None TSF_None 0 0 = Inr ?w"
    by (simp add: encodeContext_def context_encode_eq o1)
  moreover have "parseStream ?codec (Some ?w) (length ?w) = Inr [?p]"
    using parse_frames [of "[(?w, ?p)]" ?codec] context_frames [of ?codec] o1 by simp
  moreover have "context_passes test_context test_context"
    by (simp add: context_passes_def test_context_def default_ContextFields_def checkFreq_same checkGain_same)
  ultimately show ?thesis
    by (simp add: context_test_def Let_def parsed_context_def from_raw_test)
qed

lemma run_tests_eq:
  "run_tests plat ts k =
    obind (omap (run_waveform plat) ts) (\<lambda>vs. Inr (k + length (filter (\<lambda>v. \<not> passed v) vs)))"
proof (induction ts arbitrary: k)
  case (Cons t ts)
  then show ?case
    by (cases "run_waveform plat t"; cases "omap (run_waveform plat) ts") simp_all
qed simp

text \<open>
  The exit code of the round-trip test is 0 exactly when every waveform passes: the context part
  never fails, at whatever scale factor.
\<close>

theorem main_verdict:
  "round_trip_main plat args =
    obind (test_arguments plat args) (\<lambda>(n, scale).
    obind (omap (run_waveform plat) (waveform_tests plat n scale)) (\<lambda>vs.
    Inr (if list_all passed vs then 0 else 1)))"
proof (cases "test_arguments plat args")
  case (Inr a)
  obtain n scale where a: "a = (n, scale)" by (cases a)
  show ?thesis
    by (cases "omap (run_waveform plat) (waveform_tests plat n scale)")
      (simp_all add: round_trip_main_def Inr a run_tests_eq context_test_eq filter_empty_conv list_all_iff)
qed (simp add: round_trip_main_def)

section \<open>The size of the error\<close>

lemma round_to_power_bound:
  assumes "\<bar>x\<bar> \<le> 2 powi k" and "qmin \<le> k" and "1 \<le> p"
  shows "\<bar>round_to p qmin x\<bar> \<le> 2 powi k"
proof (cases "x = 0")
  case False
  let ?q = "ulp_exponent p qmin x"
  let ?u = "2 powi ?q :: rat"
  have "(2 :: rat) powi (rat_log2 x) < 2 powi (k + 1)"
  proof -
    have "(2 :: rat) powi (rat_log2 x) \<le> 2 powi k" using rat_log2_bounds(1) [OF False] assms(1) by (rule order_trans)
    also have "\<dots> < 2 powi (k + 1)" by (simp add: power_int_add)
    finally show ?thesis .
  qed
  then have "rat_log2 x \<le> k" using powi_less_cancel by fastforce
  then have q: "?q \<le> k" using assms(2,3) by (simp add: ulp_exponent_def)
  define d where "d = nat (k - ?q)"
  have "k = ?q + int d" using q by (simp add: d_def)
  then have k: "2 powi k = ?u * 2 ^ d" by (metis powi_add_nat)
  have "\<bar>x\<bar> \<le> 2 ^ d * ?u" using assms(1) unfolding k by (simp only: mult.commute)
  then have "\<bar>x\<bar> / ?u \<le> 2 ^ d" by (simp only: pos_divide_le_eq zero_less_power_int zero_less_numeral)
  then have "\<bar>x / ?u\<bar> \<le> of_int (2 ^ d)" by simp
  then have "\<bar>round_half_even (x / ?u)\<bar> \<le> 2 ^ d"
    using round_half_even_mono [of "- (2 ^ d)" "x / ?u"] round_half_even_upper [of "x / ?u" "2 ^ d"]
    unfolding abs_le_iff by simp
  then have "\<bar>of_int (round_half_even (x / ?u))\<bar> \<le> (of_int (2 ^ d) :: rat)" by (rule abs_of_int_le)
  then have "\<bar>of_int (round_half_even (x / ?u))\<bar> * ?u \<le> 2 ^ d * ?u" by (intro mult_right_mono) simp_all
  then have "\<bar>of_int (round_half_even (x / ?u)) * ?u\<bar> \<le> 2 powi k" unfolding k by (simp add: abs_mult mult.commute)
  then show ?thesis using False by (simp only: round_to_def Let_def if_False)
qed (simp add: round_to_def)

lemma round32_power_bound:
  assumes "\<bar>x\<bar> \<le> 2 powi k" and "-149 \<le> k" and "k \<le> 0"
  shows "\<exists>y. round32 x = Finite y \<and> \<bar>y\<bar> \<le> 2 powi k"
proof -
  have b: "\<bar>round_to 24 (-149) x\<bar> \<le> 2 powi k" by (rule round_to_power_bound [OF assms(1,2)]) simp
  have "(2 :: rat) powi k \<le> 2 powi 0" using assms(3) by (rule powi_mono)
  with b have "\<bar>round_to 24 (-149) x\<bar> < 2 ^ 128" by simp
  then show ?thesis using b by (simp add: round32_near)
qed

text \<open>A sample component of magnitude at most 1, as the generators give it; below full scale the encoder does not clip.\<close>

definition unit_value :: "fp \<Rightarrow> bool" where
  "unit_value v \<longleftrightarrow> (\<exists>x. v = Finite x \<and> float32 x \<and> \<bar>x\<bar> \<le> 1)"

definition below_full_scale :: "fp \<Rightarrow> bool" where
  "below_full_scale v \<longleftrightarrow> (\<exists>x. v = Finite x \<and> x \<le> 32767 / 32768)"

text \<open>One unit in the last place of the encoding, or half of it.\<close>

definition error_exponent :: "bool \<Rightarrow> int" where
  "error_exponent unclipped = (if unclipped then -16 else -15)"

lemma quantise_accuracy:
  assumes "float32 x" and "\<bar>x\<bar> \<le> 1" and "c \<longrightarrow> x \<le> 32767 / 32768"
  shows "\<exists>v y. quantise DEFAULT_SCALE_FACTOR (Finite x) = Inr v \<and>
    dequantise (float_div (Finite 1) DEFAULT_SCALE_FACTOR) v = Finite y \<and> \<bar>x - y\<bar> \<le> 2 powi (error_exponent c)"
proof (cases "x \<le> 32767 / 32768")
  case True
  obtain v y where v: "quantise DEFAULT_SCALE_FACTOR (Finite x) = Inr v"
    "dequantise (float_div (Finite 1) DEFAULT_SCALE_FACTOR) v = Finite y" "\<bar>y - x\<bar> \<le> 1 / 65536"
    using default_scale_accuracy [OF assms(1) _ True] assms(2) by (auto simp: abs_le_iff)
  have "(1 / 65536 :: rat) \<le> 2 powi (error_exponent c)" by (simp add: error_exponent_def power_int_minus)
  then show ?thesis using v by (simp add: abs_minus_commute)
next
  case False
  let ?r = "round_half_away (x * 32768)"
  have "x * 32768 \<le> 32768" using assms(2) by (simp add: abs_le_iff)
  moreover have "\<bar>of_int ?r - x * 32768\<bar> \<le> 1 / 2" by (rule round_half_away_error)
  ultimately have "of_int ?r \<ge> (32766 + 1 / 2 :: rat)" using False unfolding abs_le_iff by linarith
  then have "clamp ?r (-32768) 32767 = 32767" by (simp add: clamp_def)
  then have "quantise DEFAULT_SCALE_FACTOR (Finite x) = Inr 32767"
    using quantise_default(1) [OF assms(1,2)] by simp
  moreover have "\<not> c" "\<bar>x - 32767 / 32768\<bar> \<le> 1 / 32768" using False assms(2,3) by (auto simp: abs_le_iff)
  ultimately show ?thesis
    by (intro exI [of _ 32767] exI [of _ "32767 / 32768"]) (simp add: dequantise_default error_exponent_def power_int_minus)
qed

text \<open>Two samples whose components differ by at most \<open>2 powi k\<close>.\<close>

definition close_pair :: "int \<Rightarrow> IQSample \<Rightarrow> IQSample \<Rightarrow> bool" where
  "close_pair k s d \<longleftrightarrow>
    (\<exists>x y. fst s = Finite x \<and> fst d = Finite y \<and> \<bar>x - y\<bar> \<le> 2 powi k) \<and>
    (\<exists>x y. snd s = Finite x \<and> snd d = Finite y \<and> \<bar>x - y\<bar> \<le> 2 powi k)"

lemma metrics_fields [simp]:
  "maxAbsError (computeMetrics plat xs ys) = fst (metrics_loop xs ys (Finite 0, Finite 0, Finite 0))"
  "sampleCount (computeMetrics plat xs ys) = min (length xs) (length ys)"
  by (simp_all add: computeMetrics_def split_beta Let_def)

lemma metrics_loop_max:
  assumes "list_all2 (close_pair k) xs ys"
    and "-149 \<le> k" "k \<le> 0" and "0 \<le> e" "e \<le> 2 powi k"
  shows "\<exists>e'. fst (metrics_loop xs ys (Finite e, s, t)) = Finite e' \<and> 0 \<le> e' \<and> e' \<le> 2 powi k"
  using assms(1,4,5)
proof (induction xs ys arbitrary: e s t rule: list_all2_induct)
  case (Cons a xs b ys)
  obtain x y u v where a: "a = (Finite x, Finite u)" "b = (Finite y, Finite v)"
    "\<bar>x - y\<bar> \<le> 2 powi k" "\<bar>u - v\<bar> \<le> 2 powi k" using Cons.hyps(1) by (cases a; cases b) (auto simp: close_pair_def)
  obtain d1 where d1: "float_sub (Finite x) (Finite y) = Finite d1" "\<bar>d1\<bar> \<le> 2 powi k"
    using round32_power_bound [OF a(3) assms(2,3)] by (auto simp: float_sub_def float_add_def)
  obtain d2 where d2: "float_sub (Finite u) (Finite v) = Finite d2" "\<bar>d2\<bar> \<le> 2 powi k"
    using round32_power_bound [OF a(4) assms(2,3)] by (auto simp: float_sub_def float_add_def)
  have m: "fp_max (fp_max (Finite e) (Finite \<bar>d1\<bar>)) (Finite \<bar>d2\<bar>) = Finite (max (max e \<bar>d1\<bar>) \<bar>d2\<bar>)"
    by (auto simp: fp_max_def max_def)
  have "0 \<le> max (max e \<bar>d1\<bar>) \<bar>d2\<bar>" "max (max e \<bar>d1\<bar>) \<bar>d2\<bar> \<le> 2 powi k" using Cons.prems d1(2) d2(2) by simp_all
  from Cons.IH [OF this] show ?case by (simp add: a(1,2) d1(1) d2(1) Let_def m)
qed simp

lemma quantise_samples:
  assumes "list_all (\<lambda>(i, q). unit_value i \<and> unit_value q) samples"
    and "c \<longrightarrow> list_all (\<lambda>(i, q). below_full_scale i \<and> below_full_scale q) samples"
  shows "\<exists>ps. omap (quantise_pair DEFAULT_SCALE_FACTOR) samples = Inr ps \<and>
    list_all2 (close_pair (error_exponent c)) samples (map (dequantise_pair inverse_scale) ps)"
  using assms
proof (induction samples)
  case (Cons s samples)
  obtain ps where ps: "omap (quantise_pair DEFAULT_SCALE_FACTOR) samples = Inr ps"
    "list_all2 (close_pair (error_exponent c)) samples (map (dequantise_pair inverse_scale) ps)"
    using Cons.IH Cons.prems by auto
  obtain x u where s: "s = (Finite x, Finite u)" "float32 x" "\<bar>x\<bar> \<le> 1" "float32 u" "\<bar>u\<bar> \<le> 1"
    "c \<longrightarrow> x \<le> 32767 / 32768" "c \<longrightarrow> u \<le> 32767 / 32768"
    using Cons.prems by (cases s) (auto simp: unit_value_def below_full_scale_def)
  obtain v y where v: "quantise DEFAULT_SCALE_FACTOR (Finite x) = Inr v"
    "dequantise inverse_scale v = Finite y" "\<bar>x - y\<bar> \<le> 2 powi (error_exponent c)"
    using quantise_accuracy [OF s(2,3,6)] by (auto simp: inverse_scale_def)
  obtain v' y' where v': "quantise DEFAULT_SCALE_FACTOR (Finite u) = Inr v'"
    "dequantise inverse_scale v' = Finite y'" "\<bar>u - y'\<bar> \<le> 2 powi (error_exponent c)"
    using quantise_accuracy [OF s(4,5,7)] by (auto simp: inverse_scale_def)
  have "quantise_pair DEFAULT_SCALE_FACTOR s = Inr (v, v')" using v(1) v'(1) by (simp add: s(1) quantise_pair_def)
  moreover have "close_pair (error_exponent c) s (dequantise_pair inverse_scale (v, v'))"
    using v(2,3) v'(2,3) by (simp add: s(1) dequantise_pair_def close_pair_def)
  ultimately show ?case using ps by (intro exI [of _ "(v, v') # ps"]) simp
qed simp

text \<open>
  The verdict on a waveform.  No sample is lost on the way: for any codec whose scale factor is not
  zero and samples it can quantise, any number of them, the test measures every sample against its
  quantised value, and passes unless the signal-to-noise ratio is below the threshold.
\<close>

theorem runRoundTrip_verdict:
  fixes plat :: test_platform
  assumes "scaleFactor codec \<noteq> Finite 0" and "omap (quantise_pair (scaleFactor codec)) samples = Inr ps"
  shows "\<exists>m. runRoundTrip plat samples codec sid threshold = Inr (Measured m (\<not> fp_less (snrDb m) threshold)) \<and>
    m = computeMetrics plat samples (map (dequantise_pair (float_div (Finite 1) (scaleFactor codec))) ps) \<and>
    sampleCount m = length samples"
proof -
  let ?m = "computeMetrics plat samples (map (dequantise_pair (float_div (Finite 1) (scaleFactor codec))) ps)"
  have "sampleCount ?m = length samples"
    using omap_length [OF assms(2)] by simp
  then show ?thesis using runRoundTrip_eq [OF assms] by blast
qed

text \<open>
  C32. At the default scale factor, samples whose components are numbers of type \<open>float\<close> between -1 and 1
  are measured with a largest absolute error of at most 1/32768, and of at most 1/65536 when no
  component exceeds 32767/32768, the largest the encoder does not clip.
\<close>

theorem measured_error_bound:
  fixes plat :: test_platform
  assumes "list_all (\<lambda>(i, q). unit_value i \<and> unit_value q) samples"
  shows "\<exists>m e ok. runRoundTrip plat samples (make_codec order DEFAULT_SCALE_FACTOR) sid threshold = Inr (Measured m ok) \<and>
    maxAbsError m = Finite e \<and> 0 \<le> e \<and>
    e \<le> (if list_all (\<lambda>(i, q). below_full_scale i \<and> below_full_scale q) samples then 1 / 65536 else 1 / 32768)"
proof -
  let ?c = "list_all (\<lambda>(i, q). below_full_scale i \<and> below_full_scale q) samples"
  let ?k = "error_exponent ?c"
  have sf: "scaleFactor (make_codec order DEFAULT_SCALE_FACTOR) = DEFAULT_SCALE_FACTOR" by (simp add: make_codec_def)
  obtain ps where ps: "omap (quantise_pair DEFAULT_SCALE_FACTOR) samples = Inr ps"
    "list_all2 (close_pair ?k) samples (map (dequantise_pair inverse_scale) ps)"
    using quantise_samples [OF assms, of ?c] by auto
  let ?m = "computeMetrics plat samples (map (dequantise_pair inverse_scale) ps)"
  have r: "runRoundTrip plat samples (make_codec order DEFAULT_SCALE_FACTOR) sid threshold =
      Inr (Measured ?m (\<not> fp_less (snrDb ?m) threshold))"
    using runRoundTrip_eq [of "make_codec order DEFAULT_SCALE_FACTOR" samples ps] ps(1) default_scale_nonzero
    by (simp add: sf inverse_scale_def)
  have "-149 \<le> ?k" "?k \<le> 0" by (simp_all add: error_exponent_def)
  with metrics_loop_max [OF ps(2), of 0 "Finite 0" "Finite 0"]
  obtain e where e: "maxAbsError ?m = Finite e" "0 \<le> e" "e \<le> 2 powi ?k" by auto
  have "(2 powi ?k :: rat) = (if ?c then 1 / 65536 else 1 / 32768)"
    by (simp add: error_exponent_def power_int_minus)
  with r e show ?thesis by (intro exI [of _ ?m] exI [of _ e]) simp
qed

text \<open>Without samples nothing is measured, and the test reports success; any argument that is no number means none.\<close>

lemma nothing_measured_passes:
  assumes "std_atol a = Inr 0"
  shows "round_trip_main plat [a] = Inr 0"
proof -
  have "samples_of plat 0 f = Inr []" for f by (simp add: samples_of_def)
  then have g: "gen = Inr []" if "(codec, threshold, gen) \<in> set (waveform_tests plat 0 DEFAULT_SCALE_FACTOR)" for codec threshold gen
    using that by (auto simp: waveform_tests_def Let_def generateTone_def generateChirp_def generateNoise_def generateScaledTone_def)
  have sf: "scaleFactor codec = DEFAULT_SCALE_FACTOR"
    if "(codec, threshold, gen) \<in> set (waveform_tests plat 0 DEFAULT_SCALE_FACTOR)" for codec threshold gen
    using that by (auto simp: waveform_tests_def Let_def make_codec_def)
  let ?m = "computeMetrics plat [] []"
  have "run_waveform plat t = Inr (Measured ?m True)" if t: "t \<in> set (waveform_tests plat 0 DEFAULT_SCALE_FACTOR)" for t
  proof -
    obtain codec threshold gen where c: "t = (codec, threshold, gen)" by (cases t)
    have "snrDb ?m = PlusInf" by (simp add: computeMetrics_def)
    then show ?thesis
      using runRoundTrip_eq [of codec "[]" "[]" plat STREAM_ID threshold] g [OF t [unfolded c]] sf [OF t [unfolded c]] default_scale_nonzero
      by (simp add: run_waveform_def c)
  qed
  then have "omap (run_waveform plat) (waveform_tests plat 0 DEFAULT_SCALE_FACTOR) =
      Inr (map (\<lambda>_. Measured ?m True) (waveform_tests plat 0 DEFAULT_SCALE_FACTOR))" by (rule omap_total)
  then show ?thesis using assms
    by (simp add: round_trip_main_def test_arguments_def run_tests_eq context_test_eq filter_empty_conv)
qed

section \<open>Instances\<close>

lemma example_float32: "float32 (1 / 2)" "float32 (- 1 / 4)"
  using round32_exact [of 1 "-1"] round32_exact [of "-1" "-2"] by (simp_all add: float32_def power_int_minus)

definition example_platform :: test_platform where
  "example_platform = \<lparr>cosf = (\<lambda>_. Finite 1), sinf = (\<lambda>_. Finite 0), sqrt64 = (\<lambda>x. x), atof = (\<lambda>_. Finite 0),
     max_samples = 100, log10_64 = (\<lambda>x. x), stof = (\<lambda>_. None), normals = (\<lambda>_ _ _. Finite 0)\<rparr>"

theorem runRoundTrip_verdict_witness:
  "\<exists>m. runRoundTrip example_platform [(Finite (1 / 2), Finite (- 1 / 4))] file_codec 7 (Finite 80) =
      Inr (Measured m (\<not> fp_less (snrDb m) (Finite 80))) \<and> sampleCount m = 1"
proof -
  have "omap (quantise_pair (scaleFactor file_codec)) [(Finite (1 / 2), Finite (- 1 / 4))] = Inr [(0x4000, 0xE000)]"
    using example_pair by simp
  from runRoundTrip_verdict [OF _ this, of example_platform 7 "Finite 80"] show ?thesis
    using default_scale_nonzero by auto
qed

theorem measured_error_bound_witness:
  "\<exists>m e ok. runRoundTrip example_platform [(Finite (1 / 2), Finite (- 1 / 4))] (make_codec LittleEndian DEFAULT_SCALE_FACTOR) 7 (Finite 80) =
      Inr (Measured m ok) \<and> maxAbsError m = Finite e \<and> 0 \<le> e \<and> e \<le> 1 / 65536"
proof -
  let ?samples = "[(Finite (1 / 2), Finite (- 1 / 4))]"
  have "unit_value (Finite (1 / 2))" "unit_value (Finite (- 1 / 4))"
    unfolding unit_value_def by (intro exI conjI, rule refl, rule example_float32, simp)+
  moreover have "below_full_scale (Finite (1 / 2))" "below_full_scale (Finite (- 1 / 4))"
    unfolding below_full_scale_def by (intro exI conjI, rule refl, simp)+
  ultimately have "list_all (\<lambda>(i, q). unit_value i \<and> unit_value q) ?samples"
    "list_all (\<lambda>(i, q). below_full_scale i \<and> below_full_scale q) ?samples" by (simp_all only: list.pred_inject prod.case simp_thms)
  then show ?thesis using measured_error_bound [of ?samples example_platform LittleEndian 7 "Finite 80"] by simp
qed

end
