(* ===== verification/PerfBenchmark.thy ===== *)
theory PerfBenchmark
  imports RoundTripTest
begin

text \<open>
  \<open>src/apps/Tools/Vita49PerfBenchmark.cpp\<close>: the program that measures how fast the codec encodes and decodes.

  \<^item> The readings of the steady clock (nanoseconds), the random numbers and what can be allocated are the
    record \<open>bench_platform\<close>; the clock is a function of the number of the reading.
  \<^item> Counters of type \<open>size_t\<close> are 64-bit words.  The result of a table is the list of its rows, each with
    the values it prints.

  The lemmas show what the counters say whatever the times are: the benchmark does send all samples
  through the codec, and the column of packets has the numbers that the packet size demands.
\<close>

section \<open>Helpers\<close>

record bench_platform =
  steady_clock :: "nat \<Rightarrow> int"
  uniform_float :: "u32 \<Rightarrow> fp \<Rightarrow> fp \<Rightarrow> nat \<Rightarrow> fp"
  max_signal :: nat
  max_buffers :: nat

text \<open>The literal \<open>0.8f\<close> is \<open>amplitude\<close>.\<close>

definition generateTestSignal :: "bench_platform \<Rightarrow> nat \<Rightarrow> u32 \<Rightarrow> IQSample list outcome" where
  "generateTestSignal plat count seed =
    (if max_signal plat < count then Inl BadAlloc
     else let dist = uniform_float plat seed (fp_neg amplitude) amplitude
          in Inr (map (\<lambda>i. (dist (2 * i), dist (2 * i + 1))) [0..<count]))"

record BenchResult =
  encodeMs :: fp
  decodeMs :: fp
  totalSamples :: u64
  totalBytes :: u64
  totalPackets :: u64
  iterations :: int

record table_row =
  row_samples :: nat
  row_encMs :: fp
  row_encMSa :: fp
  row_encMB :: fp
  row_decMs :: fp
  row_decMSa :: fp
  row_decMB :: fp
  row_packets :: u64

definition logResult :: "nat \<Rightarrow> BenchResult \<Rightarrow> table_row" where
  "logResult count r =
    (let iters = double_of_int (iterations r);
         avgEncMs = double_div (encodeMs r) iters;
         avgDecMs = double_div (decodeMs r) iters;
         samples = double_div (double_of_int (uint (totalSamples r))) iters;
         bytes = double_div (double_of_int (uint (totalBytes r))) iters
     in \<lparr>row_samples = count, row_encMs = avgEncMs,
         row_encMSa = double_div samples (double_mul avgEncMs (Finite 1000)),
         row_encMB = double_div bytes (double_mul avgEncMs (Finite 1000)),
         row_decMs = avgDecMs,
         row_decMSa = double_div samples (double_mul avgDecMs (Finite 1000)),
         row_decMB = double_div bytes (double_mul avgDecMs (Finite 1000)),
         row_packets = totalPackets r div word_of_int (iterations r)\<rparr>)"

text \<open>The difference of two clock readings in milliseconds.\<close>

definition elapsed_ms :: "int \<Rightarrow> int \<Rightarrow> fp" where
  "elapsed_ms t0 t1 = double_div (double_of_int (t1 - t0)) (Finite 1000000)"

section \<open>The measurements\<close>

text \<open>Encoding and decoding \<open>n\<close> times; the number of packets is added up.\<close>

fun encode_times :: "bytes outcome \<Rightarrow> nat \<Rightarrow> bytes list \<Rightarrow> bytes list outcome" where
  "encode_times enc 0 encodedBuffers = Inr encodedBuffers"
| "encode_times enc (Suc n) encodedBuffers = obind enc (\<lambda>buf. encode_times enc n (encodedBuffers @ [buf]))"

definition add_sizes :: "bytes list \<Rightarrow> u64 \<Rightarrow> u64" where
  "add_sizes bufs acc = foldl (\<lambda>t buf. t + of_nat (length buf)) acc bufs"

fun decode_all :: "Vita49Codec \<Rightarrow> bytes list \<Rightarrow> u64 \<Rightarrow> u64 outcome" where
  "decode_all codec [] acc = Inr acc"
| "decode_all codec (buf # bufs) acc =
    obind (parseStream codec (Some buf) (length buf)) (\<lambda>packets. decode_all codec bufs (acc + of_nat (length packets)))"

text \<open>The body that both benchmarks share: \<open>k\<close> is the number of the first clock reading.\<close>

definition measure_codec :: "bench_platform \<Rightarrow> nat \<Rightarrow> Vita49Codec \<Rightarrow> bytes outcome \<Rightarrow> u64 \<Rightarrow> int \<Rightarrow> BenchResult outcome" where
  "measure_codec plat k codec enc samples iters =
    (if max_buffers plat < nat iters then Inl BadAlloc
     else obind (encode_times enc (nat iters) []) (\<lambda>encodedBuffers.
       let bytes = add_sizes encodedBuffers 0
       in obind (decode_all codec encodedBuffers 0) (\<lambda>packets.
         Inr \<lparr>encodeMs = elapsed_ms (steady_clock plat k) (steady_clock plat (k + 1)),
              decodeMs = elapsed_ms (steady_clock plat (k + 2)) (steady_clock plat (k + 3)),
              totalSamples = samples, totalBytes = bytes, totalPackets = packets, iterations = iters\<rparr>)))"

definition runBenchmark :: "bench_platform \<Rightarrow> nat \<Rightarrow> Vita49Codec \<Rightarrow> IQSample list \<Rightarrow> u32 \<Rightarrow> int \<Rightarrow> BenchResult outcome" where
  "runBenchmark plat k codec samples sid iters =
    measure_codec plat k codec (encodeSignalData codec sid samples 0 TSI_None TSF_None 0 0 False)
      (of_nat (length samples) * word_of_int iters) iters"

definition bench_context :: ContextFields where
  "bench_context = default_ContextFields\<lparr>
     changeIndicator := True, referencePointId := Some 0x00ABCDEF, bandwidth := Some (Finite 20000000),
     ifRefFrequency := Some (Finite 70000000), rfFrequency := Some (Finite 2400000000),
     rfFreqOffset := Some (Finite 100000), ifBandOffset := Some (Finite (- 5000)),
     referenceLevel := Some (Finite (- 61 / 2)), gain := Some (Finite (61 / 4)), overRangeCount := Some 42,
     sampleRate := Some (Finite 1000000)\<rparr>"

definition runContextBenchmark :: "bench_platform \<Rightarrow> nat \<Rightarrow> Vita49Codec \<Rightarrow> u32 \<Rightarrow> int \<Rightarrow> BenchResult outcome" where
  "runContextBenchmark plat k codec sid iters =
    measure_codec plat k codec (encodeContext codec sid bench_context 0 TSI_None TSF_None 0 0) 0 iters"

section \<open>main\<close>

definition BENCH_STREAM_ID :: u32 where "BENCH_STREAM_ID = 0xBEEF"

definition std_atoi :: "string \<Rightarrow> int outcome" where
  "std_atoi s = obind (std_atol s) (\<lambda>v. if in_signed_range 32 v then Inr v else Inl BadConversion)"

fun signal_table :: "bench_platform \<Rightarrow> nat \<Rightarrow> Vita49Codec \<Rightarrow> int \<Rightarrow> nat list \<Rightarrow> table_row list outcome" where
  "signal_table plat k codec iters [] = Inr []"
| "signal_table plat k codec iters (sz # szs) =
    obind (generateTestSignal plat sz 12345) (\<lambda>samples.
    obind (runBenchmark plat k codec samples BENCH_STREAM_ID iters) (\<lambda>result.
    obind (signal_table plat (k + 4) codec iters szs) (\<lambda>rows. Inr (logResult sz result # rows))))"

text \<open>The multiplication by ten is one of type \<open>int\<close>.\<close>

definition context_report :: "bench_platform \<Rightarrow> nat \<Rightarrow> int \<Rightarrow> (fp \<times> fp \<times> fp) outcome" where
  "context_report plat k iters =
    (if \<not> in_signed_range 32 (iters * 10) then Inl SignedOverflow
     else obind (runContextBenchmark plat k (make_codec BigEndian DEFAULT_SCALE_FACTOR) BENCH_STREAM_ID (iters * 10)) (\<lambda>r.
       let n = double_of_int (iterations r)
       in Inr (double_mul (double_div (encodeMs r) n) (Finite 1000),
               double_div (double_of_int (uint (totalBytes r))) n,
               double_mul (double_div (decodeMs r) n) (Finite 1000))))"

definition big_sizes :: "nat list" where "big_sizes = [100, 1000, 10000, 50000, 100000, 500000, 1000000]"
definition little_sizes :: "nat list" where "little_sizes = [100, 1000, 10000, 100000, 1000000]"

definition benchmark_main :: "bench_platform \<Rightarrow> string list \<Rightarrow> (table_row list \<times> table_row list \<times> fp \<times> fp \<times> fp) outcome" where
  "benchmark_main plat args =
    obind (case args of [] \<Rightarrow> Inr 100 | a # _ \<Rightarrow> std_atoi a) (\<lambda>iters.
    let iters = max iters 1
    in obind (signal_table plat 0 (make_codec BigEndian DEFAULT_SCALE_FACTOR) iters big_sizes) (\<lambda>big.
       obind (signal_table plat 28 (make_codec LittleEndian DEFAULT_SCALE_FACTOR) iters little_sizes) (\<lambda>little.
       obind (context_report plat 48 iters) (\<lambda>context. Inr (big, little, context)))))"

section \<open>What the counters say\<close>

lemma encode_times_eq: "encode_times (Inr buf) n bufs = Inr (bufs @ replicate n buf)"
  by (induction n arbitrary: bufs) (simp_all add: replicate_append_same [symmetric])

lemma add_sizes_replicate: "add_sizes (replicate n buf) acc = acc + of_nat n * of_nat (length buf)"
  by (induction n arbitrary: acc) (simp_all add: add_sizes_def algebra_simps)

lemma decode_all_replicate:
  assumes "parseStream codec (Some buf) (length buf) = Inr packets"
  shows "decode_all codec (replicate n buf) acc = Inr (acc + of_nat n * of_nat (length packets))"
  using assms by (induction n arbitrary: acc) (simp_all add: algebra_simps)

lemma measure_codec_eq:
  assumes "nat iters \<le> max_buffers plat" and "0 \<le> iters"
    and "parseStream codec (Some buf) (length buf) = Inr packets"
  shows "\<exists>r. measure_codec plat k codec (Inr buf) samples iters = Inr r \<and> totalSamples r = samples \<and> iterations r = iters \<and>
    totalBytes r = word_of_int iters * of_nat (length buf) \<and> totalPackets r = word_of_int iters * of_nat (length packets)"
proof -
  obtain n where n: "iters = int n" using assms(2) by (rule nonneg_int_cases)
  show ?thesis using assms(1)
    by (simp add: n measure_codec_def Let_def encode_times_eq add_sizes_replicate decode_all_replicate [OF assms(3)])
qed

lemma length_chunks:
  assumes "0 < m"
  shows "length (chunks m xs) = (length xs + m - 1) div m"
  using assms
proof (induction m xs rule: chunks.induct)
  case (1 m xs)
  show ?case
  proof (cases "xs = []")
    case True
    then show ?thesis using 1(2) by (simp add: chunks.simps)
  next
    case False
    then have "length (chunks m xs) = Suc ((length xs - m + m - 1) div m)"
      using 1 by (subst chunks.simps) simp
    also have "\<dots> = (length xs + m - 1) div m"
    proof (cases "length xs \<le> m")
      case True
      moreover obtain n where "length xs = Suc n" using False by (cases xs) simp_all
      ultimately have "(length xs + m - 1) div m = 1" using 1(2) by (intro div_nat_eqI) simp_all
      with True 1(2) show ?thesis by simp
    next
      case False
      then have "length xs + m - 1 = (length xs - m + m - 1) + m" using 1(2) by simp
      then show ?thesis using 1(2) by (metis Suc_eq_plus1 div_add_self2 less_not_refl2)
    qed
    finally show ?thesis .
  qed
qed

text \<open>The packets that a signal of \<open>n\<close> samples needs: 65533 samples fit in one.\<close>

definition packets_for :: "nat \<Rightarrow> nat" where
  "packets_for n = (if n = 0 then 1 else (n + 65532) div 65533)"

lemma max_samples_plain: "maxSamplesPerPacket TSI_None TSF_None False False = 65533"
  by (simp add: maxSamplesPerPacket_eq signal_words_def)

lemma split_packets_sizes:
  "length (concat (map fst (split_packets codec sid ps start TSI_None TSF_None it ft False))) =
    4 * length ps + 8 * length (split_packets codec sid ps start TSI_None TSF_None it ft False)"
proof -
  let ?cs = "chunks (maxSamplesPerPacket TSI_None TSF_None False False) ps"
  have "length (concat (map fst (map (\<lambda>(c, chunk). (signal_wire sid chunk c (byteOrder codec) TSI_None TSF_None it ft False,
      parsed_signal codec sid chunk c TSI_None TSF_None it ft False)) (counted start cs)))) =
    4 * length (concat cs) + 8 * length cs" for cs
    by (induction start cs rule: counted.induct) (simp_all add: length_signal_wire signal_words_def)
  from this [of ?cs] show ?thesis
    by (simp add: split_packets_def concat_chunks maxSamplesPerPacket_pos case_prod_unfold)
qed

text \<open>Encoding samples without timestamps and trailer, with the size of the result and the number of packets.\<close>

lemma encode_counts:
  assumes "scaleFactor codec \<noteq> Finite 0" and "omap (quantise_pair (scaleFactor codec)) samples = Inr ps" and "samples \<noteq> []"
  shows "\<exists>buf packets. encodeSignalData codec sid samples 0 TSI_None TSF_None 0 0 False = Inr buf \<and>
    parseStream codec (Some buf) (length buf) = Inr packets \<and> length packets = packets_for (length samples) \<and>
    length buf = 4 * length samples + 8 * packets_for (length samples)"
proof -
  let ?zs = "split_packets codec sid ps 0 TSI_None TSF_None 0 0 False"
  have l: "length ps = length samples" by (rule omap_length [OF assms(2)])
  have "length ?zs = packets_for (length samples)"
    using assms(3) l by (simp add: split_packets_def max_samples_plain length_chunks packets_for_def)
  then show ?thesis
    using encodeSignalData_eq [OF assms(3,2), of sid 0 TSI_None TSF_None 0 0 False]
      parseStream_split_packets [OF refl assms(1), of sid ps 0 TSI_None TSF_None 0 0 False "[]"]
      split_packets_sizes [of codec sid ps 0 0 0] l
    by (intro exI [of _ "concat (map fst ?zs)"] exI [of _ "map snd ?zs"]) simp
qed

lemma runBenchmark_eq:
  assumes "scaleFactor codec \<noteq> Finite 0" and "omap (quantise_pair (scaleFactor codec)) samples = Inr ps" and "samples \<noteq> []"
    and "nat iters \<le> max_buffers plat" and "0 \<le> iters"
  shows "\<exists>r. runBenchmark plat k codec samples sid iters = Inr r \<and> iterations r = iters \<and>
    totalSamples r = of_nat (length samples) * word_of_int iters \<and>
    totalBytes r = word_of_int iters * of_nat (4 * length samples + 8 * packets_for (length samples)) \<and>
    totalPackets r = word_of_int iters * of_nat (packets_for (length samples))"
proof -
  obtain buf packets where b: "encodeSignalData codec sid samples 0 TSI_None TSF_None 0 0 False = Inr buf"
    "parseStream codec (Some buf) (length buf) = Inr packets" "length packets = packets_for (length samples)"
    "length buf = 4 * length samples + 8 * packets_for (length samples)"
    using encode_counts [OF assms(1-3)] by blast
  show ?thesis
    using measure_codec_eq [OF assms(4,5) b(2), of k "of_nat (length samples) * word_of_int iters"]
    unfolding runBenchmark_def b(1) b(3,4) by blast
qed

text \<open>Random components between -1 and 1 can be quantised.\<close>

lemma test_signal_quantises:
  assumes "\<forall>seed a b i. bounded_by 1 (uniform_float plat seed a b i)" and "count \<le> max_signal plat"
  shows "\<exists>samples ps. generateTestSignal plat count seed = Inr samples \<and> length samples = count \<and>
    omap (quantise_pair DEFAULT_SCALE_FACTOR) samples = Inr ps"
proof -
  have q: "\<exists>w. quantise DEFAULT_SCALE_FACTOR (uniform_float plat seed a b i) = Inr w" for seed a b i
    using assms(1) bounded_by_mono [of 1 _ 4] by (intro quantise_bounded) simp
  have "\<exists>qs. omap g xs = Inr qs" if "\<forall>x \<in> set xs. \<exists>q. g x = Inr q" for g :: "fp \<times> fp \<Rightarrow> (i16 \<times> i16) outcome" and xs
    using that by (induction xs) auto
  moreover have "\<exists>p. quantise_pair DEFAULT_SCALE_FACTOR (uniform_float plat seed a b i, uniform_float plat seed a b j) = Inr p" for a b i j
    using q [of seed a b i] q [of seed a b j] by (auto simp: quantise_pair_def)
  ultimately show ?thesis using assms(2) by (simp add: generateTestSignal_def Let_def)
qed

lemma packets_column:
  assumes "1 \<le> iters" "iters < 2 ^ 31" "n < 2 ^ 32"
  shows "(word_of_int iters * of_nat n :: u64) div word_of_int iters = of_nat n"
proof -
  obtain m where m: "iters = int m" "0 < m" "m < 2 ^ 31" using assms(1,2) by (cases iters) auto
  have "m * n < 2 ^ 31 * 2 ^ 32" using m(3) assms(3) by (intro mult_strict_mono) simp_all
  then have "m * n < 2 ^ 64" by simp
  then have u: "unat (of_nat (m * n) :: u64) = m * n" "unat (of_nat m :: u64) = m" "unat (of_nat n :: u64) = n"
    using m(3) assms(3) by (simp_all add: unsigned_of_nat take_bit_nat_eq_self del: of_nat_mult)
  have e: "word_of_int iters = (of_nat m :: u64)" by (simp add: m(1))
  have "(of_nat (m * n) :: u64) div of_nat m = of_nat n"
    using m(2) by (simp only: word_unat_eq_iff unat_div_distrib u) simp
  then show ?thesis by (simp only: e of_nat_mult)
qed

lemma signal_table_packets:
  assumes "\<forall>seed a b i. bounded_by 1 (uniform_float plat seed a b i)"
    and "scaleFactor codec = DEFAULT_SCALE_FACTOR" and "1 \<le> iters" "iters < 2 ^ 31" "nat iters \<le> max_buffers plat"
    and "\<forall>sz \<in> set szs. 0 < sz \<and> sz \<le> max_signal plat \<and> sz < 2 ^ 32"
  shows "\<exists>rows. signal_table plat k codec iters szs = Inr rows \<and>
    map row_samples rows = szs \<and> map row_packets rows = map (\<lambda>sz. of_nat (packets_for sz)) szs"
  using assms(6)
proof (induction szs arbitrary: k)
  case (Cons sz szs)
  obtain rows where rows: "signal_table plat (k + 4) codec iters szs = Inr rows" "map row_samples rows = szs"
    "map row_packets rows = map (\<lambda>sz. of_nat (packets_for sz)) szs"
    using Cons.IH [of "k + 4"] Cons.prems by auto
  obtain samples ps where s: "generateTestSignal plat sz 12345 = Inr samples" "length samples = sz"
    "omap (quantise_pair (scaleFactor codec)) samples = Inr ps"
    using test_signal_quantises [OF assms(1), of sz 12345] Cons.prems assms(2) by auto
  have ne: "samples \<noteq> []" using s(2) Cons.prems by auto
  have sf: "scaleFactor codec \<noteq> Finite 0" using default_scale_nonzero assms(2) by simp
  obtain r where r: "runBenchmark plat k codec samples BENCH_STREAM_ID iters = Inr r" "iterations r = iters"
    "totalPackets r = word_of_int iters * of_nat (packets_for sz)"
    using runBenchmark_eq [OF sf s(3) ne assms(5), of k BENCH_STREAM_ID] assms(3) s(2) by auto
  have "packets_for sz < 2 ^ 32" using Cons.prems by (simp add: packets_for_def) linarith
  then have "row_packets (logResult sz r) = of_nat (packets_for sz)"
    by (simp add: logResult_def Let_def r(2,3) packets_column [OF assms(3,4)])
  moreover have "row_samples (logResult sz r) = sz" by (simp add: logResult_def Let_def)
  ultimately show ?case by (simp add: s(1) r(1) rows)
qed simp

lemma context_report_eq:
  assumes "1 \<le> iters" and "nat (iters * 10) \<le> max_buffers plat"
  shows "if iters \<le> 214748364 then \<exists>v. context_report plat k iters = Inr v
    else context_report plat k iters = Inl SignedOverflow"
proof -
  let ?codec = "make_codec BigEndian DEFAULT_SCALE_FACTOR"
  let ?w = "context_wire BENCH_STREAM_ID test_raw 0 BigEndian TSI_None TSF_None 0 0"
    and ?p = "parsed_context BENCH_STREAM_ID test_raw 0 TSI_None TSF_None 0 0"
  have o1: "byteOrder ?codec = BigEndian" by (simp add: make_codec_def)
  have c: "bench_context = from_raw test_raw" unfolding from_raw_test by (simp add: bench_context_def test_context_def)
  have enc: "encodeContext ?codec BENCH_STREAM_ID bench_context 0 TSI_None TSF_None 0 0 = Inr ?w"
    using to_raw_from_raw [OF test_raw_exact] by (simp add: c encodeContext_def context_encode_eq o1)
  have dec: "parseStream ?codec (Some ?w) (length ?w) = Inr [?p]"
    using parse_frames [of "[(?w, ?p)]" ?codec] context_frames [of ?codec] o1 by simp
  have n: "0 \<le> iters * 10" using assms(1) by simp
  have "\<exists>r. runContextBenchmark plat k ?codec BENCH_STREAM_ID (iters * 10) = Inr r"
    unfolding runContextBenchmark_def enc using measure_codec_eq [OF assms(2) n dec] by blast
  then show ?thesis using assms(1) by (auto simp: context_report_def in_signed_range_def Let_def)
qed

lemma table_values:
  "map (\<lambda>sz. of_nat (packets_for sz)) big_sizes = [1, 1, 1, 1, 2, 8, 16 :: u64]"
  "map (\<lambda>sz. of_nat (packets_for sz)) little_sizes = [1, 1, 1, 2, 16 :: u64]"
  by (simp_all add: packets_for_def big_sizes_def little_sizes_def)

text \<open>
  What the benchmark reports, whatever the clock says.  When the random numbers lie between -1 and 1
  and the memory suffices, its two tables have one row for each size, and the column of packets holds
  the numbers that a packet size of 65533 samples demands: every sample has gone through the codec.
  With more than 214748364 iterations the count of context packets overflows.
\<close>

theorem benchmark_packets:
  assumes "std_atoi a = Inr n" and "nat (max n 1 * 10) \<le> max_buffers plat" and "1000000 \<le> max_signal plat"
    and "\<forall>seed x y i. bounded_by 1 (uniform_float plat seed x y i)"
  shows "if n \<le> 214748364
    then \<exists>big little context. benchmark_main plat [a] = Inr (big, little, context) \<and>
      map row_samples big = [100, 1000, 10000, 50000, 100000, 500000, 1000000] \<and> map row_packets big = [1, 1, 1, 1, 2, 8, 16] \<and>
      map row_samples little = [100, 1000, 10000, 100000, 1000000] \<and> map row_packets little = [1, 1, 1, 2, 16]
    else benchmark_main plat [a] = Inl SignedOverflow"
proof -
  let ?n = "max n 1"
  have "in_signed_range 32 n" using assms(1) by (auto simp: std_atoi_def obind_eq_Inr_iff split: if_splits)
  then have range: "1 \<le> ?n" "?n < 2 ^ 31" by (simp_all add: in_signed_range_def)
  have mem: "nat ?n \<le> max_buffers plat" by (rule order_trans [OF nat_mono assms(2)]) (use range(1) in linarith)
  have sf: "scaleFactor (make_codec order DEFAULT_SCALE_FACTOR) = DEFAULT_SCALE_FACTOR" for order by (simp add: make_codec_def)
  have sizes: "\<forall>sz \<in> set big_sizes. 0 < sz \<and> sz \<le> max_signal plat \<and> sz < 2 ^ 32"
    "\<forall>sz \<in> set little_sizes. 0 < sz \<and> sz \<le> max_signal plat \<and> sz < 2 ^ 32"
    using assms(3) by (simp_all add: big_sizes_def little_sizes_def)
  obtain big where big: "signal_table plat 0 (make_codec BigEndian DEFAULT_SCALE_FACTOR) ?n big_sizes = Inr big"
    "map row_samples big = big_sizes" "map row_packets big = [1, 1, 1, 1, 2, 8, 16]"
    using signal_table_packets [OF assms(4) sf range mem sizes(1), of 0 BigEndian, unfolded table_values] by (elim exE conjE)
  obtain little where little: "signal_table plat 28 (make_codec LittleEndian DEFAULT_SCALE_FACTOR) ?n little_sizes = Inr little"
    "map row_samples little = little_sizes" "map row_packets little = [1, 1, 1, 2, 16]"
    using signal_table_packets [OF assms(4) sf range mem sizes(2), of 28 LittleEndian, unfolded table_values] by (elim exE conjE)
  have main: "benchmark_main plat [a] = obind (context_report plat 48 ?n) (\<lambda>context. Inr (big, little, context))"
    by (simp add: benchmark_main_def assms(1) Let_def big(1) little(1))
  note report = context_report_eq [OF range(1) assms(2), of 48]
  show ?thesis
  proof (cases "n \<le> 214748364")
    case True
    then have "?n \<le> 214748364" by simp
    then obtain ctx where "context_report plat 48 ?n = Inr ctx" using report by (simp only: if_True) blast
    then have "benchmark_main plat [a] = Inr (big, little, ctx)" by (simp add: main)
    then show ?thesis using big(2,3) little(2,3) unfolding if_P [OF True] big_sizes_def little_sizes_def
      by (intro exI [of _ big] exI [of _ little] exI [of _ ctx] conjI)
  next
    case False
    then have "\<not> ?n \<le> 214748364" by simp
    then have "context_report plat 48 ?n = Inl SignedOverflow" using report by (simp only: if_False)
    then show ?thesis using False by (simp add: main)
  qed
qed

theorem benchmark_packets_witness:
  "\<exists>big little context. benchmark_main \<lparr>steady_clock = (\<lambda>i. 0), uniform_float = (\<lambda>_ _ _ _. Finite (1 / 2)),
      max_signal = 1000000, max_buffers = 30\<rparr> [''3''] = Inr (big, little, context) \<and>
    map row_packets big = [1, 1, 1, 1, 2, 8, 16] \<and> map row_packets little = [1, 1, 1, 2, 16]"
proof -
  have "std_atoi ''3'' = Inr 3"
    by (simp add: std_atoi_def std_atol_def is_space_def in_signed_range_def Let_def)
  from benchmark_packets [OF this, of "\<lparr>steady_clock = (\<lambda>i. 0), uniform_float = (\<lambda>_ _ _ _. Finite (1 / 2)),
      max_signal = 1000000, max_buffers = 30\<rparr>"] show ?thesis by auto
qed

end
