(* ===== verification/TestDrivers.thy ===== *)
theory TestDrivers
  imports HighBandwidthSubscriber OmniscopeApp FloatModel "HOL-Library.Finite_Map"
begin

text \<open>
  The test programs of the publishing libraries: \<open>src/apps/TestApps/HighBandwidthPublisherTester.cpp\<close>,
  \<open>HighBandwidthSubscriberTester.cpp\<close>, \<open>ZyrePublisherTest.cpp\<close> and \<open>ZyreSubscriberTest.cpp\<close>.

  \<^item> The two publishers have one body for the messages they build, and the two subscribers one body for
    their handlers; both are modelled once, over the library that carries the messages.
  \<^item> The generated protobuf classes are records with the fields that the programs set or read, and
    serialising and parsing them is the record \<open>test_codec\<close>.  A repeated field is a list; reading an element
    that it does not have is the fault \<open>OutOfBounds\<close>.  A map field is a finite map: protobuf leaves the order
    of its entries open, on the wire and in a loop over them.
  \<^item> A line of the log is a value of \<open>report\<close>, with the format string as constructor and its arguments.
    The lines of a loop over a map, one for each entry in an order that is not known, are one value with the map.
  \<^item> Time and random numbers of a turn are the record \<open>turn_input\<close>.  The main loops never end; what is
    modelled is any number of their turns.

  The locale \<open>test_link\<close> states what the programs expect of the library between them, and \<open>lossy_test_link\<close>
  that messages can get lost in between; they are interpreted on the UDP datagrams and on the Zyre network.
  The lemmas show that the subscriber reports exactly the messages that the publisher built and that
  arrive, and which message ends the subscriber.
\<close>

section \<open>Messages\<close>

record Location =
  loc_latitude :: fp
  loc_longitude :: fp
  loc_altitude :: fp

record SensorReadingMsg =
  sr_sensor_id :: string
  sr_sensor_name :: string
  sr_value :: fp
  sr_unit :: string
  sr_timestamp_ms :: int
  sr_quality :: int
  sr_status :: int
  sr_location :: "Location option"
  sr_metadata :: "(string, string) fmap"

record SensorDataBatchMsg =
  sb_readings :: "SensorReadingMsg list"
  sb_batch_id :: string
  sb_created_at_ms :: int
  sb_source_system :: string

record QueryParameters =
  qp_query_fields :: "string list"
  qp_filters :: "(string, string) fmap"
  qp_max_results :: int

record CommandMsg =
  cm_command_id :: string
  cm_type :: int
  cm_target :: string
  cm_query_params :: "QueryParameters option"
  cm_issued_at_ms :: int
  cm_timeout_ms :: int
  cm_priority :: int
  cm_issuer :: string

record test_codec =
  ser_reading :: "SensorReadingMsg \<Rightarrow> bytes option"
  ser_batch :: "SensorDataBatchMsg \<Rightarrow> bytes option"
  ser_command :: "CommandMsg \<Rightarrow> bytes option"
  parse_reading :: "bytes \<Rightarrow> SensorReadingMsg option"
  parse_batch :: "bytes \<Rightarrow> SensorDataBatchMsg option"
  parse_command :: "bytes \<Rightarrow> CommandMsg option"

datatype report =
    PublishedReading string fp string
  | PublishedBatch string nat
  | PublishedCommand string int
  | ReceivedReading string string fp string int int
  | ReadingLocation fp fp fp
  | ReadingMetadata "(string, string) fmap"
  | ReceivedBatch string string string nat
  | BatchReading string string fp string
  | ReceivedCommand string string int string string
  | CommandQuery string int
  | ParseFailed string

section \<open>The publishers\<close>

record turn_input =
  ti_epochMs :: int
  ti_temp :: fp
  ti_batch :: "nat \<Rightarrow> fp"

definition SENSOR_STATUS_ONLINE :: int where "SENSOR_STATUS_ONLINE = 1"
definition COMMAND_TYPE_QUERY :: int where "COMMAND_TYPE_QUERY = 5"

text \<open>Decimal literals of type \<open>double\<close>.\<close>

definition test_location :: Location where
  "test_location = \<lparr>loc_latitude = round64 (377749 / 10000), loc_longitude = round64 (- 1224194 / 10000), loc_altitude = Finite 10\<rparr>"

text \<open>Assigning to a map at a key.\<close>

definition test_metadata :: "(string, string) fmap" where
  "test_metadata = fmupd ''floor'' ''3'' (fmupd ''building'' ''HQ'' fmempty)"

definition test_reading :: "turn_input \<Rightarrow> SensorReadingMsg" where
  "test_reading inp =
     \<lparr>sr_sensor_id = ''sensor-001'', sr_sensor_name = ''Temperature Sensor'',
      sr_value = double_add (Finite (45 / 2)) (ti_temp inp), sr_unit = ''celsius'',
      sr_timestamp_ms = ti_epochMs inp, sr_quality = 95, sr_status = SENSOR_STATUS_ONLINE,
      sr_location = Some test_location, sr_metadata = test_metadata\<rparr>"

definition batch_reading :: "turn_input \<Rightarrow> nat \<Rightarrow> SensorReadingMsg" where
  "batch_reading inp i =
     \<lparr>sr_sensor_id = ''sensor-00'' @ to_string (int i + 1), sr_sensor_name = ''Sensor '' @ to_string (int i + 1),
      sr_value = double_add (double_add (Finite 20) (double_mul (double_of_int (int i)) (Finite 5))) (ti_batch inp i),
      sr_unit = ''celsius'', sr_timestamp_ms = ti_epochMs inp, sr_quality = 90 + int i,
      sr_status = SENSOR_STATUS_ONLINE, sr_location = None, sr_metadata = fmempty\<rparr>"

definition test_batch :: "turn_input \<Rightarrow> int \<Rightarrow> SensorDataBatchMsg" where
  "test_batch inp turnCount =
     \<lparr>sb_readings = map (batch_reading inp) [0..<3], sb_batch_id = ''batch-'' @ to_string turnCount,
      sb_created_at_ms = ti_epochMs inp, sb_source_system = ''TestPublisher''\<rparr>"

definition test_command :: "turn_input \<Rightarrow> int \<Rightarrow> CommandMsg" where
  "test_command inp turnCount =
    (let queryParams = \<lparr>qp_query_fields = [''value''],
                        qp_filters = fmupd ''BitStatus'' ''Degraded'' (fmupd ''status'' ''online'' fmempty),
                        qp_max_results = 10\<rparr>
     in \<lparr>cm_command_id = ''cmd-'' @ to_string turnCount, cm_type = COMMAND_TYPE_QUERY,
         cm_target = ''sensor-001'', cm_query_params = Some queryParams, cm_issued_at_ms = ti_epochMs inp,
         cm_timeout_ms = 5000, cm_priority = 1, cm_issuer = ''TestPublisher''\<rparr>)"

text \<open>
  A publishing library: the new state, and what goes over the network, for each call.  The program
  ignores the result and logs the message as published.
\<close>

type_synonym ('p, 'w) sender = "'p \<Rightarrow> string \<Rightarrow> bytes option \<Rightarrow> (bool \<times> 'p \<times> 'w) outcome"

definition publisher_turn ::
  "('p, 'w) sender \<Rightarrow> test_codec \<Rightarrow> turn_input \<Rightarrow> 'p \<times> int \<Rightarrow> (('p \<times> int) \<times> 'w list \<times> report list) outcome" where
  "publisher_turn send codec inp = (\<lambda>(pub, turnCount).
    let sensorReading = test_reading inp; batch = test_batch inp turnCount; command = test_command inp turnCount
    in obind (send pub ''SensorReading'' (ser_reading codec sensorReading)) (\<lambda>(_, pub, w1).
       obind (send pub ''SensorDataBatch'' (ser_batch codec batch)) (\<lambda>(_, pub, w2).
       obind (if turnCount mod 5 = 0 then
                obind (send pub ''Command'' (ser_command codec command)) (\<lambda>(_, pub, w3).
                  Inr (pub, [w3], [PublishedCommand (cm_command_id command) (cm_type command)]))
              else Inr (pub, [], [])) (\<lambda>(pub, ws, reports).
         if turnCount = 2147483647 then Inl SignedOverflow
         else Inr ((pub, turnCount + 1), w1 # w2 # ws,
           [PublishedReading (sr_sensor_name sensorReading) (sr_value sensorReading) (sr_unit sensorReading),
            PublishedBatch (sb_batch_id batch) (length (sb_readings batch))] @ reports)))))"

fun publisher_loop ::
  "('p, 'w) sender \<Rightarrow> test_codec \<Rightarrow> turn_input list \<Rightarrow> 'p \<times> int \<Rightarrow> (('p \<times> int) \<times> 'w list \<times> report list) outcome" where
  "publisher_loop send codec [] s = Inr (s, [], [])"
| "publisher_loop send codec (inp # inps) s =
    obind (publisher_turn send codec inp s) (\<lambda>(s, ws, reports).
    obind (publisher_loop send codec inps s) (\<lambda>(s, ws', reports').
      Inr (s, ws @ ws', reports @ reports')))"

definition interface_of :: "string list \<Rightarrow> string" where
  "interface_of args = (case args of [] \<Rightarrow> '''' | a # _ \<Rightarrow> a)"

section \<open>The handlers of the subscribers\<close>

datatype test_handler = OnReading | OnBatch | OnCommand

definition on_reading :: "test_codec \<Rightarrow> string \<Rightarrow> bytes \<Rightarrow> report list" where
  "on_reading codec topic data =
    (case parse_reading codec data of
       Some msg \<Rightarrow>
         [ReceivedReading topic (sr_sensor_name msg) (sr_value msg) (sr_unit msg) (sr_quality msg) (sr_status msg)] @
         (case sr_location msg of
            Some l \<Rightarrow> [ReadingLocation (loc_latitude l) (loc_longitude l) (loc_altitude l)] | None \<Rightarrow> []) @
         (if fcard (fmdom (sr_metadata msg)) > 0 then [ReadingMetadata (sr_metadata msg)] else [])
     | None \<Rightarrow> [ParseFailed ''SensorReadingMsg''])"

definition on_batch :: "test_codec \<Rightarrow> string \<Rightarrow> bytes \<Rightarrow> report list" where
  "on_batch codec topic data =
    (case parse_batch codec data of
       Some msg \<Rightarrow>
         [ReceivedBatch topic (sb_batch_id msg) (sb_source_system msg) (length (sb_readings msg))] @
         map (\<lambda>reading. BatchReading (sr_sensor_id reading) (sr_sensor_name reading) (sr_value reading) (sr_unit reading))
           (sb_readings msg)
     | None \<Rightarrow> [ParseFailed ''SensorDataBatchMsg''])"

definition on_command :: "test_codec \<Rightarrow> string \<Rightarrow> bytes \<Rightarrow> report list outcome" where
  "on_command codec topic data =
    (case parse_command codec data of
       Some msg \<Rightarrow>
         let received = ReceivedCommand topic (cm_command_id msg) (cm_type msg) (cm_target msg) (cm_issuer msg)
         in (case cm_query_params msg of
               Some params \<Rightarrow> obind (load (qp_query_fields params) 0) (\<lambda>field.
                 Inr [received, CommandQuery field (qp_max_results params)])
             | None \<Rightarrow> Inr [received])
     | None \<Rightarrow> Inr [ParseFailed ''CommandMsg''])"

fun run_handler :: "test_codec \<Rightarrow> test_handler \<Rightarrow> string \<Rightarrow> bytes \<Rightarrow> report list outcome" where
  "run_handler codec OnReading topic data = Inr (on_reading codec topic data)"
| "run_handler codec OnBatch topic data = Inr (on_batch codec topic data)"
| "run_handler codec OnCommand topic data = on_command codec topic data"

text \<open>The calls of the receive thread, one after the other; a fault in a handler ends the program.\<close>

definition run_handlers :: "test_codec \<Rightarrow> (test_handler \<times> string \<times> bytes) list \<Rightarrow> report list outcome" where
  "run_handlers codec calls =
     obind (omap (\<lambda>(h, topic, data). run_handler codec h topic data) calls) (\<lambda>reports. Inr (concat reports))"

section \<open>The main programs\<close>

definition zyre_publisher_tester :: "bool \<Rightarrow> bool \<Rightarrow> ifaddr list option \<Rightarrow> string list \<Rightarrow> ZyreNode" where
  "zyre_publisher_tester created started ifaddrs args =
     snd (node_start started (make_ZyreNode created ifaddrs ''TestZyre'' (interface_of args)))"

definition zyre_subscriber_tester ::
  "bool \<Rightarrow> bool \<Rightarrow> ifaddr list option \<Rightarrow> string list \<Rightarrow> test_handler ZyreSubscriber" where
  "zyre_subscriber_tester created started ifaddrs args =
    (let sub = make_ZyreSubscriber created started ifaddrs ''TestZyre'' (interface_of args);
         sub = zyre_subscribe sub ''SensorReading'' (Some OnReading);
         sub = zyre_subscribe sub ''SensorDataBatch'' (Some OnBatch)
     in zyre_subscribe sub ''Command'' (Some OnCommand))"

definition bytes_of :: "string \<Rightarrow> bytes" where
  "bytes_of t = map (\<lambda>c. of_nat (of_char c)) t"

definition string_of :: "bytes \<Rightarrow> string" where
  "string_of bs = map (\<lambda>b. char_of (unat b)) bs"

text \<open>\<open>fd\<close> and \<open>addr_ok\<close> are what the constructor of the publisher meets.\<close>

definition hb_publisher_tester :: "int \<Rightarrow> bool \<Rightarrow> HBPublisher" where
  "hb_publisher_tester fd addr_ok = make_publisher fd addr_ok (bytes_of ''TestHb'') 5670 1400"

text \<open>The program returns 1 when \<open>start\<close> fails, and otherwise keeps the subscriber running for ever.\<close>

definition hb_subscriber_tester ::
  "start_env \<Rightarrow> string list \<Rightarrow> int set \<Rightarrow> (int option \<times> test_handler HBSubscriber \<times> int set) outcome" where
  "hb_subscriber_tester env args fds =
    (let sub = make_subscriber (bytes_of ''TestHb'') 5670 1000 (bytes_of (interface_of args));
         sub = subscribe sub (bytes_of ''SensorReading'') (Some OnReading);
         sub = subscribe sub (bytes_of ''SensorDataBatch'') (Some OnBatch);
         sub = subscribe sub (bytes_of ''Command'') (Some OnCommand)
     in obind (start env sub fds) (\<lambda>(ok, sub, fds). Inr (if ok then None else Some 1, sub, fds)))"

section \<open>The libraries between them\<close>

text \<open>
  A shout that reaches the node of a subscriber: Zyre hands a node the shouts to the groups that it has joined.
  Which shouts reach it is up to the network; those before the nodes have discovered each other are lost.
\<close>

definition zyre_send :: "(ZyreNode, (string \<times> bytes) option) sender" where
  "zyre_send n topic message =
    (let (ok, shout) = zyre_publish True n topic message in Inr (ok, n, shout))"

definition in_group :: "'h ZyreSubscriber \<Rightarrow> string \<Rightarrow> bool" where
  "in_group s grp \<longleftrightarrow> (case zn_node (zs_base s) of None \<Rightarrow> False | Some z \<Rightarrow> grp \<in> z_groups z)"

definition zyre_arrive ::
  "'h ZyreSubscriber \<Rightarrow> (string \<times> bytes) option \<Rightarrow> ('h ZyreSubscriber \<times> ('h \<times> string \<times> bytes) list) outcome" where
  "zyre_arrive s w =
    (case w of
       Some (grp, data) \<Rightarrow>
         Inr (if in_group s grp then zyre_receive s (Shout (Some grp) (Some (Some data))) else (s, []))
     | None \<Rightarrow> Inr (s, []))"

definition hb_send :: "ByteOrder \<Rightarrow> (HBPublisher, bytes list) sender" where
  "hb_send host pub topic message = publish host (\<lambda>_. True) pub (bytes_of topic) message"

text \<open>
  The datagrams of the \<open>k\<close>th message arrive at the times \<open>clock k\<close>; after them the poll of the receive thread
  times out at the times \<open>idle k\<close>.
\<close>

definition hb_arrive ::
  "ByteOrder \<Rightarrow> (nat \<Rightarrow> nat \<Rightarrow> int) \<Rightarrow> (nat \<Rightarrow> int list) \<Rightarrow> ('h HBSubscriber \<times> int) \<times> nat \<Rightarrow> bytes list \<Rightarrow>
   ((('h HBSubscriber \<times> int) \<times> nat) \<times> ('h \<times> string \<times> bytes) list) outcome" where
  "hb_arrive host clock idle = (\<lambda>(s, k) datagrams.
     obind (receiveLoop host (map2 Received datagrams (map (clock k) [0..<length datagrams]) @ map PollTimeout (idle k)) s)
       (\<lambda>(s, ds). Inr ((s, Suc k), map (\<lambda>(h, topic, data). (h, string_of topic, data)) ds)))"

fun arrive_all :: "('s \<Rightarrow> 'w \<Rightarrow> ('s \<times> 'c list) outcome) \<Rightarrow> 's \<Rightarrow> 'w list \<Rightarrow> ('s \<times> 'c list) outcome" where
  "arrive_all arrive s [] = Inr (s, [])"
| "arrive_all arrive s (w # ws) =
     obind (arrive s w) (\<lambda>(s, ds). obind (arrive_all arrive s ws) (\<lambda>(s, ds'). Inr (s, ds @ ds')))"

text \<open>
  The four programs.  The turns of a publisher give the messages on the network and the log; a subscriber takes
  what arrives from the network and reports.  The high-bandwidth subscriber returns 1 (\<open>Inl\<close>) when it
  cannot start; \<open>lc\<close> is the time at which its receive thread starts.
\<close>

definition zyre_publisher_main ::
  "test_codec \<Rightarrow> bool \<Rightarrow> bool \<Rightarrow> ifaddr list option \<Rightarrow> string list \<Rightarrow> turn_input list \<Rightarrow>
   ((ZyreNode \<times> int) \<times> (string \<times> bytes) option list \<times> report list) outcome" where
  "zyre_publisher_main codec created started ifaddrs args inps =
     publisher_loop zyre_send codec inps (zyre_publisher_tester created started ifaddrs args, 0)"

definition hb_publisher_main ::
  "ByteOrder \<Rightarrow> test_codec \<Rightarrow> int \<Rightarrow> bool \<Rightarrow> turn_input list \<Rightarrow>
   ((HBPublisher \<times> int) \<times> bytes list list \<times> report list) outcome" where
  "hb_publisher_main host codec fd addr_ok inps =
     publisher_loop (hb_send host) codec inps (hb_publisher_tester fd addr_ok, 0)"

definition zyre_subscriber_main ::
  "test_codec \<Rightarrow> bool \<Rightarrow> bool \<Rightarrow> ifaddr list option \<Rightarrow> string list \<Rightarrow> (string \<times> bytes) option list \<Rightarrow> report list outcome" where
  "zyre_subscriber_main codec created started ifaddrs args network =
     obind (arrive_all zyre_arrive (zyre_subscriber_tester created started ifaddrs args) network) (\<lambda>(sub, calls).
       run_handlers codec calls)"

definition hb_subscriber_main ::
  "ByteOrder \<Rightarrow> test_codec \<Rightarrow> start_env \<Rightarrow> string list \<Rightarrow> int set \<Rightarrow> (nat \<Rightarrow> nat \<Rightarrow> int) \<Rightarrow> (nat \<Rightarrow> int list) \<Rightarrow> int \<Rightarrow>
   bytes list list \<Rightarrow> (int + report list) outcome" where
  "hb_subscriber_main host codec env args fds clock idle lc network =
     obind (hb_subscriber_tester env args fds) (\<lambda>(returned, sub, fds).
     case returned of
       Some r \<Rightarrow> Inr (Inl r)
     | None \<Rightarrow>
         obind (arrive_all (hb_arrive host clock idle) ((sub, lc), 0) network) (\<lambda>(s, calls).
         obind (run_handlers codec calls) (\<lambda>reports. Inr (Inr reports))))"

section \<open>What the subscriber is to report\<close>

datatype test_message = ReadingMessage SensorReadingMsg | BatchMessage SensorDataBatchMsg | CommandMessage CommandMsg

fun test_messages :: "turn_input list \<Rightarrow> int \<Rightarrow> test_message list" where
  "test_messages [] n = []"
| "test_messages (inp # inps) n =
     [ReadingMessage (test_reading inp), BatchMessage (test_batch inp n)] @ (if n mod 5 = 0 then [CommandMessage (test_command inp n)] else []) @
     test_messages inps (n + 1)"

text \<open>The codec carries a message: its serialisation exists, parses to the message, and fits.\<close>

fun transmits :: "test_codec \<Rightarrow> (bytes \<Rightarrow> bool) \<Rightarrow> test_message \<Rightarrow> bool" where
  "transmits codec fits (ReadingMessage m) \<longleftrightarrow>
     (case ser_reading codec m of Some data \<Rightarrow> parse_reading codec data = Some m \<and> fits data | None \<Rightarrow> False)"
| "transmits codec fits (BatchMessage m) \<longleftrightarrow>
     (case ser_batch codec m of Some data \<Rightarrow> parse_batch codec data = Some m \<and> fits data | None \<Rightarrow> False)"
| "transmits codec fits (CommandMessage m) \<longleftrightarrow>
     (case ser_command codec m of Some data \<Rightarrow> parse_command codec data = Some m \<and> fits data | None \<Rightarrow> False)"

text \<open>The reports of a message of the publisher, on a namespace.\<close>

fun shown :: "string \<Rightarrow> test_message \<Rightarrow> report list" where
  "shown name (ReadingMessage m) =
     [ReceivedReading (namespaced name ''SensorReading'') ''Temperature Sensor'' (sr_value m) ''celsius'' 95 1,
      ReadingLocation (loc_latitude test_location) (loc_longitude test_location) (loc_altitude test_location),
      ReadingMetadata test_metadata]"
| "shown name (BatchMessage m) =
     ReceivedBatch (namespaced name ''SensorDataBatch'') (sb_batch_id m) ''TestPublisher'' 3 #
     map (\<lambda>i. BatchReading (''sensor-00'' @ to_string (int i + 1)) (''Sensor '' @ to_string (int i + 1))
           (sr_value (sb_readings m ! i)) ''celsius'') [0, 1, 2]"
| "shown name (CommandMessage m) =
     [ReceivedCommand (namespaced name ''Command'') (cm_command_id m) 5 ''sensor-001'' ''TestPublisher'',
      CommandQuery ''value'' 10]"

definition test_topics :: "(string \<times> test_handler) list" where
  "test_topics = [(''SensorReading'', OnReading), (''SensorDataBatch'', OnBatch), (''Command'', OnCommand)]"

lemma run_handlers_append:
  "run_handlers codec xs = Inr us \<Longrightarrow> run_handlers codec ys = Inr vs \<Longrightarrow> run_handlers codec (xs @ ys) = Inr (us @ vs)"
  by (auto simp: run_handlers_def omap_append obind_eq_Inr_iff)

lemma run_handlers_Nil [simp]: "run_handlers codec [] = Inr []"
  by (simp add: run_handlers_def)

text \<open>A handler that gets a message of the publisher makes the reports of the message.\<close>

lemma handled_messages:
  "parse_reading codec data = Some (test_reading inp) \<Longrightarrow>
     run_handlers codec [(OnReading, namespaced name ''SensorReading'', data)] = Inr (shown name (ReadingMessage (test_reading inp)))"
  "parse_batch codec data = Some (test_batch inp n) \<Longrightarrow>
     run_handlers codec [(OnBatch, namespaced name ''SensorDataBatch'', data)] = Inr (shown name (BatchMessage (test_batch inp n)))"
  "parse_command codec data = Some (test_command inp n) \<Longrightarrow>
     run_handlers codec [(OnCommand, namespaced name ''Command'', data)] = Inr (shown name (CommandMessage (test_command inp n)))"
proof -
  have up: "[0..<3] = [0, 1, 2 :: nat]" by (simp add: upt_rec)
  show "parse_reading codec data = Some (test_reading inp) \<Longrightarrow>
     run_handlers codec [(OnReading, namespaced name ''SensorReading'', data)] = Inr (shown name (ReadingMessage (test_reading inp)))"
    by (simp add: run_handlers_def on_reading_def test_reading_def SENSOR_STATUS_ONLINE_def test_metadata_def fcard_finsert_if)
  show "parse_batch codec data = Some (test_batch inp n) \<Longrightarrow>
     run_handlers codec [(OnBatch, namespaced name ''SensorDataBatch'', data)] = Inr (shown name (BatchMessage (test_batch inp n)))"
    by (simp add: run_handlers_def on_batch_def test_batch_def batch_reading_def up)
  show "parse_command codec data = Some (test_command inp n) \<Longrightarrow>
     run_handlers codec [(OnCommand, namespaced name ''Command'', data)] = Inr (shown name (CommandMessage (test_command inp n)))"
    by (simp add: run_handlers_def on_command_def test_command_def load_def COMMAND_TYPE_QUERY_def Let_def)
qed

lemma arrive_all_append:
  assumes "arrive_all arrive s xs = Inr (s1, ds1)" and "arrive_all arrive s1 ys = Inr (s2, ds2)"
  shows "arrive_all arrive s (xs @ ys) = Inr (s2, ds1 @ ds2)"
  using assms(1)
proof (induction xs arbitrary: s ds1)
  case (Cons w xs)
  obtain s0 e f where "arrive s w = Inr (s0, e)" "arrive_all arrive s0 xs = Inr (s1, f)" "ds1 = e @ f"
    using Cons.prems by (auto simp: obind_eq_Inr_iff)
  then show ?case using Cons.IH [of s0 f] by simp
qed (use assms(2) in simp)

text \<open>Messages that arrive one after the other, each with the message that its reports show.\<close>

fun reported ::
  "('s \<Rightarrow> 'w \<Rightarrow> ('s \<times> (test_handler \<times> string \<times> bytes) list) outcome) \<Rightarrow> test_codec \<Rightarrow> string \<Rightarrow> 's \<Rightarrow> 'w list \<Rightarrow>
   test_message list \<Rightarrow> 's \<Rightarrow> bool" where
  "reported arrive codec name s [] [] s' \<longleftrightarrow> s' = s"
| "reported arrive codec name s (w # ws) (m # ms) s' \<longleftrightarrow>
     (\<exists>s1 ds. arrive s w = Inr (s1, ds) \<and> run_handlers codec ds = Inr (shown name m) \<and>
       reported arrive codec name s1 ws ms s')"
| "reported arrive codec name s _ _ s' \<longleftrightarrow> False"

lemma reported_append:
  "reported arrive codec name s ws ms s1 \<Longrightarrow> reported arrive codec name s1 ws' ms' s2 \<Longrightarrow>
    reported arrive codec name s (ws @ ws') (ms @ ms') s2"
  by (induction arrive codec name s ws ms s1 rule: reported.induct) auto

lemma reported_all:
  assumes "reported arrive codec name s ws ms s'"
  shows "\<exists>ds. arrive_all arrive s ws = Inr (s', ds) \<and> run_handlers codec ds = Inr (concat (map (shown name) ms))"
  using assms
proof (induction arrive codec name s ws ms s' rule: reported.induct)
  case (2 arrive codec name s w ws m ms s')
  then obtain s1 ds where 1: "arrive s w = Inr (s1, ds)" "run_handlers codec ds = Inr (shown name m)"
    "reported arrive codec name s1 ws ms s'" by auto
  obtain ds' where 2: "arrive_all arrive s1 ws = Inr (s', ds')" "run_handlers codec ds' = Inr (concat (map (shown name) ms))"
    using 2(1) [OF 1(3)] by blast
  show ?case using 1(1) 2(1) run_handlers_append [OF 1(2) 2(2)] by simp
qed auto

lemma reported_length: "reported arrive codec name s ws ms s' \<Longrightarrow> length ws = length ms"
  by (induction arrive codec name s ws ms s' rule: reported.induct) auto

text \<open>When the receiver keeps no state, any of the messages can get lost.\<close>

lemma reported_lossy:
  assumes "\<And>s w s' ds. arrive s w = Inr (s', ds) \<Longrightarrow> s' = s" and "reported arrive codec name s ws ms s'"
  shows "reported arrive codec name s (nths ws I) (nths ms I) s"
  using assms(2)
proof (induction ws arbitrary: ms I)
  case Nil
  then show ?case by (cases ms) auto
next
  case (Cons w ws)
  obtain m ms' s1 ds where m: "ms = m # ms'" "arrive s w = Inr (s1, ds)" "run_handlers codec ds = Inr (shown name m)"
    "reported arrive codec name s1 ws ms' s'" using Cons.prems by (cases ms) auto
  have s1: "s1 = s" using assms(1) m(2) by simp
  note IH = Cons.IH [OF m(4) [unfolded s1], of "{j. Suc j \<in> I}"]
  show ?case using IH m(2,3) by (simp add: m(1) nths_Cons s1 del: shown.simps)
qed

lemma test_messages_Cons: "test_messages (inp # inps) n = test_messages [inp] n @ test_messages inps (n + 1)"
  by simp

section \<open>The programs over any library that carries their messages\<close>

locale test_link =
  fixes name :: string
    and send :: "'p \<Rightarrow> string \<Rightarrow> bytes option \<Rightarrow> (bool \<times> 'p \<times> 'w) outcome"
    and arrive :: "'s \<Rightarrow> 'w \<Rightarrow> ('s \<times> (test_handler \<times> string \<times> bytes) list) outcome"
    and linked :: "'p \<Rightarrow> 's \<Rightarrow> bool"
    and fits :: "bytes \<Rightarrow> bool"
  assumes carried: "linked p s \<Longrightarrow> (topic, h) \<in> set test_topics \<Longrightarrow> fits data \<Longrightarrow>
    \<exists>p' w s'. send p topic (Some data) = Inr (True, p', w) \<and>
      arrive s w = Inr (s', [(h, namespaced name topic, data)]) \<and> linked p' s'"
begin

text \<open>Messages sent one after the other, each with the handler that is to get it.\<close>

lemma sent_and_handled:
  assumes "linked p s" and "(topic, h) \<in> set test_topics" and "fits data"
    and "run_handlers codec [(h, namespaced name topic, data)] = Inr rs"
  obtains p' w s' ds where "send p topic (Some data) = Inr (True, p', w)" and "linked p' s'"
    and "arrive s w = Inr (s', ds)" and "run_handlers codec ds = Inr rs"
  using carried [OF assms(1-3)] assms(4) by blast

lemma turn_reported:
  assumes "linked p s" and "n < 2147483647"
    and "\<forall>m \<in> set (test_messages [inp] n). transmits codec fits m"
  shows "\<exists>p' ws log s'. publisher_turn send codec inp (p, n) = Inr ((p', n + 1), ws, log) \<and> linked p' s' \<and>
    reported arrive codec name s ws (test_messages [inp] n) s'"
proof -
  obtain d1 where d1: "ser_reading codec (test_reading inp) = Some d1" "parse_reading codec d1 = Some (test_reading inp)" "fits d1"
    using assms(3) by (auto split: option.splits)
  obtain d2 where d2: "ser_batch codec (test_batch inp n) = Some d2" "parse_batch codec d2 = Some (test_batch inp n)" "fits d2"
    using assms(3) by (auto split: option.splits)
  have t: "(''SensorReading'', OnReading) \<in> set test_topics" "(''SensorDataBatch'', OnBatch) \<in> set test_topics"
    "(''Command'', OnCommand) \<in> set test_topics" by (simp_all add: test_topics_def)
  obtain p1 w1 s1 c1 where a1: "send p ''SensorReading'' (Some d1) = Inr (True, p1, w1)" "linked p1 s1"
    "arrive s w1 = Inr (s1, c1)" "run_handlers codec c1 = Inr (shown name (ReadingMessage (test_reading inp)))"
    using sent_and_handled [OF assms(1) t(1) d1(3) handled_messages(1) [OF d1(2)]] by blast
  obtain p2 w2 s2 c2 where a2: "send p1 ''SensorDataBatch'' (Some d2) = Inr (True, p2, w2)" "linked p2 s2"
    "arrive s1 w2 = Inr (s2, c2)" "run_handlers codec c2 = Inr (shown name (BatchMessage (test_batch inp n)))"
    using sent_and_handled [OF a1(2) t(2) d2(3) handled_messages(2) [OF d2(2)]] by blast
  show ?thesis
  proof (cases "n mod 5 = 0")
    case True
    obtain d3 where d3: "ser_command codec (test_command inp n) = Some d3" "parse_command codec d3 = Some (test_command inp n)" "fits d3"
      using assms(3) True by (auto split: option.splits)
    obtain p3 w3 s3 c3 where a3: "send p2 ''Command'' (Some d3) = Inr (True, p3, w3)" "linked p3 s3"
      "arrive s2 w3 = Inr (s3, c3)" "run_handlers codec c3 = Inr (shown name (CommandMessage (test_command inp n)))"
      using sent_and_handled [OF a2(2) t(3) d3(3) handled_messages(3) [OF d3(2)]] by blast
    show ?thesis
      using assms(2) True a1(4) a2(4) a3(2,4)
      by (simp add: publisher_turn_def Let_def d1(1) d2(1) d3(1) a1(1,3) a2(1,3) a3(1,3) del: shown.simps)
  next
    case False
    show ?thesis
      using assms(2) False a1(4) a2(2,4)
      by (simp add: publisher_turn_def Let_def d1(1) d2(1) a1(1,3) a2(1,3) del: shown.simps)
  qed
qed

lemma run_reported:
  assumes "linked p s" and "n + int (length inps) \<le> 2147483647"
    and "\<forall>m \<in> set (test_messages inps n). transmits codec fits m"
  shows "\<exists>p' ws log s'. publisher_loop send codec inps (p, n) = Inr ((p', n + int (length inps)), ws, log) \<and>
    linked p' s' \<and> reported arrive codec name s ws (test_messages inps n) s'"
  using assms
proof (induction inps arbitrary: p s n)
  case (Cons inp inps)
  have first: "n < 2147483647" "\<forall>m \<in> set (test_messages [inp] n). transmits codec fits m" using Cons.prems(2,3) by auto
  have rest: "(n + 1) + int (length inps) \<le> 2147483647" "\<forall>m \<in> set (test_messages inps (n + 1)). transmits codec fits m"
    using Cons.prems(2,3) by auto
  obtain p1 ws1 log1 s1 where a: "publisher_turn send codec inp (p, n) = Inr ((p1, n + 1), ws1, log1)" "linked p1 s1"
    "reported arrive codec name s ws1 (test_messages [inp] n) s1"
    using turn_reported [OF Cons.prems(1) first] by blast
  obtain p2 ws2 log2 s2 where b: "publisher_loop send codec inps (p1, n + 1) = Inr ((p2, n + 1 + int (length inps)), ws2, log2)"
    "linked p2 s2" "reported arrive codec name s1 ws2 (test_messages inps (n + 1)) s2"
    using Cons.IH [OF a(2) rest] by blast
  have "publisher_loop send codec (inp # inps) (p, n) = Inr ((p2, n + int (length (inp # inps))), ws1 @ ws2, log1 @ log2)"
    by (simp add: a(1) b(1))
  then show ?case
    unfolding test_messages_Cons [of inp inps]
    using b(2) reported_append [OF a(3) b(3)] by blast
qed simp

end

text \<open>A library that hands over what arrives, and remembers nothing.\<close>

locale lossy_test_link = test_link +
  assumes stateless: "arrive s w = Inr (s', ds) \<Longrightarrow> s' = s"
begin

lemma lossy_run_reported:
  assumes "linked p s" and "n + int (length inps) \<le> 2147483647"
    and "\<forall>m \<in> set (test_messages inps n). transmits codec fits m"
  shows "\<exists>p' ws log. publisher_loop send codec inps (p, n) = Inr ((p', n + int (length inps)), ws, log) \<and>
    length ws = length (test_messages inps n) \<and>
    (\<forall>I. reported arrive codec name s (nths ws I) (nths (test_messages inps n) I) s)"
proof -
  obtain p' ws log s' where run: "publisher_loop send codec inps (p, n) = Inr ((p', n + int (length inps)), ws, log)"
    "reported arrive codec name s ws (test_messages inps n) s'"
    using run_reported [OF assms] by blast
  have "reported arrive codec name s (nths ws I) (nths (test_messages inps n) I) s" for I
    by (rule reported_lossy [OF _ run(2)]) (rule stateless)
  then show ?thesis using run(1) reported_length [OF run(2)] by blast
qed

end

section \<open>The Zyre network\<close>

definition zyre_linked :: "string \<Rightarrow> ZyreNode \<Rightarrow> test_handler ZyreSubscriber \<Rightarrow> bool" where
  "zyre_linked name n s \<longleftrightarrow>
     zn_node n \<noteq> None \<and> zn_isRunning n \<and> zn_nodeName n = name \<and> zs_receiving s \<and>
     list_all (\<lambda>(topic, h). zs_handlers s (namespaced name topic) = Some (Some h) \<and> in_group s (namespaced name topic)) test_topics"

interpretation zyre_tests: lossy_test_link name zyre_send zyre_arrive "zyre_linked name" "\<lambda>_. True" for name
proof
  fix n :: ZyreNode and s topic h and data :: bytes
  assume l: "zyre_linked name n s" and "(topic, h) \<in> set test_topics"
  then have "zs_handlers s (namespaced name topic) = Some (Some h)" "in_group s (namespaced name topic)"
    by (auto simp: zyre_linked_def list_all_iff)
  then have "zyre_send n topic (Some data) = Inr (True, n, Some (namespaced name topic, data))"
    "zyre_arrive s (Some (namespaced name topic, data)) = Inr (s, [(h, namespaced name topic, data)])"
    using l by (auto simp: zyre_send_def zyre_publish_def zyre_arrive_def zyre_receive_def zyre_linked_def)
  then show "\<exists>n' w s'. zyre_send n topic (Some data) = Inr (True, n', w) \<and>
      zyre_arrive s w = Inr (s', [(h, namespaced name topic, data)]) \<and> zyre_linked name n' s'"
    using l by blast
next
  fix s s' :: "test_handler ZyreSubscriber" and w ds
  assume "zyre_arrive s w = Inr (s', ds)"
  then show "s' = s" by (auto simp: zyre_arrive_def zyre_receive_def split: option.splits if_splits)
qed

lemma zyre_testers_linked:
  "zyre_linked ''TestZyre'' (zyre_publisher_tester True True ifaddrs args) (zyre_subscriber_tester True True ifaddrs' args')"
  by (simp add: zyre_linked_def zyre_publisher_tester_def zyre_subscriber_tester_def make_ZyreSubscriber_def zyre_subscribe_def
      make_ZyreNode_def node_start_def test_topics_def in_group_def Let_def namespaced_def)

text \<open>
  C12. The Zyre test programs, end to end: whatever times and random numbers the publisher meets, and however
  many turns it runs, it shouts one message after the other, and whichever of them reach the subscriber
  (a set \<open>I\<close> of their numbers; the others are shouted before the nodes have discovered each other), the
  subscriber reports exactly these messages, in order, provided the nodes start and the protobuf library
  parses what it serialised.  What a message is does not depend on the order of the entries of its maps.
\<close>

theorem zyre_testers_agree:
  assumes "length inps \<le> 2147483647"
    and "\<forall>m \<in> set (test_messages inps 0). transmits codec (\<lambda>_. True) m"
  shows "\<exists>p network lines.
    zyre_publisher_main codec True True ifaddrs args inps = Inr ((p, int (length inps)), network, lines) \<and>
    length network = length (test_messages inps 0) \<and>
    (\<forall>I. zyre_subscriber_main codec True True ifaddrs' args' (nths network I) =
      Inr (concat (map (shown ''TestZyre'') (nths (test_messages inps 0) I))))"
proof -
  let ?sub = "zyre_subscriber_tester True True ifaddrs' args'"
  obtain p ws lines where run: "publisher_loop zyre_send codec inps (zyre_publisher_tester True True ifaddrs args, 0) =
      Inr ((p, int (length inps)), ws, lines)" "length ws = length (test_messages inps 0)"
    "\<forall>I. reported zyre_arrive codec ''TestZyre'' ?sub (nths ws I) (nths (test_messages inps 0) I) ?sub"
    using zyre_tests.lossy_run_reported [OF zyre_testers_linked [of ifaddrs args ifaddrs' args'], of 0 inps codec] assms by auto
  have "zyre_subscriber_main codec True True ifaddrs' args' (nths ws I) =
      Inr (concat (map (shown ''TestZyre'') (nths (test_messages inps 0) I)))" for I
    using reported_all [OF run(3) [rule_format, of I]] by (auto simp: zyre_subscriber_main_def)
  then show ?thesis using run(1,2) by (simp add: zyre_publisher_main_def)
qed

section \<open>The UDP datagrams\<close>

lemma string_of_bytes_of [simp]: "string_of (bytes_of t) = t"
proof -
  have "unat (of_nat (of_char c) :: u8) = of_char c" for c :: char
    by (cases c) (simp add: unat_of_nat take_bit_nat_eq_self)
  then show ?thesis by (simp add: string_of_def bytes_of_def comp_def)
qed

lemma bytes_of_inject: "bytes_of t = bytes_of u \<longleftrightarrow> t = u"
  by (metis string_of_bytes_of)

lemma bytes_of_append: "bytes_of (t @ u) = bytes_of t @ bytes_of u"
  by (simp add: bytes_of_def)

lemma bytes_of_namespaced: "bytes_of name @ [0x2F] @ bytes_of topic = bytes_of (namespaced name topic)"
  by (simp add: namespaced_def bytes_of_append) (simp add: bytes_of_def)

lemma receiveLoop_append:
  "receiveLoop host xs s = Inr (s1, ds1) \<Longrightarrow> receiveLoop host ys s1 = Inr (s2, ds2) \<Longrightarrow>
     receiveLoop host (xs @ ys) s = Inr (s2, ds1 @ ds2)"
proof (induction xs arbitrary: s ds1)
  case (Cons x xs)
  show ?case
  proof (cases "sub_running (fst s) \<and> \<not> sub_shouldStop (fst s)")
    case True
    then obtain s0 e f where "receive_step host x s = Inr (s0, e)" "receiveLoop host xs s0 = Inr (s1, f)" "ds1 = e @ f"
      using Cons.prems(1) by (auto simp: obind_eq_Inr_iff)
    then show ?thesis using Cons.IH [of s0 f] Cons.prems(2) True by simp
  next
    case False
    then show ?thesis using Cons.prems by (cases ys) auto
  qed
qed simp

text \<open>When no message is partly there, a time-out changes nothing but the time of the last clean-up.\<close>

lemma receiveLoop_idle:
  assumes "sub_running sub" and "\<not> sub_shouldStop sub" and "sub_partial sub = Map.empty"
  shows "\<exists>lc'. receiveLoop host (map PollTimeout ts) (sub, lc) = Inr ((sub, lc'), [])"
proof (induction ts arbitrary: lc)
  case (Cons t ts)
  have "cleanupStaleMessages t sub = sub" using assms(3) by (simp add: cleanupStaleMessages_def)
  then obtain lc1 where "receive_step host (PollTimeout t) (sub, lc) = Inr ((sub, lc1), [])" by fastforce
  then show ?case using Cons.IH [of lc1] assms(1,2) by auto
qed simp

definition hb_linked :: "HBPublisher \<Rightarrow> (test_handler HBSubscriber \<times> int) \<times> nat \<Rightarrow> bool" where
  "hb_linked pub = (\<lambda>((sub, lc), k).
     pub_name pub = bytes_of ''TestHb'' \<and> pub_mtu pub = 1400 \<and> pub_maxPayload pub = 1400 - sizeof_FragmentHeader \<and>
     0 \<le> pub_socket pub \<and> pub_running pub \<and> sub_running sub \<and> \<not> sub_shouldStop sub \<and> sub_partial sub = Map.empty \<and>
     list_all (\<lambda>(topic, h). sub_handlers sub (bytes_of (namespaced ''TestHb'' topic)) = Some (Some h)) test_topics)"

definition hb_fits :: "bytes \<Rightarrow> bool" where
  "hb_fits data \<longleftrightarrow> length data \<le> 90000000"

lemma hb_sent:
  assumes "hb_linked pub ((sub, lc), k)" and "(topic, h) \<in> set test_topics" and "hb_fits data"
  shows "publishable pub (bytes_of topic) data"
    and "\<exists>sent. hb_send host pub topic (Some data) = Inr (True, pub\<lparr>pub_messageId := pub_messageId pub + 1\<rparr>, sent)"
proof -
  have len: "length (bytes_of topic) \<le> 15" using assms(2) by (auto simp: test_topics_def bytes_of_def)
  have name: "length (pub_name pub) = 6" using assms(1) by (simp add: hb_linked_def bytes_of_def)
  show p: "publishable pub (bytes_of topic) data"
    using assms(1,3) len name by (simp add: publishable_def hb_linked_def hb_fits_def)
  have "fragment_count 1388 T (length data) \<le> 65535" for T
  proof -
    have "length data - (1388 - T) + 1388 - 1 \<le> 90001387" using assms(3) by (simp add: hb_fits_def)
    then have "(length data - (1388 - T) + 1388 - 1) div 1388 \<le> 90001387 div 1388" by (rule div_le_mono)
    then have "1 + (length data - (1388 - T) + 1388 - 1) div 1388 \<le> 65535" by linarith
    then show ?thesis unfolding fragment_count_def by (auto split: if_split simp del: diff_diff_left)
  qed
  then show "\<exists>sent. hb_send host pub topic (Some data) = Inr (True, pub\<lparr>pub_messageId := pub_messageId pub + 1\<rparr>, sent)"
    using publish_fragments [OF p, of "\<lambda>_. True" host] assms(1) by (auto simp: hb_send_def hb_linked_def Let_def not_less)
qed

interpretation hb_tests: test_link "''TestHb''" "hb_send host" "hb_arrive host clock idle" hb_linked hb_fits
  for host clock idle
proof
  fix pub and s :: "(test_handler HBSubscriber \<times> int) \<times> nat" and topic h data
  assume l: "hb_linked pub s" and t: "(topic, h) \<in> set test_topics" and f: "hb_fits data"
  obtain sub lc k where s: "s = ((sub, lc), k)" by (metis surj_pair)
  note l = l [unfolded s]
  have run: "sub_running sub" "\<not> sub_shouldStop sub" "sub_partial sub = Map.empty" "0 \<le> pub_socket pub" "pub_running pub"
    and name: "pub_name pub = bytes_of ''TestHb''" using l by (simp_all add: hb_linked_def)
  have h: "sub_handlers sub (bytes_of (namespaced ''TestHb'' topic)) = Some (Some h)"
    using l t by (auto simp: hb_linked_def list_all_iff)
  obtain sent where sent: "hb_send host pub topic (Some data) = Inr (True, pub\<lparr>pub_messageId := pub_messageId pub + 1\<rparr>, sent)"
    using hb_sent(2) [OF l t f] by blast
  let ?xs = "zip sent (map (clock k) [0..<length sent])"
  have r: "process_all host ?xs sub = Inr (sub, deliverMessage sub (bytes_of (namespaced ''TestHb'' topic)) data)"
    using undisturbed_delivery [OF hb_sent(1) [OF l t f] run(4,5) sent [unfolded hb_send_def] run(3), of ?xs]
    by (auto simp: name bytes_of_namespaced [simplified])
  obtain lc' where idle: "receiveLoop host (map PollTimeout (idle k)) (sub, lc) = Inr ((sub, lc'), [])"
    using receiveLoop_idle [OF run(1-3)] by blast
  have "receiveLoop host (map (\<lambda>(d, t). Received d t) ?xs) (sub, lc) =
      Inr ((sub, lc), [(h, bytes_of (namespaced ''TestHb'' topic), data)])"
    unfolding receiveLoop_process_all [OF run(1,2)] r by (simp add: deliverMessage_def h)
  from receiveLoop_append [OF this idle]
  have arr: "hb_arrive host clock idle s sent = Inr (((sub, lc'), Suc k), [(h, namespaced ''TestHb'' topic, data)])"
    by (simp add: hb_arrive_def s)
  have "hb_linked (pub\<lparr>pub_messageId := pub_messageId pub + 1\<rparr>) ((sub, lc'), Suc k)"
    using l by (simp add: hb_linked_def)
  then show "\<exists>pub' w s'. hb_send host pub topic (Some data) = Inr (True, pub', w) \<and>
      hb_arrive host clock idle s w = Inr (s', [(h, namespaced ''TestHb'' topic, data)]) \<and> hb_linked pub' s'"
    using sent arr by blast
qed

lemma hb_testers_linked:
  assumes "start_succeeds env" and "0 \<le> fd"
  shows "\<exists>sub fds'. hb_subscriber_tester env args fds = Inr (None, sub, fds') \<and>
    hb_linked (hb_publisher_tester fd True) ((sub, lc), k)"
  using assms
  by (simp add: hb_subscriber_tester_def start_def start_succeeds_def make_subscriber_def subscribe_def Let_def hb_linked_def
      hb_publisher_tester_def make_publisher_def test_topics_def bytes_of_inject bytes_of_namespaced [simplified] namespaced_def)

text \<open>
  C5. The high-bandwidth test programs, end to end: whatever the clocks, the pauses and the random numbers are,
  and however many turns the publisher runs, its messages are cut into datagrams and reassembled, and the
  subscriber reports exactly the messages that the publisher built, in order, provided that the datagrams
  arrive in the order in which they are sent, each of them once, that the protobuf library parses what it
  serialised, and that the serialisations have at most ninety megabytes.  What a message is does not depend on
  the order of the entries of its maps.
\<close>

theorem hb_testers_agree:
  assumes "start_succeeds env" and "0 \<le> fd" and "length inps \<le> 2147483647"
    and "\<forall>m \<in> set (test_messages inps 0). transmits codec hb_fits m"
  shows "\<exists>p network lines.
    hb_publisher_main host codec fd True inps = Inr ((p, int (length inps)), network, lines) \<and>
    hb_subscriber_main host codec env args fds clock idle lc network =
      Inr (Inr (concat (map (shown ''TestHb'') (test_messages inps 0))))"
proof -
  obtain sub fds' where s: "hb_subscriber_tester env args fds = Inr (None, sub, fds')"
    "hb_linked (hb_publisher_tester fd True) ((sub, lc), 0)"
    using hb_testers_linked [OF assms(1,2)] by blast
  show ?thesis
    using hb_tests.run_reported [OF s(2), of 0 inps codec host clock idle] assms(3,4)
    by (auto simp: hb_publisher_main_def hb_subscriber_main_def s(1) dest!: reported_all)
qed

section \<open>What ends a subscriber\<close>

lemma run_handler_fault_iff:
  "run_handler codec h topic data = Inl e \<longleftrightarrow>
     e = OutOfBounds \<and> h = OnCommand \<and> (\<exists>msg params. parse_command codec data = Some msg \<and>
       cm_query_params msg = Some params \<and> qp_query_fields params = [])"
  by (cases h) (auto simp: on_command_def load_def obind_eq_Inl_iff Let_def split: option.splits if_splits)

lemma run_handlers_fault_iff:
  "run_handlers codec calls = Inl e \<longleftrightarrow>
     e = OutOfBounds \<and> (\<exists>topic data msg params. (OnCommand, topic, data) \<in> set calls \<and>
       parse_command codec data = Some msg \<and> cm_query_params msg = Some params \<and> qp_query_fields params = [])"
  (is "_ \<longleftrightarrow> e = OutOfBounds \<and> ?C calls")
proof -
  have "omap (\<lambda>(h, topic, data). run_handler codec h topic data) calls = Inl e \<longleftrightarrow> e = OutOfBounds \<and> ?C calls"
  proof (induction calls)
    case (Cons c calls)
    obtain h topic data where c: "c = (h, topic, data)" by (metis surj_pair)
    show ?case
      by (cases "run_handler codec h topic data"; cases "omap (\<lambda>(h, topic, data). run_handler codec h topic data) calls")
        (use Cons.IH run_handler_fault_iff [of codec h topic data] in \<open>auto simp: c obind_eq_Inl_iff\<close>)
  qed simp
  then show ?thesis by (cases "omap (\<lambda>(h, topic, data). run_handler codec h topic data) calls") (auto simp: run_handlers_def)
qed

text \<open>The calls that a shout causes at a receiving Zyre subscriber.\<close>

definition zyre_calls :: "'h ZyreSubscriber \<Rightarrow> (string \<times> bytes) option \<Rightarrow> ('h \<times> string \<times> bytes) list" where
  "zyre_calls s w =
    (case w of
       Some (grp, data) \<Rightarrow> (if in_group s grp then handle_shout s (Shout (Some grp) (Some (Some data))) else [])
     | None \<Rightarrow> [])"

lemma zyre_arrive_all: "zs_receiving s \<Longrightarrow> arrive_all zyre_arrive s ws = Inr (s, concat (map (zyre_calls s) ws))"
  by (induction ws) (auto simp: zyre_arrive_def zyre_calls_def zyre_receive_def split: option.split)

lemma zyre_tester_fields:
  "zs_receiving (zyre_subscriber_tester True True ifaddrs args)"
  "zs_handlers (zyre_subscriber_tester True True ifaddrs args) =
     [namespaced ''TestZyre'' ''SensorReading'' \<mapsto> Some OnReading, namespaced ''TestZyre'' ''SensorDataBatch'' \<mapsto> Some OnBatch,
      namespaced ''TestZyre'' ''Command'' \<mapsto> Some OnCommand]"
  "in_group (zyre_subscriber_tester True True ifaddrs args) (namespaced ''TestZyre'' ''Command'')"
  by (simp_all add: zyre_subscriber_tester_def make_ZyreSubscriber_def zyre_subscribe_def make_ZyreNode_def node_start_def
      in_group_def Let_def)

text \<open>
  What ends the Zyre test subscriber: whatever is shouted, by whomever, the handlers fault exactly when a
  shout on the topic of commands parses to a query without a query field, of which the handler reads the
  first one unconditionally.
\<close>

theorem zyre_tester_fault_iff:
  "zyre_subscriber_main codec True True ifaddrs args network = Inl e \<longleftrightarrow> e = OutOfBounds \<and>
    (\<exists>data msg params. Some (''TestZyre/Command'', data) \<in> set network \<and> parse_command codec data = Some msg \<and>
      cm_query_params msg = Some params \<and> qp_query_fields params = [])"
proof -
  let ?s = "zyre_subscriber_tester True True ifaddrs args"
  define c where "c = namespaced ''TestZyre'' ''Command''"
  have name: "''TestZyre/Command'' = c" by (simp add: c_def namespaced_def)
  have handler: "zs_handlers ?s grp = Some (Some OnCommand) \<longleftrightarrow> grp = c" for grp
    by (auto simp: zyre_tester_fields(2) c_def)
  have member: "in_group ?s c" unfolding c_def by (rule zyre_tester_fields(3))
  have "(OnCommand, topic, data) \<in> set (zyre_calls ?s (Some (grp, d))) \<longleftrightarrow> topic = c \<and> grp = c \<and> d = data" for topic data grp d
    using handler [of grp] member by (auto simp: zyre_calls_def split: option.split)
  then have "(OnCommand, topic, data) \<in> set (zyre_calls ?s w) \<longleftrightarrow> topic = c \<and> w = Some (c, data)" for topic data w
    by (cases w) (auto simp: zyre_calls_def)
  then have "(OnCommand, topic, data) \<in> set (concat (map (zyre_calls ?s) network)) \<longleftrightarrow>
      topic = c \<and> Some (c, data) \<in> set network" for topic data
    by auto
  then have "run_handlers codec (concat (map (zyre_calls ?s) network)) = Inl e \<longleftrightarrow> e = OutOfBounds \<and>
      (\<exists>data msg params. Some (c, data) \<in> set network \<and> parse_command codec data = Some msg \<and>
        cm_query_params msg = Some params \<and> qp_query_fields params = [])"
    unfolding run_handlers_fault_iff by blast
  then show ?thesis
    by (simp add: zyre_subscriber_main_def zyre_arrive_all [OF zyre_tester_fields(1)] name)
qed

text \<open>A subscriber whose node did not start is set up all the same, and gets nothing.\<close>

lemma zyre_tester_not_started: "zyre_subscriber_main codec True False ifaddrs args network = Inr []"
proof -
  let ?s = "zyre_subscriber_tester True False ifaddrs args"
  have "\<not> zs_receiving ?s"
    by (simp add: zyre_subscriber_tester_def make_ZyreSubscriber_def zyre_subscribe_def make_ZyreNode_def node_start_def Let_def)
  then have "arrive_all zyre_arrive ?s network = Inr (?s, [])"
    by (induction network) (auto simp: zyre_arrive_def zyre_receive_def split: option.split)
  then show ?thesis by (simp add: zyre_subscriber_main_def)
qed

text \<open>The publisher logs a message as published whatever the library answers.\<close>

definition publisher_reports :: "turn_input \<Rightarrow> int \<Rightarrow> report list" where
  "publisher_reports inp n =
     [PublishedReading ''Temperature Sensor'' (sr_value (test_reading inp)) ''celsius'',
      PublishedBatch (''batch-'' @ to_string n) 3] @
     (if n mod 5 = 0 then [PublishedCommand (''cmd-'' @ to_string n) 5] else [])"

lemma published_regardless:
  assumes "publisher_turn send codec inp (p, n) = Inr (s, ws, reports)"
  shows "reports = publisher_reports inp n"
proof -
  have "sr_sensor_name (test_reading inp) = ''Temperature Sensor''" "sr_unit (test_reading inp) = ''celsius''"
    "sb_batch_id (test_batch inp n) = ''batch-'' @ to_string n" "length (sb_readings (test_batch inp n)) = 3"
    "cm_command_id (test_command inp n) = ''cmd-'' @ to_string n" "cm_type (test_command inp n) = 5"
    by (simp_all add: test_reading_def test_batch_def test_command_def COMMAND_TYPE_QUERY_def Let_def)
  then show ?thesis
    using assms by (auto simp: publisher_turn_def publisher_reports_def obind_eq_Inr_iff Let_def split: if_splits)
qed

section \<open>Instances\<close>

text \<open>
  Turns at the times 0 and 1, and a codec that writes the time of a message and rebuilds the message of that
  turn.
\<close>

definition example_turn :: "int \<Rightarrow> turn_input" where
  "example_turn t = \<lparr>ti_epochMs = t, ti_temp = Finite 1, ti_batch = (\<lambda>_. Finite 2)\<rparr>"

definition example_test_codec :: test_codec where
  "example_test_codec =
     \<lparr>ser_reading = (\<lambda>m. Some [word_of_int (sr_timestamp_ms m)]),
      ser_batch = (\<lambda>m. Some [word_of_int (sb_created_at_ms m)]),
      ser_command = (\<lambda>m. Some [word_of_int (cm_issued_at_ms m)]),
      parse_reading = (\<lambda>d. Some (test_reading (example_turn (uint (hd d))))),
      parse_batch = (\<lambda>d. Some (test_batch (example_turn (uint (hd d))) (uint (hd d)))),
      parse_command = (\<lambda>d. Some (test_command (example_turn (uint (hd d))) (uint (hd d))))\<rparr>"

lemma example_transmits:
  assumes "\<And>b. fits [b]"
  shows "\<forall>m \<in> set (test_messages [example_turn 0, example_turn 1] 0). transmits example_test_codec fits m"
proof -
  have "sr_timestamp_ms (test_reading (example_turn t)) = t" "sb_created_at_ms (test_batch (example_turn t) n) = t"
    "cm_issued_at_ms (test_command (example_turn t) n) = t" for t n
    by (simp_all add: test_reading_def test_batch_def test_command_def example_turn_def Let_def)
  then show ?thesis using assms by (simp add: example_test_codec_def)
qed

text \<open>The first message is lost.\<close>

theorem zyre_testers_agree_witness:
  "\<exists>p network lines.
    zyre_publisher_main example_test_codec True True None [] [example_turn 0, example_turn 1] = Inr ((p, 2), network, lines) \<and>
    length network = 5 \<and>
    zyre_subscriber_main example_test_codec True True None [''eth0''] (nths network {1..}) =
      Inr (concat (map (shown ''TestZyre'') (tl (test_messages [example_turn 0, example_turn 1] 0))))"
proof -
  let ?ms = "test_messages [example_turn 0, example_turn 1] 0"
  have "nths ?ms {1..} = tl ?ms" "length ?ms = 5" by (simp_all add: nths_Cons)
  then show ?thesis
    using zyre_testers_agree [OF _ example_transmits, of None "[]" None "[''eth0'']"] by (auto simp del: test_messages.simps)
qed

theorem hb_testers_agree_witness:
  "\<exists>p network lines.
    hb_publisher_main LittleEndian example_test_codec 3 True [example_turn 0, example_turn 1] = Inr ((p, 2), network, lines) \<and>
    hb_subscriber_main LittleEndian example_test_codec
      \<lparr>env_socket = 5, env_bind_ok = True, env_group_ok = True, env_interface_ok = True, env_join_ok = True\<rparr>
      [] {} (\<lambda>k i. int k) (\<lambda>k. [int k, int k + 600000000]) 0 network =
      Inr (Inr (concat (map (shown ''TestHb'') (test_messages [example_turn 0, example_turn 1] 0))))"
  using hb_testers_agree [OF _ _ _ example_transmits,
      of "\<lparr>env_socket = 5, env_bind_ok = True, env_group_ok = True, env_interface_ok = True, env_join_ok = True\<rparr>" 3
      LittleEndian "[]" "{}" "\<lambda>k i. int k" "\<lambda>k. [int k, int k + 600000000]" 0]
  by (simp add: start_succeeds_def hb_fits_def del: test_messages.simps)

end
