(* ===== verification/DdsDrivers.thy ===== *)
theory DdsDrivers
  imports FileCodec OmniscopeApp "HOL-Library.Sublist"
begin

text \<open>
  The test programs of the DDS wrappers, \<open>src/apps/TestApps/DDSPublisherTest.cpp\<close> and
  \<open>DDSSubscriberTest.cpp\<close> (of which \<open>src/apps/DDSSubscriberTest.cpp\<close> is an older copy), and the start of the
  monitor, \<open>src/apps/Omniscope/main.cpp\<close>.

  \<^item> The classes that the IDL compiler generates are records; a message header, which no program sets, has
    its default.
  \<^item> An uncaught exception of \<open>std::stoul\<close> is the fault \<open>BadNumber\<close> (no number) or \<open>OutOfRangeException\<close>.
  \<^item> Time and random numbers of a turn are the record \<open>dds_turn\<close>; a main loop runs one turn for each time it
    finds the flag set.  The polls of the two reader threads of the subscriber are a list of events.

  The lemmas show that the subscriber reports the samples that the publisher built, and what becomes of the
  arguments of the monitor.
\<close>

section \<open>Arguments\<close>

text \<open>\<open>std::stoul\<close>, base ten: a minus sign negates the value as an unsigned one.\<close>

definition is_digit :: "char \<Rightarrow> bool" where
  "is_digit c \<longleftrightarrow> 48 \<le> (of_char c :: nat) \<and> (of_char c :: nat) \<le> 57"

definition std_stoul :: "string \<Rightarrow> u64 outcome" where
  "std_stoul s =
    (let s = dropWhile is_space s;
         (negative, ds) = (case s of
             [] \<Rightarrow> (False, [])
           | c # cs \<Rightarrow> if c = CHR ''-'' then (True, cs) else if c = CHR ''+'' then (False, cs) else (False, s))
     in if ds = [] \<or> \<not> is_digit (hd ds) then Inl BadNumber
        else let v = digits_value 0 ds
             in if v \<ge> 2 ^ 64 then Inl OutOfRangeException
                else Inr (word_of_int (if negative then - v else v)))"

text \<open>The optional first argument, narrowed to 32 bits.\<close>

definition domain_argument :: "string list \<Rightarrow> u32 outcome" where
  "domain_argument args =
    (case args of [] \<Rightarrow> Inr 0 | a # _ \<Rightarrow> obind (std_stoul a) (\<lambda>v. Inr (ucast v)))"

section \<open>The monitor\<close>

definition omniscope_main ::
  "string list \<Rightarrow> bool \<times> bool \<Rightarrow> bool \<times> bool \<Rightarrow> ifaddr list option \<Rightarrow> (string \<rightharpoonup> string) \<Rightarrow>
   (u32 \<times> u16 \<times> OmniscopeApp) outcome" where
  "omniscope_main args sub_ok pub_ok ifaddrs disk =
     obind (domain_argument args) (\<lambda>domainId.
     obind (case args of _ # a # _ \<Rightarrow> obind (std_stoul a) (\<lambda>v. Inr (ucast v)) | _ \<Rightarrow> Inr 8080) (\<lambda>httpPort.
     let zyreNamespace = (case args of _ # _ # a # _ \<Rightarrow> a | _ \<Rightarrow> ''TestZyre'');
         app = make_OmniscopeApp disk
     in obind make_TransportDds (\<lambda>dds.
        let app = addTransport app (Dds dds);
            app = addTransport app (Zyre (make_TransportZyre sub_ok pub_ok ifaddrs zyreNamespace))
        in Inr (domainId, httpPort, run_setup app))))"

section \<open>Samples\<close>

record DdsMessageHeader =
  mh_message_type :: string
  mh_timestamp_ns :: int

record DdsSensorReading =
  dr_header :: DdsMessageHeader
  dr_sensor_id :: string
  dr_sensor_name :: string
  dr_value :: fp
  dr_unit :: string
  dr_timestamp_ms :: int
  dr_quality :: int
  dr_status :: int
  dr_latitude :: fp
  dr_longitude :: fp
  dr_altitude :: fp

record DdsTrackUpdate =
  du_header :: DdsMessageHeader
  du_track_id :: string
  du_track_name :: string
  du_latitude :: fp
  du_longitude :: fp
  du_altitude :: fp
  du_heading :: fp
  du_speed :: fp
  du_classification :: int
  du_timestamp_ms :: int
  du_update_number :: int
  du_confidence :: fp

datatype dds_report =
    UsingDomain u32
  | PublishedSamples int
  | PublisherShutdown int
  | SensorLine string fp string int
  | TrackLine string fp fp fp fp fp
  | SubscriberRunning
  | SubscriberShutdown

section \<open>The publisher\<close>

record dds_turn =
  dt_epochMs :: int
  dt_temp :: fp
  dt_lat :: fp
  dt_lon :: fp
  dt_heading :: fp
  dt_speed :: fp

definition dds_sensor :: "dds_turn \<Rightarrow> DdsSensorReading" where
  "dds_sensor inp =
     \<lparr>dr_header = \<lparr>mh_message_type = '''', mh_timestamp_ns = 0\<rparr>, dr_sensor_id = ''sensor-001'',
      dr_sensor_name = ''Temperature Sensor'', dr_value = dt_temp inp, dr_unit = ''celsius'',
      dr_timestamp_ms = dt_epochMs inp, dr_quality = 95, dr_status = 1, dr_latitude = round64 (377749 / 10000),
      dr_longitude = round64 (- 1224194 / 10000), dr_altitude = Finite 10\<rparr>"

definition dds_track :: "dds_turn \<Rightarrow> int \<Rightarrow> DdsTrackUpdate" where
  "dds_track inp sequence =
     \<lparr>du_header = \<lparr>mh_message_type = '''', mh_timestamp_ns = 0\<rparr>, du_track_id = ''track-alpha'',
      du_track_name = ''Aircraft Alpha'', du_latitude = dt_lat inp, du_longitude = dt_lon inp,
      du_altitude = Finite 10000, du_heading = dt_heading inp, du_speed = dt_speed inp, du_classification = 1,
      du_timestamp_ms = dt_epochMs inp, du_update_number = sequence, du_confidence = round64 (95 / 100)\<rparr>"

record dds_pub_state =
  dps_sensorPub :: DDSPublisher
  dps_trackPub :: DDSPublisher
  dps_sequence :: int

text \<open>One turn of the loop: what the two writers write, and the log.\<close>

definition dds_publisher_turn ::
  "dds_turn \<Rightarrow> dds_pub_state \<Rightarrow>
   (dds_pub_state \<times> (string \<times> qos \<times> DdsSensorReading) \<times> (string \<times> qos \<times> DdsTrackUpdate) \<times> dds_report list) outcome" where
  "dds_publisher_turn inp st =
    (let (sensorPub, w1) = dds_publish (dps_sensorPub st) (dds_sensor inp);
         (trackPub, w2) = dds_publish (dps_trackPub st) (dds_track inp (dps_sequence st))
     in if dps_sequence st = 2147483647 then Inl SignedOverflow
        else
          let n = dps_sequence st + 1
          in Inr (\<lparr>dps_sensorPub = sensorPub, dps_trackPub = trackPub, dps_sequence = n\<rparr>, w1, w2,
                  if n mod 100 = 0 then [PublishedSamples n] else []))"

fun dds_publisher_loop ::
  "dds_turn list \<Rightarrow> dds_pub_state \<Rightarrow>
   (dds_pub_state \<times> (string \<times> qos \<times> DdsSensorReading) list \<times> (string \<times> qos \<times> DdsTrackUpdate) list \<times> dds_report list) outcome"
where
  "dds_publisher_loop [] st = Inr (st, [], [], [])"
| "dds_publisher_loop (inp # inps) st =
     obind (dds_publisher_turn inp st) (\<lambda>(st, w1, w2, r).
     obind (dds_publisher_loop inps st) (\<lambda>(st, ws1, ws2, rs). Inr (st, w1 # ws1, w2 # ws2, r @ rs)))"

definition dds_publisher_main ::
  "string list \<Rightarrow> dds_turn list \<Rightarrow>
   ((string \<times> qos \<times> DdsSensorReading) list \<times> (string \<times> qos \<times> DdsTrackUpdate) list \<times> dds_report list) outcome" where
  "dds_publisher_main args inps =
     obind (domain_argument args) (\<lambda>domainId.
     let config = defaultInitialize
     in obind (getEntry config SENSOR_TOPIC) (\<lambda>sensorEntry.
        obind (getEntry config TRACK_TOPIC) (\<lambda>trackEntry.
        obind (dds_publisher_loop inps
                \<lparr>dps_sensorPub = make_DDSPublisher sensorEntry, dps_trackPub = make_DDSPublisher trackEntry,
                 dps_sequence = 0\<rparr>) (\<lambda>(st, ws1, ws2, rs).
          Inr (ws1, ws2, [UsingDomain domainId] @ rs @ [PublisherShutdown (dps_sequence st)])))))"

section \<open>The subscriber\<close>

datatype dds_poll = SensorPoll "(DdsSensorReading \<times> bool) list" | TrackPoll "(DdsTrackUpdate \<times> bool) list"

definition sensor_line :: "DdsSensorReading \<Rightarrow> dds_report" where
  "sensor_line msg = SensorLine (dr_sensor_id msg) (dr_value msg) (dr_unit msg) (dr_quality msg)"

definition track_line :: "DdsTrackUpdate \<Rightarrow> dds_report" where
  "track_line msg = TrackLine (du_track_id msg) (du_latitude msg) (du_longitude msg) (du_altitude msg) (du_heading msg) (du_speed msg)"

fun poll_reports :: "unit DDSSubscriber \<Rightarrow> unit DDSSubscriber \<Rightarrow> dds_poll \<Rightarrow> dds_report list" where
  "poll_reports sensorSub trackSub (SensorPoll xs) = map (\<lambda>(_, msg). sensor_line msg) (poll_turn sensorSub xs)"
| "poll_reports sensorSub trackSub (TrackPoll xs) = map (\<lambda>(_, msg). track_line msg) (poll_turn trackSub xs)"

text \<open>
  The program, for the names of its two topics: the polls before and after the main thread stops the
  subscribers.
\<close>

definition dds_subscriber_program ::
  "string \<Rightarrow> string \<Rightarrow> string list \<Rightarrow> dds_poll list \<Rightarrow> dds_poll list \<Rightarrow> dds_report list outcome" where
  "dds_subscriber_program sensorTopic trackTopic args polls late =
     obind (domain_argument args) (\<lambda>domainId.
     let config = defaultInitialize
     in obind (getEntry config sensorTopic) (\<lambda>sensorEntry.
        let sensorSub = dds_subscribe (make_DDSSubscriber sensorEntry) (Some ())
        in obind (getEntry config trackTopic) (\<lambda>trackEntry.
        let trackSub = dds_subscribe (make_DDSSubscriber trackEntry) (Some ())
        in obind (dds_start sensorSub) (\<lambda>sensorSub.
           obind (dds_start trackSub) (\<lambda>trackSub.
           let reports = concat (map (poll_reports sensorSub trackSub) polls);
               sensorSub = dds_stop sensorSub;
               trackSub = dds_stop trackSub;
               stopped = concat (map (poll_reports sensorSub trackSub) late)
           in Inr ([UsingDomain domainId, SubscriberRunning] @ reports @ stopped @ [SubscriberShutdown]))))))"

definition dds_subscriber_main :: "string list \<Rightarrow> dds_poll list \<Rightarrow> dds_poll list \<Rightarrow> dds_report list outcome" where
  "dds_subscriber_main = dds_subscriber_program SENSOR_TOPIC TRACK_TOPIC"

text \<open>The older copy writes the names of the topics out.\<close>

definition dds_subscriber_copy :: "string list \<Rightarrow> dds_poll list \<Rightarrow> dds_poll list \<Rightarrow> dds_report list outcome" where
  "dds_subscriber_copy = dds_subscriber_program ''SensorTopic'' ''TrackTopic''"

lemma dds_subscriber_copy_eq: "dds_subscriber_copy = dds_subscriber_main"
  by (simp add: dds_subscriber_copy_def dds_subscriber_main_def SENSOR_TOPIC_def TRACK_TOPIC_def)

section \<open>What is written and what is reported\<close>

text \<open>A publisher of an entry that writes with the topic and the policies of the entry.\<close>

definition writes_for :: "TopicEntry \<Rightarrow> DDSPublisher \<Rightarrow> bool" where
  "writes_for e p \<longleftrightarrow> dp_entry p = e \<and> dp_writer p \<in> {None, Some (te_topicName e, te_writerQos e)}"

lemma writes_for_make [simp]: "writes_for e (make_DDSPublisher e)"
  by (simp add: writes_for_def make_DDSPublisher_def)

lemma dds_publish_writes:
  assumes "writes_for e p"
  obtains p' where "dds_publish p d = (p', te_topicName e, te_writerQos e, d)" and "writes_for e p'"
proof -
  have "dds_publish p d = (p\<lparr>dp_writer := Some (te_topicName e, te_writerQos e)\<rparr>, te_topicName e, te_writerQos e, d)"
    using assms by (auto simp: writes_for_def dds_publish_def getOrCreateWriter_def Let_def)
  moreover have "writes_for e (p\<lparr>dp_writer := Some (te_topicName e, te_writerQos e)\<rparr>)"
    using assms by (simp add: writes_for_def)
  ultimately show thesis by (rule that)
qed

fun track_samples :: "dds_turn list \<Rightarrow> int \<Rightarrow> DdsTrackUpdate list" where
  "track_samples [] n = []"
| "track_samples (inp # inps) n = dds_track inp n # track_samples inps (n + 1)"

lemma dds_publisher_loop_writes:
  assumes "writes_for e1 (dps_sensorPub st)" and "writes_for e2 (dps_trackPub st)"
    and "dps_sequence st + int (length inps) \<le> 2147483647"
  shows "\<exists>st' rs. dds_publisher_loop inps st =
      Inr (st', map (\<lambda>inp. (te_topicName e1, te_writerQos e1, dds_sensor inp)) inps,
           map (\<lambda>d. (te_topicName e2, te_writerQos e2, d)) (track_samples inps (dps_sequence st)), rs) \<and>
    dps_sequence st' = dps_sequence st + int (length inps)"
  using assms
proof (induction inps arbitrary: st)
  case (Cons inp inps)
  obtain p1 where p1: "dds_publish (dps_sensorPub st) (dds_sensor inp) = (p1, te_topicName e1, te_writerQos e1, dds_sensor inp)"
    "writes_for e1 p1" by (rule dds_publish_writes [OF Cons.prems(1)])
  obtain p2 where p2: "dds_publish (dps_trackPub st) (dds_track inp (dps_sequence st)) =
      (p2, te_topicName e2, te_writerQos e2, dds_track inp (dps_sequence st))" "writes_for e2 p2"
    by (rule dds_publish_writes [OF Cons.prems(2)])
  let ?st = "\<lparr>dps_sensorPub = p1, dps_trackPub = p2, dps_sequence = dps_sequence st + 1\<rparr>"
  have turn: "\<exists>r. dds_publisher_turn inp st = Inr (?st, (te_topicName e1, te_writerQos e1, dds_sensor inp),
      (te_topicName e2, te_writerQos e2, dds_track inp (dps_sequence st)), r)"
    using Cons.prems(3) by (simp add: dds_publisher_turn_def p1(1) p2(1) Let_def)
  have "dps_sequence ?st + int (length inps) \<le> 2147483647" using Cons.prems(3) by simp
  then show ?case using Cons.IH [of ?st] p1(2) p2(2) turn by auto
qed simp

definition valid_sensors :: "dds_poll list \<Rightarrow> DdsSensorReading list" where
  "valid_sensors polls = concat (map (\<lambda>e. case e of SensorPoll xs \<Rightarrow> map fst (filter snd xs) | _ \<Rightarrow> []) polls)"

definition valid_tracks :: "dds_poll list \<Rightarrow> DdsTrackUpdate list" where
  "valid_tracks polls = concat (map (\<lambda>e. case e of TrackPoll xs \<Rightarrow> map fst (filter snd xs) | _ \<Rightarrow> []) polls)"

definition is_sensor_line :: "dds_report \<Rightarrow> bool" where
  "is_sensor_line r = (case r of SensorLine _ _ _ _ \<Rightarrow> True | _ \<Rightarrow> False)"

definition is_track_line :: "dds_report \<Rightarrow> bool" where
  "is_track_line r = (case r of TrackLine _ _ _ _ _ _ \<Rightarrow> True | _ \<Rightarrow> False)"

lemma poll_reports_lines:
  assumes "ds_running s1" "ds_pollThread s1" "ds_reader s1 \<noteq> None" "ds_handler s1 = Some ()"
    and "ds_running s2" "ds_pollThread s2" "ds_reader s2 \<noteq> None" "ds_handler s2 = Some ()"
  shows "filter is_sensor_line (concat (map (poll_reports s1 s2) polls)) = map sensor_line (valid_sensors polls)"
    and "filter is_track_line (concat (map (poll_reports s1 s2) polls)) = map track_line (valid_tracks polls)"
proof -
  have t: "poll_turn s1 xs = map (\<lambda>(d, _). ((), d)) (filter snd xs)" for xs :: "(DdsSensorReading \<times> bool) list"
    using assms(1-4) by (auto simp: poll_turn_def)
  have u: "poll_turn s2 xs = map (\<lambda>(d, _). ((), d)) (filter snd xs)" for xs :: "(DdsTrackUpdate \<times> bool) list"
    using assms(5-8) by (auto simp: poll_turn_def)
  have kinds: "is_sensor_line (sensor_line m)" "\<not> is_track_line (sensor_line m)"
    "is_track_line (track_line q)" "\<not> is_sensor_line (track_line q)" for m q
    by (simp_all add: is_sensor_line_def is_track_line_def sensor_line_def track_line_def)
  have "poll_reports s1 s2 (SensorPoll xs) = map (sensor_line \<circ> fst) (filter snd xs)" for xs
    by (simp add: t comp_def split_beta)
  moreover have "poll_reports s1 s2 (TrackPoll xs) = map (track_line \<circ> fst) (filter snd xs)" for xs
    by (simp add: u comp_def split_beta)
  ultimately have "filter is_sensor_line (poll_reports s1 s2 e) = map sensor_line (valid_sensors [e])"
    "filter is_track_line (poll_reports s1 s2 e) = map track_line (valid_tracks [e])" for e
    by (cases e; simp add: valid_sensors_def valid_tracks_def filter_map comp_def kinds del: poll_reports.simps)+
  then show "filter is_sensor_line (concat (map (poll_reports s1 s2) polls)) = map sensor_line (valid_sensors polls)"
    "filter is_track_line (concat (map (poll_reports s1 s2) polls)) = map track_line (valid_tracks polls)"
    by (induction polls) (simp_all add: valid_sensors_def valid_tracks_def)
qed

text \<open>The subscriber reports the valid samples of each topic that it takes before it stops, in order.\<close>

lemma dds_subscriber_reports:
  assumes "domain_argument args = Inr d"
  shows "\<exists>rs. dds_subscriber_main args polls late = Inr rs \<and>
    filter is_sensor_line rs = map sensor_line (valid_sensors polls) \<and>
    filter is_track_line rs = map track_line (valid_tracks polls)"
proof -
  obtain e1 where e1: "getEntry defaultInitialize SENSOR_TOPIC = Inr e1"
    using defaultInitialize_compatible(1) [of SENSOR_TOPIC] by (auto simp: hasTopic_iff_getEntry safe_iff_ex)
  obtain e2 where e2: "getEntry defaultInitialize TRACK_TOPIC = Inr e2"
    using defaultInitialize_compatible(1) [of TRACK_TOPIC] by (auto simp: hasTopic_iff_getEntry safe_iff_ex)
  define sub :: "TopicEntry \<Rightarrow> unit DDSSubscriber" where
    "sub e = (dds_subscribe (make_DDSSubscriber e) (Some ()))\<lparr>ds_running := True, ds_pollThread := True\<rparr>" for e
  have start: "dds_start (dds_subscribe (make_DDSSubscriber e) (Some ())) = Inr (sub e)" for e
    by (simp add: sub_def dds_start_def dds_subscribe_def make_DDSSubscriber_def Let_def)
  have fields: "ds_running (sub e)" "ds_pollThread (sub e)" "ds_reader (sub e) \<noteq> None" "ds_handler (sub e) = Some ()" for e
    by (simp_all add: sub_def dds_subscribe_def)
  have wf: "wf_dds (sub e)" for e by (simp add: wf_dds_def fields)
  have silent: "poll_reports (dds_stop (sub e1)) (dds_stop (sub e2)) p = []" for p
    by (cases p) (simp_all add: poll_stopped [OF wf])
  have other: "\<not> is_sensor_line r" "\<not> is_track_line r" if "r \<in> {UsingDomain d, SubscriberRunning, SubscriberShutdown}" for r
    using that by (auto simp: is_sensor_line_def is_track_line_def)
  have main: "dds_subscriber_main args polls late = Inr ([UsingDomain d, SubscriberRunning] @
      concat (map (poll_reports (sub e1) (sub e2)) polls) @ [SubscriberShutdown])"
    by (simp add: dds_subscriber_main_def dds_subscriber_program_def assms e1 e2 start silent Let_def)
  show ?thesis
    unfolding main
    using poll_reports_lines [OF fields [of e1] fields [of e2], of polls] other by simp
qed

text \<open>
  The DDS test programs, end to end: the publisher writes one sensor sample and one numbered track sample
  per turn, on topics whose readers are compatible; when the sensor samples arrive (in any grouping, with
  invalid ones in between) the subscriber reports each of them in order, and of the best-effort track
  samples those that arrive.
\<close>

theorem dds_testers_agree:
  assumes "domain_argument args = Inr d" and "domain_argument args' = Inr d'" and "length inps \<le> 2147483647"
    and "valid_sensors polls = map dds_sensor inps" and "subseq (valid_tracks polls) (track_samples inps 0)"
  shows "\<exists>e1 e2 ws1 ws2 lines rs.
    getEntry defaultInitialize SENSOR_TOPIC = Inr e1 \<and> getEntry defaultInitialize TRACK_TOPIC = Inr e2 \<and>
    rxo_compatible (te_writerQos e1) (te_readerQos e1) \<and> rxo_compatible (te_writerQos e2) (te_readerQos e2) \<and>
    dds_publisher_main args inps = Inr (ws1, ws2, lines) \<and> last lines = PublisherShutdown (int (length inps)) \<and>
    ws1 = map (\<lambda>inp. (SENSOR_TOPIC, te_writerQos e1, dds_sensor inp)) inps \<and>
    ws2 = map (\<lambda>t. (TRACK_TOPIC, te_writerQos e2, t)) (track_samples inps 0) \<and>
    dds_subscriber_main args' polls late = Inr rs \<and>
    filter is_sensor_line rs = map (\<lambda>inp. SensorLine ''sensor-001'' (dt_temp inp) ''celsius'' 95) inps \<and>
    subseq (filter is_track_line rs)
      (map (\<lambda>inp. TrackLine ''track-alpha'' (dt_lat inp) (dt_lon inp) (Finite 10000) (dt_heading inp) (dt_speed inp)) inps)"
proof -
  obtain e1 where e1: "getEntry defaultInitialize SENSOR_TOPIC = Inr e1"
    using defaultInitialize_compatible(1) [of SENSOR_TOPIC] by (auto simp: hasTopic_iff_getEntry safe_iff_ex)
  obtain e2 where e2: "getEntry defaultInitialize TRACK_TOPIC = Inr e2"
    using defaultInitialize_compatible(1) [of TRACK_TOPIC] by (auto simp: hasTopic_iff_getEntry safe_iff_ex)
  note ok = defaultInitialize_compatible(2) [OF e1] defaultInitialize_compatible(2) [OF e2]
  let ?st = "\<lparr>dps_sensorPub = make_DDSPublisher e1, dps_trackPub = make_DDSPublisher e2, dps_sequence = 0\<rparr>"
  obtain st rs0 where loop: "dds_publisher_loop inps ?st =
      Inr (st, map (\<lambda>inp. (SENSOR_TOPIC, te_writerQos e1, dds_sensor inp)) inps,
           map (\<lambda>t. (TRACK_TOPIC, te_writerQos e2, t)) (track_samples inps 0), rs0)" "dps_sequence st = int (length inps)"
    using dds_publisher_loop_writes [of e1 ?st e2 inps] assms(3) ok by auto
  obtain rs where rs: "dds_subscriber_main args' polls late = Inr rs"
    "filter is_sensor_line rs = map sensor_line (map dds_sensor inps)"
    "filter is_track_line rs = map track_line (valid_tracks polls)"
    using dds_subscriber_reports [OF assms(2), of polls late] assms(4) by auto
  have tracks: "map track_line (track_samples inps n) =
      map (\<lambda>inp. TrackLine ''track-alpha'' (dt_lat inp) (dt_lon inp) (Finite 10000) (dt_heading inp) (dt_speed inp)) inps" for n
    by (induction inps arbitrary: n) (simp_all add: track_line_def dds_track_def)
  have "map sensor_line (map dds_sensor inps) = map (\<lambda>inp. SensorLine ''sensor-001'' (dt_temp inp) ''celsius'' 95) inps"
    by (simp add: sensor_line_def dds_sensor_def)
  then show ?thesis
    using ok loop rs(1,2) subseq_map [OF assms(5), of track_line] unfolding rs(3) tracks
    by (simp add: dds_publisher_main_def assms(1) e1 e2 Let_def rs(3))
qed

section \<open>The arguments of the monitor\<close>

text \<open>Without arguments the monitor is the application \<open>main_app\<close>, on domain 0 and port 8080.\<close>

lemma omniscope_main_default:
  "omniscope_main [] (True, True) (True, True) None Map.empty = obind main_app (\<lambda>app. Inr (0, 8080, app))"
proof -
  obtain t :: "unit TransportDds" where t: "make_TransportDds = Inr t"
    using make_TransportDds_ok [where 'a = unit] by (auto simp: safe_iff_ex)
  show ?thesis by (simp add: omniscope_main_def domain_argument_def main_app_def Let_def t)
qed

text \<open>
  A port above 65535 is not rejected: the monitor listens on another one; neither is a negative domain.
\<close>

lemma port_truncated:
  "\<exists>app. omniscope_main [''-1'', ''70000''] sub_ok pub_ok ifaddrs disk = Inr (4294967295, 4464, app)"
proof -
  obtain t :: "unit TransportDds" where t: "make_TransportDds = Inr t"
    using make_TransportDds_ok [where 'a = unit] by (auto simp: safe_iff_ex)
  have "std_stoul ''-1'' = Inr 18446744073709551615" "std_stoul ''70000'' = Inr 70000"
    by (simp_all add: std_stoul_def is_space_def is_digit_def Let_def word_of_int_minus)
  then show ?thesis by (simp add: omniscope_main_def domain_argument_def t Let_def)
qed

lemma no_number_aborts: "omniscope_main [''x''] sub_ok pub_ok ifaddrs disk = Inl BadNumber"
  by (simp add: omniscope_main_def domain_argument_def std_stoul_def is_space_def is_digit_def Let_def)

section \<open>Instances\<close>

definition example_dds_turn :: dds_turn where
  "example_dds_turn = \<lparr>dt_epochMs = 5, dt_temp = Finite 21, dt_lat = Finite 37, dt_lon = Finite (- 122),
     dt_heading = Finite 90, dt_speed = Finite 50\<rparr>"

definition example_polls :: "dds_poll list" where
  "example_polls =
     [SensorPoll [(dds_sensor example_dds_turn, True), (dds_sensor example_dds_turn, False)],
      TrackPoll [(dds_track example_dds_turn 1, True)], SensorPoll [(dds_sensor example_dds_turn, True)]]"

theorem dds_testers_agree_witness:
  "\<exists>ws1 ws2 lines rs.
    dds_publisher_main [] [example_dds_turn, example_dds_turn] = Inr (ws1, ws2, lines) \<and> last lines = PublisherShutdown 2 \<and>
    map (snd \<circ> snd) ws1 = [dds_sensor example_dds_turn, dds_sensor example_dds_turn] \<and>
    dds_subscriber_main [''0''] example_polls [TrackPoll [(dds_track example_dds_turn 0, True)]] = Inr rs \<and>
    filter is_sensor_line rs = [SensorLine ''sensor-001'' (Finite 21) ''celsius'' 95, SensorLine ''sensor-001'' (Finite 21) ''celsius'' 95]"
proof -
  have "domain_argument [''0''] = Inr 0" "domain_argument [] = Inr 0"
    by (simp_all add: domain_argument_def std_stoul_def is_space_def is_digit_def Let_def)
  moreover have "valid_sensors example_polls = map dds_sensor [example_dds_turn, example_dds_turn]"
    "subseq (valid_tracks example_polls) (track_samples [example_dds_turn, example_dds_turn] 0)"
    by (simp_all add: example_polls_def valid_sensors_def valid_tracks_def subseq_singleton_left)
  moreover have "dt_temp example_dds_turn = Finite 21" by (simp add: example_dds_turn_def)
  ultimately show ?thesis
    using dds_testers_agree [of "[]" 0 "[''0'']" 0 "[example_dds_turn, example_dds_turn]" example_polls
        "[TrackPoll [(dds_track example_dds_turn 0, True)]]"] by auto
qed

end
