(* ===== verification/GeneralLogger.thy ===== *)
theory GeneralLogger
  imports Prelude
begin

text \<open>
  \<open>src/libs/CommonUtils/GeneralLogger.cpp\<close> and \<open>GeneralLogger.h\<close>: the two loggers that all programs share.

  \<^item> The log library is not part of the repository.  A logger is the record of what the code tells it
    (sinks, level, pattern, size of the backtrace), and the calls to it are the list of \<open>log_effect\<close>s that an
    operation returns.
  \<^item> Whether a logger can be registered under its name (\<open>register_logger\<close> throws when the name is taken) and
    which sinks a message of a level reaches are arguments; \<open>registry_contract\<close> and \<open>filter_contract\<close> state
    the documented behaviour.
  \<^item> The static members of the class are the record \<open>logging\<close>, the state of the process.  That a log file
    cannot be opened is not modelled.

  The lemmas show where a message of each level goes, that a second instance cannot be initialised, and
  that an instance which is never initialised cannot be destroyed.
\<close>

section \<open>Loggers\<close>

datatype log_level = Trace | Debug | Info | Warn | Err | Critical

definition level_rank :: "log_level \<Rightarrow> nat" where
  "level_rank l =
    (case l of Trace \<Rightarrow> 0 | Debug \<Rightarrow> 1 | Info \<Rightarrow> 2 | Warn \<Rightarrow> 3 | Err \<Rightarrow> 4 | Critical \<Rightarrow> 5)"

text \<open>Levels are ordered by their rank.\<close>

lemma level_rank_inject [simp]: "level_rank l = level_rank m \<longleftrightarrow> l = m"
  by (cases l; cases m) (simp_all add: level_rank_def)

instantiation log_level :: linorder
begin

definition less_eq_log_level :: "log_level \<Rightarrow> log_level \<Rightarrow> bool" where
  "less_eq_log_level l m \<longleftrightarrow> level_rank l \<le> level_rank m"

definition less_log_level :: "log_level \<Rightarrow> log_level \<Rightarrow> bool" where
  "less_log_level l m \<longleftrightarrow> level_rank l < level_rank m"

instance
  by standard (auto simp: less_eq_log_level_def less_log_level_def)

end

lemmas log_level_order = less_eq_log_level_def less_log_level_def level_rank_def

datatype sink_target = ConsoleSink | RotatingFileSink string nat nat

record sink =
  sk_target :: sink_target
  sk_level :: log_level

record logger =
  lg_name :: string
  lg_sinks :: "sink list"
  lg_level :: log_level
  lg_pattern :: string
  lg_backtrace :: nat

datatype log_effect = LogCall string log_level string | DumpBacktrace string | Flush string

record 'r logging =
  st_generalLogger :: "logger option"
  st_traceLogger :: "logger option"
  st_threadPool :: "(nat \<times> nat) option"
  st_flushSeconds :: "nat option"
  st_registry :: 'r

record GeneralLogger =
  gl_isInited :: bool

definition GENERALLOGGER_NAME :: string where "GENERALLOGGER_NAME = ''generalLogger''"
definition TRACELOGGER_NAME :: string where "TRACELOGGER_NAME = ''traceLogger''"
definition LOG_PATTERN :: string where "LOG_PATTERN = ''%Y%m%d_%H%M%S.%e [%t][%s::%! %# %l] %v''"

definition make_GeneralLogger :: GeneralLogger where
  "make_GeneralLogger = \<lparr>gl_isInited = False\<rparr>"

text \<open>The static members before any instance is initialised, over an empty registry.\<close>

definition fresh_logging :: "'r \<Rightarrow> 'r logging" where
  "fresh_logging r = \<lparr>st_generalLogger = None, st_traceLogger = None, st_threadPool = None, st_flushSeconds = None, st_registry = r\<rparr>"

section \<open>init and the destructor\<close>

definition MAX_FILE_SIZE :: nat where "MAX_FILE_SIZE = 1024 * 1024 * 5"
definition MAX_NUM_FILES :: nat where "MAX_NUM_FILES = 3"

text \<open>A sink has the lowest level until it is told another one.\<close>

definition general_logger :: "string \<Rightarrow> logger" where
  "general_logger logfileName =
     \<lparr>lg_name = GENERALLOGGER_NAME,
      lg_sinks = [\<lparr>sk_target = ConsoleSink, sk_level = Debug\<rparr>,
                  \<lparr>sk_target = RotatingFileSink logfileName MAX_FILE_SIZE MAX_NUM_FILES, sk_level = Info\<rparr>],
      lg_level = Debug, lg_pattern = LOG_PATTERN, lg_backtrace = 0\<rparr>"

definition trace_logger :: "string \<Rightarrow> logger" where
  "trace_logger tracefileName =
     \<lparr>lg_name = TRACELOGGER_NAME,
      lg_sinks = [\<lparr>sk_target = ConsoleSink, sk_level = Trace\<rparr>,
                  \<lparr>sk_target = RotatingFileSink tracefileName MAX_FILE_SIZE MAX_NUM_FILES, sk_level = Trace\<rparr>],
      lg_level = Err, lg_pattern = LOG_PATTERN, lg_backtrace = 128\<rparr>"

definition init ::
  "(string \<Rightarrow> 'r \<Rightarrow> 'r option) \<Rightarrow> GeneralLogger \<Rightarrow> 'r logging \<Rightarrow> string \<Rightarrow>
   (GeneralLogger \<times> 'r logging \<times> log_effect list) outcome" where
  "init registers lg st logNameBase =
    (if gl_isInited lg then Inr (lg, st, [])
     else
       let lg = lg\<lparr>gl_isInited := True\<rparr>;
           st = st\<lparr>st_threadPool := Some (8192, 1)\<rparr>;
           logfileName = logNameBase @ ''.log'';
           tracefileName = logNameBase @ ''_trace.log'';
           st = st\<lparr>st_generalLogger := Some (general_logger logfileName)\<rparr>;
           out = [LogCall GENERALLOGGER_NAME Info (''General Purpose Logger is Created! '' @ logfileName)];
           st = st\<lparr>st_traceLogger := Some (trace_logger tracefileName)\<rparr>;
           out = out @ [LogCall GENERALLOGGER_NAME Info (''Trace Logger is Created! '' @ tracefileName),
                        LogCall TRACELOGGER_NAME Trace ''Trace Logger is Created!''];
           st = st\<lparr>st_flushSeconds := Some 1\<rparr>
       in case registers GENERALLOGGER_NAME (st_registry st) of
            None \<Rightarrow> Inl BadLogger
          | Some r \<Rightarrow>
              (case registers TRACELOGGER_NAME r of
                 None \<Rightarrow> Inl BadLogger
               | Some r' \<Rightarrow> Inr (lg, st\<lparr>st_registry := r'\<rparr>, out)))"

definition destroy_GeneralLogger :: "'r logging \<Rightarrow> log_effect list outcome" where
  "destroy_GeneralLogger st =
    (case (st_generalLogger st, st_traceLogger st) of
       (Some g, Some t) \<Rightarrow>
         Inr [LogCall (lg_name g) Info ''General Logger Destructor'', DumpBacktrace (lg_name t), Flush (lg_name t)]
     | _ \<Rightarrow> Inl NullPointer)"

text \<open>The macros \<open>GPCRIT\<close>, \<open>GPERROR\<close>, \<open>GPWARN\<close>, \<open>GPINFO\<close> and \<open>GPDEBUG\<close>, and \<open>GPTRACE\<close>.\<close>

definition gp_log :: "'r logging \<Rightarrow> log_level \<Rightarrow> string \<Rightarrow> log_effect outcome" where
  "gp_log st lvl message =
    (case (if lvl = Trace then st_traceLogger st else st_generalLogger st) of
       None \<Rightarrow> Inl NullPointer
     | Some g \<Rightarrow> Inr (LogCall (lg_name g) lvl message))"

section \<open>What the log library is documented to do\<close>

definition registry_contract :: "(string \<Rightarrow> 'r \<Rightarrow> 'r option) \<Rightarrow> ('r \<Rightarrow> string set) \<Rightarrow> bool" where
  "registry_contract registers names \<longleftrightarrow>
     (\<forall>n r. case registers n r of
        None \<Rightarrow> n \<in> names r
      | Some r' \<Rightarrow> n \<notin> names r \<and> names r' = insert n (names r))"

text \<open>A message goes to the sinks at or below its level, unless the logger has a higher one.\<close>

definition filter_contract :: "(logger \<Rightarrow> log_level \<Rightarrow> sink list) \<Rightarrow> bool" where
  "filter_contract reaches \<longleftrightarrow>
     (\<forall>g l. reaches g l =
        (if lg_level g \<le> l then filter (\<lambda>s. sk_level s \<le> l) (lg_sinks g) else []))"

section \<open>Properties\<close>

lemma registry_new:
  "registry_contract registers names \<Longrightarrow> n \<notin> names r \<Longrightarrow> \<exists>r'. registers n r = Some r' \<and> names r' = insert n (names r)"
  unfolding registry_contract_def by (drule spec [of _ n], drule spec [of _ r]) (auto split: option.splits)

lemma registry_taken: "registry_contract registers names \<Longrightarrow> n \<in> names r \<Longrightarrow> registers n r = None"
  unfolding registry_contract_def by (drule spec [of _ n], drule spec [of _ r]) (auto split: option.splits)

lemma names_differ [simp]: "GENERALLOGGER_NAME \<noteq> TRACELOGGER_NAME" "TRACELOGGER_NAME \<noteq> GENERALLOGGER_NAME"
  by (simp_all add: GENERALLOGGER_NAME_def TRACELOGGER_NAME_def)

text \<open>The first instance of a process can be initialised; both names are taken then.\<close>

lemma first_init:
  assumes "registry_contract registers names" and "names r = {}"
  obtains st out where "init registers make_GeneralLogger (fresh_logging r) base = Inr (\<lparr>gl_isInited = True\<rparr>, st, out)"
    and "names (st_registry st) = {GENERALLOGGER_NAME, TRACELOGGER_NAME}"
    and "st_generalLogger st = Some (general_logger (base @ ''.log''))"
    and "st_traceLogger st = Some (trace_logger (base @ ''_trace.log''))"
proof -
  obtain r1 where r1: "registers GENERALLOGGER_NAME r = Some r1" "names r1 = {GENERALLOGGER_NAME}"
    using registry_new [OF assms(1), of GENERALLOGGER_NAME r] assms(2) by auto
  obtain r2 where r2: "registers TRACELOGGER_NAME r1 = Some r2" "names r2 = {GENERALLOGGER_NAME, TRACELOGGER_NAME}"
    using registry_new [OF assms(1), of TRACELOGGER_NAME r1] r1(2) by auto
  define st where "st = \<lparr>st_generalLogger = Some (general_logger (base @ ''.log'')),
    st_traceLogger = Some (trace_logger (base @ ''_trace.log'')), st_threadPool = Some (8192, 1), st_flushSeconds = Some 1,
    st_registry = r2\<rparr>"
  obtain out where "init registers make_GeneralLogger (fresh_logging r) base = Inr (\<lparr>gl_isInited = True\<rparr>, st, out)"
    by (simp add: init_def make_GeneralLogger_def fresh_logging_def Let_def r1(1) r2(1) st_def)
  then show thesis by (rule that) (simp_all add: st_def r2(2))
qed

text \<open>
  Where messages go: debug messages to the console, higher ones to the console and the file; traces to neither
  sink of their logger, which keeps the last 128 of them for the destructor.
\<close>

lemma message_targets:
  assumes "registry_contract registers names" and "names r = {}" and "filter_contract reaches"
  shows "\<exists>lg st out g t. init registers make_GeneralLogger (fresh_logging r) base = Inr (lg, st, out) \<and>
    st_generalLogger st = Some g \<and> st_traceLogger st = Some t \<and>
    (\<forall>l. map sk_target (reaches g l) =
      (if l = Trace then [] else if l = Debug then [ConsoleSink]
       else [ConsoleSink, RotatingFileSink (base @ ''.log'') 5242880 3])) \<and>
    reaches t Trace = [] \<and> lg_backtrace t = 128"
proof -
  have "map sk_target (reaches (general_logger f) l) =
      (if l = Trace then [] else if l = Debug then [ConsoleSink] else [ConsoleSink, RotatingFileSink f 5242880 3])" for f l
    using assms(3) by (cases l) (simp_all add: filter_contract_def general_logger_def log_level_order MAX_FILE_SIZE_def MAX_NUM_FILES_def)
  moreover have "reaches (trace_logger f) Trace = []" "lg_backtrace (trace_logger f) = 128" for f
    using assms(3) by (simp_all add: filter_contract_def trace_logger_def log_level_order)
  ultimately show ?thesis by (rule_tac first_init [OF assms(1,2), of base]) blast
qed

text \<open>A second instance in the same process ends it: the names are taken, and nothing catches the exception.\<close>

lemma second_instance_terminates:
  assumes "registry_contract registers names" and "GENERALLOGGER_NAME \<in> names (st_registry st)"
  shows "init registers make_GeneralLogger st base = Inl BadLogger"
  by (simp add: init_def make_GeneralLogger_def registry_taken [OF assms] Let_def)

lemma init_twice:
  assumes "registry_contract registers names" and "names r = {}"
  shows "\<exists>lg st out. init registers make_GeneralLogger (fresh_logging r) base = Inr (lg, st, out) \<and>
    init registers lg st base' = Inr (lg, st, []) \<and> init registers make_GeneralLogger st base' = Inl BadLogger"
proof -
  obtain st out where i: "init registers make_GeneralLogger (fresh_logging r) base = Inr (\<lparr>gl_isInited = True\<rparr>, st, out)"
    "names (st_registry st) = {GENERALLOGGER_NAME, TRACELOGGER_NAME}"
    by (rule first_init [OF assms, of base])
  have "init registers \<lparr>gl_isInited = True\<rparr> st base' = Inr (\<lparr>gl_isInited = True\<rparr>, st, [])" by (simp add: init_def)
  then show ?thesis using i second_instance_terminates [OF assms(1), of st base'] by auto
qed

text \<open>The destructor and the macros need an initialised instance.\<close>

lemma uninitialised_faults:
  "destroy_GeneralLogger (fresh_logging r) = Inl NullPointer" "gp_log (fresh_logging r) lvl message = Inl NullPointer"
  by (simp_all add: destroy_GeneralLogger_def gp_log_def fresh_logging_def)

section \<open>Instances\<close>

text \<open>The contracts hold of a list of names and of the filter that they describe.\<close>

lemma contracts_hold:
  "registry_contract (\<lambda>n ns. if n \<in> set ns then None else Some (n # ns)) set"
  "filter_contract (\<lambda>g l. if lg_level g \<le> l then filter (\<lambda>s. sk_level s \<le> l) (lg_sinks g) else [])"
  by (simp_all add: registry_contract_def filter_contract_def)

end
