(* ===== verification/PlaybackThread.thy ===== *)
theory PlaybackThread
  imports PlaybackEngine
begin

text \<open>
  The thread of \<open>PlaybackEngine::start\<close>, one segment at a time, and the parts of \<open>start\<close> and \<open>stop\<close>
  that other threads can see.

  \<^item> A segment has at most one access to what other threads change: a read of the stop flag, or the calls
    of the callbacks.  The state \<open>player\<close> says where the thread is: not started, before the first line, at
    the head of the loop, in the wait, before the publication, behind the loop, or returned.
  \<^item> \<open>request_stop\<close>, \<open>join_thread\<close> and \<open>launch\<close> are what \<open>stop\<close> does before it joins and after, and what
    \<open>start\<close> does after \<open>stop\<close>.

  The lemmas show that the segments compose to the function \<open>playback_thread\<close>, that every thread ends, and
  how soon it ends once the flag is set.
\<close>

section \<open>Segments\<close>

datatype 'j player =
    NoThread
  | Starting "string list"
  | AtHead "string list" int nat int                 \<comment> \<open>lines, base time, i, offset of the message before\<close>
  | Waiting "string list" int nat int 'j string      \<comment> \<open>and the record and topic of line i\<close>
  | Publishing "string list" int nat int 'j string
  | Leaving
  | Ended

fun player_step :: "'j crow_json \<Rightarrow> bool \<Rightarrow> 'j player \<Rightarrow> ('j player \<times> effect list) outcome" where
  "player_step js flag NoThread = Inr (NoThread, [])"
| "player_step js flag (Starting lines) =
     obind (load lines 0) (\<lambda>first.
     obind (case cj_load js first of
              None \<Rightarrow> Inr 0
            | Some firstRec \<Rightarrow> json_member (cj_i js firstRec ''timestamp_ms'')) (\<lambda>baseTime.
       Inr (AtHead lines baseTime 0 0, [])))"
| "player_step js flag (AtHead lines baseTime i prevOffset) =
     (if i < length lines \<and> \<not> flag then
        (case cj_load js (lines ! i) of
           None \<Rightarrow> Inr (AtHead lines baseTime (i + 1) prevOffset, [])
         | Some rec \<Rightarrow>
             obind (json_member (cj_s js rec ''topic'')) (\<lambda>topic.
             obind (json_member (cj_i js rec ''timestamp_ms'')) (\<lambda>ts.
             obind (sub64 ts baseTime) (\<lambda>offset.
             obind (sub64 offset prevOffset) (\<lambda>delta.
               Inr (Waiting lines baseTime i offset rec topic, if delta > 0 then [Sleep (min delta 5000)] else []))))))
      else Inr (Leaving, []))"
| "player_step js flag (Waiting lines baseTime i offset rec topic) =
     Inr (if flag then Leaving else Publishing lines baseTime i offset rec topic, [])"
| "player_step js flag (Publishing lines baseTime i offset rec topic) =
     obind (json_member (cj_dump js rec ''data'')) (\<lambda>jsonData.
       Inr (AtHead lines baseTime (i + 1) offset, [PublishJson topic jsonData, Progress (i + 1) (length lines)]))"
| "player_step js flag Leaving = Inr (Ended, [Complete flag])"
| "player_step js flag Ended = Inr (Ended, [])"

definition at_rest :: "'j player \<Rightarrow> bool" where
  "at_rest p \<longleftrightarrow> p = NoThread \<or> p = Ended"

lemma at_rest_simps [simp]:
  "at_rest NoThread" "at_rest Ended" "\<not> at_rest (Starting ls)" "\<not> at_rest (AtHead ls b i o')"
  "\<not> at_rest (Waiting ls b i o' r t)" "\<not> at_rest (Publishing ls b i o' r t)" "\<not> at_rest Leaving"
  by (simp_all add: at_rest_def)

fun wf_player :: "'j player \<Rightarrow> bool" where
  "wf_player (Starting lines) \<longleftrightarrow> lines \<noteq> []"
| "wf_player (AtHead lines _ i _) \<longleftrightarrow> i \<le> length lines"
| "wf_player (Waiting lines _ i _ _ _) \<longleftrightarrow> i < length lines"
| "wf_player (Publishing lines _ i _ _ _) \<longleftrightarrow> i < length lines"
| "wf_player _ \<longleftrightarrow> True"

section \<open>The parts of start and stop\<close>

definition request_stop :: "PlaybackEngine \<Rightarrow> PlaybackEngine" where
  "request_stop e = e\<lparr>pe_stopFlag := True\<rparr>"

definition join_thread :: "PlaybackEngine \<Rightarrow> PlaybackEngine" where
  "join_thread e = (let e = (if pe_thread e then e\<lparr>pe_thread := False\<rparr> else e) in e\<lparr>pe_playing := False\<rparr>)"

text \<open>\<open>start\<close> after its call of \<open>stop\<close>; the assignment to \<open>_thread\<close> terminates the program when it is joinable.\<close>

definition launch :: "PlaybackEngine \<Rightarrow> (PlaybackEngine \<times> effect list \<times> 'j player option) outcome" where
  "launch e =
    (let snapshot = pe_lines e
     in if snapshot = [] then Inr (e, [Complete False], None)
        else
          let e = e\<lparr>pe_stopFlag := False, pe_playing := True\<rparr>
          in if pe_thread e then Inl ThreadTerminate
             else Inr (e\<lparr>pe_thread := True\<rparr>, [], Some (Starting snapshot)))"

definition isPlaying :: "PlaybackEngine \<Rightarrow> bool" where
  "isPlaying e = pe_playing e"

definition destroy_PlaybackEngine :: "PlaybackEngine \<Rightarrow> PlaybackEngine" where
  "destroy_PlaybackEngine e = engine_stop e"

lemma engine_stop_parts: "engine_stop e = join_thread (request_stop e)"
  by (simp add: engine_stop_def join_thread_def request_stop_def Let_def)

lemma engine_start_parts:
  "launch (engine_stop e) = (case engine_start e of (e', es, thread) \<Rightarrow> Inr (e', es, map_option Starting thread))"
  by (simp add: launch_def engine_start_def Let_def)

lemma engine_parts_simps [simp]:
  "pe_thread (request_stop e) = pe_thread e" "pe_playing (request_stop e) = pe_playing e"
  "pe_lines (request_stop e) = pe_lines e" "pe_stopFlag (request_stop e)"
  "\<not> pe_thread (join_thread e)" "\<not> pe_playing (join_thread e)"
  "pe_lines (join_thread e) = pe_lines e" "pe_stopFlag (join_thread e) = pe_stopFlag e"
  by (cases "pe_thread e"; simp add: request_stop_def join_thread_def Let_def)+

lemma launch_cases:
  assumes "launch e = r"
  obtains (empty) "pe_lines e = []" "r = Inr (e, [Complete False], None)"
  | (joinable) "pe_lines e \<noteq> []" "pe_thread e" "r = Inl ThreadTerminate"
  | (started) "pe_lines e \<noteq> []" "\<not> pe_thread e"
      "r = Inr (e\<lparr>pe_stopFlag := False, pe_playing := True, pe_thread := True\<rparr>, [], Some (Starting (pe_lines e)))"
  using assms by (auto simp: launch_def Let_def split: if_splits)

section \<open>Progress\<close>

text \<open>How many segments are left at most, and how many when the stop flag stays set.\<close>

fun remaining :: "'j player \<Rightarrow> nat" where
  "remaining (Starting lines) = 3 * length lines + 3"
| "remaining (AtHead lines _ i _) = 3 * (length lines - i) + 2"
| "remaining (Waiting lines _ i _ _ _) = 3 * (length lines - i) + 1"
| "remaining (Publishing lines _ i _ _ _) = 3 * (length lines - i)"
| "remaining Leaving = 1"
| "remaining _ = 0"

fun until_stopped :: "'j player \<Rightarrow> nat" where
  "until_stopped (Starting _) = 3"
| "until_stopped (AtHead _ _ _ _) = 2"
| "until_stopped (Waiting _ _ _ _ _ _) = 2"
| "until_stopped (Publishing _ _ _ _ _ _) = 3"
| "until_stopped Leaving = 1"
| "until_stopped _ = 0"

fun published :: "effect list \<Rightarrow> (string \<times> string) list" where
  "published [] = []"
| "published (PublishJson t d # es) = (t, d) # published es"
| "published (_ # es) = published es"

lemma until_stopped_le: "until_stopped p \<le> 3"
  by (cases p) auto

lemma published_append [simp]: "published (es @ es') = published es @ published es'"
  by (induction es rule: published.induct) auto

text \<open>A segment of a well-formed thread.\<close>

lemma player_step_wf:
  assumes "player_step js flag p = Inr (p', es)" "wf_player p" "\<not> at_rest p"
  shows "wf_player p'" "remaining p' < remaining p" "p' \<noteq> NoThread"
proof -
  have "wf_player p' \<and> remaining p' < remaining p \<and> p' \<noteq> NoThread"
    using assms
    by (cases p) (auto simp: obind_eq_Inr_iff split: if_splits option.splits)
  then show "wf_player p'" "remaining p' < remaining p" "p' \<noteq> NoThread" by auto
qed

text \<open>With the flag set, only the message that is already being published goes out.\<close>

lemma player_step_stopped:
  assumes "player_step js True p = Inr (p', es)" "\<not> at_rest p"
  shows "until_stopped p' < until_stopped p"
    "length (published es) = (if until_stopped p = 3 \<and> published es \<noteq> [] then 1 else 0)"
    "until_stopped p \<noteq> 3 \<Longrightarrow> published es = []"
  using assms by (cases p; auto simp: obind_eq_Inr_iff split: option.splits)+

lemma player_step_fault:
  assumes "player_step js flag p = Inl f" "wf_player p"
  shows "f \<in> {BadJson, SignedOverflow}"
  using assms by (cases p)
    (auto simp: obind_eq_Inl_iff json_member_def sub64_def load_def split: if_splits option.splits)

text \<open>At its end a thread has reported the flag, and once only.\<close>

lemma player_step_ended:
  assumes "player_step js flag p = Inr (p', es)" "\<not> at_rest p"
  shows "p' = Ended \<longleftrightarrow> es = [Complete flag]" and "p' \<noteq> Ended \<Longrightarrow> \<forall>b. Complete b \<notin> set es"
  using assms by (cases p; auto simp: obind_eq_Inr_iff split: if_splits option.splits)+

section \<open>The segments are the thread\<close>

text \<open>The thread alone, with fuel; \<open>flag n\<close> is what the n-th read of the flag finds.\<close>

fun reads_flag :: "'j player \<Rightarrow> bool" where
  "reads_flag (AtHead lines _ i _) \<longleftrightarrow> i < length lines"
| "reads_flag (Waiting _ _ _ _ _ _) \<longleftrightarrow> True"
| "reads_flag Leaving \<longleftrightarrow> True"
| "reads_flag _ \<longleftrightarrow> False"

fun player_run :: "'j crow_json \<Rightarrow> (nat \<Rightarrow> bool) \<Rightarrow> nat \<Rightarrow> nat \<Rightarrow> 'j player \<Rightarrow> ('j player \<times> effect list) outcome" where
  "player_run js flag 0 n p = Inr (p, [])"
| "player_run js flag (Suc fuel) n p =
     (if at_rest p then Inr (p, [])
      else obind (player_step js (flag n) p) (\<lambda>(p', es).
           obind (player_run js flag fuel (if reads_flag p then n + 1 else n) p') (\<lambda>(p'', es').
             Inr (p'', es @ es'))))"

lemma player_run_rest [simp]: "at_rest p \<Longrightarrow> player_run js flag fuel n p = Inr (p, [])"
  by (cases fuel) auto

lemma player_run_leaving: "0 < fuel \<Longrightarrow> player_run js flag fuel n Leaving = Inr (Ended, [Complete (flag n)])"
  by (cases fuel) auto

definition finished :: "(nat \<Rightarrow> bool) \<Rightarrow> effect list \<times> nat \<Rightarrow> 'j player \<times> effect list" where
  "finished flag = (\<lambda>(es, n). (Ended, es @ [Complete (flag n)]))"

lemma player_run_loop:
  assumes "i \<le> length lines" "3 * (length lines - i) + 2 \<le> fuel"
  shows "player_run js flag fuel n (AtHead lines base i prev) =
    obind (play_loop js flag base (length lines) (drop i lines) i n prev) (\<lambda>r. Inr (finished flag r))"
  using assms
proof (induction "length lines - i" arbitrary: i n prev fuel)
  case 0
  then obtain fuel' where "fuel = Suc fuel'" "0 < fuel'" by (cases fuel) auto
  then show ?case using 0 by (simp add: player_run_leaving finished_def)
next
  case (Suc k)
  then have i: "i < length lines" by simp
  obtain f where fuel: "fuel = Suc (Suc (Suc f))" "3 * (length lines - (i + 1)) + 2 \<le> f"
    using Suc.prems(2) i by (intro that [of "fuel - 3"]) auto
  have dr: "drop i lines = lines ! i # drop (i + 1) lines" using i by (simp add: Cons_nth_drop_Suc)
  have IH: "player_run js flag fuel' n' (AtHead lines base (i + 1) prev') =
      obind (play_loop js flag base (length lines) (drop (i + 1) lines) (i + 1) n' prev') (\<lambda>r. Inr (finished flag r))"
    if "f \<le> fuel'" for n' prev' fuel'
    using Suc.hyps(1) [of "i + 1" fuel' n' prev'] Suc.hyps(2) i fuel(2) that by simp
  show ?case
  proof (cases "flag n \<or> cj_load js (lines ! i) = None")
    case True
    then show ?thesis using i IH [of "Suc (Suc f)" "n + 1" prev]
      by (auto simp: dr fuel(1) finished_def) (simp_all add: obind_def split: sum.splits)
  next
    case False
    then obtain rec where rec: "\<not> flag n" "cj_load js (lines ! i) = Some rec" by auto
    have tail: "player_run js flag (Suc (Suc f)) (Suc n) (Waiting lines base i offset rec topic) =
        (if flag (Suc n) then Inr (Ended, [Complete (flag (n + 2))])
         else obind (json_member (cj_dump js rec ''data'')) (\<lambda>d.
           obind (play_loop js flag base (length lines) (drop (i + 1) lines) (i + 1) (n + 2) offset) (\<lambda>r.
             Inr (Ended, PublishJson topic d # Progress (i + 1) (length lines) # fst r @ [Complete (flag (snd r))]))))" for offset topic
      using IH [of f "n + 2" offset]
      by (simp add: obind_assoc finished_def split_beta)
    show ?thesis
      unfolding fuel(1) player_run.simps(2) [of js flag "Suc (Suc f)"] dr
      using rec i
      by (simp add: obind_assoc del: player_run.simps)
        (intro obind_cong refl, simp add: tail obind_assoc finished_def split_beta del: player_run.simps)
  qed
qed

text \<open>
  C17. The playback thread, run one segment at a time against a flag that changes under it, does what
  the function \<open>playback_thread\<close> says for the values that it reads: the same effects in the same order,
  or the same fault.  Three segments per line and three more are always enough for it to return.
\<close>

theorem player_equals_thread:
  assumes "3 * length lines + 3 \<le> fuel"
  shows "player_run js flag fuel 0 (Starting lines) = obind (playback_thread js flag lines) (\<lambda>es. Inr (Ended, es))"
proof -
  obtain f where fuel: "fuel = Suc f" "3 * length lines + 2 \<le> f" using assms by (cases fuel) auto
  show ?thesis
    using player_run_loop [of 0 lines f js flag 0] fuel(2)
    by (simp add: fuel(1) playback_thread_def obind_assoc finished_def split_beta)
qed

theorem player_equals_thread_witness:
  "player_run example_json (\<lambda>n. 4 \<le> n) 12 0 (Starting [''a=1'', ''x'', ''b=2'']) =
    Inr (Ended, [PublishJson ''a'' ''1'', Progress 1 3, Complete True])"
  by (subst player_equals_thread)
    (simp_all add: playback_thread_def load_def example_json_def json_member_def sub64_def)

end
