(* ===== verification/Monitor.thy ===== *)
theory Monitor
  imports OmniscopeApp PlaybackThread
begin

text \<open>
  The running monitor: \<open>OmniscopeApp.cpp\<close> from the start of its server to its destruction, with all its
  threads.

  \<^item> The state is the application, the place of the playback thread, and the handlers of the web server that
    are inside \<open>PlaybackEngine::stop\<close> or \<open>start\<close>.  The threads are: those of the server, the poll threads and
    the receive thread of the transports, and the playback thread.  A step is a segment of one of them between
    two accesses to shared state; a handler that does not touch the playback, and the delivery of what a
    transport received, are one step each.
  \<^item> The relation \<open>monitor_step\<close> has a rule for every kind of step.  Its result is a fault, or the next state
    with what went out: to browsers, to DDS writers and to Zyre groups.
  \<^item> The server runs with several threads (\<open>multithreaded\<close>); how many handlers can be inside the playback
    engine at a time is the parameter \<open>n\<close> of \<open>monitor_run\<close>.
  \<^item> When the server returns, \<open>run\<close> stops the playback; then the destructor of \<open>OmniscopeApp\<close> runs, and the members
    of \<open>Impl\<close> (\<open>member\<close>, in the order of their declaration) are destroyed, each by a step of its own, the last
    declared first.  As long as the transports live their threads deliver what arrives, by the same rule as
    before; a delivery that uses a member that is no longer alive faults.
  \<^item> The libraries are the record \<open>libraries\<close>.

  This theory is the model; \<open>MonitorBoard\<close> has the abstract board of what browsers and files are to see, and
  \<open>MonitorRuns\<close> the properties of its runs.
\<close>

section \<open>Transports in use\<close>

record ('j, 'a, 'b, 'd, 'm) libraries =
  lib_json :: "'j crow_json"
  lib_dds :: "('a, 'b, 'd) dds_json"
  lib_pb :: "'m protobuf"
  lib_dump :: "string \<Rightarrow> string \<Rightarrow> int \<Rightarrow> string \<Rightarrow> string"
  lib_isoText :: "int \<Rightarrow> string"

datatype ('a, 'b) arrival = SampleArrival "('a, 'b) dds_samples" | ShoutArrival bytes

datatype ('a, 'b) out =
    Browser nat ws_payload
  | DdsWrite string qos "'a + 'b"
  | ZyreShout string bytes

fun tr_arrive :: "('j, 'a, 'b, 'd, 'm) libraries \<Rightarrow> transport \<Rightarrow> string \<Rightarrow> ('a, 'b) arrival \<Rightarrow> (string \<times> string) list" where
  "tr_arrive libs (Dds t) topic (SampleArrival xs) = map snd (tdds_arrive (lib_dds libs) t topic xs)"
| "tr_arrive libs (Zyre t) topic (ShoutArrival bs) = map snd (tzyre_arrive (lib_pb libs) t topic bs)"
| "tr_arrive libs _ topic _ = []"

text \<open>\<open>publishFromJson\<close>; \<open>shouted\<close> is the answer of the Zyre library.\<close>

fun tr_publishFromJson ::
  "('j, 'a, 'b, 'd, 'm) libraries \<Rightarrow> bool \<Rightarrow> transport \<Rightarrow> string \<Rightarrow> string \<Rightarrow> (transport \<times> ('a, 'b) out list) outcome"
where
  "tr_publishFromJson libs shouted (Dds t) topic jsonData =
     obind (tdds_publishFromJson (lib_dds libs) t topic jsonData) (\<lambda>(t, ws).
       Inr (Dds t, map (\<lambda>(name, q, d). DdsWrite name q d) ws))"
| "tr_publishFromJson libs shouted (Zyre t) topic jsonData =
     Inr (Zyre t, case tzyre_publishFromJson (lib_pb libs) shouted t topic jsonData of
       None \<Rightarrow> [] | Some (grp, bs) \<Rightarrow> [ZyreShout grp bs])"

section \<open>Callbacks\<close>

definition to_browsers :: "sends \<Rightarrow> ('a, 'b) out list" where
  "to_browsers = map (\<lambda>(conn, payload). Browser conn payload)"

text \<open>The lambda that \<open>run\<close> gives to the playback engine.\<close>

definition publish_callback ::
  "('j, 'a, 'b, 'd, 'm) libraries \<Rightarrow> bool \<Rightarrow> OmniscopeApp \<Rightarrow> string \<Rightarrow> string \<Rightarrow> (OmniscopeApp \<times> ('a, 'b) out list) outcome"
where
  "publish_callback libs shouted app topic jsonData =
    (case findTransport app topic of
       None \<Rightarrow> Inr (app, [])
     | Some k \<Rightarrow>
         obind (tr_publishFromJson libs shouted (app_transports app ! k) topic jsonData) (\<lambda>(t, outs).
           Inr (app\<lparr>app_transports := (app_transports app)[k := t]\<rparr>, outs)))"

text \<open>The effects of a segment of the playback thread.\<close>

fun perform ::
  "('j, 'a, 'b, 'd, 'm) libraries \<Rightarrow> bool \<Rightarrow> effect list \<Rightarrow> OmniscopeApp \<Rightarrow> (OmniscopeApp \<times> ('a, 'b) out list) outcome"
where
  "perform libs shouted [] app = Inr (app, [])"
| "perform libs shouted (PublishJson topic jsonData # es) app =
     obind (publish_callback libs shouted app topic jsonData) (\<lambda>(app, outs).
     obind (perform libs shouted es app) (\<lambda>(app, outs').
       Inr (app, outs @ outs')))"
| "perform libs shouted (e # es) app =
     obind (perform libs shouted es app) (\<lambda>(app', outs).
       Inr (app', to_browsers (playback_send app e) @ outs))"

section \<open>Members of Impl\<close>

text \<open>
  The data members of \<open>Impl\<close>, in the order of their declaration.  They are destroyed in the reverse order; a
  member is alive until then.
\<close>

datatype member =
    Transports | HttpPort | CrowApp | WsConnections | WsMutex | RecordingFlag | RecFile | RecFilename | RecMutex | Playback

definition impl_members :: "member list" where
  "impl_members = [Transports, HttpPort, CrowApp, WsConnections, WsMutex, RecordingFlag, RecFile, RecFilename, RecMutex, Playback]"

text \<open>What \<open>onTransportMessage\<close>, with \<open>broadcastWs\<close>, reads, writes or locks.\<close>

definition message_uses :: "OmniscopeApp \<Rightarrow> member list" where
  "message_uses app =
     [RecMutex, RecordingFlag] @ (if app_recording app then [RecFile] else []) @ [WsMutex, WsConnections]"

text \<open>The calls that a transport makes, each with the time at which it is made; \<open>alive\<close> are the members.\<close>

fun deliver ::
  "('j, 'a, 'b, 'd, 'm) libraries \<Rightarrow> member list \<Rightarrow> int list \<Rightarrow> (string \<times> string) list \<Rightarrow> OmniscopeApp \<Rightarrow>
   (OmniscopeApp \<times> sends) outcome"
where
  "deliver libs alive (now # clock) ((topic, jsonData) # calls) app =
    (if \<not> set (message_uses app) \<subseteq> set alive then Inl DeadObject
     else let (app, ss) = onTransportMessage (lib_dump libs) (lib_isoText libs) now app topic jsonData
          in obind (deliver libs alive clock calls app) (\<lambda>(app, ss'). Inr (app, ss @ ss')))"
| "deliver libs alive clock calls app = Inr (app, [])"

section \<open>Handlers that use the playback engine\<close>

datatype request = ForStart | ForStop | ForLoad string

datatype handler =
    Joining request      \<comment> \<open>in \<open>stop\<close>, the flag set, before the join\<close>
  | Launching            \<comment> \<open>in \<open>start\<close>, behind its call of \<open>stop\<close>\<close>
  | Announcing           \<comment> \<open>behind \<open>start\<close>\<close>

definition request_of :: "'j crow_json \<Rightarrow> string \<Rightarrow> request option" where
  "request_of js msg =
    (case cj_load js msg of
       None \<Rightarrow> None
     | Some j \<Rightarrow>
         if cj_s js j ''type'' = Some ''playback_start'' then Some ForStart
         else if cj_s js j ''type'' = Some ''playback_stop'' then Some ForStop
         else None)"

text \<open>
  What a handler does next: the application, the playback thread, the rest of the handler, and what is
  sent.  \<open>None\<close>: it waits for the playback thread.
\<close>

fun advance ::
  "handler \<Rightarrow> OmniscopeApp \<Rightarrow> 'j player \<Rightarrow> (OmniscopeApp \<times> 'j player \<times> handler list \<times> sends) outcome option"
where
  "advance (Joining r) app p =
    (if \<not> at_rest p then None
     else Some (obind (with_playback app join_thread) (\<lambda>e.
       let app = app\<lparr>app_playback := Some e\<rparr>
       in case r of
            ForStop \<Rightarrow> Inr (app, NoThread, [], [])
          | ForStart \<Rightarrow> Inr (app, NoThread, [Launching], [])
          | ForLoad body \<Rightarrow>
              let e = e\<lparr>pe_lines := getline_loop body []\<rparr>; app = app\<lparr>app_playback := Some e\<rparr>
              in Inr (app, NoThread, [], broadcastWs app (WsRecordingLoaded (messageCount e))))))"
| "advance Launching app p =
     Some (obind (with_playback app launch) (\<lambda>launched.
       obind launched (\<lambda>(e, es, thread).
         let app = app\<lparr>app_playback := Some e\<rparr>
         in Inr (app, case thread of None \<Rightarrow> p | Some p \<Rightarrow> p, [Announcing], concat (map (playback_send app) es)))))"
| "advance Announcing app p =
     Some (obind (with_playback app messageCount) (\<lambda>count.
       Inr (app, p, [], broadcastWs app (WsPlaybackStarted count))))"

section \<open>The life of the monitor\<close>

datatype phase =
    Serving
  | ShuttingDown    \<comment> \<open>the server has returned; \<open>run\<close> is in \<open>stop\<close>\<close>
  | Returned        \<comment> \<open>\<open>run\<close> has returned\<close>
  | Destroying      \<comment> \<open>the destructor has run, the members are being destroyed\<close>

record 'j monitor =
  mo_app :: OmniscopeApp
  mo_player :: "'j player"
  mo_handlers :: "handler list"
  mo_phase :: phase
  mo_alive :: "member list"

definition set_stop_flag :: "OmniscopeApp \<Rightarrow> OmniscopeApp outcome" where
  "set_stop_flag app = obind (with_playback app request_stop) (\<lambda>e. Inr (app\<lparr>app_playback := Some e\<rparr>))"

definition players_turn ::
  "('j, 'a, 'b, 'd, 'm) libraries \<Rightarrow> bool \<Rightarrow> 'j monitor \<Rightarrow> ('j monitor \<times> ('a, 'b) out list) outcome" where
  "players_turn libs shouted m =
     obind (with_playback (mo_app m) (\<lambda>e. e)) (\<lambda>e.
     obind (player_step (lib_json libs) (pe_stopFlag e) (mo_player m)) (\<lambda>(p, es).
       let e = (if p = Ended then e\<lparr>pe_playing := False\<rparr> else e);
           app = (mo_app m)\<lparr>app_playback := Some e\<rparr>
       in obind (perform libs shouted es app) (\<lambda>(app, outs).
            Inr (m\<lparr>mo_app := app, mo_player := p\<rparr>, outs))))"

text \<open>The destructor of \<open>OmniscopeApp\<close>; and that of a member, of which only the playback engine has one with an effect here.\<close>

definition destroy_app :: "OmniscopeApp \<Rightarrow> OmniscopeApp" where
  "destroy_app app = app\<lparr>app_playback := map_option engine_stop (app_playback app)\<rparr>"

definition destroy_member :: "member \<Rightarrow> OmniscopeApp \<Rightarrow> OmniscopeApp" where
  "destroy_member x app =
    (case x of Playback \<Rightarrow> app\<lparr>app_playback := map_option destroy_PlaybackEngine (app_playback app)\<rparr> | _ \<Rightarrow> app)"

datatype ('a, 'b) monitor_event =
    Opened nat
  | Closed nat
  | Received nat string bool int          \<comment> \<open>connection, text; whether a file opens; the time\<close>
  | Uploaded string
  | Handler nat                           \<comment> \<open>the handler with this index continues\<close>
  | Arrived nat string "('a, 'b) arrival" "int list"
  | Player bool
  | ServerReturned
  | RunReturned
  | DestructorRan
  | MemberDestroyed

inductive monitor_step ::
  "('j, 'a, 'b, 'd, 'm) libraries \<Rightarrow> 'j monitor \<Rightarrow> ('a, 'b) monitor_event \<Rightarrow> ('j monitor \<times> ('a, 'b) out list) outcome \<Rightarrow> bool"
  for libs
where
  Open: "mo_phase m = Serving \<Longrightarrow> ws_open (mo_app m) conn = (app, ss) \<Longrightarrow>
    monitor_step libs m (Opened conn) (Inr (m\<lparr>mo_app := app\<rparr>, to_browsers ss))"
| Close: "mo_phase m = Serving \<Longrightarrow>
    monitor_step libs m (Closed conn) (Inr (m\<lparr>mo_app := ws_close (mo_app m) conn\<rparr>, []))"
| Command: "mo_phase m = Serving \<Longrightarrow> request_of (lib_json libs) msg = None \<Longrightarrow>
    monitor_step libs m (Received conn msg opens now)
      (obind (handleWsMessage (lib_json libs) opens now (mo_app m) conn msg) (\<lambda>(app, ss, _).
        Inr (m\<lparr>mo_app := app\<rparr>, to_browsers ss)))"
| Request: "mo_phase m = Serving \<Longrightarrow> request_of (lib_json libs) msg = Some r \<Longrightarrow>
    monitor_step libs m (Received conn msg opens now)
      (obind (set_stop_flag (mo_app m)) (\<lambda>app.
        Inr (m\<lparr>mo_app := app, mo_handlers := mo_handlers m @ [Joining r]\<rparr>, [])))"
| Upload: "mo_phase m = Serving \<Longrightarrow> body \<noteq> [] \<Longrightarrow>
    monitor_step libs m (Uploaded body)
      (obind (set_stop_flag (mo_app m)) (\<lambda>app.
        Inr (m\<lparr>mo_app := app, mo_handlers := mo_handlers m @ [Joining (ForLoad body)]\<rparr>, [])))"
| EmptyUpload: "mo_phase m = Serving \<Longrightarrow> monitor_step libs m (Uploaded []) (Inr (m, []))"
| Continue: "k < length (mo_handlers m) \<Longrightarrow> advance (mo_handlers m ! k) (mo_app m) (mo_player m) = Some r \<Longrightarrow>
    monitor_step libs m (Handler k) (obind r (\<lambda>(app, p, hs, ss).
      Inr (m\<lparr>mo_app := app, mo_player := p, mo_handlers := take k (mo_handlers m) @ hs @ drop (k + 1) (mo_handlers m)\<rparr>,
        to_browsers ss)))"
| Arrive: "Transports \<in> set (mo_alive m) \<Longrightarrow> k < length (app_transports (mo_app m)) \<Longrightarrow>
    tr_arrive libs (app_transports (mo_app m) ! k) topic content = calls \<Longrightarrow> length clock = length calls \<Longrightarrow>
    monitor_step libs m (Arrived k topic content clock)
      (obind (deliver libs (mo_alive m) clock calls (mo_app m)) (\<lambda>(app, ss).
        Inr (m\<lparr>mo_app := app\<rparr>, to_browsers ss)))"
| Play: "\<not> at_rest (mo_player m) \<Longrightarrow> monitor_step libs m (Player shouted) (players_turn libs shouted m)"
| ServerReturns: "mo_phase m = Serving \<Longrightarrow> mo_handlers m = [] \<Longrightarrow>
    monitor_step libs m ServerReturned
      (obind (set_stop_flag (mo_app m)) (\<lambda>app. Inr (m\<lparr>mo_app := app, mo_phase := ShuttingDown\<rparr>, [])))"
| RunReturns: "mo_phase m = ShuttingDown \<Longrightarrow> at_rest (mo_player m) \<Longrightarrow>
    monitor_step libs m RunReturned
      (obind (with_playback (mo_app m) join_thread) (\<lambda>e.
        Inr (m\<lparr>mo_app := (mo_app m)\<lparr>app_playback := Some e\<rparr>, mo_player := NoThread, mo_phase := Returned\<rparr>, [])))"
| RunDestructor: "mo_phase m = Returned \<Longrightarrow>
    monitor_step libs m DestructorRan (Inr (m\<lparr>mo_app := destroy_app (mo_app m), mo_phase := Destroying\<rparr>, []))"
| DestroyMember: "mo_phase m = Destroying \<Longrightarrow> mo_alive m \<noteq> [] \<Longrightarrow>
    monitor_step libs m MemberDestroyed
      (Inr (m\<lparr>mo_app := destroy_member (last (mo_alive m)) (mo_app m), mo_alive := butlast (mo_alive m)\<rparr>, []))"

inductive_cases monitor_step_elims:
  "monitor_step libs m (Opened conn) r" "monitor_step libs m (Closed conn) r"
  "monitor_step libs m (Received conn msg opens now) r" "monitor_step libs m (Uploaded body) r"
  "monitor_step libs m (Handler k) r" "monitor_step libs m (Arrived k topic content clock) r"
  "monitor_step libs m (Player shouted) r" "monitor_step libs m ServerReturned r" "monitor_step libs m RunReturned r"
  "monitor_step libs m DestructorRan r" "monitor_step libs m MemberDestroyed r"

text \<open>The monitor as \<open>main\<close> builds it, when both nodes of the Zyre transport start.\<close>

definition monitor_start :: "bool \<Rightarrow> ifaddr list option \<Rightarrow> string \<Rightarrow> (string \<rightharpoonup> string) \<Rightarrow> 'j monitor outcome" where
  "monitor_start pub_ok ifaddrs name disk = obind make_TransportDds (\<lambda>d.
     Inr \<lparr>mo_app = run_setup (addTransport (addTransport (make_OmniscopeApp disk) (Dds d))
            (Zyre (make_TransportZyre (True, True) (pub_ok, pub_ok) ifaddrs name))),
          mo_player = NoThread, mo_handlers = [], mo_phase = Serving, mo_alive = impl_members\<rparr>)"

inductive monitor_run ::
  "('j, 'a, 'b, 'd, 'm) libraries \<Rightarrow> nat \<Rightarrow> 'j monitor \<Rightarrow> ('a, 'b) monitor_event list \<Rightarrow> ('a, 'b) out list \<Rightarrow> 'j monitor \<Rightarrow> bool"
  for libs n m0
where
  run_start: "monitor_run libs n m0 [] [] m0"
| run_step: "monitor_run libs n m0 evs outs m \<Longrightarrow> monitor_step libs m ev (Inr (m', outs')) \<Longrightarrow>
    length (mo_handlers m') \<le> n \<Longrightarrow> monitor_run libs n m0 (evs @ [ev]) (outs @ outs') m'"

end
