(* ===== verification/MonitorBoard.thy ===== *)
theory MonitorBoard
  imports Monitor
begin

text \<open>
  What the browsers and the recorded files of the monitor are to see.

  \<^item> \<open>board\<close> is an abstract state that knows neither transports nor threads; \<open>board_step\<close> changes it by an
    event, and \<open>board_run\<close> by a list of events.  The events of the playback and of the shutdown leave it
    alone.
  \<^item> \<open>displays\<close> relates a board and an application.

  The lemmas show, operation by operation, that the application goes on displaying the board.
\<close>

section \<open>The board\<close>

text \<open>
  What the browsers and the files are to see, as a function of the events: the list of topics, the topics
  that the Zyre transport delivers (those that were ever subscribed), the browsers, and the recording with
  the lines of its files.
\<close>

record board =
  b_topics :: "(string \<times> bool \<times> string) list"
  b_heard :: "string set"
  b_browsers :: "nat list"
  b_recording :: bool
  b_file :: "string option"
  b_filename :: string
  b_files :: "string \<rightharpoonup> string list"

definition board_start :: board where
  "board_start =
     \<lparr>b_topics = map (\<lambda>t. (t, False, ''DDS'')) [SENSOR_TOPIC, TRACK_TOPIC] @ map (\<lambda>t. (t, False, ''Zyre'')) allTopicNames,
      b_heard = {}, b_browsers = [], b_recording = False, b_file = None, b_filename = '''', b_files = Map.empty\<rparr>"

text \<open>The JSON texts that an arrival on a topic stands for, if it is delivered.\<close>

fun board_content :: "('j, 'a, 'b, 'd, 'm) libraries \<Rightarrow> board \<Rightarrow> nat \<Rightarrow> string \<Rightarrow> ('a, 'b) arrival \<Rightarrow> string list" where
  "board_content libs b k topic (SampleArrival xs) =
     (if k = 0 \<and> (topic, True, ''DDS'') \<in> set (b_topics b) then dds_content (lib_dds libs) topic xs else [])"
| "board_content libs b k topic (ShoutArrival bs) =
     (if k = 1 \<and> topic \<in> b_heard b then zyre_content (lib_pb libs) topic bs else [])"

fun board_deliver ::
  "('j, 'a, 'b, 'd, 'm) libraries \<Rightarrow> string \<Rightarrow> int list \<Rightarrow> string list \<Rightarrow> board \<Rightarrow> board \<times> sends" where
  "board_deliver libs topic (now # clock) (j # js) b =
    (let iso = lib_isoText libs now;
         b' = (case b_file b of
                 None \<Rightarrow> b
               | Some f \<Rightarrow> b\<lparr>b_files := (b_files b)(f \<mapsto> the (b_files b f) @ [lib_dump libs topic iso now j])\<rparr>);
         (b'', ss) = board_deliver libs topic clock js b'
     in (b'', map (\<lambda>c. (c, WsMessage topic iso j)) (b_browsers b) @ ss))"
| "board_deliver libs topic clock js b = (b, [])"

definition record_name :: "int \<Rightarrow> string" where
  "record_name now = ''omni_'' @ to_string now @ ''.dat''"

definition board_command :: "'j crow_json \<Rightarrow> bool \<Rightarrow> int \<Rightarrow> nat \<Rightarrow> 'j \<Rightarrow> string \<Rightarrow> board \<Rightarrow> board \<times> sends" where
  "board_command js opens now conn j type b =
    (let topic = the (cj_s js j ''topic'');
         file = record_name now
     in if type = ''subscribe'' then
          let b = b\<lparr>b_topics := switched True topic (b_topics b),
                    b_heard := b_heard b \<union> ({topic} \<inter> set allTopicNames)\<rparr>
          in (b, [(conn, WsTopics (b_topics b))])
        else if type = ''unsubscribe'' then
          let b = b\<lparr>b_topics := switched False topic (b_topics b)\<rparr> in (b, [(conn, WsTopics (b_topics b))])
        else if type = ''record_start'' then
          (if b_recording b then b
           else b\<lparr>b_recording := True, b_filename := file, b_file := (if opens then Some file else None),
                  b_files := (if opens then (b_files b)(file \<mapsto> []) else b_files b)\<rparr>,
           [(conn, WsRecordingStarted)])
        else if type = ''record_stop'' then
          (b\<lparr>b_recording := False, b_file := None\<rparr>, [(conn, WsRecordingStopped (if b_recording b then b_filename b else ''''))])
        else (b, []))"

fun board_step :: "('j, 'a, 'b, 'd, 'm) libraries \<Rightarrow> ('a, 'b) monitor_event \<Rightarrow> board \<Rightarrow> board \<times> sends" where
  "board_step libs (Opened conn) b =
     (b\<lparr>b_browsers := List.insert conn (b_browsers b)\<rparr>, [(conn, WsTopics (b_topics b))])"
| "board_step libs (Closed conn) b = (b\<lparr>b_browsers := remove1 conn (b_browsers b)\<rparr>, [])"
| "board_step libs (Received conn msg opens now) b =
     (case cj_load (lib_json libs) msg of
        None \<Rightarrow> (b, [])
      | Some j \<Rightarrow> board_command (lib_json libs) opens now conn j (the (cj_s (lib_json libs) j ''type'')) b)"
| "board_step libs (Arrived k topic content clock) b = board_deliver libs topic clock (board_content libs b k topic content) b"
| "board_step libs _ b = (b, [])"

fun board_run :: "('j, 'a, 'b, 'd, 'm) libraries \<Rightarrow> ('a, 'b) monitor_event list \<Rightarrow> board \<Rightarrow> board \<times> sends" where
  "board_run libs [] b = (b, [])"
| "board_run libs (ev # evs) b =
    (let (b, ss) = board_step libs ev b; (b, ss') = board_run libs evs b in (b, ss @ ss'))"

lemma board_run_snoc:
  "board_run libs (evs @ [ev]) b =
    (let (b, ss) = board_run libs evs b; (b, ss') = board_step libs ev b in (b, ss @ ss'))"
  by (induction evs arbitrary: b) (auto simp: Let_def split: prod.splits)

text \<open>What is sent to browsers apart from the notices of the playback.\<close>

definition of_playback :: "ws_payload \<Rightarrow> bool" where
  "of_playback p \<longleftrightarrow>
    (case p of WsPlaybackProgress _ _ \<Rightarrow> True | WsPlaybackStopped \<Rightarrow> True | WsPlaybackFinished \<Rightarrow> True
     | WsPlaybackStarted _ \<Rightarrow> True | WsRecordingLoaded _ \<Rightarrow> True | _ \<Rightarrow> False)"

lemma of_playback_simps [simp]:
  "of_playback (WsPlaybackProgress i k)" "of_playback WsPlaybackStopped" "of_playback WsPlaybackFinished"
  "of_playback (WsPlaybackStarted k)" "of_playback (WsRecordingLoaded k)" "\<not> of_playback (WsMessage t ts j)"
  "\<not> of_playback (WsTopics us)" "\<not> of_playback WsRecordingStarted" "\<not> of_playback (WsRecordingStopped f)"
  by (simp_all add: of_playback_def)

fun board_sends :: "('a, 'b) out list \<Rightarrow> sends" where
  "board_sends [] = []"
| "board_sends (Browser c p # outs) = (if of_playback p then board_sends outs else (c, p) # board_sends outs)"
| "board_sends (_ # outs) = board_sends outs"

lemma board_sends_append [simp]: "board_sends (outs @ outs') = board_sends outs @ board_sends outs'"
  by (induction outs rule: board_sends.induct) auto

lemma board_sends_to_browsers [simp]: "board_sends (to_browsers ss) = filter (\<lambda>(c, p). \<not> of_playback p) ss"
  by (induction ss) (auto simp: to_browsers_def)

lemma broadcast_filter [simp]:
  "filter (\<lambda>(c, p). \<not> of_playback p) (broadcastWs app p) = (if of_playback p then [] else broadcastWs app p)"
  by (auto simp: broadcastWs_def filter_empty_conv intro!: filter_True)

section \<open>The application displays the board\<close>

definition file_text :: "string list \<Rightarrow> string" where
  "file_text ls = concat (map (\<lambda>l. l @ [newline]) ls)"

definition serves_dds :: "('j, 'a, 'b, 'd, 'm) libraries \<Rightarrow> unit TransportDds \<Rightarrow> bool" where
  "serves_dds libs d \<longleftrightarrow> wf_tdds d \<and>
     (\<forall>t xs. tdds_arrive (lib_dds libs) d t xs =
       (if tdds_isSubscribed d t then map (\<lambda>j. ((), t, j)) (dds_content (lib_dds libs) t xs) else []))"

definition serves_zyre :: "('j, 'a, 'b, 'd, 'm) libraries \<Rightarrow> string set \<Rightarrow> unit TransportZyre \<Rightarrow> bool" where
  "serves_zyre libs heard z \<longleftrightarrow> wf_tzyre z \<and> tz_activeTopics z \<subseteq> heard \<and>
     (\<forall>t bs. tzyre_arrive (lib_pb libs) z t bs =
       (if t \<in> heard then map (\<lambda>j. ((), t, j)) (zyre_content (lib_pb libs) t bs) else []))"

definition displays :: "('j, 'a, 'b, 'd, 'm) libraries \<Rightarrow> board \<Rightarrow> OmniscopeApp \<Rightarrow> bool" where
  "displays libs b app \<longleftrightarrow>
     (\<exists>d z. app_transports app = [Dds d, Zyre z] \<and> serves_dds libs d \<and> serves_zyre libs (b_heard b) z) \<and>
     b_topics b = topic_list app \<and> b_browsers b = app_wsConnections app \<and> distinct (b_browsers b) \<and>
     b_recording b = app_recording app \<and> b_file b = app_recFile app \<and> b_filename b = app_recFilename app \<and>
     (\<forall>f. b_file b = Some f \<longrightarrow> b_recording b \<and> b_files b f \<noteq> None) \<and>
     (\<forall>f ls. b_files b f = Some ls \<longrightarrow> app_disk app f = Some (file_text ls))"

lemma topic_disjoint: "SENSOR_TOPIC \<notin> set allTopicNames" "TRACK_TOPIC \<notin> set allTopicNames"
  by (simp_all add: allTopicNames_def TOPIC_REGISTRY_def SENSOR_TOPIC_def TRACK_TOPIC_def)

lemma serves_dds_subscribe:
  assumes "serves_dds libs d" "topic \<in> set (tdds_topicNames d)"
  shows "\<exists>d'. tdds_subscribe d topic () = Inr d' \<and> serves_dds libs d' \<and>
    entries (Dds d') = switched True topic (entries (Dds d))"
proof (cases "tdds_isSubscribed d topic")
  case True
  then have "tdds_subscribe d topic () = Inr d" by (simp add: tdds_subscribe_noop)
  moreover have "entries (Dds d) = switched True topic (entries (Dds d))"
    by (rule entries_switched) (use True in auto)
  ultimately show ?thesis using assms(1) by metis
next
  case False
  have wf: "wf_tdds d" using assms(1) by (simp add: serves_dds_def)
  obtain d' where d': "tdds_subscribe d topic () = Inr d'" "wf_tdds d'" "tdds_topicNames d' = tdds_topicNames d"
    "\<forall>u. tdds_isSubscribed d' u \<longleftrightarrow> tdds_isSubscribed d u \<or> u = topic"
    "\<forall>x. tdds_arrive (lib_dds libs) d' topic x = map (\<lambda>j. ((), topic, j)) (dds_content (lib_dds libs) topic x)"
    "\<forall>u x. u \<noteq> topic \<longrightarrow> tdds_arrive (lib_dds libs) d' u x = tdds_arrive (lib_dds libs) d u x"
    using tdds_subscribe_new [OF wf False assms(2), of "()" "lib_dds libs"] by blast
  have "tdds_arrive (lib_dds libs) d' t xs =
      (if tdds_isSubscribed d' t then map (\<lambda>j. ((), t, j)) (dds_content (lib_dds libs) t xs) else [])" for t xs
    using assms(1) d'(4-6) by (cases "t = topic") (auto simp: serves_dds_def)
  then have "serves_dds libs d'" using d'(2) by (simp add: serves_dds_def)
  moreover have "entries (Dds d') = switched True topic (entries (Dds d))"
    by (rule entries_switched) (use d'(3,4) in auto)
  ultimately show ?thesis using d'(1) by blast
qed

lemma serves_dds_unsubscribe:
  assumes "serves_dds libs d"
  shows "serves_dds libs (tdds_unsubscribe d topic)"
    "entries (Dds (tdds_unsubscribe d topic)) = switched False topic (entries (Dds d))"
proof -
  have wf: "wf_tdds d" using assms by (simp add: serves_dds_def)
  note law = tdds_unsubscribe_law [OF wf, of topic "lib_dds libs"]
  have "tdds_arrive (lib_dds libs) (tdds_unsubscribe d topic) t xs =
      (if tdds_isSubscribed (tdds_unsubscribe d topic) t then map (\<lambda>j. ((), t, j)) (dds_content (lib_dds libs) t xs) else [])" for t xs
    using assms law by (cases "t = topic") (auto simp: serves_dds_def tdds_silent)
  then show "serves_dds libs (tdds_unsubscribe d topic)" using law by (simp add: serves_dds_def)
  show "entries (Dds (tdds_unsubscribe d topic)) = switched False topic (entries (Dds d))"
    by (rule entries_switched) (use law in auto)
qed

lemma serves_zyre_subscribe:
  assumes "serves_zyre libs heard z" "topic \<in> set allTopicNames"
  shows "serves_zyre libs (insert topic heard) (tzyre_subscribe z topic ())"
    "entries (Zyre (tzyre_subscribe z topic ())) = switched True topic (entries (Zyre z))"
proof -
  have wf: "wf_tzyre z" "topic \<in> set (tzyre_topicNames z)" using assms by (simp_all add: serves_zyre_def tzyre_topicNames_def)
  show "serves_zyre libs (insert topic heard) (tzyre_subscribe z topic ())"
  proof (cases "tzyre_isSubscribed z topic")
    case True
    then have "insert topic heard = heard" using assms(1) by (auto simp: serves_zyre_def tzyre_isSubscribed_def)
    then show ?thesis using assms(1) True by (simp add: tzyre_subscribe_noop)
  next
    case False
    note law = tzyre_subscribe_new [OF wf(1) False wf(2), of "()" "lib_pb libs"]
    have "tzyre_arrive (lib_pb libs) (tzyre_subscribe z topic ()) t bs =
        (if t \<in> insert topic heard then map (\<lambda>j. ((), t, j)) (zyre_content (lib_pb libs) t bs) else [])" for t bs
      using assms(1) law by (cases "t = topic") (auto simp: serves_zyre_def)
    moreover have "tz_activeTopics (tzyre_subscribe z topic ()) \<subseteq> insert topic heard"
      using assms(1) law by (auto simp: serves_zyre_def tzyre_isSubscribed_def)
    ultimately show ?thesis using law by (simp add: serves_zyre_def)
  qed
  show "entries (Zyre (tzyre_subscribe z topic ())) = switched True topic (entries (Zyre z))"
    using tr_subscribe_law [of "Zyre z" topic] wf by (intro entries_switched) auto
qed

lemma serves_zyre_unsubscribe:
  assumes "serves_zyre libs heard z"
  shows "serves_zyre libs heard (tzyre_unsubscribe z topic)"
    "entries (Zyre (tzyre_unsubscribe z topic)) = switched False topic (entries (Zyre z))"
proof -
  have wf: "wf_tzyre z" using assms by (simp add: serves_zyre_def)
  note law = tzyre_unsubscribe_law [OF wf, of topic "lib_pb libs"]
  have "tzyre_arrive (lib_pb libs) (tzyre_unsubscribe z topic) t bs = tzyre_arrive (lib_pb libs) z t bs" for t bs
    by (simp add: tzyre_arrive_eq tzyre_unsubscribe_def)
  then show "serves_zyre libs heard (tzyre_unsubscribe z topic)"
    using assms law by (auto simp: serves_zyre_def tzyre_isSubscribed_def)
  show "entries (Zyre (tzyre_unsubscribe z topic)) = switched False topic (entries (Zyre z))"
    by (rule entries_switched) (use law in auto)
qed

section \<open>Operations and the board\<close>

lemma two_transports:
  assumes "app_transports app = [Dds d, Zyre z]"
  shows "topic_list app = entries (Dds d) @ entries (Zyre z)"
    "findTransport app topic =
      (if topic \<in> set (tdds_topicNames d) then Some 0 else if topic \<in> set allTopicNames then Some 1 else None)"
  using assms by (auto simp: topic_list_entries findTransport_def list_ex_iff tzyre_topicNames_def)

lemma switched_append [simp]: "switched on topic (es @ es') = switched on topic es @ switched on topic es'"
  by (simp add: switched_def)

lemma unlisted [simp]:
  "topic \<notin> set (tdds_topicNames d) \<Longrightarrow> switched on topic (entries (Dds d)) = entries (Dds d)"
  "topic \<notin> set allTopicNames \<Longrightarrow> switched on topic (entries (Zyre z)) = entries (Zyre z)"
  by (rule switched_other; simp add: fst_entries tzyre_topicNames_def)+

lemma disjoint_names: "topic \<in> set (tdds_topicNames d) \<Longrightarrow> topic \<notin> set allTopicNames"
  using topic_disjoint by (auto simp: tdds_topicNames_def)

text \<open>New transports on the same board, but for the topics.\<close>

lemma displays_transports:
  assumes "displays libs b app" "serves_dds libs d" "serves_zyre libs heard z"
    and "topics = entries (Dds d) @ entries (Zyre z)"
  shows "displays libs (b\<lparr>b_topics := topics, b_heard := heard\<rparr>) (app\<lparr>app_transports := [Dds d, Zyre z]\<rparr>)"
  using assms by (auto simp: displays_def topic_list_entries)

lemma subscribe_displays:
  assumes "displays libs b app"
  shows "\<exists>ts. (case findTransport app topic of None \<Rightarrow> Inr app
      | Some k \<Rightarrow> obind (tr_subscribe (app_transports app ! k) topic) (\<lambda>t.
          Inr (app\<lparr>app_transports := (app_transports app)[k := t]\<rparr>))) = Inr (app\<lparr>app_transports := ts\<rparr>) \<and>
    displays libs (b\<lparr>b_topics := switched True topic (b_topics b), b_heard := b_heard b \<union> ({topic} \<inter> set allTopicNames)\<rparr>)
      (app\<lparr>app_transports := ts\<rparr>)"
proof -
  obtain d z where app: "app_transports app = [Dds d, Zyre z]" "serves_dds libs d" "serves_zyre libs (b_heard b) z"
    "b_topics b = topic_list app" using assms unfolding displays_def by blast
  note two = two_transports [OF app(1)]
  have goal: ?thesis if "(case findTransport app topic of None \<Rightarrow> Inr app
      | Some k \<Rightarrow> obind (tr_subscribe (app_transports app ! k) topic) (\<lambda>t.
          Inr (app\<lparr>app_transports := (app_transports app)[k := t]\<rparr>))) = Inr (app\<lparr>app_transports := [Dds d', Zyre z']\<rparr>)"
    "serves_dds libs d'" "serves_zyre libs (b_heard b \<union> ({topic} \<inter> set allTopicNames)) z'"
    "switched True topic (topic_list app) = entries (Dds d') @ entries (Zyre z')" for d' z'
    using that displays_transports [OF assms that(2,3,4)] app(4) by (intro exI [of _ "[Dds d', Zyre z']"]) simp
  consider "topic \<in> set (tdds_topicNames d)" | "topic \<in> set allTopicNames" "topic \<notin> set (tdds_topicNames d)"
    | "topic \<notin> set (tdds_topicNames d)" "topic \<notin> set allTopicNames" by blast
  then show ?thesis
  proof cases
    case 1
    obtain d' where "tdds_subscribe d topic () = Inr d'" "serves_dds libs d'"
      "entries (Dds d') = switched True topic (entries (Dds d))" using serves_dds_subscribe [OF app(2) 1] by blast
    then show ?thesis using 1 app disjoint_names [OF 1] by (intro goal [of d' z]) (auto simp: two)
  next
    case 2
    then show ?thesis using app serves_zyre_subscribe [OF app(3) 2(1)] by (intro goal [of d "tzyre_subscribe z topic ()"]) (auto simp: two)
  next
    case 3
    then have "app = app\<lparr>app_transports := [Dds d, Zyre z]\<rparr>" using app(1) by simp
    then show ?thesis using 3 app by (intro goal [of d z]) (simp_all add: two)
  qed
qed

lemma unsubscribe_displays:
  assumes "displays libs b app"
  shows "\<exists>ts. (case findTransport app topic of None \<Rightarrow> app
      | Some k \<Rightarrow> app\<lparr>app_transports := (app_transports app)[k := tr_unsubscribe (app_transports app ! k) topic]\<rparr>) =
        app\<lparr>app_transports := ts\<rparr> \<and>
    displays libs (b\<lparr>b_topics := switched False topic (b_topics b)\<rparr>) (app\<lparr>app_transports := ts\<rparr>)"
proof -
  obtain d z where app: "app_transports app = [Dds d, Zyre z]" "serves_dds libs d" "serves_zyre libs (b_heard b) z"
    "b_topics b = topic_list app" using assms unfolding displays_def by blast
  note two = two_transports [OF app(1)]
  have goal: ?thesis if "(case findTransport app topic of None \<Rightarrow> app
      | Some k \<Rightarrow> app\<lparr>app_transports := (app_transports app)[k := tr_unsubscribe (app_transports app ! k) topic]\<rparr>) =
        app\<lparr>app_transports := [Dds d', Zyre z']\<rparr>"
    "serves_dds libs d'" "serves_zyre libs (b_heard b) z'"
    "switched False topic (topic_list app) = entries (Dds d') @ entries (Zyre z')" for d' z'
    using that displays_transports [OF assms that(2,3,4)] app(4) by (intro exI [of _ "[Dds d', Zyre z']"]) simp
  consider "topic \<in> set (tdds_topicNames d)" | "topic \<in> set allTopicNames" "topic \<notin> set (tdds_topicNames d)"
    | "topic \<notin> set (tdds_topicNames d)" "topic \<notin> set allTopicNames" by blast
  then show ?thesis
  proof cases
    case 1
    then show ?thesis using app disjoint_names [OF 1] serves_dds_unsubscribe [OF app(2), of topic]
      by (intro goal [of "tdds_unsubscribe d topic" z]) (auto simp: two)
  next
    case 2
    then show ?thesis using app serves_zyre_unsubscribe [OF app(3), of topic] by (intro goal [of d "tzyre_unsubscribe z topic"]) (auto simp: two)
  next
    case 3
    then have "app = app\<lparr>app_transports := [Dds d, Zyre z]\<rparr>" using app(1) by simp
    then show ?thesis using 3 app by (intro goal [of d z]) (simp_all add: two)
  qed
qed

lemma topic_list_cong: "app_transports app' = app_transports app \<Longrightarrow> topic_list app' = topic_list app"
  by (simp add: topic_list_def)

lemma startRecording_displays:
  assumes "displays libs b app"
  shows "displays libs (if b_recording b then b
      else b\<lparr>b_recording := True, b_filename := record_name now,
             b_file := (if opens then Some (record_name now) else None),
             b_files := (if opens then (b_files b)(record_name now \<mapsto> []) else b_files b)\<rparr>)
    (startRecording opens now app)"
proof (cases "b_recording b")
  case True
  then have "startRecording opens now app = app" using assms by (simp add: displays_def startRecording_def)
  then show ?thesis using True assms by simp
next
  case False
  then have off: "\<not> app_recording app" "app_recFile app = None" using assms by (auto simp: displays_def)
  show ?thesis
    using assms off by (auto simp: displays_def startRecording_def record_name_def Let_def file_text_def topic_list_def)
qed

lemma stopRecording_displays:
  assumes "displays libs b app"
  shows "displays libs (b\<lparr>b_recording := False, b_file := None\<rparr>) (snd (stopRecording app))"
    "fst (stopRecording app) = (if b_recording b then b_filename b else '''')"
  using assms by (auto simp: displays_def stopRecording_def Let_def topic_list_def)

lemma deliver_displays:
  "displays libs b app \<Longrightarrow> deliver libs alive clock (map (Pair topic) js) app = Inr (app', ss) \<Longrightarrow>
    board_deliver libs topic clock js b = (b', ss') \<Longrightarrow>
    displays libs b' app' \<and> ss = ss' \<and> app_playback app' = app_playback app \<and> app_transports app' = app_transports app"
proof (induction libs topic clock js b arbitrary: app app' ss b' ss' rule: board_deliver.induct)
  case (1 libs topic now clock j js b)
  let ?iso = "lib_isoText libs now"
  let ?b = "case b_file b of None \<Rightarrow> b
    | Some f \<Rightarrow> b\<lparr>b_files := (b_files b)(f \<mapsto> the (b_files b f) @ [lib_dump libs topic ?iso now j])\<rparr>"
  obtain app1 ss1 where one: "onTransportMessage (lib_dump libs) (lib_isoText libs) now app topic j = (app1, ss1)" by fastforce
  obtain b2 ss2 where two: "board_deliver libs topic clock js ?b = (b2, ss2)" by fastforce
  have step: "displays libs ?b app1" "ss1 = map (\<lambda>c. (c, WsMessage topic ?iso j)) (b_browsers b)"
    "app_playback app1 = app_playback app" "app_transports app1 = app_transports app"
    using one 1(2) by (auto simp: onTransportMessage_def Let_def displays_def broadcastWs_def file_text_def topic_list_def
        split: option.splits if_splits)
  obtain app2 ss3 where rest: "deliver libs alive clock (map (Pair topic) js) app1 = Inr (app2, ss3)"
    and all: "app' = app2" "ss = ss1 @ ss3"
    using 1(3) one by (auto simp: obind_eq_Inr_iff split: if_splits)
  note IH = 1(1) [OF refl refl step(1) rest two]
  show ?case using 1(4) all two IH step by (simp add: Let_def)
qed auto

text \<open>A delivery uses the mutex of the recording, and no member but those before the playback engine.\<close>

lemma deliver_dead:
  assumes "RecMutex \<notin> set alive" "length clock = length calls"
  shows "deliver libs alive clock calls app = (if calls = [] then Inr (app, []) else Inl DeadObject)"
proof (cases calls)
  case (Cons c calls')
  then show ?thesis using assms by (cases c; cases clock) (auto simp: message_uses_def)
qed (use assms in simp)

lemma deliver_alive:
  "{RecMutex, RecordingFlag, RecFile, WsMutex, WsConnections} \<subseteq> set alive \<Longrightarrow> \<exists>app' ss. deliver libs alive clock calls app = Inr (app', ss)"
proof (induction libs alive clock calls app rule: deliver.induct)
  case (1 libs alive now clock topic jsonData calls app)
  obtain app1 ss1 where one: "onTransportMessage (lib_dump libs) (lib_isoText libs) now app topic jsonData = (app1, ss1)" by fastforce
  have uses: "set (message_uses app) \<subseteq> set alive" using 1(2) by (auto simp: message_uses_def)
  then obtain app' ss where "deliver libs alive clock calls app1 = Inr (app', ss)" using 1(1) [OF _ refl one [symmetric]] 1(2) by auto
  then show ?case using uses one by simp
qed auto

lemma deliver_fault: "deliver libs alive clock calls app = Inl f \<Longrightarrow> f = DeadObject"
  by (induction libs alive clock calls app rule: deliver.induct)
    (auto simp: obind_eq_Inl_iff split: if_splits prod.splits)

lemma tdds_publish_keeps:
  assumes "tdds_publishFromJson js t topic jsonData = Inr (t', ws)"
  shows "td_sensorSub t' = td_sensorSub t" "td_trackSub t' = td_trackSub t" "td_activeTopics t' = td_activeTopics t"
  using assms by (auto simp: tdds_publishFromJson_def obind_eq_Inr_iff Let_def split_beta split: option.splits if_splits)

lemma publish_displays:
  assumes "displays libs b app" "publish_callback libs shouted app topic jsonData = Inr (app', outs)"
  shows "displays libs b app' \<and> app_playback app' = app_playback app \<and> board_sends outs = []"
proof -
  obtain d z where app: "app_transports app = [Dds d, Zyre z]" "serves_dds libs d" "serves_zyre libs (b_heard b) z"
    "b_topics b = topic_list app" using assms unfolding displays_def by blast
  note two = two_transports [OF app(1)]
  have sends: "board_sends (map (\<lambda>(name, q, x). DdsWrite name q x) ws) = []" for ws :: "(string \<times> qos \<times> ('b + 'c)) list"
    by (induction ws) auto
  have goal: ?thesis if "app' = app\<lparr>app_transports := [Dds d', Zyre z]\<rparr>" "board_sends outs = []"
    "td_sensorSub d' = td_sensorSub d" "td_trackSub d' = td_trackSub d" "td_activeTopics d' = td_activeTopics d" for d'
  proof -
    have "tdds_arrive (lib_dds libs) d' t xs = tdds_arrive (lib_dds libs) d t xs" for t xs
      using that(3,4) by (cases xs) auto
    then have "serves_dds libs d'"
      using app(2) that(3-5) by (simp add: serves_dds_def wf_tdds_def tdds_isSubscribed_def)
    moreover have "entries (Dds d') = entries (Dds d)" using that(5) by (simp add: entries_def tdds_isSubscribed_def tdds_topicNames_def)
    ultimately have "displays libs (b\<lparr>b_topics := b_topics b, b_heard := b_heard b\<rparr>) app'"
      unfolding that(1) using app by (intro displays_transports [OF assms(1)]) (simp_all add: two)
    then show ?thesis using that(1,2) by simp
  qed
  consider "topic \<in> set (tdds_topicNames d)" | "topic \<in> set allTopicNames" "topic \<notin> set (tdds_topicNames d)"
    | "topic \<notin> set (tdds_topicNames d)" "topic \<notin> set allTopicNames" by blast
  then show ?thesis
  proof cases
    case 1
    then obtain d' ws where "tdds_publishFromJson (lib_dds libs) d topic jsonData = Inr (d', ws)"
      "app' = app\<lparr>app_transports := [Dds d', Zyre z]\<rparr>" "outs = map (\<lambda>(name, q, x). DdsWrite name q x) ws"
      using assms(2) app(1) by (auto simp: publish_callback_def two obind_eq_Inr_iff)
    then show ?thesis using tdds_publish_keeps by (intro goal [of d']) (simp_all add: sends)
  next
    case 2
    then show ?thesis using assms(2) app(1)
      by (intro goal [of d]) (auto simp: publish_callback_def two split: option.splits)
  next
    case 3
    then show ?thesis using assms by (simp add: publish_callback_def two)
  qed
qed

lemma perform_displays:
  "displays libs b app \<Longrightarrow> perform libs shouted es app = Inr (app', outs) \<Longrightarrow>
    displays libs b app' \<and> app_playback app' = app_playback app \<and> board_sends outs = []"
proof (induction libs shouted es app arbitrary: app' outs rule: perform.induct)
  case (2 libs shouted topic jsonData es app)
  then show ?case using publish_displays by (fastforce simp: obind_eq_Inr_iff)
qed (auto simp: obind_eq_Inr_iff playback_send_def)

end
