(* ===== verification/MonitorRuns.thy ===== *)
theory MonitorRuns
  imports MonitorBoard
begin

text \<open>
  The runs of the monitor.

  Every step of a sound state leads to a sound state that displays the board, or to an expected fault
  (\<open>step_sound\<close>, with a lemma for each rule).  From this follow the properties: the invariant, what browsers and
  files see, the faults with one handler at a time and with two, that with one handler a stop is never
  blocked, and what a message does that arrives while the members are destroyed.  The section on the environment shows that its
  events are possible, so that the runs of the properties exist.
\<close>

section \<open>Every step keeps the monitor sound\<close>

text \<open>The members that are alive: all, until the destruction; then those declared first.\<close>

definition alive_ok :: "phase \<Rightarrow> member list \<Rightarrow> bool" where
  "alive_ok ph ms \<longleftrightarrow> (ph \<noteq> Destroying \<longrightarrow> ms = impl_members) \<and> (\<exists>k. ms = take k impl_members)"

lemma alive_ok_simps [simp]:
  "ph \<noteq> Destroying \<Longrightarrow> alive_ok ph ms \<longleftrightarrow> ms = impl_members" "alive_ok ph impl_members"
  by (auto simp: alive_ok_def intro!: exI [of _ "length impl_members"])

lemma alive_ok_butlast: "alive_ok Destroying ms \<Longrightarrow> alive_ok Destroying (butlast ms)"
  by (auto simp: alive_ok_def butlast_conv_take)

definition engine_ok :: "'j monitor \<Rightarrow> bool" where
  "engine_ok m \<longleftrightarrow>
     (\<exists>e. app_playback (mo_app m) = Some e \<and> (pe_thread e \<longleftrightarrow> mo_player m \<noteq> NoThread) \<and>
       (pe_playing e \<longleftrightarrow> \<not> at_rest (mo_player m))) \<and>
     wf_player (mo_player m) \<and> (mo_phase m \<noteq> Serving \<longrightarrow> mo_handlers m = []) \<and>
     (mo_phase m \<notin> {Serving, ShuttingDown} \<longrightarrow> mo_player m = NoThread) \<and> alive_ok (mo_phase m) (mo_alive m)"

text \<open>While a single handler waits for the playback thread, the stop flag is set.\<close>

definition stop_ok :: "'j monitor \<Rightarrow> bool" where
  "stop_ok m \<longleftrightarrow>
     (\<forall>e. app_playback (mo_app m) = Some e \<longrightarrow>
       ((\<exists>r. mo_handlers m = [Joining r]) \<or> mo_phase m = ShuttingDown \<longrightarrow> pe_stopFlag e)) \<and>
     (mo_handlers m = [Launching] \<longrightarrow> mo_player m = NoThread)"

text \<open>The readers of the generated DDS messages throw nothing but the exceptions of the JSON library.\<close>

definition json_faults :: "('j, 'a, 'b, 'd, 'm) libraries \<Rightarrow> bool" where
  "json_faults libs \<longleftrightarrow>
     (\<forall>d f. sensor_fromJson (lib_dds libs) d = Inl f \<longrightarrow> f = BadJson) \<and>
     (\<forall>d f. track_fromJson (lib_dds libs) d = Inl f \<longrightarrow> f = BadJson)"

definition expected_fault :: "'j monitor \<Rightarrow> fault \<Rightarrow> bool" where
  "expected_fault m f \<longleftrightarrow> f = BadJson \<or> f = SignedOverflow \<or> f = DeadObject \<and> mo_phase m = Destroying \<or>
     f = ThreadTerminate \<and> Launching \<in> set (mo_handlers m) \<and> mo_player m \<noteq> NoThread"

definition sound_step ::
  "('j, 'a, 'b, 'd, 'm) libraries \<Rightarrow> board \<times> sends \<Rightarrow> 'j monitor \<Rightarrow> ('j monitor \<times> ('a, 'b) out list) outcome \<Rightarrow> bool"
where
  "sound_step libs bs m r \<longleftrightarrow>
     (case r of
        Inl f \<Rightarrow> json_faults libs \<longrightarrow> expected_fault m f
      | Inr (m', outs) \<Rightarrow> displays libs (fst bs) (mo_app m') \<and> board_sends outs = snd bs \<and> engine_ok m' \<and>
          (stop_ok m \<and> length (mo_handlers m) \<le> 1 \<and> length (mo_handlers m') \<le> 1 \<longrightarrow> stop_ok m'))"

text \<open>A command that is not for the playback: it throws, or the board changes as it says.\<close>

definition follows ::
  "('j, 'a, 'b, 'd, 'm) libraries \<Rightarrow> board \<times> sends \<Rightarrow> OmniscopeApp \<Rightarrow>
   (OmniscopeApp \<times> sends \<times> string list option) outcome \<Rightarrow> bool" where
  "follows libs bs app r \<longleftrightarrow> r = Inl BadJson \<or>
     (\<exists>app'. r = Inr (app', snd bs, None) \<and> displays libs (fst bs) app' \<and> app_playback app' = app_playback app \<and>
       filter (\<lambda>(c, p). \<not> of_playback p) (snd bs) = snd bs)"

lemma topic_command_follows:
  assumes "displays libs b app" "cj_load (lib_json libs) msg = Some j" "cj_s (lib_json libs) j ''type'' = Some type"
    and "type = (if on then ''subscribe'' else ''unsubscribe'')"
  shows "follows libs (board_command (lib_json libs) opens now conn j type b) app
    (handleWsMessage (lib_json libs) opens now app conn msg)"
proof (cases "cj_s (lib_json libs) j ''topic''")
  case None
  then have "handleWsMessage (lib_json libs) opens now app conn msg = Inl BadJson"
    using assms(2-4) by (cases on) (simp_all add: handleWsMessage_def json_member_def)
  then show ?thesis by (simp add: follows_def)
next
  case (Some topic)
  note cmd = assms(2-4) Some board_command_def handleWsMessage_def json_member_def sendTopicList_def Let_def
  have topics: "topic_list app' = b_topics b'" if "displays libs b' app'" for b' app' using that by (simp add: displays_def)
  show ?thesis
  proof (cases on)
    case True
    then show ?thesis using subscribe_displays [OF assms(1), of topic] topics
      by (fastforce simp: cmd follows_def)
  next
    case False
    then show ?thesis using unsubscribe_displays [OF assms(1), of topic] topics
      by (fastforce simp: cmd follows_def)
  qed
qed

lemma record_command_follows:
  assumes "displays libs b app" "cj_load (lib_json libs) msg = Some j" "cj_s (lib_json libs) j ''type'' = Some type"
    and "type = (if on then ''record_start'' else ''record_stop'')"
  shows "follows libs (board_command (lib_json libs) opens now conn j type b) app
    (handleWsMessage (lib_json libs) opens now app conn msg)"
proof (cases on)
  case True
  have "app_playback (startRecording opens now app) = app_playback app" by (simp add: startRecording_def Let_def)
  then show ?thesis using startRecording_displays [OF assms(1), where now = now and opens = opens] True
    by (simp add: assms(2-4) board_command_def handleWsMessage_def json_member_def Let_def follows_def)
next
  case False
  have "app_playback (snd (stopRecording app)) = app_playback app" by (simp add: stopRecording_def Let_def)
  then show ?thesis using stopRecording_displays [OF assms(1)] False
    by (simp add: assms(2-4) board_command_def handleWsMessage_def json_member_def Let_def follows_def split_beta)
qed

lemma command_follows:
  assumes "displays libs b app" "request_of (lib_json libs) msg = None"
  shows "follows libs (board_step libs (Received conn msg opens now) b) app
    (handleWsMessage (lib_json libs) opens now app conn msg)"
proof (cases "cj_load (lib_json libs) msg")
  case None
  then show ?thesis using assms(1) by (simp add: follows_def handleWsMessage_def)
next
  case (Some j)
  note load = Some
  show ?thesis
  proof (cases "cj_s (lib_json libs) j ''type''")
    case None
    then show ?thesis using load by (simp add: follows_def handleWsMessage_def json_member_def)
  next
    case (Some type)
    have no: "type \<noteq> ''playback_start''" "type \<noteq> ''playback_stop''"
      using assms(2) load Some by (simp_all add: request_of_def split: if_splits)
    note topic = topic_command_follows [OF assms(1) load Some, where on = True and opens = opens and now = now and conn = conn]
      topic_command_follows [OF assms(1) load Some, where on = False and opens = opens and now = now and conn = conn]
    note rec = record_command_follows [OF assms(1) load Some, where on = True and opens = opens and now = now and conn = conn]
      record_command_follows [OF assms(1) load Some, where on = False and opens = opens and now = now and conn = conn]
    show ?thesis
    proof (cases "type = ''subscribe'' \<or> type = ''unsubscribe'' \<or> type = ''record_start'' \<or> type = ''record_stop''")
      case True
      then show ?thesis using topic rec load Some by (elim disjE) simp_all
    next
      case False
      then show ?thesis using assms(1) no load Some
        by (simp add: follows_def board_command_def handleWsMessage_def json_member_def Let_def)
    qed
  qed
qed

lemma engine_ok_app:
  "engine_ok m \<Longrightarrow> app_playback app = app_playback (mo_app m) \<Longrightarrow> engine_ok (m\<lparr>mo_app := app\<rparr>)"
  "stop_ok m \<Longrightarrow> app_playback app = app_playback (mo_app m) \<Longrightarrow> stop_ok (m\<lparr>mo_app := app\<rparr>)"
  by (simp_all add: engine_ok_def stop_ok_def)

lemma displays_playback [simp]: "displays libs b (app\<lparr>app_playback := pb\<rparr>) = displays libs b app"
  by (simp add: displays_def topic_list_def)

lemma command_sound:
  assumes "displays libs b (mo_app m)" "engine_ok m" "request_of (lib_json libs) msg = None"
  shows "sound_step libs (board_step libs (Received conn msg opens now) b) m
    (obind (handleWsMessage (lib_json libs) opens now (mo_app m) conn msg) (\<lambda>(app, ss, _).
      Inr (m\<lparr>mo_app := app\<rparr>, to_browsers ss)))"
proof -
  let ?bs = "board_step libs (Received conn msg opens now) b"
  have "follows libs ?bs (mo_app m) (handleWsMessage (lib_json libs) opens now (mo_app m) conn msg)"
    using assms(1,3) by (rule command_follows)
  then consider "handleWsMessage (lib_json libs) opens now (mo_app m) conn msg = Inl BadJson"
    | app' where "handleWsMessage (lib_json libs) opens now (mo_app m) conn msg = Inr (app', snd ?bs, None)"
      "displays libs (fst ?bs) app'" "app_playback app' = app_playback (mo_app m)"
      "filter (\<lambda>(c, p). \<not> of_playback p) (snd ?bs) = snd ?bs"
    unfolding follows_def by blast
  then show ?thesis
  proof cases
    case 1
    then show ?thesis by (simp add: sound_step_def expected_fault_def)
  next
    case 2
    then show ?thesis using engine_ok_app(1) [OF assms(2) 2(3)] engine_ok_app(2) [OF _ 2(3)]
      by (simp add: sound_step_def del: board_step.simps)
  qed
qed

lemma set_stop_flag_sound:
  assumes "displays libs b (mo_app m)" "engine_ok m" "mo_phase m = Serving"
  shows "sound_step libs (b, []) m (obind (set_stop_flag (mo_app m)) (\<lambda>app.
      Inr (m\<lparr>mo_app := app, mo_handlers := mo_handlers m @ [Joining r]\<rparr>, [])))"
    "mo_handlers m = [] \<Longrightarrow> sound_step libs (b, []) m (obind (set_stop_flag (mo_app m)) (\<lambda>app.
      Inr (m\<lparr>mo_app := app, mo_phase := ShuttingDown\<rparr>, [])))"
  using assms by (auto simp: sound_step_def set_stop_flag_def with_playback_def engine_ok_def stop_ok_def)

lemma at_rest_cases: "at_rest p \<Longrightarrow> (p = NoThread \<Longrightarrow> P) \<Longrightarrow> (p = Ended \<Longrightarrow> P) \<Longrightarrow> P"
  by (auto simp: at_rest_def)

lemma handler_cases:
  obtains "h = Joining ForStop" | "h = Joining ForStart" | body where "h = Joining (ForLoad body)"
    | "h = Launching" | "h = Announcing"
  by (cases h) (metis request.exhaust)+

lemma handler_displays:
  assumes "displays libs b app" "advance h app p = Some (Inr (app', p', hs, ss))"
  shows "displays libs b app' \<and> filter (\<lambda>(c, p). \<not> of_playback p) ss = []"
  using assms
  by (cases h rule: handler_cases)
    (auto simp: obind_eq_Inr_iff Let_def launch_def playback_send_def with_playback_def split: if_splits option.splits)

lemma handler_engine:
  assumes "app_playback app = Some e" "pe_thread e \<longleftrightarrow> p \<noteq> NoThread" "pe_playing e \<longleftrightarrow> \<not> at_rest p" "wf_player p"
    and "advance h app p = Some (Inr (app', p', hs, ss))"
  shows "\<exists>e'. app_playback app' = Some e' \<and> (pe_thread e' \<longleftrightarrow> p' \<noteq> NoThread) \<and> (pe_playing e' \<longleftrightarrow> \<not> at_rest p')"
    "wf_player p'" "hs \<noteq> [Joining r]" "hs = [Launching] \<Longrightarrow> p' = NoThread" "length hs \<le> 1"
  using assms
  by (cases h rule: handler_cases; auto simp: obind_eq_Inr_iff with_playback_def Let_def launch_def split: if_splits)+

lemma handler_fault:
  assumes "advance h app p = Some (Inl f)" "app_playback app = Some e" "pe_thread e \<longleftrightarrow> p \<noteq> NoThread"
  shows "f = ThreadTerminate" "h = Launching" "p \<noteq> NoThread"
  using assms
  by (cases h rule: handler_cases; auto simp: obind_eq_Inl_iff with_playback_def Let_def launch_def split: if_splits)+

lemma handler_sound:
  assumes "displays libs b (mo_app m)" "engine_ok m" "k < length (mo_handlers m)"
    and "advance (mo_handlers m ! k) (mo_app m) (mo_player m) = Some r"
  shows "sound_step libs (b, []) m (obind r (\<lambda>(app, p, hs, ss).
      Inr (m\<lparr>mo_app := app, mo_player := p, mo_handlers := take k (mo_handlers m) @ hs @ drop (k + 1) (mo_handlers m)\<rparr>,
        to_browsers ss)))"
proof (cases r)
  case (Inl f)
  have "f = ThreadTerminate" "mo_handlers m ! k = Launching" "mo_player m \<noteq> NoThread"
    using assms(2) handler_fault [OF assms(4) [unfolded Inl]] by (auto simp: engine_ok_def)
  then show ?thesis using Inl assms(3) by (auto simp: sound_step_def expected_fault_def in_set_conv_nth)
next
  case (Inr x)
  obtain app p hs ss where x: "x = (app, p, hs, ss)" by (cases x)
  note adv = assms(4) [unfolded Inr x]
  obtain e where e: "app_playback (mo_app m) = Some e" "pe_thread e \<longleftrightarrow> mo_player m \<noteq> NoThread"
    "pe_playing e \<longleftrightarrow> \<not> at_rest (mo_player m)" "wf_player (mo_player m)" using assms(2) by (auto simp: engine_ok_def)
  note eng = handler_engine [OF e adv]
  have serving: "mo_phase m = Serving" "mo_alive m = impl_members" using assms(2,3) by (auto simp: engine_ok_def)
  have "length (mo_handlers m) \<le> 1 \<Longrightarrow> take k (mo_handlers m) @ hs @ drop (k + 1) (mo_handlers m) = hs"
    using assms(3) by (cases k) auto
  then show ?thesis using handler_displays [OF assms(1) adv] eng serving Inr x
    by (auto simp: sound_step_def engine_ok_def stop_ok_def)
qed

lemma arrive_content:
  assumes "displays libs b app" "k < length (app_transports app)"
  shows "tr_arrive libs (app_transports app ! k) topic content = map (Pair topic) (board_content libs b k topic content)"
proof -
  obtain d z where app: "app_transports app = [Dds d, Zyre z]" "serves_dds libs d" "serves_zyre libs (b_heard b) z"
    "b_topics b = topic_list app" using assms(1) unfolding displays_def by blast
  have "(topic, True, ''DDS'') \<in> set (b_topics b) \<longleftrightarrow> tdds_isSubscribed d topic"
    using app by (auto simp: two_transports [OF app(1)] entries_def serves_dds_def wf_tdds_def tdds_isSubscribed_def tdds_topicNames_def)
  moreover have "k = 0 \<or> k = 1" using assms(2) app(1) by auto
  ultimately show ?thesis
    using app by (cases content) (auto simp: serves_dds_def serves_zyre_def)
qed

lemma board_deliver_notices:
  "board_deliver libs topic clock js b = (b', ss) \<Longrightarrow> filter (\<lambda>(c, p). \<not> of_playback p) ss = ss"
  by (induction libs topic clock js b arbitrary: b' ss rule: board_deliver.induct)
    (fastforce simp: Let_def split: prod.splits)+

lemma arrival_sound:
  assumes "displays libs b (mo_app m)" "engine_ok m" "k < length (app_transports (mo_app m))"
    and "tr_arrive libs (app_transports (mo_app m) ! k) topic content = calls"
  shows "sound_step libs (board_step libs (Arrived k topic content clock) b) m
    (obind (deliver libs (mo_alive m) clock calls (mo_app m)) (\<lambda>(app, ss). Inr (m\<lparr>mo_app := app\<rparr>, to_browsers ss)))"
proof (cases "deliver libs (mo_alive m) clock calls (mo_app m)")
  case (Inl f)
  have "mo_phase m = Destroying"
  proof (rule ccontr)
    assume "mo_phase m \<noteq> Destroying"
    then have "mo_alive m = impl_members" using assms(2) by (simp add: engine_ok_def)
    then show False using Inl deliver_alive [of "mo_alive m" libs clock calls "mo_app m"] by (auto simp: impl_members_def)
  qed
  then show ?thesis using Inl deliver_fault [OF Inl] by (simp add: sound_step_def expected_fault_def)
next
  case (Inr x)
  obtain app ss where x: "x = (app, ss)" by (cases x)
  have calls: "calls = map (Pair topic) (board_content libs b k topic content)"
    using arrive_content [OF assms(1,3)] assms(4) by simp
  obtain b' ss' where bd: "board_deliver libs topic clock (board_content libs b k topic content) b = (b', ss')" by fastforce
  note shown = deliver_displays [OF assms(1) Inr [unfolded calls x] bd]
  then show ?thesis
    using Inr x board_deliver_notices [OF bd] bd engine_ok_app(1) [OF assms(2), of app] engine_ok_app(2) [of m app]
    by (simp add: sound_step_def)
qed

lemma publish_fault:
  assumes "json_faults libs" "publish_callback libs shouted app topic jsonData = Inl f"
  shows "f = BadJson"
proof -
  obtain k where "tr_publishFromJson libs shouted (app_transports app ! k) topic jsonData = Inl f"
    using assms(2) by (auto simp: publish_callback_def obind_eq_Inl_iff split: option.splits)
  then show ?thesis
    using assms(1)
    by (cases "app_transports app ! k")
      (auto simp: json_faults_def tdds_publishFromJson_def obind_eq_Inl_iff Let_def split_beta split: option.splits if_splits)
qed

lemma perform_fault: "json_faults libs \<Longrightarrow> perform libs shouted es app = Inl f \<Longrightarrow> f = BadJson"
  by (induction libs shouted es app rule: perform.induct) (auto simp: obind_eq_Inl_iff dest: publish_fault)

lemma player_sound:
  assumes "displays libs b (mo_app m)" "engine_ok m" "\<not> at_rest (mo_player m)"
  shows "sound_step libs (b, []) m (players_turn libs shouted m)"
proof -
  obtain e where e: "app_playback (mo_app m) = Some e" "pe_thread e" "pe_playing e" "wf_player (mo_player m)"
    "mo_phase m = Serving \<or> mo_phase m = ShuttingDown"
    using assms(2,3) by (auto simp: engine_ok_def)
  note turn = players_turn_def with_playback_def e(1) Let_def
  show ?thesis
  proof (cases "player_step (lib_json libs) (pe_stopFlag e) (mo_player m)")
    case (Inl f)
    then show ?thesis using player_step_fault [OF Inl e(4)] by (auto simp: turn sound_step_def expected_fault_def)
  next
    case (Inr x)
    obtain p es where x: "x = (p, es)" by (cases x)
    note wf = player_step_wf [OF Inr [unfolded x] e(4) assms(3)]
    let ?e = "if p = Ended then e\<lparr>pe_playing := False\<rparr> else e"
    let ?app = "(mo_app m)\<lparr>app_playback := Some ?e\<rparr>"
    show ?thesis
    proof (cases "perform libs shouted es ?app")
      case (Inl f)
      then show ?thesis using perform_fault [OF _ Inl] Inr by (auto simp: turn x sound_step_def expected_fault_def)
    next
      case (Inr y)
      obtain app outs where y: "y = (app, outs)" by (cases y)
      have app: "displays libs b app" "app_playback app = Some ?e" "board_sends outs = []"
        using perform_displays [OF _ Inr [unfolded y], of b] assms(1) by simp_all
      have res: "players_turn libs shouted m = Inr (m\<lparr>mo_app := app, mo_player := p\<rparr>, outs)"
        using Inr \<open>player_step _ _ _ = Inr x\<close> by (simp add: turn x y)
      have "engine_ok (m\<lparr>mo_app := app, mo_player := p\<rparr>)"
        using assms(2) e wf app(2) by (auto simp: engine_ok_def at_rest_def)
      moreover have "stop_ok m \<Longrightarrow> stop_ok (m\<lparr>mo_app := app, mo_player := p\<rparr>)"
        using e(1) app(2) assms(3) by (auto simp: stop_ok_def)
      ultimately show ?thesis using app by (simp add: res sound_step_def)
    qed
  qed
qed

lemma run_returns_sound:
  assumes "displays libs b (mo_app m)" "engine_ok m" "mo_phase m = ShuttingDown"
  shows "sound_step libs (b, []) m (obind (with_playback (mo_app m) join_thread) (\<lambda>e.
    Inr (m\<lparr>mo_app := (mo_app m)\<lparr>app_playback := Some e\<rparr>, mo_player := NoThread, mo_phase := Returned\<rparr>, [])))"
  using assms by (auto simp: sound_step_def engine_ok_def stop_ok_def with_playback_def)

lemma destroyed_sound:
  assumes "displays libs b (mo_app m)" "engine_ok m"
  shows "mo_phase m = Returned \<Longrightarrow>
      sound_step libs (b, []) m (Inr (m\<lparr>mo_app := destroy_app (mo_app m), mo_phase := Destroying\<rparr>, []))"
    "mo_phase m = Destroying \<Longrightarrow> sound_step libs (b, []) m
      (Inr (m\<lparr>mo_app := destroy_member x (mo_app m), mo_alive := butlast (mo_alive m)\<rparr>, []))"
  using assms
  by (auto simp: sound_step_def engine_ok_def stop_ok_def destroy_app_def destroy_member_def destroy_PlaybackEngine_def
      engine_stop_parts alive_ok_butlast split: member.splits)

lemma browsers_sound:
  assumes "displays libs b (mo_app m)" "engine_ok m"
  shows "ws_open (mo_app m) conn = (app, ss) \<Longrightarrow>
      sound_step libs (board_step libs (Opened conn) b) m (Inr (m\<lparr>mo_app := app\<rparr>, to_browsers ss))"
    "sound_step libs (board_step libs (Closed conn) b) m (Inr (m\<lparr>mo_app := ws_close (mo_app m) conn\<rparr>, []))"
proof -
  have eng: "engine_ok (m\<lparr>mo_app := app\<rparr>)" "stop_ok m \<Longrightarrow> stop_ok (m\<lparr>mo_app := app\<rparr>)"
    if "app_playback app = app_playback (mo_app m)" for app
    using engine_ok_app(1) [OF assms(2) that] engine_ok_app(2) [OF _ that] .
  have topics: "topic_list (mo_app m\<lparr>app_wsConnections := cs\<rparr>) = topic_list (mo_app m)" for cs by (simp add: topic_list_def)
  have shown: "displays libs (b\<lparr>b_browsers := cs\<rparr>) (mo_app m\<lparr>app_wsConnections := cs\<rparr>)" if "distinct cs" for cs
    using assms(1) that by (auto simp: displays_def topics)
  have b: "b_browsers b = app_wsConnections (mo_app m)" "distinct (b_browsers b)" "b_topics b = topic_list (mo_app m)"
    using assms(1) unfolding displays_def by blast+
  show "sound_step libs (board_step libs (Opened conn) b) m (Inr (m\<lparr>mo_app := app\<rparr>, to_browsers ss))"
    if "ws_open (mo_app m) conn = (app, ss)"
    using that b eng [of app] shown [of "List.insert conn (b_browsers b)"]
    by (auto simp: sound_step_def ws_open_def sendTopicList_def Let_def topics)
  show "sound_step libs (board_step libs (Closed conn) b) m (Inr (m\<lparr>mo_app := ws_close (mo_app m) conn\<rparr>, []))"
    using b eng [of "ws_close (mo_app m) conn"] shown [of "remove1 conn (b_browsers b)"]
    by (auto simp: sound_step_def ws_close_def)
qed

lemma request_board:
  assumes "request_of (lib_json libs) msg = Some r"
  shows "board_step libs (Received conn msg opens now) b = (b, [])"
  using assms by (auto simp: request_of_def board_command_def Let_def split: option.splits if_splits)

lemma idle_sound: "displays libs b (mo_app m) \<Longrightarrow> engine_ok m \<Longrightarrow> sound_step libs (b, []) m (Inr (m, []))"
  by (simp add: sound_step_def)

lemma step_sound:
  assumes "monitor_step libs m ev r" "displays libs b (mo_app m)" "engine_ok m"
  shows "sound_step libs (board_step libs ev b) m r"
  using assms
proof cases
  case (Continue k r')
  then show ?thesis using handler_sound assms(2,3) by simp
qed (use assms(2,3) in \<open>simp_all add: request_board browsers_sound command_sound set_stop_flag_sound arrival_sound
    player_sound idle_sound run_returns_sound destroyed_sound del: board_step.simps(1-4)\<close>)

section \<open>Runs\<close>

lemma start_sound:
  assumes "monitor_start pub_ok ifaddrs name disk = Inr m0"
  shows "displays libs board_start (mo_app m0)" "engine_ok m0" "stop_ok m0" "mo_handlers m0 = []" "mo_phase m0 = Serving"
proof -
  obtain d :: "unit TransportDds" where d: "make_TransportDds = Inr d"
    and m0: "m0 = \<lparr>mo_app = run_setup (addTransport (addTransport (make_OmniscopeApp disk) (Dds d))
        (Zyre (make_TransportZyre (True, True) (pub_ok, pub_ok) ifaddrs name))),
      mo_player = NoThread, mo_handlers = [], mo_phase = Serving, mo_alive = impl_members\<rparr>"
    using assms by (auto simp: monitor_start_def obind_eq_Inr_iff)
  let ?z = "make_TransportZyre (True, True) (pub_ok, pub_ok) ifaddrs name :: unit TransportZyre"
  have wd: "wf_tdds d" "td_activeTopics d = {}" using make_TransportDds_wf [OF d] by simp_all
  have "serves_dds libs d" using wd by (simp add: serves_dds_def tdds_isSubscribed_def tdds_silent)
  moreover have "serves_zyre libs {} ?z"
    by (simp add: serves_zyre_def make_TransportZyre_wf tzyre_arrive_eq)
      (simp add: make_TransportZyre_def make_ZyreSubscriber_def Let_def split_beta)
  ultimately show "displays libs board_start (mo_app m0)"
    using wd
    by (simp add: make_TransportZyre_wf(2) m0 displays_def board_start_def run_setup_def addTransport_def make_OmniscopeApp_def topic_list_def
        tdds_topicNames_def tzyre_topicNames_def tdds_isSubscribed_def tzyre_isSubscribed_def)
  show "engine_ok m0" "stop_ok m0" "mo_handlers m0 = []" "mo_phase m0 = Serving"
    by (simp_all add: m0 engine_ok_def stop_ok_def run_setup_def make_PlaybackEngine_def)
qed

lemma monitor_start_ok: "safe (monitor_start pub_ok ifaddrs name disk)"
proof -
  obtain d :: "unit TransportDds" where d: "make_TransportDds = Inr d"
    using make_TransportDds_ok [where 'a = unit] by (auto simp: safe_iff_ex)
  show ?thesis by (simp only: monitor_start_def d obind_Inr safe_Inr)
qed

text \<open>A run from any sound state.\<close>

lemma run_sound_from:
  assumes "monitor_run libs n m0 evs outs m" "displays libs b0 (mo_app m0)" "engine_ok m0" "stop_ok m0"
    and "length (mo_handlers m0) \<le> n"
  shows "displays libs (fst (board_run libs evs b0)) (mo_app m) \<and> engine_ok m \<and>
    board_sends outs = snd (board_run libs evs b0) \<and> length (mo_handlers m) \<le> n \<and> (n \<le> 1 \<longrightarrow> stop_ok m)"
  using assms
proof (induction rule: monitor_run.induct)
  case run_start
  then show ?case by simp
next
  case (run_step evs outs m ev m' outs')
  have IH: "displays libs (fst (board_run libs evs b0)) (mo_app m) \<and> engine_ok m \<and>
    board_sends outs = snd (board_run libs evs b0) \<and> length (mo_handlers m) \<le> n \<and> (n \<le> 1 \<longrightarrow> stop_ok m)"
    by (rule run_step.IH) (use run_step.prems in auto)
  then have "sound_step libs (board_step libs ev (fst (board_run libs evs b0))) m (Inr (m', outs'))"
    by (intro step_sound [OF run_step.hyps(2)]) auto
  then show ?case using IH run_step.hyps(3) by (auto simp: sound_step_def board_run_snoc Let_def split_beta)
qed

lemma run_sound:
  assumes "monitor_start pub_ok ifaddrs name disk = Inr m0" "monitor_run libs n m0 evs outs m"
  shows "displays libs (fst (board_run libs evs board_start)) (mo_app m)" "engine_ok m"
    "board_sends outs = snd (board_run libs evs board_start)" "length (mo_handlers m) \<le> n" "n \<le> 1 \<Longrightarrow> stop_ok m"
  using run_sound_from [OF assms(2) start_sound(1-3) [OF assms(1)]] start_sound(4) [OF assms(1)] by auto

section \<open>A stop is never blocked\<close>

text \<open>A thread waits for the playback thread, and an event leaves it waiting.\<close>

definition stopping :: "'j monitor \<Rightarrow> bool" where
  "stopping m \<longleftrightarrow> (\<exists>r. mo_handlers m = [Joining r]) \<or> mo_phase m = ShuttingDown"

definition joins :: "('a, 'b) monitor_event \<Rightarrow> bool" where
  "joins ev \<longleftrightarrow> (case ev of Handler _ \<Rightarrow> True | RunReturned \<Rightarrow> True | _ \<Rightarrow> False)"

definition is_player :: "('a, 'b) monitor_event \<Rightarrow> bool" where
  "is_player ev \<longleftrightarrow> (case ev of Player _ \<Rightarrow> True | _ \<Rightarrow> False)"

definition publications :: "('a, 'b) out list \<Rightarrow> nat" where
  "publications outs = length (filter (\<lambda>x. case x of Browser _ _ \<Rightarrow> False | _ \<Rightarrow> True) outs)"

lemma publications_simps [simp]:
  "publications [] = 0" "publications (outs @ outs') = publications outs + publications outs'"
  "publications (to_browsers ss) = 0"
  by (auto simp: publications_def to_browsers_def filter_empty_conv)

lemma publish_once:
  assumes "publish_callback libs shouted app topic jsonData = Inr (app', outs)"
  shows "publications outs \<le> 1"
proof (cases "findTransport app topic")
  case None
  then show ?thesis using assms by (simp add: publish_callback_def)
next
  case (Some k)
  then obtain t where "tr_publishFromJson libs shouted (app_transports app ! k) topic jsonData = Inr (t, outs)"
    using assms by (auto simp: publish_callback_def obind_eq_Inr_iff)
  then show ?thesis
    by (cases "app_transports app ! k")
      (auto simp: publications_def tdds_publishFromJson_def obind_eq_Inr_iff Let_def split_beta split: option.splits if_splits)
qed

lemma perform_publications:
  "perform libs shouted es app = Inr (app', outs) \<Longrightarrow> publications outs \<le> length (published es)"
proof (induction libs shouted es app arbitrary: app' outs rule: perform.induct)
  case (2 libs shouted topic jsonData es app)
  then obtain app1 outs1 outs2 where "publish_callback libs shouted app topic jsonData = Inr (app1, outs1)"
    "perform libs shouted es app1 = Inr (app', outs2)" "outs = outs1 @ outs2" by (auto simp: obind_eq_Inr_iff)
  then show ?case using 2(1) [OF _ refl] publish_once [of libs shouted app topic jsonData app1 outs1] by fastforce
qed (auto simp: obind_eq_Inr_iff)

text \<open>What is still due of the playback thread: segments, and a message.\<close>

definition due :: "'j monitor \<Rightarrow> nat" where
  "due m = (if until_stopped (mo_player m) = 3 then 1 else 0)"

lemma players_turn_stopped:
  assumes "players_turn libs shouted m = Inr (m', outs)" "engine_ok m" "stop_ok m" "stopping m" "\<not> at_rest (mo_player m)"
  shows "until_stopped (mo_player m') < until_stopped (mo_player m)" "publications outs + due m' \<le> due m"
    "mo_handlers m' = mo_handlers m" "mo_phase m' = mo_phase m"
proof -
  obtain e where e: "app_playback (mo_app m) = Some e" using assms(2) by (auto simp: engine_ok_def)
  then have flag: "pe_stopFlag e" using assms(3,4) unfolding stop_ok_def stopping_def by blast
  obtain p es where step: "player_step (lib_json libs) True (mo_player m) = Inr (p, es)"
    using assms(1) e flag by (cases "player_step (lib_json libs) True (mo_player m)") (auto simp: players_turn_def with_playback_def)
  obtain app where app: "perform libs shouted es ((mo_app m)\<lparr>app_playback := Some (if p = Ended then e\<lparr>pe_playing := False\<rparr> else e)\<rparr>) =
      Inr (app, outs)" and m': "m' = m\<lparr>mo_app := app, mo_player := p\<rparr>"
    using assms(1) e flag step by (auto simp: players_turn_def with_playback_def Let_def obind_eq_Inr_iff)
  show "until_stopped (mo_player m') < until_stopped (mo_player m)" "mo_handlers m' = mo_handlers m" "mo_phase m' = mo_phase m"
    using player_step_stopped(1) [OF step assms(5)] by (simp_all add: m')
  show "publications outs + due m' \<le> due m"
    using perform_publications [OF app] player_step_stopped [OF step assms(5)] until_stopped_le [of "mo_player m"]
    by (auto simp: m' due_def split: if_splits)
qed

text \<open>A step of another thread than the playback.\<close>

lemma quiet_step:
  assumes "monitor_step libs m ev (Inr (m', outs))" "\<not> joins ev" "\<not> is_player ev"
  shows "mo_player m' = mo_player m" "publications outs = 0"
    "mo_handlers m' = mo_handlers m \<and> mo_phase m' = mo_phase m \<or>
     mo_phase m = Serving \<and> ((\<exists>h. mo_handlers m' = mo_handlers m @ [h]) \<or> mo_handlers m = []) \<or>
     mo_phase m = Returned \<or> mo_phase m = Destroying"
  using assms by (cases; auto simp: joins_def is_player_def Inr_eq_obind_iff split: if_splits)+

lemma stopping_step:
  assumes "monitor_step libs m ev (Inr (m', outs))" "engine_ok m" "stop_ok m" "stopping m" "\<not> joins ev"
    and "length (mo_handlers m') \<le> 1"
  shows "stopping m' \<and> until_stopped (mo_player m') + length (filter is_player [ev]) \<le> until_stopped (mo_player m) \<and>
    publications outs + due m' \<le> due m"
proof (cases "is_player ev")
  case True
  then obtain shouted where "ev = Player shouted" by (auto simp: is_player_def split: monitor_event.splits)
  with assms(1) have "players_turn libs shouted m = Inr (m', outs)" "\<not> at_rest (mo_player m)"
    by (auto elim: monitor_step_elims)
  then show ?thesis using players_turn_stopped [of libs shouted m m' outs] assms(2-4) True
    by (simp add: stopping_def)
next
  case False
  have phase: "mo_phase m = Serving \<and> mo_handlers m \<noteq> [] \<or> mo_phase m = ShuttingDown"
    using assms(2,4) by (auto simp: stopping_def engine_ok_def)
  then have "mo_handlers m' = mo_handlers m \<and> mo_phase m' = mo_phase m"
    using quiet_step(3) [OF assms(1,5) False] assms(6) by auto
  then show ?thesis using quiet_step(1,2) [OF assms(1,5) False] assms(4) False by (simp add: stopping_def due_def)
qed

lemma stopping_run:
  assumes "monitor_run libs 1 m evs outs m'" "displays libs b (mo_app m)" "engine_ok m" "stop_ok m" "stopping m"
    and "length (mo_handlers m) \<le> 1" "list_all (\<lambda>ev. \<not> joins ev) evs"
  shows "stopping m' \<and> until_stopped (mo_player m') + length (filter is_player evs) \<le> until_stopped (mo_player m) \<and>
    publications outs + due m' \<le> due m"
  using assms
proof (induction rule: monitor_run.induct)
  case run_start
  then show ?case by simp
next
  case (run_step evs outs m1 ev m2 outs')
  have IH: "stopping m1 \<and> until_stopped (mo_player m1) + length (filter is_player evs) \<le> until_stopped (mo_player m) \<and>
    publications outs + due m1 \<le> due m" by (rule run_step.IH) (use run_step.prems in auto)
  have ok: "engine_ok m1" "stop_ok m1"
    using run_sound_from [OF run_step.hyps(1) run_step.prems(1-3,5)] by auto
  show ?case using IH stopping_step [OF run_step.hyps(2) ok] run_step.hyps(3) run_step.prems(6) by auto
qed

text \<open>Only the segment that the thread was in when the flag was set can throw.\<close>

lemma player_step_stopped_fault:
  assumes "player_step js True p = Inl f" "wf_player p"
  shows "f = BadJson" "until_stopped p = 3"
  using assms by (cases p; auto simp: obind_eq_Inl_iff json_member_def load_def split: if_splits option.splits)+

lemma perform_silent: "published es = [] \<Longrightarrow> safe (perform libs shouted es app)"
  by (induction libs shouted es app rule: perform.induct) (auto simp: safe_iff_ex split: prod.splits)

lemma players_turn_fault:
  assumes "players_turn libs shouted m = Inl f" "engine_ok m" "stop_ok m" "stopping m" "\<not> at_rest (mo_player m)" "json_faults libs"
  shows "f = BadJson \<and> until_stopped (mo_player m) = 3"
proof -
  obtain e where e: "app_playback (mo_app m) = Some e" and wf: "wf_player (mo_player m)" using assms(2) by (auto simp: engine_ok_def)
  then have flag: "pe_stopFlag e" using assms(3,4) unfolding stop_ok_def stopping_def by blast
  show ?thesis
  proof (cases "player_step (lib_json libs) True (mo_player m)")
    case (Inl g)
    then show ?thesis using player_step_stopped_fault [OF Inl wf] assms(1) e flag by (simp add: players_turn_def with_playback_def)
  next
    case (Inr x)
    obtain p es where x: "x = (p, es)" by (cases x)
    then obtain app where app: "perform libs shouted es app = Inl f"
      using assms(1) e flag Inr by (auto simp: players_turn_def with_playback_def Let_def obind_eq_Inl_iff)
    then have "published es \<noteq> []" using perform_silent [of es libs shouted app] by (auto simp: safe_iff_ex)
    then show ?thesis using perform_fault [OF assms(6) app] player_step_stopped(3) [OF Inr [unfolded x] assms(5)] by blast
  qed
qed

lemma stopping_enabled:
  assumes "engine_ok m" "stop_ok m" "stopping m" "json_faults libs"
  shows "if at_rest (mo_player m) then \<exists>ev r. joins ev \<and> monitor_step libs m ev (Inr r)
    else \<exists>r. monitor_step libs m (Player shouted) r \<and> (\<forall>f. r = Inl f \<longrightarrow> f = BadJson \<and> until_stopped (mo_player m) = 3)"
proof (cases "at_rest (mo_player m)")
  case False
  then show ?thesis using Play [OF False, of libs shouted] players_turn_fault [OF _ assms(1-3) False assms(4), of shouted] by auto
next
  case True
  obtain e where e: "app_playback (mo_app m) = Some e" using assms(1) by (auto simp: engine_ok_def)
  from assms(3) consider r where "mo_handlers m = [Joining r]" | "mo_phase m = ShuttingDown" by (auto simp: stopping_def)
  then show ?thesis
  proof cases
    case 1
    have "\<exists>r. advance (mo_handlers m ! 0) (mo_app m) (mo_player m) = Some (Inr r)"
      using True 1 e by (cases r) (simp_all add: with_playback_def Let_def)
    then obtain r where "advance (mo_handlers m ! 0) (mo_app m) (mo_player m) = Some (Inr r)" ..
    then have "\<exists>r. monitor_step libs m (Handler 0) (Inr r)" using Continue [of 0 m "Inr r" libs] 1 by (auto simp: split_beta)
    then have "\<exists>ev r. joins ev \<and> monitor_step libs m ev (Inr r)" by (intro exI [of _ "Handler 0"]) (simp add: joins_def)
    then show ?thesis using True by simp
  next
    case 2
    then have "\<exists>r. monitor_step libs m RunReturned (Inr r)" using RunReturns [OF 2 True, of libs] e by (auto simp: with_playback_def)
    then have "\<exists>ev r. joins ev \<and> monitor_step libs m ev (Inr r)" by (intro exI [of _ RunReturned]) (simp add: joins_def)
    then show ?thesis using True by simp
  qed
qed

section \<open>What the environment can do\<close>

text \<open>In a sound state the events of the environment are possible.\<close>

lemma can_open:
  "mo_phase m = Serving \<Longrightarrow> \<exists>m' outs. monitor_step libs m (Opened conn) (Inr (m', outs)) \<and>
    mo_phase m' = Serving \<and> mo_handlers m' = mo_handlers m \<and> mo_player m' = mo_player m"
proof -
  assume "mo_phase m = Serving"
  moreover obtain app ss where "ws_open (mo_app m) conn = (app, ss)" by fastforce
  ultimately have "monitor_step libs m (Opened conn) (Inr (m\<lparr>mo_app := app\<rparr>, to_browsers ss))" by (rule Open)
  then show ?thesis using \<open>mo_phase m = Serving\<close> by fastforce
qed

lemma can_command:
  assumes "displays libs b (mo_app m)" "mo_phase m = Serving" "request_of (lib_json libs) msg = None"
    and "cj_load (lib_json libs) msg = Some j" "cj_s (lib_json libs) j ''type'' \<noteq> None" "cj_s (lib_json libs) j ''topic'' \<noteq> None"
  shows "\<exists>m' outs. monitor_step libs m (Received conn msg opens now) (Inr (m', outs)) \<and>
    mo_phase m' = Serving \<and> mo_handlers m' = mo_handlers m \<and> mo_player m' = mo_player m"
proof -
  obtain type topic where j: "cj_s (lib_json libs) j ''type'' = Some type" "cj_s (lib_json libs) j ''topic'' = Some topic"
    using assms(5,6) by auto
  have "type \<noteq> ''playback_start''" "type \<noteq> ''playback_stop''"
    using assms(3,4) j by (simp_all add: request_of_def split: if_splits)
  moreover obtain ts where "(case findTransport (mo_app m) topic of None \<Rightarrow> Inr (mo_app m)
      | Some k \<Rightarrow> obind (tr_subscribe (app_transports (mo_app m) ! k) topic) (\<lambda>t.
          Inr ((mo_app m)\<lparr>app_transports := (app_transports (mo_app m))[k := t]\<rparr>))) = Inr ((mo_app m)\<lparr>app_transports := ts\<rparr>)"
    using subscribe_displays [OF assms(1)] by metis
  ultimately have "handleWsMessage (lib_json libs) opens now (mo_app m) conn msg \<noteq> Inl BadJson"
    by (simp add: handleWsMessage_def assms(4) j json_member_def Let_def split_beta)
  then obtain app ss where "handleWsMessage (lib_json libs) opens now (mo_app m) conn msg = Inr (app, ss, None)"
    using command_follows [OF assms(1,3), of conn opens now] by (auto simp: follows_def)
  then show ?thesis using Command [OF assms(2,3), of conn opens now] assms(2) by fastforce
qed

lemma can_arrive:
  assumes "displays libs b (mo_app m)" "engine_ok m" "mo_phase m \<noteq> Destroying" "k < 2"
    and "length clock = length (board_content libs b k topic content)"
  shows "\<exists>m' outs. monitor_step libs m (Arrived k topic content clock) (Inr (m', outs)) \<and>
    mo_phase m' = mo_phase m \<and> mo_handlers m' = mo_handlers m \<and> mo_player m' = mo_player m"
proof -
  have k: "k < length (app_transports (mo_app m))" using assms(1,4) by (auto simp: displays_def)
  have alive: "mo_alive m = impl_members" using assms(2,3) by (simp add: engine_ok_def)
  obtain app ss where d: "deliver libs (mo_alive m) clock (map (Pair topic) (board_content libs b k topic content)) (mo_app m) = Inr (app, ss)"
    using deliver_alive [of "mo_alive m"] alive by (fastforce simp: impl_members_def)
  have "Transports \<in> set (mo_alive m)" by (simp add: alive impl_members_def)
  then have "monitor_step libs m (Arrived k topic content clock) (Inr (m\<lparr>mo_app := app\<rparr>, to_browsers ss))"
    using Arrive [OF _ k arrive_content [OF assms(1) k], of clock topic content] d assms(5) by simp
  then show ?thesis by fastforce
qed

lemma can_request:
  assumes "engine_ok m" "mo_phase m = Serving"
  shows "request_of (lib_json libs) msg = Some r \<Longrightarrow> \<exists>m'. monitor_step libs m (Received conn msg opens now) (Inr (m', [])) \<and>
      mo_phase m' = Serving \<and> mo_handlers m' = mo_handlers m @ [Joining r] \<and> mo_player m' = mo_player m"
    "body \<noteq> [] \<Longrightarrow> \<exists>m'. monitor_step libs m (Uploaded body) (Inr (m', [])) \<and>
      mo_phase m' = Serving \<and> mo_handlers m' = mo_handlers m @ [Joining (ForLoad body)] \<and> mo_player m' = mo_player m"
    "mo_handlers m = [] \<Longrightarrow> \<exists>m'. monitor_step libs m ServerReturned (Inr (m', [])) \<and>
      mo_phase m' = ShuttingDown \<and> mo_player m' = mo_player m"
proof -
  obtain e where e: "app_playback (mo_app m) = Some e" using assms(1) by (auto simp: engine_ok_def)
  show "\<exists>m'. monitor_step libs m (Received conn msg opens now) (Inr (m', [])) \<and>
      mo_phase m' = Serving \<and> mo_handlers m' = mo_handlers m @ [Joining r] \<and> mo_player m' = mo_player m"
    if "request_of (lib_json libs) msg = Some r"
    using Request [OF assms(2) that, of conn opens now] e assms(2) by (fastforce simp: set_stop_flag_def with_playback_def)
  show "\<exists>m'. monitor_step libs m (Uploaded body) (Inr (m', [])) \<and>
      mo_phase m' = Serving \<and> mo_handlers m' = mo_handlers m @ [Joining (ForLoad body)] \<and> mo_player m' = mo_player m"
    if "body \<noteq> []"
    using Upload [OF assms(2) that, of libs] e assms(2) by (fastforce simp: set_stop_flag_def with_playback_def)
  show "\<exists>m'. monitor_step libs m ServerReturned (Inr (m', [])) \<and>
      mo_phase m' = ShuttingDown \<and> mo_player m' = mo_player m" if "mo_handlers m = []"
    using ServerReturns [OF assms(2) that, of libs] e by (fastforce simp: set_stop_flag_def with_playback_def)
qed

section \<open>Properties\<close>

text \<open>The invariant of the monitor, without the board.\<close>

definition monitor_inv :: "'j monitor \<Rightarrow> bool" where
  "monitor_inv m \<longleftrightarrow>
     (\<exists>d z. app_transports (mo_app m) = [Dds d, Zyre z] \<and> wf_tdds d \<and> wf_tzyre z) \<and>
     distinct (app_wsConnections (mo_app m)) \<and>
     (\<forall>f. app_recFile (mo_app m) = Some f \<longrightarrow> app_recording (mo_app m) \<and> app_disk (mo_app m) f \<noteq> None) \<and>
     engine_ok m"

text \<open>
  C9. Every state that the monitor reaches, whatever browsers, peers, playback and server do and however
  many handlers run at a time, is sound: both transports keep their invariants, no browser is registered
  twice, a file that is open for recording exists and recording is on, the playback thread is joinable
  exactly when it was started and not joined, the engine says that it plays exactly while the thread has
  not returned, after \<open>run\<close> there is no thread, and all members are alive until the destruction, and then
  those declared first.
\<close>

theorem monitor_invariant:
  assumes "monitor_start pub_ok ifaddrs name disk = Inr m0" and "monitor_run libs n m0 evs outs m"
  shows "monitor_inv m"
  using run_sound(1,2) [OF assms] by (force simp: monitor_inv_def displays_def serves_dds_def serves_zyre_def)


text \<open>
  C18. When at most one handler at a time is inside the playback engine, and the readers of the generated
  messages throw nothing but JSON exceptions, the monitor faults in three ways only: an exception of the
  JSON library, a difference of recorded times that overflows, or a message that arrives while the
  application is destroyed.  No thread is ever assigned to a joinable one, no empty optional is read.
\<close>

theorem monitor_faults:
  assumes "monitor_start pub_ok ifaddrs name disk = Inr m0" and "monitor_run libs 1 m0 evs outs m"
    and "json_faults libs" and "monitor_step libs m ev (Inl f)"
  shows "f = BadJson \<or> f = SignedOverflow \<or> f = DeadObject \<and> mo_phase m = Destroying"
proof -
  note sound = run_sound [OF assms(1,2)]
  have "expected_fault m f" using step_sound [OF assms(4) sound(1,2)] assms(3) by (simp add: sound_step_def)
  moreover have "\<not> (Launching \<in> set (mo_handlers m) \<and> mo_player m \<noteq> NoThread)"
    using sound(4,5) by (cases "mo_handlers m") (auto simp: stop_ok_def)
  ultimately show ?thesis by (auto simp: expected_fault_def)
qed

text \<open>States that differ in what the handlers and the playback change.\<close>

definition with_engine :: "'j monitor \<Rightarrow> PlaybackEngine \<Rightarrow> 'j player \<Rightarrow> handler list \<Rightarrow> 'j monitor" where
  "with_engine m e p hs = m\<lparr>mo_app := (mo_app m)\<lparr>app_playback := Some e\<rparr>, mo_player := p, mo_handlers := hs\<rparr>"

lemma with_engine_simps [simp]:
  "mo_app (with_engine m e p hs) = (mo_app m)\<lparr>app_playback := Some e\<rparr>" "mo_player (with_engine m e p hs) = p"
  "mo_handlers (with_engine m e p hs) = hs" "mo_phase (with_engine m e p hs) = mo_phase m"
  "(with_engine m e p hs)\<lparr>mo_app := (mo_app m)\<lparr>app_playback := Some e'\<rparr>, mo_handlers := hs'\<rparr> = with_engine m e' p hs'"
  "(with_engine m e p hs)\<lparr>mo_app := (mo_app m)\<lparr>app_playback := Some e'\<rparr>, mo_player := p', mo_handlers := hs'\<rparr> = with_engine m e' p' hs'"
  by (simp_all add: with_engine_def)

lemma with_engine_steps:
  assumes "mo_phase m = Serving"
  shows "body \<noteq> [] \<Longrightarrow> monitor_step libs (with_engine m e p hs) (Uploaded body)
      (Inr (with_engine m (request_stop e) p (hs @ [Joining (ForLoad body)]), []))"
    "request_of (lib_json libs) msg = Some r \<Longrightarrow> monitor_step libs (with_engine m e p hs) (Received conn msg opens now)
      (Inr (with_engine m (request_stop e) p (hs @ [Joining r]), []))"
    "at_rest p \<Longrightarrow> \<exists>outs. monitor_step libs (with_engine m e p (hs @ Joining (ForLoad body) # hs')) (Handler (length hs))
      (Inr (with_engine m ((join_thread e)\<lparr>pe_lines := getline_loop body []\<rparr>) NoThread (hs @ hs'), outs))"
    "at_rest p \<Longrightarrow> \<exists>outs. monitor_step libs (with_engine m e p (hs @ Joining ForStart # hs')) (Handler (length hs))
      (Inr (with_engine m (join_thread e) NoThread (hs @ Launching # hs'), outs))"
    "pe_lines e \<noteq> [] \<Longrightarrow> \<not> pe_thread e \<Longrightarrow>
      \<exists>outs. monitor_step libs (with_engine m e p (hs @ Launching # hs')) (Handler (length hs))
      (Inr (with_engine m (e\<lparr>pe_stopFlag := False, pe_playing := True, pe_thread := True\<rparr>) (Starting (pe_lines e)) (hs @ Announcing # hs'), outs))"
    "pe_lines e \<noteq> [] \<Longrightarrow> pe_thread e \<Longrightarrow>
      monitor_step libs (with_engine m e p (hs @ Launching # hs')) (Handler (length hs)) (Inl ThreadTerminate)"
    "\<exists>outs. monitor_step libs (with_engine m e p (hs @ Announcing # hs')) (Handler (length hs))
      (Inr (with_engine m e p (hs @ hs'), outs))"
proof -
  note sel = set_stop_flag_def with_playback_def
  show "body \<noteq> [] \<Longrightarrow> monitor_step libs (with_engine m e p hs) (Uploaded body)
      (Inr (with_engine m (request_stop e) p (hs @ [Joining (ForLoad body)]), []))"
    using Upload [of "with_engine m e p hs" body libs] assms by (simp add: sel)
  show "request_of (lib_json libs) msg = Some r \<Longrightarrow> monitor_step libs (with_engine m e p hs) (Received conn msg opens now)
      (Inr (with_engine m (request_stop e) p (hs @ [Joining r]), []))"
    using Request [of "with_engine m e p hs" libs msg r conn opens now] assms by (simp add: sel)
  note continue = Continue [of "length hs" "with_engine m e p (hs @ h # hs')" _ libs for h]
  show "at_rest p \<Longrightarrow> \<exists>outs. monitor_step libs (with_engine m e p (hs @ Joining (ForLoad body) # hs')) (Handler (length hs))
      (Inr (with_engine m ((join_thread e)\<lparr>pe_lines := getline_loop body []\<rparr>) NoThread (hs @ hs'), outs))"
    using continue [of "Joining (ForLoad body)"] by (fastforce simp: sel Let_def)
  show "at_rest p \<Longrightarrow> \<exists>outs. monitor_step libs (with_engine m e p (hs @ Joining ForStart # hs')) (Handler (length hs))
      (Inr (with_engine m (join_thread e) NoThread (hs @ Launching # hs'), outs))"
    using continue [of "Joining ForStart"] by (fastforce simp: sel Let_def)
  show "pe_lines e \<noteq> [] \<Longrightarrow> \<not> pe_thread e \<Longrightarrow>
      \<exists>outs. monitor_step libs (with_engine m e p (hs @ Launching # hs')) (Handler (length hs))
      (Inr (with_engine m (e\<lparr>pe_stopFlag := False, pe_playing := True, pe_thread := True\<rparr>) (Starting (pe_lines e)) (hs @ Announcing # hs'), outs))"
    using continue [of Launching] by (fastforce simp: sel Let_def launch_def)
  show "pe_lines e \<noteq> [] \<Longrightarrow> pe_thread e \<Longrightarrow>
      monitor_step libs (with_engine m e p (hs @ Launching # hs')) (Handler (length hs)) (Inl ThreadTerminate)"
    using continue [of Launching] by (simp add: sel Let_def launch_def)
  show "\<exists>outs. monitor_step libs (with_engine m e p (hs @ Announcing # hs')) (Handler (length hs))
      (Inr (with_engine m e p (hs @ hs'), outs))"
    using continue [of Announcing] by (fastforce simp: sel Let_def)
qed

lemma run_steps:
  "monitor_run libs n m0 evs outs m \<Longrightarrow> \<exists>outs'. monitor_step libs m ev (Inr (m', outs')) \<Longrightarrow> length (mo_handlers m') \<le> n \<Longrightarrow>
    \<exists>outs'. monitor_run libs n m0 (evs @ [ev]) outs' m'"
  using run_step by blast

text \<open>From the start: a recording is loaded, and played.\<close>

definition loaded_engine :: "string \<Rightarrow> PlaybackEngine" where
  "loaded_engine body = (join_thread (request_stop make_PlaybackEngine))\<lparr>pe_lines := getline_loop body []\<rparr>"

definition playing_engine :: "PlaybackEngine \<Rightarrow> PlaybackEngine" where
  "playing_engine e = e\<lparr>pe_stopFlag := False, pe_playing := True, pe_thread := True\<rparr>"

lemma engine_simps [simp]:
  "pe_lines (loaded_engine body) = getline_loop body []" "\<not> pe_thread (loaded_engine body)"
  "pe_lines (playing_engine e) = pe_lines e" "pe_thread (playing_engine e)" "\<not> pe_stopFlag (playing_engine e)"
  by (simp_all add: loaded_engine_def playing_engine_def)

lemma start_state:
  assumes "monitor_start pub_ok ifaddrs name disk = Inr m0"
  shows "mo_phase m0 = Serving" "with_engine m0 make_PlaybackEngine NoThread [] = m0"
  using assms by (auto simp: monitor_start_def obind_eq_Inr_iff run_setup_def with_engine_def)

lemma load_run:
  assumes "monitor_start pub_ok ifaddrs name disk = Inr m0" "body \<noteq> []" "1 \<le> n"
  shows "\<exists>outs. monitor_run libs n m0 [Uploaded body, Handler 0] outs (with_engine m0 (loaded_engine body) NoThread [])"
proof -
  note start = start_state [OF assms(1)]
  note steps = with_engine_steps [OF start(1)]
  have "\<exists>outs. monitor_run libs n m0 [] outs (with_engine m0 make_PlaybackEngine NoThread [])" using run_start start(2) by metis
  then have "\<exists>outs. monitor_run libs n m0 ([] @ [Uploaded body]) outs
      (with_engine m0 (request_stop make_PlaybackEngine) NoThread [Joining (ForLoad body)])"
    using steps(1) [OF assms(2), of libs make_PlaybackEngine NoThread "[]"] assms(3) by (elim exE) (rule run_steps, auto)
  then have "\<exists>outs. monitor_run libs n m0 ([Uploaded body] @ [Handler 0]) outs (with_engine m0 (loaded_engine body) NoThread [])"
    using steps(3) [of NoThread libs "request_stop make_PlaybackEngine" "[]" body "[]"]
    by (elim exE) (rule run_steps, auto simp: loaded_engine_def)
  then show ?thesis by simp
qed

lemma request_run:
  assumes "\<exists>outs. monitor_run libs n m0 evs outs (with_engine m0 e p hs)" "mo_phase m0 = Serving"
    and "request_of (lib_json libs) msg = Some r" "length hs < n"
  shows "\<exists>outs. monitor_run libs n m0 (evs @ [Received conn msg opens now]) outs
    (with_engine m0 (request_stop e) p (hs @ [Joining r]))"
  using assms(1,4) with_engine_steps(2) [OF assms(2,3), of e p hs conn opens now]
  by (elim exE) (rule run_steps, auto)

lemma join_run:
  assumes "\<exists>outs. monitor_run libs n m0 evs outs (with_engine m0 e p (hs @ Joining ForStart # hs'))" "mo_phase m0 = Serving"
    and "at_rest p" "length hs + length hs' < n"
  shows "\<exists>outs. monitor_run libs n m0 (evs @ [Handler (length hs)]) outs (with_engine m0 (join_thread e) NoThread (hs @ Launching # hs'))"
  using assms(1,4) with_engine_steps(4) [OF assms(2,3), of libs e hs hs']
  by (elim exE) (rule run_steps, auto)

lemma launch_run:
  assumes "\<exists>outs. monitor_run libs n m0 evs outs (with_engine m0 e NoThread (Launching # hs))" "mo_phase m0 = Serving"
    and "length hs < n" "pe_lines e \<noteq> []" "\<not> pe_thread e"
  shows "\<exists>outs. monitor_run libs n m0 (evs @ [Handler 0]) outs
    (with_engine m0 (playing_engine e) (Starting (pe_lines e)) (Announcing # hs))"
  using assms(1,3) with_engine_steps(5) [OF assms(2,4,5), of libs NoThread "[]" hs]
  by (elim exE) (rule run_steps, auto simp: playing_engine_def)

text \<open>
  C28. Two handlers at a time can terminate the program.  When a recording is loaded and two browsers
  start its playback at the same time, both can pass \<open>stop\<close> before either starts its thread; the second
  assigns to a joinable \<open>std::thread\<close>.
\<close>

theorem two_starts_terminate:
  assumes "monitor_start pub_ok ifaddrs name disk = Inr m0"
    and "getline_loop body [] \<noteq> []" and "request_of (lib_json libs) msg = Some ForStart"
  shows "\<exists>outs m. monitor_run libs 2 m0
      [Uploaded body, Handler 0, Received 1 msg False 0, Received 2 msg False 0, Handler 0, Handler 1, Handler 0] outs m \<and>
    monitor_step libs m (Handler 1) (Inl ThreadTerminate)"
proof -
  have body: "body \<noteq> []" using assms(2) by (auto simp: getline_loop.simps)
  let ?e1 = "loaded_engine body"
  let ?e2 = "request_stop (request_stop ?e1)"
  let ?e3 = "join_thread (join_thread ?e2)"
  note start = start_state [OF assms(1)]
  note requests = request_run [OF _ start(1) assms(3)]
  from load_run [OF assms(1) body, of 2 libs] have "\<exists>outs. monitor_run libs 2 m0 [Uploaded body, Handler 0] outs (with_engine m0 ?e1 NoThread [])"
    by simp
  from requests [OF requests [OF this]] have "\<exists>outs. monitor_run libs 2 m0 [Uploaded body, Handler 0, Received 1 msg False 0, Received 2 msg False 0] outs
      (with_engine m0 ?e2 NoThread ([] @ Joining ForStart # [Joining ForStart]))" by simp
  from join_run [OF this start(1)] have "\<exists>outs. monitor_run libs 2 m0 [Uploaded body, Handler 0, Received 1 msg False 0, Received 2 msg False 0, Handler 0] outs
      (with_engine m0 (join_thread ?e2) NoThread ([Launching] @ Joining ForStart # []))" by simp
  from join_run [OF this start(1)] have "\<exists>outs. monitor_run libs 2 m0
      [Uploaded body, Handler 0, Received 1 msg False 0, Received 2 msg False 0, Handler 0, Handler 1] outs
      (with_engine m0 ?e3 NoThread [Launching, Launching])" by simp
  from launch_run [OF this start(1)] assms(2)
  have "\<exists>outs. monitor_run libs 2 m0 [Uploaded body, Handler 0, Received 1 msg False 0, Received 2 msg False 0, Handler 0, Handler 1, Handler 0] outs
      (with_engine m0 (playing_engine ?e3) (Starting (getline_loop body [])) [Announcing, Launching])" by simp
  moreover have "monitor_step libs (with_engine m0 (playing_engine ?e3) (Starting (getline_loop body [])) [Announcing, Launching])
      (Handler 1) (Inl ThreadTerminate)"
    using with_engine_steps(6) [OF start(1), of "playing_engine ?e3" libs _ "[Announcing]" "[]"] assms(2) by simp
  ultimately show ?thesis by blast
qed

text \<open>How many members are destroyed, and which are then alive.\<close>

definition destroyed :: "('a, 'b) monitor_event list \<Rightarrow> nat" where
  "destroyed evs = length (filter (\<lambda>ev. case ev of MemberDestroyed \<Rightarrow> True | _ \<Rightarrow> False) evs)"

lemma step_alive:
  assumes "monitor_step libs m ev (Inr (m', outs))"
  shows "mo_alive m' = (case ev of MemberDestroyed \<Rightarrow> butlast (mo_alive m) | _ \<Rightarrow> mo_alive m)"
    "ev = MemberDestroyed \<Longrightarrow> mo_alive m \<noteq> []"
  using assms by (cases; auto simp: Inr_eq_obind_iff players_turn_def Let_def split_beta)+

lemma run_alive:
  "monitor_run libs n m0 evs outs m \<Longrightarrow> mo_alive m0 = impl_members \<Longrightarrow> mo_alive m = take (10 - destroyed evs) impl_members"
proof (induction rule: monitor_run.induct)
  case run_start
  then show ?case by (simp add: destroyed_def impl_members_def)
next
  case (run_step evs outs m ev m' outs')
  have IH: "mo_alive m = take (10 - destroyed evs) impl_members" using run_step by simp
  have "length impl_members = 10" by (simp add: impl_members_def)
  then show ?case using IH step_alive [OF run_step.hyps(2)]
    by (cases ev) (auto simp: destroyed_def butlast_take)
qed

lemma order_of_destruction:
  "c < 2 \<Longrightarrow> {RecMutex, RecordingFlag, RecFile, WsMutex, WsConnections, Transports} \<subseteq> set (take (10 - c) impl_members)"
  "2 \<le> c \<Longrightarrow> RecMutex \<notin> set (take (10 - c) impl_members)"
  "Transports \<in> set (take (10 - c) impl_members) \<longleftrightarrow> c < 10"
proof -
  show "c < 2 \<Longrightarrow> {RecMutex, RecordingFlag, RecFile, WsMutex, WsConnections, Transports} \<subseteq> set (take (10 - c) impl_members)"
    by (auto simp: less_2_cases_iff impl_members_def)
  have "set (take (10 - c) impl_members) \<subseteq> set (take 8 impl_members)" if "2 \<le> c"
    using that by (intro set_take_subset_set_take) simp
  then show "2 \<le> c \<Longrightarrow> RecMutex \<notin> set (take (10 - c) impl_members)" by (auto simp: impl_members_def)
  show "Transports \<in> set (take (10 - c) impl_members) \<longleftrightarrow> c < 10"
    by (cases "10 - c") (auto simp: impl_members_def)
qed

text \<open>An arrival, in terms of the board.\<close>

lemma arrival_step:
  assumes "displays libs b (mo_app m)" "k < length (app_transports (mo_app m))"
    and "length clock = length (board_content libs b k topic content)"
  shows "monitor_step libs m (Arrived k topic content clock) r \<longleftrightarrow> Transports \<in> set (mo_alive m) \<and>
    r = obind (deliver libs (mo_alive m) clock (map (Pair topic) (board_content libs b k topic content)) (mo_app m))
      (\<lambda>(app, ss). Inr (m\<lparr>mo_app := app\<rparr>, to_browsers ss))"
  using arrive_content [OF assms(1,2), of topic content] Arrive [OF _ assms(2), of libs topic content _ clock] assms(2,3)
  by (auto elim: monitor_step_elims)

text \<open>
  With two handlers a stop can also be lost: the start that is under way clears the flag, and the handler
  of the stop waits for the whole playback.
\<close>

lemma stop_lost:
  assumes "monitor_start pub_ok ifaddrs name disk = Inr m0"
    and "getline_loop body [] \<noteq> []" and "request_of (lib_json libs) start_msg = Some ForStart"
    and "request_of (lib_json libs) stop_msg = Some ForStop"
  shows "\<exists>outs m e. monitor_run libs 2 m0
      [Uploaded body, Handler 0, Received 1 start_msg False 0, Handler 0, Received 2 stop_msg False 0, Handler 0] outs m \<and>
    mo_handlers m = [Announcing, Joining ForStop] \<and> mo_player m = Starting (getline_loop body []) \<and>
    app_playback (mo_app m) = Some e \<and> \<not> pe_stopFlag e"
proof -
  have body: "body \<noteq> []" using assms(2) by (auto simp: getline_loop.simps)
  let ?e1 = "loaded_engine body"
  let ?e2 = "join_thread (request_stop ?e1)"
  note start = start_state [OF assms(1)]
  from load_run [OF assms(1) body, of 2 libs] have "\<exists>outs. monitor_run libs 2 m0 [Uploaded body, Handler 0] outs (with_engine m0 ?e1 NoThread [])"
    by simp
  from request_run [OF this start(1) assms(3)]
  have "\<exists>outs. monitor_run libs 2 m0 [Uploaded body, Handler 0, Received 1 start_msg False 0] outs
      (with_engine m0 (request_stop ?e1) NoThread ([] @ Joining ForStart # []))" by simp
  from request_run [OF join_run [OF this start(1)] start(1) assms(4)]
  have "\<exists>outs. monitor_run libs 2 m0 [Uploaded body, Handler 0, Received 1 start_msg False 0, Handler 0, Received 2 stop_msg False 0] outs
      (with_engine m0 (request_stop ?e2) NoThread [Launching, Joining ForStop])" by simp
  from launch_run [OF this start(1)] assms(2)
  have "\<exists>outs. monitor_run libs 2 m0 [Uploaded body, Handler 0, Received 1 start_msg False 0, Handler 0, Received 2 stop_msg False 0, Handler 0] outs
      (with_engine m0 (playing_engine (request_stop ?e2)) (Starting (getline_loop body [])) [Announcing, Joining ForStop])" by simp
  then show ?thesis by fastforce
qed

text \<open>
  C19. With one handler at a time inside the playback engine, a stop is never blocked.  When a handler, or
  the end of \<open>run\<close>, has set the stop flag and waits for the playback thread, then however the other
  threads go on, the playback thread makes at most three more segments and publishes at most one more
  message.  Once it has returned, the join succeeds.  Until then its next segment succeeds, except that the
  segment it was in when the flag was set can throw, and then an exception of the JSON library (given that
  the readers of the generated messages throw no others).  With two handlers a stop can be lost
  (\<open>stop_lost\<close>).
\<close>

theorem stop_never_blocked:
  assumes "monitor_start pub_ok ifaddrs name disk = Inr m0" and "monitor_run libs 1 m0 evs outs m"
    and "stopping m" and "monitor_run libs 1 m evs' outs' m'" and "list_all (\<lambda>ev. \<not> joins ev) evs'"
    and "json_faults libs"
  shows "length (filter is_player evs') \<le> 3 \<and> publications outs' \<le> 1 \<and>
    (if at_rest (mo_player m') then \<exists>ev r. joins ev \<and> monitor_step libs m' ev (Inr r)
     else \<exists>r. monitor_step libs m' (Player shouted) r \<and> (\<forall>f. r = Inl f \<longrightarrow> f = BadJson \<and> filter is_player evs' = []))"
proof -
  note sound = run_sound [OF assms(1,2)]
  note stop = stopping_run [OF assms(4) sound(1,2) sound(5) assms(3) sound(4) assms(5)]
  have ok: "engine_ok m'" "stop_ok m'" using run_sound_from [OF assms(4) sound(1,2) sound(5) sound(4)] by simp_all
  note enabled = stopping_enabled [OF ok _ assms(6), of shouted]
  have "due m \<le> 1" by (simp add: due_def)
  moreover have "filter is_player evs' = []" if "until_stopped (mo_player m') = 3"
  proof -
    have "length (filter is_player evs') = 0" using stop until_stopped_le [of "mo_player m"] that by linarith
    then show ?thesis by (simp only: length_0_conv)
  qed
  ultimately show ?thesis using stop enabled until_stopped_le [of "mo_player m"] by (auto split: if_splits; blast)
qed

text \<open>
  C29. A message that arrives during the destruction of the application is lethal.  The members of \<open>Impl\<close>
  are destroyed in the reverse order of their declaration, so the playback engine goes first, the mutex of
  the recording second, and the transports, whose threads call \<open>onTransportMessage\<close>, last.  In every state
  that the monitor reaches, an arrival faults exactly when two to nine of the ten members are
  destroyed, its topic is delivered and it stands for at least one text; it is delivered without a fault
  exactly when fewer than two are destroyed, or when it stands for no text and the transports are alive.
\<close>

theorem late_message_faults:
  assumes "monitor_start pub_ok ifaddrs name disk = Inr m0" and "monitor_run libs n m0 evs outs m"
    and "k < 2" and "board_run libs evs board_start = (b, ss)"
    and "length clock = length (board_content libs b k topic content)"
  shows "(monitor_step libs m (Arrived k topic content clock) (Inl f) \<longleftrightarrow>
      f = DeadObject \<and> board_content libs b k topic content \<noteq> [] \<and> 2 \<le> destroyed evs \<and> destroyed evs < 10) \<and>
    ((\<exists>x. monitor_step libs m (Arrived k topic content clock) (Inr x)) \<longleftrightarrow>
      destroyed evs < 2 \<or> board_content libs b k topic content = [] \<and> destroyed evs < 10)"
proof -
  have shown: "displays libs b (mo_app m)" using run_sound(1) [OF assms(1,2)] assms(4) by simp
  then have k: "k < length (app_transports (mo_app m))" using assms(3) by (auto simp: displays_def)
  have alive: "mo_alive m = take (10 - destroyed evs) impl_members"
    using run_alive [OF assms(2)] start_sound(2,5) [OF assms(1)] by (simp add: engine_ok_def)
  let ?calls = "map (Pair topic) (board_content libs b k topic content)"
  note order = order_of_destruction [of "destroyed evs", folded alive]
  note step = arrival_step [OF shown k assms(5)]
  show ?thesis
  proof (cases "destroyed evs < 2")
    case True
    then obtain app ss where "deliver libs (mo_alive m) clock ?calls (mo_app m) = Inr (app, ss)" "Transports \<in> set (mo_alive m)"
      using deliver_alive [of "mo_alive m" libs clock ?calls "mo_app m"] order(1) by auto
    then show ?thesis using True by (simp add: step)
  next
    case False
    then have "deliver libs (mo_alive m) clock ?calls (mo_app m) = (if ?calls = [] then Inr (mo_app m, []) else Inl DeadObject)"
      using order(2) assms(5) by (intro deliver_dead) auto
    then show ?thesis using False order(3) by (auto simp: step)
  qed
qed

section \<open>Instances\<close>

text \<open>
  Libraries whose JSON texts are \<open>type=topic\<close>; a text without \<open>=\<close> loads but has no members.
\<close>

definition monitor_json :: "string crow_json" where
  "monitor_json =
     \<lparr>cj_load = Some,
      cj_s = (\<lambda>j k. if CHR ''='' \<notin> set j then None
                  else Some (if k = ''type'' then takeWhile (\<lambda>c. c \<noteq> CHR ''='') j else drop 1 (dropWhile (\<lambda>c. c \<noteq> CHR ''='') j))),
      cj_i = (\<lambda>j k. Some 1000), cj_dump = (\<lambda>j k. Some j)\<rparr>"

definition monitor_libs :: "(string, nat, nat, unit, bytes) libraries" where
  "monitor_libs =
     \<lparr>lib_json = monitor_json,
      lib_dds = \<lparr>json_load = (\<lambda>_. Some ()), sensor_toJson = (\<lambda>_. ''s''), track_toJson = (\<lambda>_. ''t''),
        sensor_fromJson = (\<lambda>_. Inr 0), track_fromJson = (\<lambda>_. Inr 0)\<rparr>,
      lib_pb = identity_protobuf, lib_dump = (\<lambda>topic _ _ j. topic @ ''='' @ j), lib_isoText = (\<lambda>_. ''now'')\<rparr>"

lemma monitor_libs_json [simp]: "lib_json monitor_libs = monitor_json" "json_faults monitor_libs"
  by (simp_all add: monitor_libs_def json_faults_def)

lemma monitor_requests:
  "request_of monitor_json ''playback_start='' = Some ForStart" "request_of monitor_json ''playback_stop='' = Some ForStop"
  "request_of monitor_json ''subscribe=Command'' = None" "request_of monitor_json ''x'' = None"
  by (simp_all add: request_of_def monitor_json_def)

definition monitor_events :: "(nat, nat) monitor_event list" where
  "monitor_events = [Opened 7, Received 7 ''subscribe=Command'' True 0, Arrived 1 ''Command'' (ShoutArrival [65]) [5]]"

lemma monitor_events_board:
  "board_run monitor_libs [Opened 7, Received 7 ''subscribe=Command'' True 0] board_start =
    (board_start\<lparr>b_topics := switched True ''Command'' (b_topics board_start), b_heard := {''Command''}, b_browsers := [7]\<rparr>,
     [(7, WsTopics (b_topics board_start)), (7, WsTopics (switched True ''Command'' (b_topics board_start)))])"
  by (simp add: board_command_def monitor_json_def Let_def allTopicNames_def TOPIC_REGISTRY_def)
    (simp add: board_start_def)

lemma monitor_events_content: "zyre_content identity_protobuf ''Command'' [65] = [''A'']"
  by (simp add: zyre_content_def topicId_def TOPIC_REGISTRY_def toJson_def createMessage_def identity_protobuf_def char_of_def bit_0)

lemma monitor_example:
  assumes "monitor_start True None ''n'' Map.empty = Inr m0"
  obtains outs m where "monitor_run monitor_libs n m0 monitor_events outs m" "mo_phase m = Serving"
    "mo_handlers m = []" "mo_player m = NoThread"
proof -
  note sound = run_sound [OF assms]
  have m0: "mo_phase m0 = Serving" "mo_handlers m0 = []" "mo_player m0 = NoThread"
    using assms by (auto simp: monitor_start_def obind_eq_Inr_iff)
  have run0: "monitor_run monitor_libs n m0 [] [] m0" by (rule run_start)
  obtain m1 outs1 where 1: "monitor_step monitor_libs m0 (Opened 7) (Inr (m1, outs1))" "mo_phase m1 = Serving"
    "mo_handlers m1 = []" "mo_player m1 = NoThread" using can_open [OF m0(1)] m0 by metis
  have run1: "monitor_run monitor_libs n m0 ([] @ [Opened 7]) ([] @ outs1) m1" by (rule run_step [OF run0 1(1)]) (simp add: 1)
  have json: "cj_load monitor_json = Some" "cj_s monitor_json ''subscribe=Command'' ''type'' = Some ''subscribe''"
    "cj_s monitor_json ''subscribe=Command'' ''topic'' = Some ''Command''" by (simp_all add: monitor_json_def)
  obtain m2 outs2 where 2: "monitor_step monitor_libs m1 (Received 7 ''subscribe=Command'' True 0) (Inr (m2, outs2))" "mo_phase m2 = Serving"
    "mo_handlers m2 = []" "mo_player m2 = NoThread"
    using can_command [OF sound(1) [OF run1] 1(2), of "''subscribe=Command''" "''subscribe=Command''" 7 True 0] 1(3,4)
    by (auto simp: monitor_requests json)
  have run2: "monitor_run monitor_libs n m0 (([] @ [Opened 7]) @ [Received 7 ''subscribe=Command'' True 0]) (([] @ outs1) @ outs2) m2"
    by (rule run_step [OF run1 2(1)]) (simp add: 2)
  have "displays monitor_libs (fst (board_run monitor_libs [Opened 7, Received 7 ''subscribe=Command'' True 0] board_start)) (mo_app m2)"
    using sound(1) [OF run2] by simp
  from can_arrive [OF this [unfolded monitor_events_board] sound(2) [OF run2], of 1 "[5]" "''Command''" "ShoutArrival [65]"]
  obtain m3 outs3 where 3: "monitor_step monitor_libs m2 (Arrived 1 ''Command'' (ShoutArrival [65]) [5]) (Inr (m3, outs3))" "mo_phase m3 = Serving"
    "mo_handlers m3 = []" "mo_player m3 = NoThread"
    using 2(2-4) by (auto simp: monitor_libs_def monitor_events_content)
  have "monitor_run monitor_libs n m0 monitor_events ((([] @ outs1) @ outs2) @ outs3) m3"
    using run_step [OF run2 3(1)] 3(3) by (simp add: monitor_events_def)
  then show thesis using 3(2-4) by (rule that)
qed

lemma example_start:
  obtains m0 :: "'j monitor" where "monitor_start True None ''n'' Map.empty = Inr m0"
  using monitor_start_ok [of True None "''n''" Map.empty] by (auto simp: safe_iff_ex)

theorem monitor_invariant_witness:
  "\<exists>m0 outs m. monitor_start True None ''n'' Map.empty = Inr m0 \<and>
    monitor_run monitor_libs 2 m0 monitor_events outs m \<and> monitor_inv m"
proof -
  obtain m0 :: "string monitor" where m0: "monitor_start True None ''n'' Map.empty = Inr m0" by (rule example_start)
  obtain outs m where run: "monitor_run monitor_libs 2 m0 monitor_events outs m" using m0 by (rule monitor_example)
  then show ?thesis using m0 monitor_invariant [OF m0 run] by blast
qed


text \<open>The end of a run, until the mutex of the recording is destroyed.\<close>

definition late_events :: "(nat, nat) monitor_event list" where
  "late_events = [ServerReturned, RunReturned, DestructorRan, MemberDestroyed, MemberDestroyed]"

lemma monitor_events_heard:
  "b_heard (fst (board_run monitor_libs (monitor_events @ late_events) board_start)) = {''Command''}"
proof -
  have events: "monitor_events @ late_events =
      ((((([Opened 7, Received 7 ''subscribe=Command'' True 0] @ [Arrived 1 ''Command'' (ShoutArrival [65]) [5]]) @ [ServerReturned]) @
        [RunReturned]) @ [DestructorRan]) @ [MemberDestroyed]) @ [MemberDestroyed]" by (simp add: monitor_events_def late_events_def)
  show ?thesis unfolding events board_run_snoc monitor_events_board
    by (simp add: monitor_libs_def monitor_events_content board_start_def)
qed


theorem monitor_faults_witness:
  "\<exists>m0 outs m. monitor_start True None ''n'' Map.empty = Inr m0 \<and> monitor_run monitor_libs 1 m0 monitor_events outs m \<and>
    monitor_step monitor_libs m (Received 7 ''x'' True 0) (Inl BadJson) \<and> BadJson \<noteq> ThreadTerminate"
proof -
  obtain m0 :: "string monitor" where m0: "monitor_start True None ''n'' Map.empty = Inr m0" by (rule example_start)
  obtain outs m where run: "monitor_run monitor_libs 1 m0 monitor_events outs m" "mo_phase m = Serving" using m0 by (rule monitor_example)
  have "monitor_step monitor_libs m (Received 7 ''x'' True 0)
      (obind (handleWsMessage (lib_json monitor_libs) True 0 (mo_app m) 7 ''x'') (\<lambda>(app, ss, _). Inr (m\<lparr>mo_app := app\<rparr>, to_browsers ss)))"
    by (rule Command) (simp_all add: run(2) monitor_requests)
  then have step: "monitor_step monitor_libs m (Received 7 ''x'' True 0) (Inl BadJson)"
    by (simp add: handleWsMessage_def monitor_json_def json_member_def)
  then show ?thesis using m0 run(1) monitor_faults [OF m0 run(1) _ step] by auto
qed

theorem two_starts_terminate_witness:
  "\<exists>m0 outs m. monitor_start True None ''n'' Map.empty = Inr m0 \<and>
    monitor_run monitor_libs 2 m0 [Uploaded ''a=1'', Handler 0, Received 1 ''playback_start='' False 0,
      Received 2 ''playback_start='' False 0, Handler 0, Handler 1, Handler 0] outs m \<and>
    monitor_step monitor_libs m (Handler 1) (Inl ThreadTerminate)"
proof -
  obtain m0 :: "string monitor" where m0: "monitor_start True None ''n'' Map.empty = Inr m0" by (rule example_start)
  have "getline_loop ''a=1'' [] \<noteq> []" by (simp add: getline_loop.simps newline_def)
  then show ?thesis using m0 two_starts_terminate [OF m0, of "''a=1''" monitor_libs "''playback_start=''"]
    by (auto simp: monitor_requests)
qed

text \<open>The recording of one line plays when the stop arrives; the thread makes a segment.\<close>

definition stop_events :: "(nat, nat) monitor_event list" where
  "stop_events = [Uploaded ''a=1'', Handler 0, Received 1 ''playback_start='' False 0, Handler 0, Handler 0, Handler 0,
     Received 1 ''playback_stop='' False 0]"

lemma stop_example:
  assumes "monitor_start True None ''n'' Map.empty = Inr m0"
  obtains outs e where "monitor_run monitor_libs 1 m0 stop_events outs (with_engine m0 (request_stop e) (Starting [''a=1'']) [Joining ForStop])"
proof -
  let ?e1 = "loaded_engine ''a=1''"
  let ?e2 = "join_thread (request_stop ?e1)"
  note start = start_state [OF assms]
  let ?runs = "\<lambda>evs m. \<exists>outs. monitor_run monitor_libs 1 m0 evs outs m"
  have lines: "getline_loop ''a=1'' [] = [''a=1'']" by (simp add: getline_loop.simps newline_def)
  have "?runs [Uploaded ''a=1'', Handler 0] (with_engine m0 ?e1 NoThread [])"
    using load_run [OF assms, of "''a=1''" 1 monitor_libs] by simp
  from request_run [OF this start(1), of "''playback_start=''" ForStart 1 False 0]
  have "?runs [Uploaded ''a=1'', Handler 0, Received 1 ''playback_start='' False 0]
      (with_engine m0 (request_stop ?e1) NoThread ([] @ Joining ForStart # []))" by (simp add: monitor_requests)
  from join_run [OF this start(1)]
  have "?runs [Uploaded ''a=1'', Handler 0, Received 1 ''playback_start='' False 0, Handler 0] (with_engine m0 ?e2 NoThread [Launching])" by simp
  from launch_run [OF this start(1)]
  have "?runs [Uploaded ''a=1'', Handler 0, Received 1 ''playback_start='' False 0, Handler 0, Handler 0]
      (with_engine m0 (playing_engine ?e2) (Starting [''a=1'']) [Announcing])" by (simp add: lines)
  then have "?runs ([Uploaded ''a=1'', Handler 0, Received 1 ''playback_start='' False 0, Handler 0, Handler 0] @ [Handler 0])
      (with_engine m0 (playing_engine ?e2) (Starting [''a=1'']) [])"
    using with_engine_steps(7) [OF start(1), of monitor_libs "playing_engine ?e2" "Starting [''a=1'']" "[]" "[]"]
    by (elim exE) (rule run_steps, auto)
  from request_run [OF this start(1), of "''playback_stop=''" ForStop 1 False 0]
  have "?runs stop_events (with_engine m0 (request_stop (playing_engine ?e2)) (Starting [''a=1'']) [Joining ForStop])"
    by (simp add: monitor_requests stop_events_def)
  then show thesis using that by blast
qed

theorem stop_never_blocked_witness:
  "\<exists>m0 outs m outs' m'. monitor_start True None ''n'' Map.empty = Inr m0 \<and>
    monitor_run monitor_libs 1 m0 stop_events outs m \<and> stopping m \<and> monitor_run monitor_libs 1 m [Player True] outs' m' \<and>
    length (filter is_player [Player True :: (nat, nat) monitor_event]) \<le> 3 \<and> publications outs' \<le> 1 \<and>
    \<not> at_rest (mo_player m') \<and> (\<exists>r. monitor_step monitor_libs m' (Player True) (Inr r))"
proof -
  obtain m0 :: "string monitor" where m0: "monitor_start True None ''n'' Map.empty = Inr m0" by (rule example_start)
  obtain outs e where run: "monitor_run monitor_libs 1 m0 stop_events outs
      (with_engine m0 (request_stop e) (Starting [''a=1'']) [Joining ForStop])" using m0 by (rule stop_example)
  let ?m = "with_engine m0 (request_stop e) (Starting [''a=1'']) [Joining ForStop]"
  let ?m' = "with_engine m0 (request_stop e) (AtHead [''a=1''] 1000 0 0) [Joining ForStop]"
  have "players_turn monitor_libs True ?m = Inr (?m', [])"
    by (simp add: players_turn_def with_playback_def load_def monitor_json_def json_member_def Let_def)
      (simp add: with_engine_def)
  then have "monitor_step monitor_libs ?m (Player True) (Inr (?m', []))" using Play [of ?m monitor_libs True] by simp
  then have run': "monitor_run monitor_libs 1 ?m [Player True] [] ?m'"
    using run_step [OF run_start, of monitor_libs ?m "Player True" ?m' "[]" 1] by simp
  have stopping: "stopping ?m" by (simp add: stopping_def)
  have "list_all (\<lambda>ev. \<not> joins ev) [Player True :: (nat, nat) monitor_event]" by (simp add: joins_def)
  from stop_never_blocked [OF m0 run stopping run' this, of True]
  have stop: "length (filter is_player [Player True :: (nat, nat) monitor_event]) \<le> 3" "publications ([] :: (nat, nat) out list) \<le> 1"
    "\<exists>r. monitor_step monitor_libs ?m' (Player True) r \<and> (\<forall>f. r \<noteq> Inl f)" by (auto simp: is_player_def)
  then have "\<exists>r. monitor_step monitor_libs ?m' (Player True) (Inr r)" by (metis sum.exhaust)
  then obtain r where "monitor_step monitor_libs ?m' (Player True) (Inr r)" ..
  moreover have "\<not> at_rest (mo_player ?m')" by simp
  ultimately show ?thesis using m0 run run' stopping stop(1,2) by blast
qed

lemma late_example:
  assumes "monitor_start True None ''n'' Map.empty = Inr m0"
  obtains outs m where "monitor_run monitor_libs 1 m0 (monitor_events @ late_events) outs m"
proof -
  obtain outs m where run: "monitor_run monitor_libs 1 m0 monitor_events outs m" and m: "mo_phase m = Serving"
    "mo_handlers m = []" "mo_player m = NoThread" using assms by (rule monitor_example)
  obtain m1 where 1: "monitor_step monitor_libs m ServerReturned (Inr (m1, []))" "mo_phase m1 = ShuttingDown" "mo_player m1 = NoThread"
    using can_request(3) [OF run_sound(2) [OF assms run] m(1,2), of monitor_libs] m(3) by auto
  have "engine_ok m1" using step_sound [OF 1(1) run_sound(1,2) [OF assms run]] by (simp add: sound_step_def)
  then obtain e where e: "app_playback (mo_app m1) = Some e" and h1: "mo_handlers m1 = []" and a1: "mo_alive m1 = impl_members"
    using 1(2) by (auto simp: engine_ok_def)
  let ?m2 = "m1\<lparr>mo_app := (mo_app m1)\<lparr>app_playback := Some (join_thread e)\<rparr>, mo_player := NoThread, mo_phase := Returned\<rparr>"
  let ?m3 = "?m2\<lparr>mo_app := destroy_app (mo_app ?m2), mo_phase := Destroying\<rparr>"
  let ?gone = "\<lambda>m. m\<lparr>mo_app := destroy_member (last (mo_alive m)) (mo_app m), mo_alive := butlast (mo_alive m)\<rparr>"
  have "monitor_step monitor_libs m1 RunReturned (Inr (?m2, []))"
    using RunReturns [OF 1(2), of monitor_libs] 1(3) e by (simp add: with_playback_def)
  then have run2: "monitor_run monitor_libs 1 m0 ((monitor_events @ [ServerReturned]) @ [RunReturned]) ((outs @ []) @ []) ?m2"
    using run_step [OF run_step [OF run 1(1)], of RunReturned ?m2 "[]"] h1 by simp
  have "monitor_step monitor_libs ?m2 DestructorRan (Inr (?m3, []))" using RunDestructor [of ?m2 monitor_libs] by simp
  from run_step [OF run2 this] h1
  have run3: "monitor_run monitor_libs 1 m0 (((monitor_events @ [ServerReturned]) @ [RunReturned]) @ [DestructorRan]) (((outs @ []) @ []) @ []) ?m3"
    by simp
  have gone: "monitor_step monitor_libs m MemberDestroyed (Inr (?gone m, []))" if "mo_phase m = Destroying" "mo_alive m \<noteq> []" for m :: "string monitor"
    using DestroyMember [OF that] .
  from run_step [OF run_step [OF run3 gone] gone] a1 h1
  show thesis by (simp add: impl_members_def late_events_def that)
qed

theorem late_message_faults_witness:
  "\<exists>m0 outs m. monitor_start True None ''n'' Map.empty = Inr m0 \<and>
    monitor_run monitor_libs 1 m0 (monitor_events @ late_events) outs m \<and>
    monitor_step monitor_libs m (Arrived 1 ''Command'' (ShoutArrival [65]) [6]) (Inl DeadObject)"
proof -
  obtain m0 :: "string monitor" where m0: "monitor_start True None ''n'' Map.empty = Inr m0" by (rule example_start)
  obtain outs m where run: "monitor_run monitor_libs 1 m0 (monitor_events @ late_events) outs m" using m0 by (rule late_example)
  have content: "board_content monitor_libs (fst (board_run monitor_libs (monitor_events @ late_events) board_start))
      1 ''Command'' (ShoutArrival [65]) = [''A'']"
    using monitor_events_heard by (simp add: monitor_libs_def monitor_events_content)
  have "destroyed (monitor_events @ late_events) = 2" by (simp add: destroyed_def monitor_events_def late_events_def)
  then show ?thesis using m0 run content
      late_message_faults [OF m0 run _ surjective_pairing, of 1 "[6]" "''Command''" "ShoutArrival [65]" DeadObject]
    by auto
qed

end
