(* ===== verification/Spec2Isabelle.thy ===== *)
theory Spec2Isabelle
  imports StreamLayout FileCodec GrpcServer HighBandwidthSubscriber DataHandler Timers OmniscopeApp
    GrpcClient PerfBenchmark TestDrivers DdsDrivers GeneralLogger MonitorRuns
begin

text \<open>
  StarterCpp: a verification development.

  StarterCpp is a set of C++ libraries for exchanging signal data and messages, and a monitoring
  application built on them.  All paths below are relative to \<open>src/\<close> of the repository.

  \<^bold>\<open>Parts of the program, and the theories that model them\<close>

  \<^item> \<open>libs/Vita49_2\<close>, the codec of VITA 49.2 packets.  \<open>ByteSwap\<close> models the byte-order primitives of
    \<open>ByteSwap.h\<close>; \<open>Vita49Types\<close> the enumerations and structs of \<open>Vita49Types.h\<close>; \<open>PacketHeader\<close> the functions
    \<open>parse\<close>, \<open>serialize\<close> and \<open>sizeInWords\<close> of \<open>PacketHeader.cpp\<close>; \<open>SignalDataPacket\<close> and \<open>ContextPacket\<close> the
    encoders and decoders of the two kinds of packet; \<open>Vita49Codec\<close> the stream codec on top of them
    (\<open>parseStream\<close>, \<open>parsePacket\<close>, \<open>encodeSignalData\<close>, \<open>encodeContext\<close>).  \<open>StreamLayout\<close> states, without loops, what a
    buffer lays out as packets.  \<open>FloatModel\<close> is the IEEE arithmetic that they compute with.
  \<^item> \<open>libs/PubSub\<close>, two kinds of publisher and subscriber.  \<open>HighBandwidthPublisher\<close> cuts messages into UDP
    fragments, \<open>HighBandwidthSubscriber\<close> reassembles them; \<open>ZyrePubSub\<close> models \<open>ZyreNode.cpp\<close>,
    \<open>ZyrePublisher.cpp\<close> and \<open>ZyreSubscriber.cpp\<close>.
  \<^item> \<open>libs/CycloneDDS\<close>, the topic registry and the publisher and subscriber templates: \<open>CycloneDds\<close>.
  \<^item> \<open>libs/proto\<close>, the registry of protobuf topics and the dispatch between binary and JSON:
    \<open>ProtoTopics\<close>.
  \<^item> \<open>libs/CommonUtils\<close>, the queue with a worker thread (\<open>DataHandler\<close>), the two timers (\<open>Timers\<close>) and the
    loggers that all programs share (\<open>GeneralLogger\<close>).
  \<^item> \<open>apps/Omniscope\<close>, the monitor: its two transports (\<open>Transports\<close>, on top of \<open>CycloneDds\<close>, \<open>ZyrePubSub\<close>
    and \<open>ProtoTopics\<close>), the playback of recordings (\<open>PlaybackEngine\<close>), and the application that connects
    transports, browsers, recording and playback (\<open>OmniscopeApp\<close>).  These theories take every operation as
    one step.  \<open>PlaybackThread\<close> cuts the playback thread, \<open>start\<close> and \<open>stop\<close> into their segments, and \<open>Monitor\<close>
    is the relation of all steps that the threads of a running monitor make, from the start of its server to
    its destruction; \<open>MonitorBoard\<close> has the abstract state of which browsers and files are to tell, and
    \<open>MonitorRuns\<close> the properties of the runs.
  \<^item> \<open>apps/Tools/Vita49FileCodec.cpp\<close>, the command-line tool on top of the codec: \<open>FileCodec\<close>.
  \<^item> \<open>apps/TestApps/GrpcServerTest.cpp\<close>, which implements the services of \<open>libs/GrpcService\<close>:
    \<open>GrpcServer\<close>; and \<open>GrpcClientTest.cpp\<close>, the client that exercises them: \<open>GrpcClient\<close>, in the state monad.
  \<^item> The programs that exercise the codec: \<open>apps/TestApps/Vita49RoundTripTest.cpp\<close> (\<open>RoundTripTest\<close>) measures the
    error of a round trip, \<open>apps/Tools/Vita49PerfBenchmark.cpp\<close> (\<open>PerfBenchmark\<close>) its speed.
  \<^item> The programs that exercise the libraries for messages: \<open>TestDrivers\<close> models the publishers and subscribers
    \<open>HighBandwidthPublisherTester.cpp\<close>, \<open>HighBandwidthSubscriberTester.cpp\<close>, \<open>ZyrePublisherTest.cpp\<close> and
    \<open>ZyreSubscriberTest.cpp\<close>, \<open>DdsDrivers\<close> the pair \<open>DDSPublisherTest.cpp\<close> and \<open>DDSSubscriberTest.cpp\<close>, and the
    start of the monitor, \<open>apps/Omniscope/main.cpp\<close>.

  \<^bold>\<open>How definitions correspond to the code\<close>

  A definition has the name of the function it models, with a prefix where the name is taken
  (\<open>tdds_subscribe\<close> is \<open>TransportDds::subscribe\<close>).  A class is a record of its members; a member
  function takes the record and returns it updated.  Machine integers are words of their width.
  \<open>Prelude\<close> defines the outcome of a C++ function: \<open>Inl\<close> of a fault where its behaviour is undefined or
  the program terminates (an access outside an array, a conversion of a floating value out of range,
  an assignment to a joinable thread, an exception that nothing catches), and \<open>Inr\<close> of its result
  otherwise.  Loops are recursive functions with termination proofs.  Main loops that run until a flag is
  cleared, or for ever, are functions of the list of their turns; the loops of the gRPC client take fuel,
  and as many units as the flag is still found set, and one more, are shown to be enough; the playback
  thread by segments takes three units for each line and three more.  Threads are
  step relations or operations that a schedule interleaves (\<open>DataHandler\<close>, \<open>Timers\<close>, \<open>Monitor\<close>), or folds over the
  events that reach them (\<open>HighBandwidthSubscriber\<close>, \<open>ZyrePubSub\<close>).

  What is not in the repository is a parameter: the operating system (descriptors, datagrams that
  fail to be sent, the clock), the Zyre, DDS, protobuf and JSON libraries, and the generated code.  A map
  field of a protobuf message is a finite map, as its entries have no order.  The network between the Zyre
  programs may lose any of the messages; what it delivers keeps its order.

  \<^bold>\<open>What is proved\<close>

  \<^item> Codec: each encoder and decoder are inverse, up to the quantisation of samples and the fixed-point
    form of context fields; parsing any bytes stays in bounds, ends, and gives the packets that the bytes lay
    out, field by field; a stream of packets cut anywhere parses to its complete packets; the bounds and accuracy of the conversions, and where they are
    undefined.  The locales \<open>wire_word\<close>, \<open>rounding\<close> and \<open>packet_stream\<close> carry these proofs.
  \<^item> Fragments: a published message arrives unchanged whatever the order, repetition and interleaving of its
    fragments, once for every complete set of them (so again, when every one is repeated); exactly which
    messages and datagrams break memory safety.
  \<^item> \<open>DataHandler\<close> refines a first-in first-out queue with listeners, and its destructor can wait for ever.
    Timers: when callbacks happen and when they do not happen again, and that a one-shot timer cannot be restarted
    after it fired.
  \<^item> Transports: the locale \<open>ITransport\<close> states what the monitor relies on; both transports interpret it,
    and only the DDS transport is silent after \<open>unsubscribe\<close> (\<open>silent_transport\<close>).
  \<^item> Monitor: recording and playback are inverse; a browser command switches exactly its topic.  Of its runs:
    every reachable state is sound; what browsers are sent and what is recorded is a function of the events
    (\<open>displays\<close> is the simulation, with a lemma for each operation); which faults can happen when one handler
    at a time uses the playback, and that two can terminate the program; that with one handler at a time a stop
    is never blocked (with two it can be lost); and at which points of the destruction, which goes member by
    member from the last declared to the first, a message uses destroyed members.
  \<^item> Tool: the round trip of any file reports perfection unless it holds no packet or a context value that cannot
    be converted back, which is its only fault, and a generated file is reproduced bit for bit.
  \<^item> gRPC: a stream delivers the first matching readings since the last clearing.  The client works over
    the locale \<open>grpc_service\<close>, which the modelled server interprets: what a round logs, and that the client
    ends.
  \<^item> Test programs: the locale \<open>test_link\<close> states what a publisher and a subscriber expect of the library
    between them, and \<open>lossy_test_link\<close> that messages get lost; on UDP datagrams that arrive in order, and for
    whatever shouts the Zyre network delivers, the subscriber reports exactly the messages that the publisher
    built and that arrived, and one kind of command ends it.  The same for the DDS pair.  The round-trip test
    measures errors within the quantisation step; its verdict and the counts of the benchmark.
  \<^item> Loggers: where messages of each level go, and that a second instance ends the program.
  \<^item> This theory has the property that spans the publisher of one monitor and the browsers of another.

  \<^bold>\<open>Not modelled\<close>

  \<^item> The text that programs print, where it is not the result of a program; the web page and
    \<open>CrowCompat.h\<close>; the HTTP and gRPC servers that \<open>main\<close> functions start.
  \<^item> The unit tests under \<open>tests\<close>, which are not part of the programs.
  \<^item> Data races: an operation that a mutex protects is one step, and in the running monitor so is a handler
    that does not use the playback.  The race that was found in
    \<open>DataHandler::watermarkInfo\<close> is outside the model.
\<close>

section \<open>From a publisher to the browsers of a monitor\<close>

lemma run_commands_keeps:
  assumes "\<And>s t cb s'. I s \<Longrightarrow> sub s t cb = Inr s' \<Longrightarrow> I s'" and "\<And>s t. I s \<Longrightarrow> I (unsub s t)"
  shows "I s \<Longrightarrow> run_commands sub unsub cs s = Inr s' \<Longrightarrow> I s'"
proof (induction cs arbitrary: s)
  case (Cons c cs)
  show ?case
  proof (cases c)
    case (Sub t cb)
    then obtain x where "sub s t cb = Inr x" "run_commands sub unsub cs x = Inr s'"
      using Cons.prems(2) by (auto simp: obind_eq_Inr_iff)
    then show ?thesis using Cons.IH assms(1) Cons.prems(1) by blast
  next
    case (Unsub t)
    have "I (unsub s t)" using Cons.prems(1) by (rule assms(2))
    then show ?thesis using Cons.IH Cons.prems(2) Unsub by simp
  qed
qed simp

text \<open>The Zyre node of a transport runs, under the name of the transport, in the groups of its topics.\<close>

definition joined :: "string \<Rightarrow> 'cb TransportZyre \<Rightarrow> bool" where
  "joined name t \<longleftrightarrow> tz_name t = name \<and> zn_nodeName (zs_base (tz_subscriber t)) = name \<and>
    (\<exists>z. zn_node (zs_base (tz_subscriber t)) = Some z \<and> z_started z \<and>
      (\<forall>u \<in> tz_activeTopics t. namespaced name u \<in> z_groups z))"

lemma joined_fresh: "joined name (make_TransportZyre (True, True) pub_ok ifaddrs name)"
  by (auto simp: joined_def make_TransportZyre_def make_ZyreSubscriber_def node_start_def make_ZyreNode_def Let_def)

lemma joined_subscribe: "joined name t \<Longrightarrow> joined name (tzyre_subscribe t topic cb)"
  by (auto simp: joined_def tzyre_subscribe_def zyre_subscribe_def Let_def split: option.split)

lemma joined_unsubscribe: "joined name t \<Longrightarrow> joined name (tzyre_unsubscribe t topic)"
  by (auto simp: joined_def tzyre_unsubscribe_def)

lemma joined_commands:
  assumes "run_commands (\<lambda>s t cb. Inr (tzyre_subscribe s t cb)) tzyre_unsubscribe cs
    (make_TransportZyre (True, True) pub_ok ifaddrs name) = Inr t"
  shows "joined name t"
  by (rule run_commands_keeps [where I = "joined name", OF _ _ joined_fresh assms]) (auto intro: joined_subscribe joined_unsubscribe)

text \<open>
  C8. A message that one monitor publishes on a Zyre topic reaches the browsers of every monitor with
  the same node name that is subscribed to it.  The publisher shouts the binary message to a group;
  the subscriber, whatever subscribe and unsubscribe commands led to its subscription, is a running
  member of that group; and when the shout arrives, its application sends every browser one message
  with the topic and the JSON of the publisher.
\<close>

theorem zyre_message_reaches_browsers:
  assumes "run_commands (\<lambda>s t cb. Inr (tzyre_subscribe s t cb)) tzyre_unsubscribe cs
      (make_TransportZyre (True, True) pub_ok ifaddrs2 name) = Inr t2"
    and "subscription allTopicNames topic None cs = Some ()"
    and "topicId topic = Some i" and "createMessage i = Some ty" and "faithful pb ty m binary json"
  shows "\<exists>z. tzyre_publishFromJson pb True (make_TransportZyre (True, True) (True, True) ifaddrs1 name :: unit TransportZyre) topic json =
      Some (namespaced (tz_name t2) topic, binary) \<and>
    zn_node (zs_base (tz_subscriber t2)) = Some z \<and> z_started z \<and> namespaced (tz_name t2) topic \<in> z_groups z \<and>
    concat (map (\<lambda>(_, u, j). snd (onTransportMessage dump isoText now app u j)) (tzyre_arrive pb t2 topic binary)) =
      map (\<lambda>conn. (conn, WsMessage topic (isoText now) json)) (app_wsConnections app)"
proof -
  let ?t0 = "make_TransportZyre (True, True) pub_ok ifaddrs2 name :: unit TransportZyre"
  have "wf_tzyre ?t0" "\<And>u. \<not> tzyre_isSubscribed ?t0 u" by (simp_all add: make_TransportZyre_wf tzyre_isSubscribed_def)
  from zyre.commands_serve_fresh [OF this, of cs topic pb] assms(1,2)
  have sub: "tzyre_isSubscribed t2 topic" "tzyre_arrive pb t2 topic binary = map (\<lambda>j. ((), topic, j)) (zyre_content pb topic binary)"
    by (simp_all add: tzyre_topicNames_def)
  have content: "zyre_content pb topic binary = [json]"
    using assms(3-5) by (simp add: zyre_content_def toJson_def faithful_def)
  obtain z where z: "zn_node (zs_base (tz_subscriber t2)) = Some z" "z_started z"
    "namespaced name topic \<in> z_groups z" "tz_name t2 = name"
    using joined_commands [OF assms(1)] sub(1) by (auto simp: joined_def tzyre_isSubscribed_def)
  have "tzyre_publishFromJson pb True (make_TransportZyre (True, True) (True, True) ifaddrs1 name :: unit TransportZyre) topic json =
      Some (namespaced name topic, binary)"
    using assms(3-5) by (simp add: tzyre_publishFromJson_def fromJsonToMessage_def faithful_def make_TransportZyre_def
        make_ZyreNode_def node_start_def zyre_publish_def Let_def)
  then show ?thesis using z by (simp add: sub(2) content onTransportMessage_def broadcastWs_def Let_def split: option.split)
qed

theorem zyre_message_reaches_browsers_witness:
  "\<exists>t2 :: unit TransportZyre. run_commands (\<lambda>s t cb. Inr (tzyre_subscribe s t cb)) tzyre_unsubscribe [Sub ''Command'' ()]
      (make_TransportZyre (True, True) (True, True) None ''n'') = Inr t2 \<and>
    tzyre_publishFromJson identity_protobuf True (make_TransportZyre (True, True) (True, True) None ''n'' :: unit TransportZyre) ''Command'' ''A'' =
      Some (namespaced (tz_name t2) ''Command'', [65]) \<and>
    concat (map (\<lambda>(_, u, j). snd (onTransportMessage (\<lambda>_ _ _ d. d) (\<lambda>_. ''now'') 5
        (make_OmniscopeApp Map.empty\<lparr>app_wsConnections := [1, 2]\<rparr>) u j))
      (tzyre_arrive identity_protobuf t2 ''Command'' [65])) =
    [(1, WsMessage ''Command'' ''now'' ''A''), (2, WsMessage ''Command'' ''now'' ''A'')]"
proof -
  let ?fresh = "make_TransportZyre (True, True) (True, True) None ''n'' :: unit TransportZyre"
  have run: "run_commands (\<lambda>s t cb. Inr (tzyre_subscribe s t cb)) tzyre_unsubscribe [Sub ''Command'' ()] ?fresh =
      Inr (tzyre_subscribe ?fresh ''Command'' ())" by simp
  have c: "topicId ''Command'' = Some Command" by (simp add: topicId_def TOPIC_REGISTRY_def)
  have t: "createMessage Command = Some CommandMsg" by (simp add: createMessage_def)
  have "''Command'' \<in> set allTopicNames" by (simp add: allTopicNames_def TOPIC_REGISTRY_def)
  then have s: "subscription allTopicNames ''Command'' None [Sub ''Command'' ()] = Some ()" by simp
  have f: "faithful identity_protobuf CommandMsg [65] [65] ''A''"
    by (simp add: faithful_def identity_protobuf_def char_of_def bit_0)
  show ?thesis
    using zyre_message_reaches_browsers [OF run s c t f, of None "\<lambda>_ _ _ d. d" "\<lambda>_. ''now''" 5
        "make_OmniscopeApp Map.empty\<lparr>app_wsConnections := [1, 2]\<rparr>"] run
    by auto
qed

end
